(* ===== verification/Prelude.thy ===== *)
theory Prelude imports Main "HOL-Library.Word" begin

text \<open>
  Shared vocabulary of the development: the machine integer types of the C sources, the
  collections that the component theories add to, and the generic lemmas on words, lists and
  little-endian byte strings that several components use.

  Every unsigned C integer is a word of its width, so that \<open>+\<close>, \<open>-\<close> and \<open>*\<close>
  wrap exactly as they do in the source; \<open>int32_t\<close> values are words read with \<open>sint\<close>.
\<close>

unbundle bit_operations_syntax

type_synonym u8 = "8 word"
type_synonym u16 = "16 word"
type_synonym u32 = "32 word"
type_synonym u64 = "64 word"

named_theorems guest_simps \<open>equations that evaluate the operations of the guest machine\<close>

subsection \<open>Words as natural numbers\<close>

lemma unat_bound: "unat (w :: 'a::len word) < 2 ^ LENGTH('a)"
  by (rule unsigned_less)

lemma unat_u32: "unat (w :: u32) < 2 ^ 32"
  using unat_bound [of w] by simp

lemma unat_of_nat_small: "n < 2 ^ LENGTH('a) \<Longrightarrow> unat (of_nat n :: 'a::len word) = n"
  by (simp add: unat_of_nat)

lemma unat_plus_small:
  "unat (a :: 'a::len word) + unat b < 2 ^ LENGTH('a) \<Longrightarrow> unat (a + b) = unat a + unat b"
  by (simp add: unat_word_ariths(1))

lemma unat_drop_bit: "unat (drop_bit n w) = unat w div 2 ^ n"
  by (subst unat_drop_bit_eq) (simp add: drop_bit_eq_div)

lemma unat_ucast_up:
  assumes "LENGTH('a::len) \<le> LENGTH('b::len)"
  shows "unat (ucast (a :: 'a word) :: 'b word) = unat a"
proof -
  have "(2::nat) ^ LENGTH('a) \<le> 2 ^ LENGTH('b)" using assms by (rule power_increasing) simp
  then have "unat a < 2 ^ LENGTH('b)" using unat_bound [of a] by (rule order.strict_trans2 [rotated])
  then show ?thesis by (simp add: unsigned_ucast_eq take_bit_nat_eq_self)
qed

lemma unat_diff_swap:
  fixes a b :: "'a::len word"
  assumes "a \<noteq> b"
  shows "unat (a - b) + unat (b - a) = 2 ^ LENGTH('a)"
proof -
  have ne: "unat a \<noteq> unat b" using assms by (simp add: word_unat_eq_iff)
  show ?thesis
  proof (cases "unat a \<le> unat b")
    case True
    then have "unat (a - b) = unat a + 2 ^ LENGTH('a) - unat b" "unat (b - a) = unat b - unat a"
      using ne by (simp_all add: unat_sub_if_size word_size)
    then show ?thesis using True unat_bound [of b] by linarith
  next
    case False
    then have "unat (b - a) = unat b + 2 ^ LENGTH('a) - unat a" "unat (a - b) = unat a - unat b"
      by (simp_all add: unat_sub_if_size word_size)
    then show ?thesis using False unat_bound [of a] by linarith
  qed
qed

subsection \<open>Offsets in a window of the address space\<close>

text \<open>
  The sources test membership in a window by one wrapping subtraction,
  \<open>value - floor \<le> ceiling - floor\<close>.  The two lemmas say that this test is the
  two-sided comparison when the window does not wrap.
\<close>

lemma word_window_iff:
  fixes v f c :: "'a::len word"
  assumes "f \<le> c"
  shows "v - f \<le> c - f \<longleftrightarrow> f \<le> v \<and> v \<le> c"
proof (cases "f \<le> v")
  case True
  then have "unat (v - f) = unat v - unat f" by (rule unat_sub)
  moreover have "unat (c - f) = unat c - unat f" using assms by (rule unat_sub)
  ultimately show ?thesis
    using True assms by (auto simp: word_le_nat_alt)
next
  case False
  have "\<not> v - f \<le> c - f"
    using False assms by uint_arith
  then show ?thesis using False by simp
qed

lemma unat_window:
  fixes v f :: "'a::len word"
  assumes "f \<le> v"
  shows "unat (v - f) = unat v - unat f"
  using assms by (rule unat_sub)

lemma word_window_sub_iff:
  fixes v f c n :: "'a::len word"
  assumes "f \<le> c" and "n \<le> c - f"
  shows "v - f \<le> c - f - n \<longleftrightarrow> f \<le> v \<and> unat v + unat n \<le> unat c"
proof (cases "f \<le> v")
  case True
  have n: "unat n \<le> unat c - unat f"
    using assms by (metis unat_sub word_le_nat_alt)
  have "unat (c - f - n) = unat c - unat f - unat n"
    using assms by (metis unat_sub)
  moreover have "unat (v - f) = unat v - unat f" using True by (rule unat_sub)
  moreover have "unat f \<le> unat c" "unat f \<le> unat v"
    using assms(1) True by (simp_all add: word_le_nat_alt)
  ultimately show ?thesis
    using True n by (auto simp: word_le_nat_alt)
next
  case False
  have "c - f - n \<le> c - f" using assms(2) by uint_arith
  moreover have "\<not> v - f \<le> c - f" using False word_window_iff [OF assms(1)] by blast
  ultimately show ?thesis using False by (meson order_trans)
qed

subsection \<open>Little-endian byte strings\<close>

text \<open>
  Both targets of the runtime are little-endian; a C object of \<open>n\<close> bytes is the list of its
  bytes, least significant first.
\<close>

fun le_to_bytes :: "nat \<Rightarrow> 'a::len word \<Rightarrow> u8 list" where
  "le_to_bytes 0 w = []"
| "le_to_bytes (Suc n) w = ucast w # le_to_bytes n (drop_bit 8 w)"

fun le_of_bytes :: "u8 list \<Rightarrow> 'a::len word" where
  "le_of_bytes [] = 0"
| "le_of_bytes (b # bs) = ucast b OR push_bit 8 (le_of_bytes bs)"

lemma length_le_to_bytes [simp]: "length (le_to_bytes n w) = n"
  by (induction n arbitrary: w) auto

lemma nth_le_to_bytes: "i < n \<Longrightarrow> le_to_bytes n w ! i = ucast (drop_bit (8 * i) w)"
  by (induction n arbitrary: w i) (auto simp: nth_Cons less_Suc_eq_0_disj ac_simps)

lemma le_of_to_bytes: "le_of_bytes (le_to_bytes n w) = (take_bit (8 * n) w :: 'a::len word)"
proof (induction n arbitrary: w)
  case 0
  then show ?case by simp
next
  case (Suc n)
  have "ucast (ucast w :: u8) OR push_bit 8 (take_bit (8 * n) (drop_bit 8 w))
      = (take_bit (8 * Suc n) w :: 'a word)"
    by (rule bit_word_eqI)
      (auto simp: bit_or_iff bit_push_bit_iff bit_take_bit_iff bit_drop_bit_eq bit_ucast_iff)
  then show ?case by (simp add: Suc.IH)
qed

lemma le_of_to_bytes_full:
  "LENGTH('a) \<le> 8 * n \<Longrightarrow> le_of_bytes (le_to_bytes n w) = (w :: 'a::len word)"
  by (simp add: le_of_to_bytes take_bit_word_eq_self)

lemma bit_le_of_bytes:
  "8 * length bs \<le> LENGTH('a) \<Longrightarrow>
   bit (le_of_bytes bs :: 'a::len word) i \<longleftrightarrow> i < 8 * length bs \<and> bit (bs ! (i div 8)) (i mod 8)"
proof (induction bs arbitrary: i)
  case Nil
  then show ?case by simp
next
  case (Cons b bs)
  show ?case
  proof (cases "i < 8")
    case True
    then show ?thesis using Cons.prems
      by (simp add: bit_or_iff bit_push_bit_iff bit_ucast_iff)
  next
    case False
    then obtain j where j: "i = j + 8" by (metis add.commute le_Suc_ex not_less)
    have nb: "\<not> bit b i" using False bit_imp_le_length [of b i] by auto
    have "bit (le_of_bytes bs :: 'a word) j \<longleftrightarrow>
        j < 8 * length bs \<and> bit (bs ! (j div 8)) (j mod 8)"
      using Cons by simp
    moreover have "(j + 8) div 8 = Suc (j div 8)" "(j + 8) mod 8 = j mod 8" by simp_all
    ultimately show ?thesis using Cons.prems nb unfolding j
      by (auto simp: bit_or_iff bit_push_bit_iff bit_ucast_iff)
  qed
qed

lemma le_to_of_bytes:
  "8 * length bs \<le> LENGTH('a) \<Longrightarrow> le_to_bytes (length bs) (le_of_bytes bs :: 'a::len word) = bs"
proof (rule nth_equalityI)
  fix i assume l: "8 * length bs \<le> LENGTH('a)"
    and "i < length (le_to_bytes (length bs) (le_of_bytes bs :: 'a word))"
  then have i: "i < length bs" by simp
  have "ucast (drop_bit (8 * i) (le_of_bytes bs :: 'a word)) = bs ! i"
  proof (rule bit_word_eqI)
    fix n assume "n < LENGTH(8)"
    then have n: "n < 8" by simp
    have "8 * i + n < 8 * length bs" using i n by simp
    then show "bit (ucast (drop_bit (8 * i) (le_of_bytes bs :: 'a word)) :: u8) n = bit (bs ! i) n"
      using n by (simp add: bit_ucast_iff bit_drop_bit_eq bit_le_of_bytes [OF l])
  qed
  then show "le_to_bytes (length bs) (le_of_bytes bs :: 'a word) ! i = bs ! i"
    using i by (simp add: nth_le_to_bytes)
qed simp

end
