(* ===== verification/Guest_Flags.thy ===== *)
theory Guest_Flags imports Prelude begin

text \<open>
  The lazy flag model of the translated x86 code (\<open>recomp/runtime/guest.h\<close>): a producer
  records its operands, its result and its width; the readers \<open>fl_zf\<close> to \<open>fl_of\<close> compute
  one flag from the record, and the sixteen \<open>cc_\<close> conditions are what a translated
  \<open>jcc\<close>, \<open>setcc\<close> or \<open>cmovcc\<close> tests.  The second half models the statements that
  the translator (\<open>recomp/emit.py\<close>) emits for the producers, and compares what the readers
  then answer with the x86 architecture.
\<close>

unbundle bit_operations_syntax

section \<open>The recorded state\<close>

datatype flag_op = FLAG_NONE | FLAG_ADD | FLAG_SUB | FLAG_LOGIC | FLAG_INC | FLAG_DEC
  | FLAG_SHL | FLAG_SHR | FLAG_SAR | FLAG_NEG | FLAG_IMUL | FLAG_MUL | FLAG_BT
  | FLAG_EXPLICIT | FLAG_PARTIAL

record guest_flags =
  f_a :: u32
  f_b :: u32
  f_r :: u32
  f_op :: flag_op
  f_sz :: u8
  f_cf :: u8
  f_of :: u8
  f_zf :: u8
  f_sf :: u8
  f_pf :: u8

definition guest_flags_zero :: guest_flags where
  "guest_flags_zero = \<lparr>f_a = 0, f_b = 0, f_r = 0, f_op = FLAG_NONE, f_sz = 0, f_cf = 0,
     f_of = 0, f_zf = 0, f_sf = 0, f_pf = 0\<rparr>"

definition f_mask :: "u8 \<Rightarrow> u32" where
  "f_mask sz = (if sz = 1 then 0xFF else if sz = 2 then 0xFFFF else 0xFFFFFFFF)"

definition f_sign :: "u8 \<Rightarrow> u32" where
  "f_sign sz = (if sz = 1 then 0x80 else if sz = 2 then 0x8000 else 0x80000000)"

definition SET_FLAGS :: "guest_flags \<Rightarrow> flag_op \<Rightarrow> u32 \<Rightarrow> u32 \<Rightarrow> u32 \<Rightarrow> u8 \<Rightarrow> guest_flags" where
  "SET_FLAGS c op a b r sz = c\<lparr>f_op := op, f_a := a, f_b := b, f_r := r, f_sz := sz\<rparr>"

section \<open>The readers\<close>

definition fl_zf :: "guest_flags \<Rightarrow> bool" where
  "fl_zf c = (if f_op c = FLAG_PARTIAL then f_zf c \<noteq> 0
              else f_r c AND f_mask (f_sz c) = 0)"

definition fl_sf :: "guest_flags \<Rightarrow> bool" where
  "fl_sf c = (if f_op c = FLAG_PARTIAL then f_sf c \<noteq> 0
              else f_r c AND f_sign (f_sz c) \<noteq> 0)"

definition fl_pf :: "guest_flags \<Rightarrow> bool" where
  "fl_pf c =
     (let v = (ucast (f_r c) :: u8)
      in if f_op c = FLAG_PARTIAL then f_pf c \<noteq> 0
         else let v1 = v XOR drop_bit 4 v;
                  v2 = v1 XOR drop_bit 2 v1;
                  v3 = v2 XOR drop_bit 1 v2
              in v3 AND 1 = 0)"

definition fl_cf :: "guest_flags \<Rightarrow> bool" where
  "fl_cf c =
     (let m = f_mask (f_sz c) in
      case f_op c of
        FLAG_SUB \<Rightarrow> f_a c AND m < f_b c AND m
      | FLAG_ADD \<Rightarrow> f_r c AND m < f_a c AND m
      | FLAG_NEG \<Rightarrow> f_a c AND m \<noteq> 0
      | FLAG_SHL \<Rightarrow>
          (let n = f_b c AND 31; bits = (ucast (f_sz c) :: u32) * 8
           in n \<noteq> 0 \<and> n \<le> bits \<and> drop_bit (unat (bits - n)) (f_a c AND m) AND 1 \<noteq> 0)
      | FLAG_SHR \<Rightarrow>
          (let n = f_b c AND 31; bits = (ucast (f_sz c) :: u32) * 8
           in n \<noteq> 0 \<and> n \<le> bits \<and> drop_bit (unat (n - 1)) (f_a c AND m) AND 1 \<noteq> 0)
      | FLAG_SAR \<Rightarrow>
          (let n = f_b c AND 31; bits = (ucast (f_sz c) :: u32) * 8
           in n \<noteq> 0 \<and> n \<le> bits \<and> drop_bit (unat (n - 1)) (f_a c AND m) AND 1 \<noteq> 0)
      | FLAG_LOGIC \<Rightarrow> False
      | FLAG_INC \<Rightarrow> f_cf c \<noteq> 0
      | FLAG_DEC \<Rightarrow> f_cf c \<noteq> 0
      | _ \<Rightarrow> f_cf c \<noteq> 0)"

definition fl_of :: "guest_flags \<Rightarrow> bool" where
  "fl_of c =
     (let s = f_sign (f_sz c) in
      case f_op c of
        FLAG_SUB \<Rightarrow> ((f_a c XOR f_b c) AND (f_a c XOR f_r c)) AND s \<noteq> 0
      | FLAG_ADD \<Rightarrow> ((f_a c XOR f_r c) AND (f_b c XOR f_r c)) AND s \<noteq> 0
      | FLAG_INC \<Rightarrow> f_r c AND f_mask (f_sz c) = s
      | FLAG_DEC \<Rightarrow> f_a c AND f_mask (f_sz c) = s
      | FLAG_LOGIC \<Rightarrow> False
      | FLAG_SHL \<Rightarrow> f_b c = 1 \<and> ((f_r c AND s \<noteq> 0) \<noteq> fl_cf c)
      | FLAG_SHR \<Rightarrow> f_b c = 1 \<and> f_a c AND s \<noteq> 0
      | FLAG_SAR \<Rightarrow> False
      | _ \<Rightarrow> f_of c \<noteq> 0)"

text \<open>The conditions of the \<open>jcc\<close> family, named as the mnemonics that use them.\<close>

definition cc_b :: "guest_flags \<Rightarrow> bool" where "cc_b c = fl_cf c"
definition cc_ae :: "guest_flags \<Rightarrow> bool" where "cc_ae c = (\<not> fl_cf c)"
definition cc_e :: "guest_flags \<Rightarrow> bool" where "cc_e c = fl_zf c"
definition cc_ne :: "guest_flags \<Rightarrow> bool" where "cc_ne c = (\<not> fl_zf c)"
definition cc_be :: "guest_flags \<Rightarrow> bool" where "cc_be c = (fl_cf c \<or> fl_zf c)"
definition cc_a :: "guest_flags \<Rightarrow> bool" where "cc_a c = (\<not> fl_cf c \<and> \<not> fl_zf c)"
definition cc_s :: "guest_flags \<Rightarrow> bool" where "cc_s c = fl_sf c"
definition cc_ns :: "guest_flags \<Rightarrow> bool" where "cc_ns c = (\<not> fl_sf c)"
definition cc_p :: "guest_flags \<Rightarrow> bool" where "cc_p c = fl_pf c"
definition cc_np :: "guest_flags \<Rightarrow> bool" where "cc_np c = (\<not> fl_pf c)"
definition cc_l :: "guest_flags \<Rightarrow> bool" where "cc_l c = (fl_sf c \<noteq> fl_of c)"
definition cc_ge :: "guest_flags \<Rightarrow> bool" where "cc_ge c = (fl_sf c = fl_of c)"
definition cc_le :: "guest_flags \<Rightarrow> bool" where "cc_le c = (fl_zf c \<or> fl_sf c \<noteq> fl_of c)"
definition cc_g :: "guest_flags \<Rightarrow> bool" where "cc_g c = (\<not> fl_zf c \<and> fl_sf c = fl_of c)"
definition cc_o :: "guest_flags \<Rightarrow> bool" where "cc_o c = fl_of c"
definition cc_no :: "guest_flags \<Rightarrow> bool" where "cc_no c = (\<not> fl_of c)"

lemmas cc_defs = cc_b_def cc_ae_def cc_e_def cc_ne_def cc_be_def cc_a_def cc_s_def cc_ns_def
  cc_p_def cc_np_def cc_l_def cc_ge_def cc_le_def cc_g_def cc_o_def cc_no_def

section \<open>The emitted producers\<close>

text \<open>
  \<open>emit.py\<close> writes one C block per instruction: the operands are cast to the operand width
  (\<open>(uint8_t)\<close>, \<open>(uint16_t)\<close> or nothing), the result is computed in 32 bits, and
  \<open>SET_FLAGS\<close> records the producer.  Each definition returns the 32-bit result word of the
  block and the new flag record, for a block whose flags are live.
\<close>

definition emit_cast :: "u8 \<Rightarrow> u32 \<Rightarrow> u32" where
  "emit_cast n x = (if n = 1 then ucast (ucast x :: u8)
                    else if n = 2 then ucast (ucast x :: u16) else x)"

definition emit_add :: "u8 \<Rightarrow> u32 \<Rightarrow> u32 \<Rightarrow> guest_flags \<Rightarrow> u32 \<times> guest_flags" where
  "emit_add n x y fl = (let a = emit_cast n x; b = emit_cast n y; r = a + b
                        in (r, SET_FLAGS fl FLAG_ADD a b r n))"

definition emit_sub :: "u8 \<Rightarrow> u32 \<Rightarrow> u32 \<Rightarrow> guest_flags \<Rightarrow> u32 \<times> guest_flags" where
  "emit_sub n x y fl = (let a = emit_cast n x; b = emit_cast n y; r = a - b
                        in (r, SET_FLAGS fl FLAG_SUB a b r n))"

definition emit_cmp :: "u8 \<Rightarrow> u32 \<Rightarrow> u32 \<Rightarrow> guest_flags \<Rightarrow> guest_flags" where
  "emit_cmp n x y fl =
     SET_FLAGS fl FLAG_SUB (emit_cast n x) (emit_cast n y) (emit_cast n x - emit_cast n y) n"

definition emit_test :: "u8 \<Rightarrow> u32 \<Rightarrow> u32 \<Rightarrow> guest_flags \<Rightarrow> guest_flags" where
  "emit_test n x y fl = SET_FLAGS fl FLAG_LOGIC 0 0 (emit_cast n x AND emit_cast n y) n"

definition emit_inc :: "u8 \<Rightarrow> u32 \<Rightarrow> guest_flags \<Rightarrow> u32 \<times> guest_flags" where
  "emit_inc n x fl = (let a = emit_cast n x; r = a + 1; cf = fl_cf fl
     in (r, (SET_FLAGS fl FLAG_INC a 1 r n)\<lparr>f_cf := of_bool cf\<rparr>))"

definition emit_dec :: "u8 \<Rightarrow> u32 \<Rightarrow> guest_flags \<Rightarrow> u32 \<times> guest_flags" where
  "emit_dec n x fl = (let a = emit_cast n x; r = a - 1; cf = fl_cf fl
     in (r, (SET_FLAGS fl FLAG_DEC a 1 r n)\<lparr>f_cf := of_bool cf\<rparr>))"

definition emit_neg :: "u8 \<Rightarrow> u32 \<Rightarrow> guest_flags \<Rightarrow> u32 \<times> guest_flags" where
  "emit_neg n x fl = (let a = emit_cast n x; r = 0 - a
                      in (r, SET_FLAGS fl FLAG_NEG a 0 r n))"

definition emit_adc :: "u8 \<Rightarrow> u32 \<Rightarrow> u32 \<Rightarrow> guest_flags \<Rightarrow> u32 \<times> guest_flags" where
  "emit_adc n x y fl =
     (let a = emit_cast n x; b = emit_cast n y; c = of_bool (fl_cf fl); r = a + b + c
      in (r, SET_FLAGS fl FLAG_ADD a b r n))"

definition emit_sbb :: "u8 \<Rightarrow> u32 \<Rightarrow> u32 \<Rightarrow> guest_flags \<Rightarrow> u32 \<times> guest_flags" where
  "emit_sbb n x y fl =
     (let a = emit_cast n x; b = emit_cast n y; c = of_bool (fl_cf fl); r = a - b - c
      in (r, SET_FLAGS fl FLAG_SUB a b r n))"

text \<open>
  \<open>shl\<close>, \<open>shr\<close> and \<open>sar\<close> mask the count to five bits and leave operand and flags
  alone when it is zero (\<open>None\<close> for the destination: no store).
\<close>

definition emit_shl :: "u8 \<Rightarrow> u32 \<Rightarrow> u32 \<Rightarrow> guest_flags \<Rightarrow> u32 option \<times> guest_flags" where
  "emit_shl n x cnt fl =
     (let a = emit_cast n x; k = cnt AND 31; r = push_bit (unat k) a
      in if k \<noteq> 0 then (Some r, SET_FLAGS fl FLAG_SHL a k r n) else (None, fl))"

definition emit_shr :: "u8 \<Rightarrow> u32 \<Rightarrow> u32 \<Rightarrow> guest_flags \<Rightarrow> u32 option \<times> guest_flags" where
  "emit_shr n x cnt fl =
     (let a = emit_cast n x; k = cnt AND 31; r = drop_bit (unat k) a
      in if k \<noteq> 0 then (Some r, SET_FLAGS fl FLAG_SHR a k r n) else (None, fl))"

definition emit_sext :: "u8 \<Rightarrow> u32 \<Rightarrow> u32" where
  "emit_sext n a = (if n = 1 then scast (ucast a :: u8)
                    else if n = 2 then scast (ucast a :: u16) else a)"

definition emit_sar :: "u8 \<Rightarrow> u32 \<Rightarrow> u32 \<Rightarrow> guest_flags \<Rightarrow> u32 option \<times> guest_flags" where
  "emit_sar n x cnt fl =
     (let a = emit_cast n x; k = cnt AND 31; r = signed_drop_bit (unat k) (emit_sext n a)
      in if k \<noteq> 0 then (Some r, SET_FLAGS fl FLAG_SAR a k r n) else (None, fl))"

section \<open>Operand widths\<close>

definition op_bits :: "u8 \<Rightarrow> nat" where
  "op_bits sz = (if sz = 1 then 8 else if sz = 2 then 16 else 32)"

definition u_at :: "u8 \<Rightarrow> u32 \<Rightarrow> int" where
  "u_at sz x = take_bit (op_bits sz) (uint x)"

definition s_at :: "u8 \<Rightarrow> u32 \<Rightarrow> int" where
  "s_at sz x = signed_take_bit (op_bits sz - 1) (uint x)"

lemma op_bits_cases: "op_bits sz = 8 \<or> op_bits sz = 16 \<or> op_bits sz = 32"
  by (simp add: op_bits_def)

lemma op_bits_le [simp]: "op_bits sz \<le> 32" and op_bits_pos [simp]: "0 < op_bits sz"
  using op_bits_cases [of sz] by auto

lemma f_mask_eq: "f_mask sz = mask (op_bits sz)"
  by (simp add: f_mask_def op_bits_def mask_eq_exp_minus_1)

lemma f_sign_eq: "f_sign sz = 2 ^ (op_bits sz - 1)"
  by (simp add: f_sign_def op_bits_def)

lemma emit_cast_eq: "emit_cast sz x = take_bit (op_bits sz) x"
  by (rule bit_word_eqI)
    (auto simp: emit_cast_def op_bits_def bit_take_bit_iff bit_ucast_iff)

lemma and_sign_iff: "(w AND f_sign sz \<noteq> 0) = bit w (op_bits sz - 1)"
  by (simp add: f_sign_eq and_exp_eq_0_iff_not_bit)

lemma and_mask_take: "w AND f_mask sz = take_bit (op_bits sz) w"
  by (simp add: f_mask_eq take_bit_eq_mask)

lemma uint_take: "uint (take_bit (op_bits sz) (w :: u32)) = u_at sz w"
  by (simp add: u_at_def unsigned_take_bit_eq)

lemma u_at_take [simp]: "u_at sz (take_bit (op_bits sz) w) = u_at sz w"
  by (simp add: u_at_def unsigned_take_bit_eq)

lemma s_at_take [simp]: "s_at sz (take_bit (op_bits sz) w) = s_at sz w"
proof -
  have "\<not> op_bits sz \<le> op_bits sz - 1" using op_bits_cases [of sz] by auto
  then show ?thesis by (simp add: s_at_def unsigned_take_bit_eq signed_take_bit_take_bit)
qed

lemma take_bit_32 [simp]: "take_bit 32 (w :: u32) = w"
  by (simp add: take_bit_word_eq_self)

lemma s_at_range: "- (2 ^ (op_bits sz - 1)) \<le> s_at sz x" "s_at sz x < 2 ^ (op_bits sz - 1)"
  by (simp_all add: s_at_def signed_take_bit_int_greater_eq_minus_exp signed_take_bit_int_less_exp)

lemma s_at_neg_iff: "s_at sz x < 0 \<longleftrightarrow> bit x (op_bits sz - 1)"
proof -
  have "op_bits sz - 1 < 32" using op_bits_cases [of sz] by auto
  then show ?thesis
    by (simp add: s_at_def signed_take_bit_negative_iff bit_uint_iff)
qed

text \<open>Wrapped arithmetic, read back at the operand width.\<close>

lemma s_at_cong_mod: "2 ^ op_bits sz dvd s_at sz x - uint x"
proof -
  have "op_bits sz \<le> Suc (op_bits sz - 1)" by simp
  then have "take_bit (op_bits sz) (s_at sz x) = take_bit (op_bits sz) (uint x)"
    unfolding s_at_def by (rule take_bit_signed_take_bit)
  then show ?thesis by (simp add: take_bit_eq_mod mod_eq_dvd_iff)
qed

lemma u_at_cong_mod: "2 ^ op_bits sz dvd u_at sz x - uint x"
  by (simp add: u_at_def take_bit_eq_mod flip: mod_eq_dvd_iff)

lemma exp_op_bits_dvd: "(2 :: int) ^ op_bits sz dvd 2 ^ 32"
  by (rule le_imp_power_dvd) simp

lemma uint_word_cong:
  fixes w :: u32 and i :: int
  assumes "w = word_of_int i"
  shows "2 ^ op_bits sz dvd uint w - i"
proof -
  have "uint w = i mod 2 ^ 32" using assms by (simp add: uint_word_of_int)
  then have "2 ^ 32 dvd uint w - i" by (simp flip: mod_eq_dvd_iff)
  then show ?thesis using exp_op_bits_dvd dvd_trans by blast
qed

lemma s_at_wrap:
  assumes "r = word_of_int (uint a + p * uint b + q)"
  shows "2 ^ op_bits sz dvd s_at sz r - (s_at sz a + p * s_at sz b + q)"
proof -
  have "2 ^ op_bits sz dvd (s_at sz r - uint r) + (uint r - (uint a + p * uint b + q))
      - (s_at sz a - uint a) - p * (s_at sz b - uint b)"
    by (intro dvd_add dvd_diff dvd_mult s_at_cong_mod uint_word_cong assms)
  then show ?thesis by (simp add: algebra_simps)
qed

lemma u_at_wrap:
  assumes "r = word_of_int (uint a + p * uint b + q)"
  shows "2 ^ op_bits sz dvd u_at sz r - (u_at sz a + p * u_at sz b + q)"
proof -
  have "2 ^ op_bits sz dvd (u_at sz r - uint r) + (uint r - (uint a + p * uint b + q))
      - (u_at sz a - uint a) - p * (u_at sz b - uint b)"
    by (intro dvd_add dvd_diff dvd_mult u_at_cong_mod uint_word_cong assms)
  then show ?thesis by (simp add: algebra_simps)
qed

lemma u_at_range: "0 \<le> u_at sz x" "u_at sz x < 2 ^ op_bits sz"
  by (simp_all add: u_at_def)

lemma wrap_cases:
  fixes R D M :: int
  assumes "M dvd R - D" and "\<bar>R - D\<bar> < 2 * M"
  shows "R = D \<or> R = D + M \<or> R = D - M"
proof -
  obtain k where k: "R - D = M * k" using assms(1) by (auto elim: dvdE)
  have M: "0 < M" using assms(2) by linarith
  have "\<bar>M * k\<bar> < M * 2" using assms(2) k by simp
  then have "\<bar>k\<bar> < 2" using M by (simp add: abs_mult)
  then have "k = 0 \<or> k = 1 \<or> k = - 1" by linarith
  then show ?thesis using k by auto
qed

lemma exp_op_bits_half: "(2 :: int) ^ op_bits sz = 2 * 2 ^ (op_bits sz - 1)"
  by (metis op_bits_pos power_eq_if not_less_zero)

lemma s_at_sub_cases:
  "s_at sz (a - b) = s_at sz a - s_at sz b \<or>
   s_at sz (a - b) = s_at sz a - s_at sz b + 2 * 2 ^ (op_bits sz - 1) \<or>
   s_at sz (a - b) = s_at sz a - s_at sz b - 2 * 2 ^ (op_bits sz - 1)"
proof -
  have "a - b = word_of_int (uint a + (- 1) * uint b + 0)" by simp
  from s_at_wrap [OF this, of sz]
  have "2 * 2 ^ (op_bits sz - 1) dvd s_at sz (a - b) - (s_at sz a - s_at sz b)"
    by (simp add: exp_op_bits_half)
  from wrap_cases [OF this] show ?thesis
    using s_at_range [of sz a] s_at_range [of sz b] s_at_range [of sz "a - b"] by linarith
qed

lemma s_at_add_cases:
  assumes "0 \<le> q" "q \<le> 1"
  shows "s_at sz (a + b + word_of_int q) = s_at sz a + s_at sz b + q \<or>
   s_at sz (a + b + word_of_int q) = s_at sz a + s_at sz b + q + 2 * 2 ^ (op_bits sz - 1) \<or>
   s_at sz (a + b + word_of_int q) = s_at sz a + s_at sz b + q - 2 * 2 ^ (op_bits sz - 1)"
proof -
  have "a + b + word_of_int q = word_of_int (uint a + 1 * uint b + q)" by simp
  from s_at_wrap [OF this, of sz]
  have "2 * 2 ^ (op_bits sz - 1) dvd
      s_at sz (a + b + word_of_int q) - (s_at sz a + s_at sz b + q)"
    by (simp add: exp_op_bits_half)
  from wrap_cases [OF this] show ?thesis
    using assms s_at_range [of sz a] s_at_range [of sz b]
      s_at_range [of sz "a + b + word_of_int q"] by linarith
qed

lemma u_at_sub_cases:
  assumes "0 \<le> q" "q \<le> 1"
  shows "u_at sz (a - b - word_of_int q) = u_at sz a - u_at sz b - q \<or>
   u_at sz (a - b - word_of_int q) = u_at sz a - u_at sz b - q + 2 ^ op_bits sz"
proof -
  have "a - b - word_of_int q = word_of_int (uint a + (- 1) * uint b + (- q))" by simp
  from u_at_wrap [OF this, of sz]
  have "2 ^ op_bits sz dvd u_at sz (a - b - word_of_int q) - (u_at sz a - u_at sz b - q)"
    by simp
  from wrap_cases [OF this] show ?thesis
    using assms u_at_range [of sz a] u_at_range [of sz b]
      u_at_range [of sz "a - b - word_of_int q"] by linarith
qed

lemma u_at_add_cases:
  assumes "0 \<le> q" "q \<le> 1"
  shows "u_at sz (a + b + word_of_int q) = u_at sz a + u_at sz b + q \<or>
   u_at sz (a + b + word_of_int q) = u_at sz a + u_at sz b + q - 2 ^ op_bits sz"
proof -
  have "a + b + word_of_int q = word_of_int (uint a + 1 * uint b + q)" by simp
  from u_at_wrap [OF this, of sz]
  have "2 ^ op_bits sz dvd u_at sz (a + b + word_of_int q) - (u_at sz a + u_at sz b + q)"
    by simp
  from wrap_cases [OF this] show ?thesis
    using assms u_at_range [of sz a] u_at_range [of sz b]
      u_at_range [of sz "a + b + word_of_int q"] by linarith
qed


section \<open>What the readers answer\<close>

lemma take_less_iff: "take_bit (op_bits sz) a < take_bit (op_bits sz) b \<longleftrightarrow> u_at sz a < u_at sz b"
  by (simp add: word_less_def uint_take)

lemma take_zero_iff: "take_bit (op_bits sz) a = 0 \<longleftrightarrow> u_at sz a = 0"
  by (simp add: word_uint_eq_iff uint_take)

lemma bit_top_take:
  "bit (take_bit (op_bits sz) x) (op_bits sz - 1) = bit x (op_bits sz - 1)"
proof -
  have "op_bits sz - 1 < op_bits sz" using op_bits_cases [of sz] by auto
  then show ?thesis by (simp add: bit_take_bit_iff)
qed

lemmas read_simps = fl_zf_def fl_sf_def fl_cf_def fl_of_def SET_FLAGS_def Let_def
  and_mask_take and_sign_iff take_less_iff take_zero_iff emit_cast_eq bit_and_iff bit_xor_iff

lemma s_at_eq_iff: "s_at sz x = s_at sz y \<longleftrightarrow> u_at sz x = u_at sz y"
proof -
  have "Suc (op_bits sz - 1) = op_bits sz" by simp
  then show ?thesis unfolding s_at_def u_at_def
    by (metis signed_take_bit_eq_iff_take_bit_eq)
qed

lemma cmp_cf: "fl_cf (emit_cmp n x y fl) \<longleftrightarrow> u_at n x < u_at n y"
  by (simp add: emit_cmp_def read_simps)

lemma cmp_zf: "fl_zf (emit_cmp n x y fl) \<longleftrightarrow> u_at n x = u_at n y"
proof -
  let ?a = "take_bit (op_bits n) x" and ?b = "take_bit (op_bits n) y"
  have "u_at n (?a - ?b - word_of_int 0) = u_at n x - u_at n y \<or>
      u_at n (?a - ?b - word_of_int 0) = u_at n x - u_at n y + 2 ^ op_bits n"
    using u_at_sub_cases [of 0 n ?a ?b] by simp
  then show ?thesis
    using u_at_range [of n x] u_at_range [of n y] u_at_range [of n "?a - ?b"]
    by (auto simp: emit_cmp_def read_simps)
qed

lemma cmp_of:
  "fl_of (emit_cmp n x y fl) \<longleftrightarrow>
     s_at n x - s_at n y < - (2 ^ (op_bits n - 1)) \<or> 2 ^ (op_bits n - 1) \<le> s_at n x - s_at n y"
proof -
  let ?a = "take_bit (op_bits n) x" and ?b = "take_bit (op_bits n) y"
  have "fl_of (emit_cmp n x y fl) \<longleftrightarrow>
      (s_at n x < 0) \<noteq> (s_at n y < 0) \<and> (s_at n x < 0) \<noteq> (s_at n (?a - ?b) < 0)"
    by (simp add: emit_cmp_def read_simps s_at_neg_iff bit_top_take del: One_nat_def)
  with s_at_sub_cases [of n ?a ?b] show ?thesis
    using s_at_range [of n x] s_at_range [of n y] s_at_range [of n "?a - ?b"]
    by (simp del: One_nat_def) linarith
qed

lemma cmp_sf_of: "fl_sf (emit_cmp n x y fl) \<noteq> fl_of (emit_cmp n x y fl) \<longleftrightarrow> s_at n x < s_at n y"
proof -
  let ?a = "take_bit (op_bits n) x" and ?b = "take_bit (op_bits n) y"
  have sf: "fl_sf (emit_cmp n x y fl) \<longleftrightarrow> s_at n (?a - ?b) < 0"
    by (simp add: emit_cmp_def read_simps s_at_neg_iff del: One_nat_def)
  show ?thesis unfolding sf cmp_of
    using s_at_sub_cases [of n ?a ?b]
      s_at_range [of n x] s_at_range [of n y] s_at_range [of n "?a - ?b"]
    by (simp del: One_nat_def) linarith
qed


lemma s_at_u_at:
  "s_at sz x = (if u_at sz x < 2 ^ (op_bits sz - 1) then u_at sz x
                else u_at sz x - 2 * 2 ^ (op_bits sz - 1))"
proof -
  have "2 ^ op_bits sz dvd (s_at sz x - uint x) - (u_at sz x - uint x)"
    by (intro dvd_diff s_at_cong_mod u_at_cong_mod)
  then have "2 * 2 ^ (op_bits sz - 1) dvd s_at sz x - u_at sz x"
    by (simp add: exp_op_bits_half)
  from wrap_cases [OF this] show ?thesis
    using s_at_range [of sz x] u_at_range [of sz x]
    by (simp add: exp_op_bits_half del: One_nat_def) linarith
qed

lemma adc_result:
  "fst (emit_adc n x y fl) =
     take_bit (op_bits n) x + take_bit (op_bits n) y + word_of_int (of_bool (fl_cf fl))"
  by (simp add: emit_adc_def emit_cast_eq Let_def)

lemma sbb_result:
  "fst (emit_sbb n x y fl) =
     take_bit (op_bits n) x - take_bit (op_bits n) y - word_of_int (of_bool (fl_cf fl))"
  by (simp add: emit_sbb_def emit_cast_eq Let_def)

lemma adc_cf:
  "fl_cf (snd (emit_adc n x y fl)) \<longleftrightarrow>
     2 ^ op_bits n \<le> u_at n x + u_at n y + of_bool (fl_cf fl) \<and>
     \<not> (fl_cf fl \<and> u_at n y = 2 ^ op_bits n - 1)"
proof -
  let ?r = "fst (emit_adc n x y fl)"
  have "fl_cf (snd (emit_adc n x y fl)) \<longleftrightarrow> u_at n ?r < u_at n x"
    by (simp add: emit_adc_def read_simps)
  moreover have "u_at n ?r = u_at n x + u_at n y + of_bool (fl_cf fl) \<or>
      u_at n ?r = u_at n x + u_at n y + of_bool (fl_cf fl) - 2 ^ op_bits n"
    using u_at_add_cases [of "of_bool (fl_cf fl)" n "take_bit (op_bits n) x"
        "take_bit (op_bits n) y"] unfolding adc_result by simp
  ultimately show ?thesis
    using u_at_range [of n x] u_at_range [of n y] u_at_range [of n ?r]
    by (cases "fl_cf fl") auto
qed

lemma sbb_cf:
  "fl_cf (snd (emit_sbb n x y fl)) \<longleftrightarrow>
     u_at n x - u_at n y - of_bool (fl_cf fl) < 0 \<and> \<not> (fl_cf fl \<and> u_at n x = u_at n y)"
proof -
  have "fl_cf (snd (emit_sbb n x y fl)) \<longleftrightarrow> u_at n x < u_at n y"
    by (simp add: emit_sbb_def read_simps)
  then show ?thesis by auto
qed

lemma adc_of:
  "fl_of (snd (emit_adc n x y fl)) \<longleftrightarrow>
     s_at n x + s_at n y + of_bool (fl_cf fl) < - (2 ^ (op_bits n - 1)) \<or>
     2 ^ (op_bits n - 1) \<le> s_at n x + s_at n y + of_bool (fl_cf fl)"
proof -
  let ?a = "take_bit (op_bits n) x" and ?b = "take_bit (op_bits n) y"
  let ?r = "fst (emit_adc n x y fl)"
  have "fl_of (snd (emit_adc n x y fl)) \<longleftrightarrow>
      (s_at n x < 0) \<noteq> (s_at n ?r < 0) \<and> (s_at n y < 0) \<noteq> (s_at n ?r < 0)"
    by (simp add: emit_adc_def read_simps s_at_neg_iff bit_top_take del: One_nat_def)
  moreover have "0 \<le> (of_bool (fl_cf fl) :: int)" "(of_bool (fl_cf fl) :: int) \<le> 1" by simp_all
  note s_at_add_cases [OF this, of n ?a ?b]
  ultimately show ?thesis
    using s_at_range [of n x] s_at_range [of n y] s_at_range [of n ?r]
    unfolding adc_result by (cases "fl_cf fl") (simp_all del: One_nat_def, linarith+)
qed

text \<open>A plain addition is an \<open>adc\<close> whose carry in is clear.\<close>

lemma add_as_adc:
  "\<not> fl_cf fl' \<Longrightarrow> emit_add n x y fl =
     (fst (emit_adc n x y fl'), SET_FLAGS fl FLAG_ADD (emit_cast n x) (emit_cast n y)
        (fst (emit_adc n x y fl')) n)"
  by (simp add: emit_add_def emit_adc_def Let_def)

lemma fl_cf_add_frame:
  "fl_cf (SET_FLAGS fl FLAG_ADD a b r n) = fl_cf (SET_FLAGS fl' FLAG_ADD a b r n)"
  "fl_of (SET_FLAGS fl FLAG_ADD a b r n) = fl_of (SET_FLAGS fl' FLAG_ADD a b r n)"
  by (simp_all add: fl_cf_def fl_of_def SET_FLAGS_def)

lemma no_carry_zero: "\<not> fl_cf guest_flags_zero"
  by (simp add: fl_cf_def guest_flags_zero_def)

lemma add_cf: "fl_cf (snd (emit_add n x y fl)) \<longleftrightarrow> 2 ^ op_bits n \<le> u_at n x + u_at n y"
proof -
  have "fl_cf (snd (emit_add n x y fl)) = fl_cf (snd (emit_adc n x y guest_flags_zero))"
    using fl_cf_add_frame(1)
    by (simp add: add_as_adc [OF no_carry_zero] emit_adc_def Let_def no_carry_zero)
  then show ?thesis by (simp add: adc_cf no_carry_zero)
qed

lemma add_of:
  "fl_of (snd (emit_add n x y fl)) \<longleftrightarrow>
     s_at n x + s_at n y < - (2 ^ (op_bits n - 1)) \<or> 2 ^ (op_bits n - 1) \<le> s_at n x + s_at n y"
proof -
  have "fl_of (snd (emit_add n x y fl)) = fl_of (snd (emit_adc n x y guest_flags_zero))"
    using fl_cf_add_frame(2)
    by (simp add: add_as_adc [OF no_carry_zero] emit_adc_def Let_def no_carry_zero)
  then show ?thesis by (simp add: adc_of no_carry_zero)
qed

lemma u_at_one: "u_at sz 1 = 1"
  by (simp add: u_at_def op_bits_def)

lemma inc_flags:
  "fl_cf (snd (emit_inc n x fl)) = fl_cf fl"
  "fl_of (snd (emit_inc n x fl)) \<longleftrightarrow> s_at n x = 2 ^ (op_bits n - 1) - 1"
proof -
  show "fl_cf (snd (emit_inc n x fl)) = fl_cf fl"
    by (simp add: emit_inc_def fl_cf_def SET_FLAGS_def Let_def)
  let ?r = "take_bit (op_bits n) x + 1"
  have "fl_of (snd (emit_inc n x fl)) \<longleftrightarrow> u_at n ?r = 2 ^ (op_bits n - 1)"
  proof -
    have "uint (f_sign n) = 2 ^ (op_bits n - 1)" by (simp add: f_sign_def op_bits_def)
    then show ?thesis
      by (simp add: emit_inc_def read_simps word_uint_eq_iff uint_take del: One_nat_def)
  qed
  moreover have "u_at n ?r = u_at n x + 1 \<or> u_at n ?r = u_at n x + 1 - 2 ^ op_bits n"
    using u_at_add_cases [of 0 n "take_bit (op_bits n) x" 1] by (simp add: u_at_one)
  ultimately show "fl_of (snd (emit_inc n x fl)) \<longleftrightarrow> s_at n x = 2 ^ (op_bits n - 1) - 1"
    using u_at_range [of n x] u_at_range [of n ?r]
    by (simp add: s_at_u_at exp_op_bits_half del: One_nat_def) linarith
qed

lemma dec_flags:
  "fl_cf (snd (emit_dec n x fl)) = fl_cf fl"
  "fl_of (snd (emit_dec n x fl)) \<longleftrightarrow> s_at n x = - (2 ^ (op_bits n - 1))"
proof -
  show "fl_cf (snd (emit_dec n x fl)) = fl_cf fl"
    by (simp add: emit_dec_def fl_cf_def SET_FLAGS_def Let_def)
  have "fl_of (snd (emit_dec n x fl)) \<longleftrightarrow> u_at n x = 2 ^ (op_bits n - 1)"
  proof -
    have "uint (f_sign n) = 2 ^ (op_bits n - 1)" by (simp add: f_sign_def op_bits_def)
    then show ?thesis
      by (simp add: emit_dec_def read_simps word_uint_eq_iff uint_take del: One_nat_def)
  qed
  then show "fl_of (snd (emit_dec n x fl)) \<longleftrightarrow> s_at n x = - (2 ^ (op_bits n - 1))"
    using u_at_range [of n x]
    by (simp add: s_at_u_at exp_op_bits_half del: One_nat_def)
qed

lemma neg_flags:
  "fl_cf (snd (emit_neg n x fl)) \<longleftrightarrow> u_at n x \<noteq> 0"
  "fl_of (snd (emit_neg n x fl)) \<longleftrightarrow> f_of fl \<noteq> 0"
  by (simp_all add: emit_neg_def read_simps)


lemma upt_8: "[0..<8] = [0, 1, 2, 3, 4, 5, 6, 7 :: nat]"
  by (simp add: upt_rec)

lemma pf_even:
  assumes "f_op c \<noteq> FLAG_PARTIAL"
  shows "fl_pf c \<longleftrightarrow> even (length (filter (bit (f_r c)) [0..<8]))"
proof -
  define v where "v = (ucast (f_r c) :: u8)"
  have b: "bit (f_r c) i = bit v i" if "i < 8" for i
    using that by (simp add: v_def bit_ucast_iff)
  have z: "(x AND 1 = 0) = (\<not> bit x 0)" for x :: u8
    by (simp add: and_one_eq bit_0 even_iff_mod_2_eq_zero)
  have nb: "bit v i = False" if "8 \<le> i" for i
    using that bit_imp_le_length [of v i] by auto
  have "fl_pf c \<longleftrightarrow> \<not> (((bit v 0 \<noteq> bit v 4) \<noteq> (bit v 2 \<noteq> bit v 6)) \<noteq>
      ((bit v 1 \<noteq> bit v 5) \<noteq> (bit v 3 \<noteq> bit v 7)))"
    using assms nb
    by (simp add: fl_pf_def Let_def v_def [symmetric] z bit_xor_iff bit_drop_bit_eq)
  also have "\<dots> \<longleftrightarrow> even (length (filter (bit (f_r c)) [0..<8]))"
    unfolding upt_8 by (simp add: b) 
  finally show ?thesis .
qed

lemma masked_count:
  fixes cnt :: u32
  shows "unat (cnt AND 31) < 32" "(cnt AND 31 \<noteq> 0) = (unat (cnt AND 31) \<noteq> 0)"
proof -
  have "cnt AND 31 = take_bit 5 cnt" by (simp add: take_bit_eq_mask mask_eq_exp_minus_1)
  then show "unat (cnt AND 31) < 32" by (simp add: unsigned_take_bit_eq take_bit_nat_less_exp [of 5, simplified])
qed (simp add: unat_eq_zero)

lemma mask_count_idem [simp]: "(cnt AND 31) AND 31 = (cnt AND 31 :: u32)"
  by (simp add: ac_simps)

lemma bit_of_and_one: "(drop_bit k w AND 1 \<noteq> 0) = bit (w :: u32) k"
  by (simp add: and_one_eq bit_iff_odd_drop_bit odd_iff_mod_2_eq_one)

lemma size_bits:
  "n \<in> {1, 2, 4} \<Longrightarrow> (ucast (n :: u8) :: u32) * 8 = of_nat (op_bits n)"
  by (auto simp: op_bits_def)


lemma unat_op_bits: "unat (of_nat (op_bits n) :: u32) = op_bits n"
  by (simp add: op_bits_def)

lemma count_le_iff: "(k :: u32) \<le> of_nat (op_bits n) \<longleftrightarrow> unat k \<le> op_bits n"
  by (simp add: word_le_nat_alt unat_op_bits)

lemma unat_bits_sub:
  "unat (k :: u32) \<le> op_bits n \<Longrightarrow> unat (of_nat (op_bits n) - k) = op_bits n - unat k"
  by (simp add: unat_sub word_le_nat_alt unat_op_bits)

lemma unat_count_pred: "(k :: u32) \<noteq> 0 \<Longrightarrow> unat (k - 1) = unat k - 1"
  by (metis unat_minus_one)

lemma bit_s_at: "i < op_bits n \<Longrightarrow> bit (s_at n x) i = bit x i"
  using op_bits_cases [of n]
  by (cases "i = op_bits n - 1")
    (auto simp: s_at_def bit_signed_take_bit_iff bit_uint_iff min_def)

lemma bit_f_mask: "bit (f_mask n) i \<longleftrightarrow> i < op_bits n"
  using op_bits_le [of n] by (auto simp: f_mask_eq bit_mask_iff simp del: op_bits_le)

lemmas shift_simps = bit_f_mask read_simps masked_count count_le_iff unat_bits_sub unat_count_pred
  bit_of_and_one bit_take_bit_iff

lemma shl_cf:
  assumes "n \<in> {1, 2, 4}"
  shows "fl_cf (snd (emit_shl n x cnt fl)) \<longleftrightarrow>
    (let k = unat (cnt AND 31) in
     if k = 0 then fl_cf fl else k \<le> op_bits n \<and> bit x (op_bits n - k))"
proof (cases "cnt AND 31 = 0")
  case True
  then show ?thesis by (simp add: emit_shl_def)
next
  case False
  then show ?thesis
    using masked_count [of cnt]
    by (auto simp: emit_shl_def shift_simps size_bits [OF assms] simp del: drop_bit_and)
qed

lemma shr_cf:
  assumes "n \<in> {1, 2, 4}"
  shows "fl_cf (snd (emit_shr n x cnt fl)) \<longleftrightarrow>
    (let k = unat (cnt AND 31) in
     if k = 0 then fl_cf fl else k \<le> op_bits n \<and> bit x (k - 1))"
proof (cases "cnt AND 31 = 0")
  case True
  then show ?thesis by (simp add: emit_shr_def)
next
  case False
  then show ?thesis
    using masked_count [of cnt]
    by (auto simp: emit_shr_def shift_simps size_bits [OF assms] simp del: drop_bit_and)
qed

lemma sar_cf:
  assumes "n \<in> {1, 2, 4}"
  shows "fl_cf (snd (emit_sar n x cnt fl)) \<longleftrightarrow>
    (let k = unat (cnt AND 31) in
     if k = 0 then fl_cf fl else k \<le> op_bits n \<and> bit (s_at n x) (k - 1))"
proof (cases "cnt AND 31 = 0")
  case True
  then show ?thesis by (simp add: emit_sar_def)
next
  case False
  then show ?thesis
    using masked_count [of cnt]
    by (auto simp: emit_sar_def shift_simps size_bits [OF assms] bit_s_at simp del: drop_bit_and)
qed

section \<open>Properties\<close>

text \<open>
  C1: after a translated \<open>cmp x, y\<close> of any operand width, whatever the flags held before,
  the conditions decide what their mnemonics say: \<open>e\<close>/\<open>ne\<close> equality, \<open>b\<close>, \<open>ae\<close>,
  \<open>be\<close>, \<open>a\<close> the unsigned order, \<open>l\<close>, \<open>ge\<close>, \<open>le\<close>, \<open>g\<close> the signed order of the
  operands at that width, and \<open>o\<close> that the signed difference does not fit the width.
\<close>

theorem cmp_conditions:
  "let c = emit_cmp n x y fl; a = u_at n x; b = u_at n y; i = s_at n x; j = s_at n y in
     cc_e c = (a = b) \<and> cc_ne c = (a \<noteq> b) \<and>
     cc_b c = (a < b) \<and> cc_ae c = (b \<le> a) \<and> cc_be c = (a \<le> b) \<and> cc_a c = (b < a) \<and>
     cc_l c = (i < j) \<and> cc_ge c = (j \<le> i) \<and> cc_le c = (i \<le> j) \<and> cc_g c = (j < i) \<and>
     cc_o c = (i - j < - (2 ^ (op_bits n - 1)) \<or> 2 ^ (op_bits n - 1) \<le> i - j)"
proof -
  let ?c = "emit_cmp n x y fl"
  have e: "cc_e ?c = (u_at n x = u_at n y)" by (simp add: cc_e_def cmp_zf)
  have b: "cc_b ?c = (u_at n x < u_at n y)" by (simp add: cc_b_def cmp_cf)
  have l: "cc_l ?c = (s_at n x < s_at n y)" unfolding cc_l_def by (rule cmp_sf_of)
  have ne: "cc_ne ?c = (u_at n x \<noteq> u_at n y)" using e by (simp add: cc_ne_def cc_e_def)
  have ae: "cc_ae ?c = (u_at n y \<le> u_at n x)" using b by (simp add: cc_ae_def cc_b_def) auto
  have be: "cc_be ?c = (u_at n x \<le> u_at n y)" using b e by (simp add: cc_be_def cc_b_def cc_e_def) auto
  have a: "cc_a ?c = (u_at n y < u_at n x)" using b e by (simp add: cc_a_def cc_b_def cc_e_def) auto
  have ge: "cc_ge ?c = (s_at n y \<le> s_at n x)" using l by (simp add: cc_ge_def cc_l_def) auto
  have le: "cc_le ?c = (s_at n x \<le> s_at n y)"
    using l e by (simp add: cc_le_def cc_l_def cc_e_def flip: s_at_eq_iff) auto
  have g: "cc_g ?c = (s_at n y < s_at n x)"
    using l e by (simp add: cc_g_def cc_l_def cc_e_def flip: s_at_eq_iff) auto
  show ?thesis
    by (simp only: Let_def e ne b ae be a l ge le g cc_o_def cmp_of simp_thms)
qed

text \<open>
  After a translated \<open>adc x, y\<close> the recorded overflow flag is the architectural one,
  but the recorded carry is the architectural carry only when the carry in was clear or
  \<open>y\<close> is not all ones: \<open>emit.py\<close> records \<open>adc\<close> as a plain \<open>FLAG_ADD\<close>, whose
  reader compares the result with the first operand.
\<close>

lemma adc_flags:
  "let c = snd (emit_adc n x y fl); ci = fl_cf fl; k = op_bits n in
     cc_o c = (s_at n x + s_at n y + of_bool ci < - (2 ^ (k - 1)) \<or>
               2 ^ (k - 1) \<le> s_at n x + s_at n y + of_bool ci) \<and>
     cc_b c = (2 ^ k \<le> u_at n x + u_at n y + of_bool ci \<and> \<not> (ci \<and> u_at n y = 2 ^ k - 1))"
  by (simp only: Let_def cc_defs adc_cf adc_of)

text \<open>
  The same for \<open>sbb\<close>, recorded as \<open>FLAG_SUB\<close>: the borrow is lost exactly when
  there is a borrow in and the operands are equal.
\<close>

lemma sbb_carry:
  "let c = snd (emit_sbb n x y fl); ci = fl_cf fl in
     cc_b c = (u_at n x - u_at n y - of_bool ci < 0 \<and> \<not> (ci \<and> u_at n x = u_at n y))"
  by (simp only: Let_def cc_defs sbb_cf)

text \<open>
  After a translated shift by \<open>cnt AND 31\<close> the carry is the last bit shifted out, as long
  as the count does not exceed the width; a zero count leaves the flags alone.  For a larger
  count the reader answers 0; for \<open>sar\<close> the architecture says the sign bit there.
\<close>

lemma shift_carries:
  assumes "n \<in> {1, 2, 4}"
  shows "let k = unat (cnt AND 31); w = op_bits n in
     cc_b (snd (emit_shl n x cnt fl)) =
       (if k = 0 then cc_b fl else k \<le> w \<and> bit x (w - k)) \<and>
     cc_b (snd (emit_shr n x cnt fl)) =
       (if k = 0 then cc_b fl else k \<le> w \<and> bit x (k - 1)) \<and>
     cc_b (snd (emit_sar n x cnt fl)) =
       (if k = 0 then cc_b fl else k \<le> w \<and> bit (s_at n x) (k - 1))"
  unfolding cc_b_def using shl_cf [OF assms] shr_cf [OF assms] sar_cf [OF assms] by (simp only: Let_def)

text \<open>
  \<open>inc\<close> and \<open>dec\<close> preserve the carry and set the overflow flag exactly at the signed
  extremes; \<open>neg\<close> sets the carry for a non-zero operand, but its overflow flag is whatever
  the explicit slot \<open>f_of\<close> held before.
\<close>

lemma unary_flags:
  "cc_b (snd (emit_inc n x fl)) = cc_b fl \<and>
   cc_o (snd (emit_inc n x fl)) = (s_at n x = 2 ^ (op_bits n - 1) - 1) \<and>
   cc_b (snd (emit_dec n x fl)) = cc_b fl \<and>
   cc_o (snd (emit_dec n x fl)) = (s_at n x = - (2 ^ (op_bits n - 1))) \<and>
   cc_b (snd (emit_neg n x fl)) = (u_at n x \<noteq> 0) \<and>
   cc_o (snd (emit_neg n x fl)) = (f_of fl \<noteq> 0)"
  using inc_flags [of n x fl] dec_flags [of n x fl] neg_flags [of n x fl]
  unfolding cc_b_def cc_o_def by blast

text \<open>
  The parity reader folds the low result byte in three steps; it is set exactly when that
  byte has an even number of one bits.
\<close>

lemma parity_even:
  assumes "f_op c \<noteq> FLAG_PARTIAL"
  shows "cc_p c \<longleftrightarrow> even (length (filter (bit (f_r c)) [0..<8]))"
  unfolding cc_p_def using assms by (rule pf_even)

text \<open>
  What an operation leaves: zero, sign and parity are those of its exact result \<open>v\<close>, a number, at the width of the operand, parity
  being that of the low byte; carry and overflow are given.
\<close>

definition flags_are :: "u8 \<Rightarrow> int \<Rightarrow> bool \<Rightarrow> bool \<Rightarrow> guest_flags \<Rightarrow> bool" where
  "flags_are n v carry overflow c \<longleftrightarrow>
     cc_e c = (take_bit (op_bits n) v = 0) \<and> cc_s c = bit v (op_bits n - 1) \<and>
     cc_p c = even (length (filter (bit v) [0..<8])) \<and> cc_b c = carry \<and> cc_o c = overflow"

definition signed_fits :: "u8 \<Rightarrow> int \<Rightarrow> bool" where
  "signed_fits n v \<longleftrightarrow> - (2 ^ (op_bits n - 1)) \<le> v \<and> v < 2 ^ (op_bits n - 1)"

lemma flags_areI:
  assumes "f_op c \<noteq> FLAG_PARTIAL" "f_sz c = n" "take_bit (op_bits n) (uint (f_r c)) = take_bit (op_bits n) v"
    "fl_cf c = carry" "fl_of c = overflow"
  shows "flags_are n v carry overflow c"
proof -
  have b: "bit (f_r c) i = bit v i" if "i < op_bits n" for i
  proof -
    have "bit (take_bit (op_bits n) (uint (f_r c))) i = bit (take_bit (op_bits n) v) i" using assms(3) by simp
    then show ?thesis using that op_bits_le [of n] by (simp add: bit_take_bit_iff bit_uint_iff del: op_bits_le)
  qed
  have "fl_zf c = (take_bit (op_bits n) v = 0)"
    using assms(1-3) by (simp add: fl_zf_def and_mask_take take_zero_iff u_at_def)
  moreover have "fl_sf c = bit v (op_bits n - 1)"
    using assms(1,2) b [of "op_bits n - 1"] by (simp add: fl_sf_def and_sign_iff)
  moreover have "fl_pf c = even (length (filter (bit v) [0..<8]))"
  proof -
    have "filter (bit (f_r c)) [0..<8] = filter (bit v) [0..<8]"
      using b op_bits_cases [of n] by (intro filter_cong) auto
    then show ?thesis using pf_even [OF assms(1)] by simp
  qed
  ultimately show ?thesis using assms(4,5) by (simp add: flags_are_def cc_defs)
qed

text \<open>Exact results of the word operations, below the width.\<close>

lemma take_bit_32_le: "take_bit (op_bits n) (take_bit 32 (v :: int)) = take_bit (op_bits n) v"
  by (simp add: take_bit_take_bit min_absorb1)

lemma uint_word: "uint (word_of_int v :: u32) = take_bit 32 v"
  by (simp add: uint_word_of_int take_bit_eq_mod)

lemma result_of_int: "r = (word_of_int v :: u32) \<Longrightarrow> take_bit (op_bits n) (uint r) = take_bit (op_bits n) v"
  by (simp only: uint_word take_bit_32_le)

lemma word_u_at: "take_bit (op_bits n) (x :: u32) = word_of_int (u_at n x)"
  by (simp flip: uint_take)

lemmas emitted_simps = emit_cast_eq word_u_at SET_FLAGS_def Let_def

lemma sbb_of:
  "fl_of (snd (emit_sbb n x y fl)) \<longleftrightarrow> \<not> signed_fits n (s_at n x - s_at n y - of_bool (fl_cf fl))"
proof -
  let ?a = "take_bit (op_bits n) x" and ?b = "take_bit (op_bits n) y" and ?q = "of_bool (fl_cf fl) :: int"
  let ?r = "fst (emit_sbb n x y fl)"
  have "?r = word_of_int (uint ?a + (- 1) * uint ?b + (- ?q))" by (simp add: sbb_result)
  from s_at_wrap [OF this, of n]
  have "2 * 2 ^ (op_bits n - 1) dvd s_at n ?r - (s_at n x - s_at n y - ?q)"
    by (simp add: exp_op_bits_half)
  moreover have q: "0 \<le> ?q" "?q \<le> 1" by simp_all
  ultimately have c: "s_at n ?r = s_at n x - s_at n y - ?q \<or> s_at n ?r = s_at n x - s_at n y - ?q + 2 * 2 ^ (op_bits n - 1) \<or>
      s_at n ?r = s_at n x - s_at n y - ?q - 2 * 2 ^ (op_bits n - 1)"
    using s_at_range [of n x] s_at_range [of n y] s_at_range [of n ?r] by (intro wrap_cases) linarith+
  have "fl_of (snd (emit_sbb n x y fl)) \<longleftrightarrow>
      (s_at n x < 0) \<noteq> (s_at n y < 0) \<and> (s_at n x < 0) \<noteq> (s_at n ?r < 0)"
    by (simp add: emit_sbb_def read_simps s_at_neg_iff bit_top_take del: One_nat_def)
  then show ?thesis
    using c q s_at_range [of n x] s_at_range [of n y] s_at_range [of n ?r] unfolding signed_fits_def by linarith
qed

lemma adc_exact:
  "flags_are n (u_at n x + u_at n y + of_bool (fl_cf fl))
     (2 ^ op_bits n \<le> u_at n x + u_at n y + of_bool (fl_cf fl) \<and> \<not> (fl_cf fl \<and> u_at n y = 2 ^ op_bits n - 1))
     (\<not> signed_fits n (s_at n x + s_at n y + of_bool (fl_cf fl))) (snd (emit_adc n x y fl))"
  by (rule flags_areI; (simp only: adc_cf adc_of signed_fits_def)?)
    (auto simp: emit_adc_def emitted_simps intro!: result_of_int)

lemma add_exact:
  "flags_are n (u_at n x + u_at n y) (2 ^ op_bits n \<le> u_at n x + u_at n y)
     (\<not> signed_fits n (s_at n x + s_at n y)) (snd (emit_add n x y fl))"
  by (rule flags_areI; (simp only: add_cf add_of signed_fits_def)?)
    (auto simp: emit_add_def emitted_simps intro!: result_of_int)

lemma sbb_exact:
  "flags_are n (u_at n x - u_at n y - of_bool (fl_cf fl))
     (u_at n x - u_at n y - of_bool (fl_cf fl) < 0 \<and> \<not> (fl_cf fl \<and> u_at n x = u_at n y))
     (\<not> signed_fits n (s_at n x - s_at n y - of_bool (fl_cf fl))) (snd (emit_sbb n x y fl))"
  by (rule flags_areI; (simp only: sbb_cf sbb_of)?)
    (auto simp: emit_sbb_def emitted_simps intro!: result_of_int)

lemma sub_as_cmp: "snd (emit_sub n x y fl) = emit_cmp n x y fl"
  by (simp add: emit_sub_def emit_cmp_def Let_def)

lemma sub_exact:
  "flags_are n (u_at n x - u_at n y) (u_at n x < u_at n y)
     (\<not> signed_fits n (s_at n x - s_at n y)) (snd (emit_sub n x y fl))"
  by (rule flags_areI; (simp only: sub_as_cmp cmp_cf cmp_of signed_fits_def)?)
    (auto simp: emit_cmp_def emitted_simps intro!: result_of_int)

lemma test_exact:
  "flags_are n (u_at n x AND u_at n y) False False (emit_test n x y fl)"
  by (rule flags_areI)
    (simp_all add: emit_test_def emit_cast_eq SET_FLAGS_def fl_cf_def fl_of_def uint_and uint_take)

lemma inc_exact:
  "flags_are n (u_at n x + 1) (fl_cf fl) (\<not> signed_fits n (s_at n x + 1)) (snd (emit_inc n x fl))"
  by (rule flags_areI; (simp only: inc_flags)?)
    (use s_at_range [of n x] in \<open>auto simp: emit_inc_def emitted_simps signed_fits_def intro!: result_of_int\<close>)

lemma dec_exact:
  "flags_are n (u_at n x - 1) (fl_cf fl) (\<not> signed_fits n (s_at n x - 1)) (snd (emit_dec n x fl))"
  by (rule flags_areI; (simp only: dec_flags)?)
    (use s_at_range [of n x] in \<open>auto simp: emit_dec_def emitted_simps signed_fits_def intro!: result_of_int\<close>)

lemma neg_exact:
  "flags_are n (- u_at n x) (u_at n x \<noteq> 0) (f_of fl \<noteq> 0) (snd (emit_neg n x fl))"
  by (rule flags_areI; (simp only: neg_flags)?)
    (auto simp: emit_neg_def emitted_simps intro!: result_of_int)

text \<open>The shifts, of a count that is not zero.\<close>

lemma shl_of:
  assumes "cnt AND 31 \<noteq> 0" "n \<in> {1, 2, 4}"
  shows "fl_of (snd (emit_shl n x cnt fl)) \<longleftrightarrow> unat (cnt AND 31) = 1 \<and> \<not> signed_fits n (2 * s_at n x)"
proof (cases "cnt AND 31 = 1")
  case True
  let ?a = "take_bit (op_bits n) x"
  have cf: "fl_cf (snd (emit_shl n x cnt fl)) \<longleftrightarrow> s_at n x < 0"
    using shl_cf [OF assms(2), of x cnt fl] op_bits_pos [of n] True
    by (simp add: s_at_neg_iff Let_def Suc_le_eq del: op_bits_pos)
  have "push_bit 1 ?a = ?a + ?a" by (simp add: push_bit_eq_mult)
  then have r: "f_r (snd (emit_shl n x cnt fl)) = ?a + ?a"
    using True by (simp add: emit_shl_def emit_cast_eq SET_FLAGS_def Let_def)
  have o: "f_op (snd (emit_shl n x cnt fl)) = FLAG_SHL" "f_b (snd (emit_shl n x cnt fl)) = 1" "f_sz (snd (emit_shl n x cnt fl)) = n"
    using True by (simp_all add: emit_shl_def SET_FLAGS_def Let_def)
  have "fl_of (snd (emit_shl n x cnt fl)) \<longleftrightarrow> (s_at n (?a + ?a) < 0) \<noteq> (s_at n x < 0)"
    unfolding fl_of_def Let_def o flag_op.case cf r by (simp add: and_sign_iff s_at_neg_iff)
  moreover have "s_at n (?a + ?a) = s_at n x + s_at n x \<or> s_at n (?a + ?a) = s_at n x + s_at n x + 2 * 2 ^ (op_bits n - 1) \<or>
      s_at n (?a + ?a) = s_at n x + s_at n x - 2 * 2 ^ (op_bits n - 1)"
    using s_at_add_cases [of 0 n ?a ?a] by simp
  ultimately show ?thesis
    using True s_at_range [of n x] s_at_range [of n "?a + ?a"] unfolding signed_fits_def
    by (simp del: One_nat_def) linarith
next
  case False
  then have "unat (cnt AND 31) \<noteq> 1" by (metis unat_1 word_unat_eq_iff)
  then show ?thesis using False assms(1) by (simp add: emit_shl_def fl_of_def SET_FLAGS_def Let_def)
qed

lemma uint_shifted:
  "uint (push_bit k (w :: u32)) = take_bit 32 (push_bit k (uint w))" "uint (drop_bit k (w :: u32)) = drop_bit k (uint w)"
  by (rule bit_eqI; auto simp: bit_simps dest: bit_imp_le_length)+

lemma count_one: "(k :: u32) = 1 \<longleftrightarrow> unat k = 1"
  by (simp add: word_unat_eq_iff)

lemma shl_exact:
  assumes "n \<in> {1, 2, 4}" "cnt AND 31 \<noteq> 0"
  defines "k \<equiv> unat (cnt AND 31)"
  shows "flags_are n (u_at n x * 2 ^ k) (k \<le> op_bits n \<and> bit x (op_bits n - k)) (k = 1 \<and> \<not> signed_fits n (2 * s_at n x))
    (snd (emit_shl n x cnt fl))"
proof (rule flags_areI)
  have k: "k \<noteq> 0" using assms(2) by (simp add: k_def unat_eq_0)
  have "uint (push_bit k (take_bit (op_bits n) x)) = take_bit 32 (push_bit k (u_at n x))"
    by (simp only: uint_shifted uint_take)
  then show "take_bit (op_bits n) (uint (f_r (snd (emit_shl n x cnt fl)))) = take_bit (op_bits n) (u_at n x * 2 ^ k)"
    using assms(2) by (simp add: emit_shl_def emit_cast_eq SET_FLAGS_def Let_def k_def take_bit_32_le push_bit_eq_mult)
  show "fl_cf (snd (emit_shl n x cnt fl)) = (k \<le> op_bits n \<and> bit x (op_bits n - k))"
    using shl_cf [OF assms(1), of x cnt fl] k by (simp add: Let_def k_def)
  show "fl_of (snd (emit_shl n x cnt fl)) = (k = 1 \<and> \<not> signed_fits n (2 * s_at n x))"
    using shl_of [OF assms(2,1)] by (simp add: k_def)
qed (use assms(2) in \<open>simp_all add: emit_shl_def SET_FLAGS_def Let_def\<close>)

lemma shr_exact:
  assumes "n \<in> {1, 2, 4}" "cnt AND 31 \<noteq> 0"
  defines "k \<equiv> unat (cnt AND 31)"
  shows "flags_are n (u_at n x div 2 ^ k) (k \<le> op_bits n \<and> bit x (k - 1)) (k = 1 \<and> bit x (op_bits n - 1))
    (snd (emit_shr n x cnt fl))"
proof (rule flags_areI)
  have k: "k \<noteq> 0" using assms(2) by (simp add: k_def unat_eq_0)
  have "uint (drop_bit k (take_bit (op_bits n) x)) = drop_bit k (u_at n x)"
    by (simp only: uint_shifted uint_take)
  then show "take_bit (op_bits n) (uint (f_r (snd (emit_shr n x cnt fl)))) = take_bit (op_bits n) (u_at n x div 2 ^ k)"
    using assms(2) by (simp add: emit_shr_def emit_cast_eq SET_FLAGS_def Let_def k_def drop_bit_eq_div)
  show "fl_cf (snd (emit_shr n x cnt fl)) = (k \<le> op_bits n \<and> bit x (k - 1))"
    using shr_cf [OF assms(1), of x cnt fl] k by (simp add: Let_def k_def)
  show "fl_of (snd (emit_shr n x cnt fl)) = (k = 1 \<and> bit x (op_bits n - 1))"
    using assms(2) by (simp add: emit_shr_def emit_cast_eq SET_FLAGS_def Let_def fl_of_def and_sign_iff bit_top_take k_def
      count_one del: One_nat_def)
qed (use assms(2) in \<open>simp_all add: emit_shr_def SET_FLAGS_def Let_def\<close>)

lemma sext_exact: "n \<in> {1, 2, 4} \<Longrightarrow> sint (emit_sext n (emit_cast n x)) = s_at n x"
proof -
  assume "n \<in> {1, 2, 4}"
  moreover have "sint (scast b :: u32) = sint b" for b :: u8
    using sint_greater_eq [of b] sint_less [of b] by (simp add: signed_scast_eq signed_take_bit_int_eq_self)
  moreover have "sint (scast b :: u32) = sint b" for b :: u16
    using sint_greater_eq [of b] sint_less [of b] by (simp add: signed_scast_eq signed_take_bit_int_eq_self)
  moreover have "sint (ucast x :: u8) = signed_take_bit 7 (uint x)" "sint (ucast x :: u16) = signed_take_bit 15 (uint x)"
    by (simp_all add: sint_uint unsigned_ucast_eq signed_take_bit_take_bit)
  moreover have "(ucast (ucast (ucast x :: u8) :: u32) :: u8) = ucast x" "(ucast (ucast (ucast x :: u16) :: u32) :: u16) = ucast x"
    by (rule bit_word_eqI, simp add: bit_simps)+
  ultimately show ?thesis by (auto simp: emit_sext_def emit_cast_def s_at_def op_bits_def sint_uint)
qed

lemma sar_exact:
  assumes "n \<in> {1, 2, 4}" "cnt AND 31 \<noteq> 0"
  defines "k \<equiv> unat (cnt AND 31)"
  shows "flags_are n (s_at n x div 2 ^ k) (k \<le> op_bits n \<and> bit (s_at n x) (k - 1)) False (snd (emit_sar n x cnt fl))"
proof (rule flags_areI)
  have k: "k \<noteq> 0" using assms(2) by (simp add: k_def unat_eq_0)
  have "signed_drop_bit k (emit_sext n (emit_cast n x)) = word_of_int (s_at n x div 2 ^ k)"
  proof -
    have "sint (signed_drop_bit k (emit_sext n (emit_cast n x))) = s_at n x div 2 ^ k"
      by (simp only: sint_signed_drop_bit_eq drop_bit_eq_div sext_exact [OF assms(1)])
    moreover have "(word_of_int (sint w) :: u32) = w" for w :: u32 by simp
    ultimately show ?thesis by metis
  qed
  then show "take_bit (op_bits n) (uint (f_r (snd (emit_sar n x cnt fl)))) = take_bit (op_bits n) (s_at n x div 2 ^ k)"
    using assms(2) result_of_int by (simp add: emit_sar_def SET_FLAGS_def Let_def k_def)
  show "fl_cf (snd (emit_sar n x cnt fl)) = (k \<le> op_bits n \<and> bit (s_at n x) (k - 1))"
    using sar_cf [OF assms(1), of x cnt fl] k by (simp add: Let_def k_def)
qed (use assms(2) in \<open>simp_all add: emit_sar_def SET_FLAGS_def Let_def fl_of_def\<close>)

lemma shift_none:
  assumes "cnt AND 31 = 0"
  shows "snd (emit_shl n x cnt fl) = fl \<and> snd (emit_shr n x cnt fl) = fl \<and> snd (emit_sar n x cnt fl) = fl"
  using assms by (simp add: emit_shl_def emit_shr_def emit_sar_def)

text \<open>
  C2: the flags of every translated arithmetic instruction, all five of them, against the architectural ones.  Zero, sign and parity are
  always those of the exact result; so are carry and overflow of \<open>add\<close>, \<open>sub\<close>, \<open>test\<close>, \<open>inc\<close> and \<open>dec\<close>.  The
  exceptions are named: \<open>adc\<close> loses the carry of a carry in with a second operand of all ones, \<open>sbb\<close> the borrow of a borrow in with
  equal operands, \<open>neg\<close> leaves a stale overflow, and a shift by more than the width answers a clear carry.  A shift by zero
  changes no flag, and a shift by more than one, for which the architecture defines no overflow, answers a clear one.
\<close>

theorem arithmetic_flags:
  assumes "n \<in> {1, 2, 4}"
  shows "let w = op_bits n; a = u_at n x; b = u_at n y; i = s_at n x; j = s_at n y; ci = fl_cf fl; k = unat (cnt AND 31) in
     flags_are n (a + b) (2 ^ w \<le> a + b) (\<not> signed_fits n (i + j)) (snd (emit_add n x y fl)) \<and>
     flags_are n (a - b) (a < b) (\<not> signed_fits n (i - j)) (snd (emit_sub n x y fl)) \<and>
     flags_are n (a AND b) False False (emit_test n x y fl) \<and>
     flags_are n (a + b + of_bool ci) (2 ^ w \<le> a + b + of_bool ci \<and> \<not> (ci \<and> b = 2 ^ w - 1))
       (\<not> signed_fits n (i + j + of_bool ci)) (snd (emit_adc n x y fl)) \<and>
     flags_are n (a - b - of_bool ci) (a - b - of_bool ci < 0 \<and> \<not> (ci \<and> a = b))
       (\<not> signed_fits n (i - j - of_bool ci)) (snd (emit_sbb n x y fl)) \<and>
     flags_are n (a + 1) ci (\<not> signed_fits n (i + 1)) (snd (emit_inc n x fl)) \<and>
     flags_are n (a - 1) ci (\<not> signed_fits n (i - 1)) (snd (emit_dec n x fl)) \<and>
     flags_are n (- a) (a \<noteq> 0) (f_of fl \<noteq> 0) (snd (emit_neg n x fl)) \<and>
     (if k = 0
      then snd (emit_shl n x cnt fl) = fl \<and> snd (emit_shr n x cnt fl) = fl \<and> snd (emit_sar n x cnt fl) = fl
      else flags_are n (a * 2 ^ k) (k \<le> w \<and> bit x (w - k)) (k = 1 \<and> \<not> signed_fits n (2 * i)) (snd (emit_shl n x cnt fl)) \<and>
        flags_are n (a div 2 ^ k) (k \<le> w \<and> bit x (k - 1)) (k = 1 \<and> bit x (w - 1)) (snd (emit_shr n x cnt fl)) \<and>
        flags_are n (i div 2 ^ k) (k \<le> w \<and> bit i (k - 1)) False (snd (emit_sar n x cnt fl)))"
proof -
  have "if unat (cnt AND 31) = 0
    then snd (emit_shl n x cnt fl) = fl \<and> snd (emit_shr n x cnt fl) = fl \<and> snd (emit_sar n x cnt fl) = fl
    else flags_are n (u_at n x * 2 ^ unat (cnt AND 31)) (unat (cnt AND 31) \<le> op_bits n \<and> bit x (op_bits n - unat (cnt AND 31)))
        (unat (cnt AND 31) = 1 \<and> \<not> signed_fits n (2 * s_at n x)) (snd (emit_shl n x cnt fl)) \<and>
      flags_are n (u_at n x div 2 ^ unat (cnt AND 31)) (unat (cnt AND 31) \<le> op_bits n \<and> bit x (unat (cnt AND 31) - 1))
        (unat (cnt AND 31) = 1 \<and> bit x (op_bits n - 1)) (snd (emit_shr n x cnt fl)) \<and>
      flags_are n (s_at n x div 2 ^ unat (cnt AND 31)) (unat (cnt AND 31) \<le> op_bits n \<and> bit (s_at n x) (unat (cnt AND 31) - 1))
        False (snd (emit_sar n x cnt fl))"
  proof (cases "cnt AND 31 = 0")
    case True
    then show ?thesis using shift_none [of cnt n x fl] by simp
  next
    case False
    moreover from False have "unat (cnt AND 31) \<noteq> 0" by (simp add: unat_eq_0)
    ultimately show ?thesis
      using shl_exact [OF assms False] shr_exact [OF assms False] sar_exact [OF assms False] by (simp only: if_False simp_thms)
  qed
  then show ?thesis
    unfolding Let_def by (intro conjI add_exact sub_exact test_exact adc_exact sbb_exact inc_exact dec_exact neg_exact)
qed

text \<open>A byte of \<open>0x80\<close> shifted right by nine: the result is negative, but the carry, a copy of the sign, is answered clear.\<close>

theorem arithmetic_flags_witness:
  "let c = snd (emit_sar 1 0x80 9 guest_flags_zero) in cc_s c \<and> \<not> cc_e c \<and> \<not> cc_b c \<and> bit (s_at 1 0x80) 8"
proof -
  have "flags_are 1 (s_at 1 0x80 div 2 ^ 9) (9 \<le> op_bits 1 \<and> bit (s_at 1 0x80) (9 - 1)) False
      (snd (emit_sar 1 0x80 9 guest_flags_zero))"
    using arithmetic_flags [where n = 1 and cnt = 9 and x = "0x80" and fl = guest_flags_zero] by (simp add: Let_def)
  moreover have "s_at 1 0x80 = - 128" by (simp add: s_at_u_at u_at_def op_bits_def)
  ultimately show ?thesis by (simp add: flags_are_def op_bits_def Let_def)
qed

end
