(* ===== verification/Guest_Mem.thy ===== *)
theory Guest_Mem imports Prelude begin

text \<open>
  Guest memory (\<open>recomp/runtime/guest.h\<close>, section "memory").  A guest address is a host
  address, so a load or a store is a plain access of a byte-addressed store of \<open>2 ^ 32\<close>
  bytes; multi-byte objects are little-endian on both targets.  The model is total: whether an
  address is mapped is the concern of the components that own it.
\<close>

unbundle bit_operations_syntax

type_synonym mem = "u32 \<Rightarrow> u8"

section \<open>Byte ranges\<close>

fun ld_bytes :: "mem \<Rightarrow> u32 \<Rightarrow> nat \<Rightarrow> u8 list" where
  "ld_bytes m a 0 = []"
| "ld_bytes m a (Suc n) = m a # ld_bytes m (a + 1) n"

fun st_bytes :: "mem \<Rightarrow> u32 \<Rightarrow> u8 list \<Rightarrow> mem" where
  "st_bytes m a [] = m"
| "st_bytes m a (b # bs) = st_bytes (m(a := b)) (a + 1) bs"

lemma length_ld_bytes [simp]: "length (ld_bytes m a n) = n"
  by (induction n arbitrary: a) auto

lemma nth_ld_bytes: "i < n \<Longrightarrow> ld_bytes m a n ! i = m (a + of_nat i)"
  by (induction n arbitrary: a i) (auto simp: nth_Cons less_Suc_eq_0_disj ac_simps)

text \<open>A range of at most \<open>2 ^ 32\<close> bytes meets an address at most once.\<close>

lemma unat_diff_Suc:
  fixes x a :: u32
  assumes "x \<noteq> a"
  shows "unat (x - a) = Suc (unat (x - (a + 1)))"
proof -
  have "x - a \<noteq> 0" using assms by simp
  then have "unat (x - a - 1) = unat (x - a) - 1" "0 < unat (x - a)"
    by (simp_all add: unat_minus_one unat_gt_0)
  then show ?thesis by (simp add: diff_diff_eq)
qed

lemma st_bytes_apply:
  "length bs \<le> 2 ^ 32 \<Longrightarrow>
   st_bytes m a bs x = (if unat (x - a) < length bs then bs ! unat (x - a) else m x)"
proof (induction bs arbitrary: m a)
  case Nil
  then show ?case by simp
next
  case (Cons b bs)
  show ?case
  proof (cases "x = a")
    case True
    have "unat (x - (a + 1)) = 2 ^ 32 - 1"
      using True by (simp add: unsigned_minus_1_eq_mask mask_eq_exp_minus_1)
    then have "\<not> unat (x - (a + 1)) < length bs" using Cons.prems by simp
    then show ?thesis using Cons True by simp
  next
    case False
    then show ?thesis using Cons by (simp add: unat_diff_Suc [OF False])
  qed
qed

definition apart :: "u32 \<Rightarrow> nat \<Rightarrow> u32 \<Rightarrow> nat \<Rightarrow> bool" where
  "apart a n b k \<longleftrightarrow> n \<le> unat (b - a) \<and> k \<le> unat (a - b)"

lemma apart_sym: "apart a n b k = apart b k a n"
  by (auto simp: apart_def)

lemma apart_not_in:
  assumes "apart a n b k" "i < k"
  shows "\<not> unat (b + of_nat i - a) < n"
proof (cases "n = 0")
  case False
  have k: "k \<le> unat (a - b)" and n: "n \<le> unat (b - a)" using assms by (auto simp: apart_def)
  have ki: "i < 2 ^ 32" using assms(2) k unat_u32 [of "a - b"] by simp
  have "b - a \<noteq> 0" using n False by auto
  then have s: "unat (a - b) = 2 ^ 32 - unat (b - a)"
    using unat_diff_swap [of a b] by auto
  have "unat (b - a) + i < 2 ^ 32"
    using assms(2) k s unat_u32 [of "b - a"] by simp
  then have "unat ((b - a) + of_nat i) = unat (b - a) + i"
    using ki by (simp add: unat_word_ariths(1) unat_of_nat_small)
  then show ?thesis using n by (simp add: algebra_simps)
qed simp

lemma ld_st_bytes_same:
  "length bs \<le> 2 ^ 32 \<Longrightarrow> ld_bytes (st_bytes m a bs) a (length bs) = bs"
  by (rule nth_equalityI)
    (auto simp: nth_ld_bytes st_bytes_apply unat_of_nat_small)

lemma ld_st_bytes_apart:
  assumes "length bs \<le> 2 ^ 32" "apart a (length bs) b k"
  shows "ld_bytes (st_bytes m a bs) b k = ld_bytes m b k"
  by (rule nth_equalityI)
    (use assms apart_not_in [OF assms(2)] in \<open>auto simp: nth_ld_bytes st_bytes_apply\<close>)


section \<open>Typed accesses\<close>

definition ld8 :: "mem \<Rightarrow> u32 \<Rightarrow> u8" where
  "ld8 m a = m a"

definition ld16 :: "mem \<Rightarrow> u32 \<Rightarrow> u16" where
  "ld16 m a = le_of_bytes (ld_bytes m a 2)"

definition ld32 :: "mem \<Rightarrow> u32 \<Rightarrow> u32" where
  "ld32 m a = le_of_bytes (ld_bytes m a 4)"

definition ld64 :: "mem \<Rightarrow> u32 \<Rightarrow> u64" where
  "ld64 m a = le_of_bytes (ld_bytes m a 8)"

definition st8 :: "mem \<Rightarrow> u32 \<Rightarrow> u8 \<Rightarrow> mem" where
  "st8 m a v = m(a := v)"

definition st16 :: "mem \<Rightarrow> u32 \<Rightarrow> u16 \<Rightarrow> mem" where
  "st16 m a v = st_bytes m a (le_to_bytes 2 v)"

definition st32 :: "mem \<Rightarrow> u32 \<Rightarrow> u32 \<Rightarrow> mem" where
  "st32 m a v = st_bytes m a (le_to_bytes 4 v)"

definition st64 :: "mem \<Rightarrow> u32 \<Rightarrow> u64 \<Rightarrow> mem" where
  "st64 m a v = st_bytes m a (le_to_bytes 8 v)"

section \<open>The interface of a typed cell\<close>

text \<open>
  What the clients of the memory rely on: a cell of \<open>width\<close> bytes reads back what was last
  stored, and a store leaves every cell apart from it alone.
\<close>

locale memory_cell =
  fixes ld :: "mem \<Rightarrow> u32 \<Rightarrow> 'v"
    and st :: "mem \<Rightarrow> u32 \<Rightarrow> 'v \<Rightarrow> mem"
    and width :: nat
  assumes ld_st_same: "ld (st m a v) a = v"
    and ld_st_apart: "apart a width b width \<Longrightarrow> ld (st m a v) b = ld m b"
begin

text \<open>Storing a table of cells, as the code writes a C structure field by field.\<close>

fun st_table :: "mem \<Rightarrow> (u32 \<times> 'v) list \<Rightarrow> mem" where
  "st_table m [] = m"
| "st_table m ((a, v) # xs) = st_table (st m a v) xs"

lemma ld_st_table_other:
  "(\<And>b. b \<in> fst ` set xs \<Longrightarrow> apart b width a width) \<Longrightarrow> ld (st_table m xs) a = ld m a"
  by (induction m xs rule: st_table.induct) (auto simp: ld_st_apart)

lemma ld_st_table:
  assumes "(a, v) \<in> set xs" "distinct (map fst xs)"
    and "\<And>b c. b \<in> fst ` set xs \<Longrightarrow> c \<in> fst ` set xs \<Longrightarrow> b \<noteq> c \<Longrightarrow> apart b width c width"
  shows "ld (st_table m xs) a = v"
  using assms
proof (induction m xs rule: st_table.induct)
  case (2 m b w xs)
  show ?case
  proof (cases "(a, v) = (b, w)")
    case True
    then have "ld (st_table (st m b w) xs) a = ld (st m b w) a"
      using 2 by (intro ld_st_table_other) (auto simp: rev_image_eqI)
    then show ?thesis using True by (simp add: ld_st_same)
  next
    case False
    then show ?thesis using 2 by auto
  qed
qed simp

end

lemma ld_st_list_laws:
  assumes "8 * n = LENGTH('a)" "n \<le> 2 ^ 32"
  shows "le_of_bytes (ld_bytes (st_bytes m a (le_to_bytes n (v :: 'a::len word))) a n) = v"
  using ld_st_bytes_same [of "le_to_bytes n v" m a] assms
  by (simp add: le_of_to_bytes_full)

interpretation cell8: memory_cell ld8 st8 1
  by unfold_locales (auto simp: ld8_def st8_def apart_def)

interpretation cell16: memory_cell ld16 st16 2
  by unfold_locales (simp_all add: ld16_def st16_def ld_st_list_laws ld_st_bytes_apart)

interpretation cell32: memory_cell ld32 st32 4
  by unfold_locales (simp_all add: ld32_def st32_def ld_st_list_laws ld_st_bytes_apart)

interpretation cell64: memory_cell ld64 st64 8
  by unfold_locales (simp_all add: ld64_def st64_def ld_st_list_laws ld_st_bytes_apart)

lemma st32_outside: "4 \<le> unat (x - a) \<Longrightarrow> st32 m a v x = m x"
  by (simp add: st32_def st_bytes_apply)

lemma ld32_cong:
  "(\<And>x. unat (x - a) < 4 \<Longrightarrow> m x = m' x) \<Longrightarrow> ld32 m a = ld32 m' a"
  unfolding ld32_def
  by (rule arg_cong [where f = le_of_bytes], rule nth_equalityI)
    (auto simp: nth_ld_bytes unat_of_nat_small)

lemma ld_bytes_4: "ld_bytes m a 4 = [m a, m (a + 1), m (a + 2), m (a + 3)]"
  by (simp add: eval_nat_numeral add.commute)

lemma le_to_bytes_4:
  "le_to_bytes 4 (v :: u32) = [ucast v, ucast (drop_bit 8 v), ucast (drop_bit 16 v), ucast (drop_bit 24 v)]"
proof -
  have "le_to_bytes (Suc (Suc (Suc (Suc 0)))) v =
      [ucast v, ucast (drop_bit 8 v), ucast (drop_bit 16 v), ucast (drop_bit 24 v)]" by simp
  moreover have "Suc (Suc (Suc (Suc 0))) = 4" by simp
  ultimately show ?thesis by (simp only:)
qed

lemma offset_inside:
  fixes x a k :: u32
  assumes "unat (x - (a + k)) < n" "unat k + n \<le> 2 ^ 32"
  shows "unat (x - a) < unat k + n"
proof -
  have "unat (k + (x - (a + k))) = unat k + unat (x - (a + k))"
    using assms by (intro unat_plus_small) simp_all
  then show ?thesis using assms(1) by simp
qed

end
