(* ===== verification/Guest_Cpu.thy ===== *)
theory Guest_Cpu imports Guest_Mem Guest_Flags begin

text \<open>
  The guest CPU context (\<open>struct CPU\<close> of \<open>recomp/runtime/guest.h\<close>), the machine state the
  runtime works on, and the two ways a translated call can be cut short: \<open>guest_fault\<close> and
  \<open>guest_exit\<close> leave through the active run scope, or abort the process when there is none.

  A CPU is identified by \<open>cpu_id\<close>, which stands for its host address; \<open>stack_owner\<close> holds
  such an identity, so that a copied context does not own the stack of the original.  A vector
  register (\<open>x\<close> in the source, \<open>xmm\<close> here) is its four 32-bit lanes; an x87 register (\<open>st\<close>, here \<open>st_regs\<close>) is the bit pattern of its
  double.
\<close>

unbundle bit_operations_syntax

type_synonym message = string

record guest_jump_site =
  previous :: "nat option"
  site_env :: u32
  site_esp :: u32
  site_eip :: u32
  site_registration :: u32

datatype stack_fault = GUEST_STACK_FAULT_NONE | GUEST_STACK_FAULT_UNBOUND
  | GUEST_STACK_FAULT_OWNER | GUEST_STACK_FAULT_SET | GUEST_STACK_FAULT_ADJUST
  | GUEST_STACK_FAULT_ACCESS | GUEST_STACK_FAULT_PUSH | GUEST_STACK_FAULT_POP

datatype run_result = GUEST_RUN_INVALID | GUEST_RUN_RETURNED | GUEST_RUN_FAULT | GUEST_RUN_EXIT

record CPU =
  cpu_id :: nat
  eax :: u32
  ecx :: u32
  edx :: u32
  ebx :: u32
  esp :: u32
  ebp :: u32
  esi :: u32
  edi :: u32
  xmm :: "u32 list list"
  st_regs :: "u64 list"
  st_top :: "32 word"
  fsw :: u16
  fl :: guest_flags
  df :: u8
  fault :: "message option"
  fault_addr :: u32
  exit_api :: "message option"
  exit_code :: u32
  stop_kind :: run_result
  run_scope :: bool
  jump_sites :: "nat option"
  jump_value :: u32
  stack_owner :: "nat option"
  stack_floor :: u32
  stack_ceiling :: u32
  stack_low_water :: u32
  stack_fault_address :: u32
  stack_fault_size :: u32
  stack_fault_pc :: u32
  stack_fault_native_site :: u32
  stack_fault_kind :: stack_fault
  last_error :: u32
  vita_sync_thread_id :: u32

text \<open>\<open>guest_cpu_init\<close>: every field of the context is zeroed.\<close>

definition guest_cpu_init :: "nat \<Rightarrow> CPU" where
  "guest_cpu_init i = \<lparr>cpu_id = i, eax = 0, ecx = 0, edx = 0, ebx = 0, esp = 0, ebp = 0,
     esi = 0, edi = 0, xmm = replicate 8 (replicate 4 0), st_regs = replicate 8 0, st_top = 0,
     fsw = 0, fl = guest_flags_zero, df = 0, fault = None, fault_addr = 0,
     exit_api = None, exit_code = 0, stop_kind = GUEST_RUN_RETURNED, run_scope = False,
     jump_sites = None, jump_value = 0, stack_owner = None, stack_floor = 0, stack_ceiling = 0,
     stack_low_water = 0, stack_fault_address = 0, stack_fault_size = 0, stack_fault_pc = 0,
     stack_fault_native_site = 0, stack_fault_kind = GUEST_STACK_FAULT_NONE, last_error = 0, vita_sync_thread_id = 0\<rparr>"

text \<open>
  The machine: the context, guest memory, the live \<open>guest_jump_site\<close> records (owned by
  generated C frames, addressed by an identity) and the process-wide fault counter.
\<close>

record machine =
  cpu :: CPU
  mem :: mem
  sites :: "nat \<Rightarrow> guest_jump_site"
  g_fault_count :: u32

abbreviation upd_cpu :: "(CPU \<Rightarrow> CPU) \<Rightarrow> machine \<Rightarrow> machine" where
  "upd_cpu f s \<equiv> s\<lparr>cpu := f (cpu s)\<rparr>"

text \<open>
  The outcome of a runtime operation: it returns, it jumps to the top-level run scope, or it
  aborts the process.
\<close>

datatype 'a outcome = Returned 'a machine | Unwound machine | Aborted machine

fun and_then :: "'a outcome \<Rightarrow> ('a \<Rightarrow> machine \<Rightarrow> 'b outcome) \<Rightarrow> 'b outcome" where
  "and_then (Returned x s) f = f x s"
| "and_then (Unwound s) f = Unwound s"
| "and_then (Aborted s) f = Aborted s"

definition guest_fault :: "machine \<Rightarrow> u32 \<Rightarrow> message \<Rightarrow> 'a outcome" where
  "guest_fault s addr what =
     (let s1 = s\<lparr>g_fault_count := g_fault_count s + 1,
                 cpu := (cpu s)\<lparr>fault := Some what, fault_addr := addr, exit_api := None,
                                 stop_kind := GUEST_RUN_FAULT\<rparr>\<rparr>
      in if run_scope (cpu s1) then Unwound s1 else Aborted s1)"

definition guest_exit :: "machine \<Rightarrow> u32 \<Rightarrow> message option \<Rightarrow> 'a outcome" where
  "guest_exit s code api =
     (let s1 = upd_cpu (\<lambda>c. c\<lparr>fault := None, fault_addr := 0, exit_api := api,
                              exit_code := code, stop_kind := GUEST_RUN_EXIT\<rparr>) s
      in if run_scope (cpu s1) then Unwound s1 else Aborted s1)"

lemma guest_fault_not_returned [simp]: "guest_fault s a w \<noteq> Returned x t"
  by (simp add: guest_fault_def Let_def)

lemma guest_exit_not_returned [simp]: "guest_exit s k w \<noteq> Returned x t"
  by (simp add: guest_exit_def Let_def)

lemma and_then_guest_fault [simp]: "and_then (guest_fault s a w) f = guest_fault s a w"
  by (simp add: guest_fault_def Let_def)

lemma and_then_Returned_iff:
  "and_then r f = Returned y t \<longleftrightarrow> (\<exists>x s. r = Returned x s \<and> f x s = Returned y t)"
  by (cases r) auto

text \<open>
  \<open>guest_run_until_stop\<close>: one guarded top-level call.  \<open>entry\<close> is the translated function,
  as a state transformer; a nested boundary on the same CPU is refused.
\<close>

definition run_reset :: "CPU \<Rightarrow> CPU" where
  "run_reset c = c\<lparr>fault := None, fault_addr := 0, exit_api := None, exit_code := 0,
                   stop_kind := GUEST_RUN_RETURNED, run_scope := True\<rparr>"

definition run_close :: "CPU \<Rightarrow> CPU" where
  "run_close c = c\<lparr>jump_sites := None, jump_value := 0, run_scope := False\<rparr>"

definition guest_run_until_stop :: "(machine \<Rightarrow> unit outcome) \<Rightarrow> machine \<Rightarrow> run_result outcome" where
  "guest_run_until_stop entry s =
     (if run_scope (cpu s) then Returned GUEST_RUN_INVALID s
      else
        let body = and_then (entry (upd_cpu run_reset s))
                     (\<lambda>_ t. if jump_sites (cpu t) \<noteq> None
                            then guest_fault t 0 ''translated call returned with active setjmp''
                            else Returned () t)
        in case body of
             Returned _ t \<Rightarrow> Returned (stop_kind (cpu t)) (upd_cpu run_close t)
           | Unwound t \<Rightarrow> Returned (stop_kind (cpu t)) (upd_cpu run_close t)
           | Aborted t \<Rightarrow> Aborted t)"

definition guest_checkpoint :: "u32 \<Rightarrow> machine \<Rightarrow> u32 \<Rightarrow> bool outcome" where
  "guest_checkpoint g_guest_checkpoint_rva s rva =
     (if g_guest_checkpoint_rva = 0 \<or> rva \<noteq> g_guest_checkpoint_rva then Returned False s
      else guest_fault s rva ''bring-up checkpoint'')"

text \<open>A deliberate trap of the guest is counted in \<open>g_int3_count\<close> and not fatal.\<close>

definition guest_int3 :: "u32 \<Rightarrow> u32 \<Rightarrow> u32" where
  "guest_int3 g_int3_count addr = g_int3_count + 1"

text \<open>The locked 64-bit exchange returns what it found; an unaligned one aborts.\<close>

definition guest_atomic_cmpxchg64 :: "machine \<Rightarrow> u32 \<Rightarrow> u64 \<Rightarrow> u64 \<Rightarrow> u64 outcome" where
  "guest_atomic_cmpxchg64 s addr expected desired =
     (if addr AND 7 \<noteq> 0 then Aborted s
      else
        let found = ld64 (mem s) addr in
        Returned found (if found = expected then s\<lparr>mem := st64 (mem s) addr desired\<rparr> else s))"

end
