(* ===== verification/Guest_Stack.thy ===== *)
theory Guest_Stack imports Guest_Cpu begin

text \<open>
  The synthetic guest stack (\<open>guest.h\<close>, section "stack", and its out-of-line half in
  \<open>guest.c\<close>): ownership and bounds of the stack interval, the checked pointer operations of
  the production build (\<open>GUEST_STACK_REQUIRED\<close>), their \<open>_generated\<close> twins that record a
  native site instead of a guest address, the inline variants of the host build that also admit
  a legacy unbound context, and the unchecked raw variants.
\<close>

section \<open>Ownership and bounds\<close>

definition guest_stack_is_bound :: "CPU \<Rightarrow> bool" where
  "guest_stack_is_bound c \<longleftrightarrow> stack_owner c = Some (cpu_id c) \<and>
     stack_floor c < stack_ceiling c \<and>
     stack_low_water c \<ge> stack_floor c \<and> stack_low_water c \<le> stack_ceiling c"

definition guest_stack_contains :: "CPU \<Rightarrow> u32 \<Rightarrow> u32 \<Rightarrow> bool" where
  "guest_stack_contains c address len =
     (if \<not> guest_stack_is_bound c \<or> len = 0 then False
      else let capacity = stack_ceiling c - stack_floor c
           in len \<le> capacity \<and> address \<ge> stack_floor c \<and> address \<le> stack_ceiling c - len)"

definition guest_stack_capacity :: "CPU \<Rightarrow> u32" where
  "guest_stack_capacity c =
     (if guest_stack_is_bound c then stack_ceiling c - stack_floor c else 0)"

definition guest_stack_high_water :: "CPU \<Rightarrow> u32" where
  "guest_stack_high_water c =
     (if guest_stack_is_bound c then stack_ceiling c - stack_low_water c else 0)"

definition guest_stack_fast_bound :: "CPU \<Rightarrow> bool" where
  "guest_stack_fast_bound c \<longleftrightarrow>
     stack_owner c = Some (cpu_id c) \<and> stack_floor c < stack_ceiling c"

definition guest_stack_note_low :: "CPU \<Rightarrow> u32 \<Rightarrow> CPU" where
  "guest_stack_note_low c address =
     (if address < stack_low_water c then c\<lparr>stack_low_water := address\<rparr> else c)"

section \<open>Rejections\<close>

fun guest_stack_fault_text :: "stack_fault \<Rightarrow> message" where
  "guest_stack_fault_text GUEST_STACK_FAULT_UNBOUND = ''guest stack is not bound''"
| "guest_stack_fault_text GUEST_STACK_FAULT_OWNER = ''guest stack owner/bounds are corrupt''"
| "guest_stack_fault_text GUEST_STACK_FAULT_SET = ''guest stack pointer outside bounds''"
| "guest_stack_fault_text GUEST_STACK_FAULT_ADJUST = ''guest stack cleanup overflow''"
| "guest_stack_fault_text GUEST_STACK_FAULT_ACCESS = ''guest stack access outside bounds''"
| "guest_stack_fault_text GUEST_STACK_FAULT_PUSH = ''guest stack underflow''"
| "guest_stack_fault_text GUEST_STACK_FAULT_POP = ''guest stack overflow''"
| "guest_stack_fault_text _ = ''unknown guest stack violation''"

text \<open>
  A violation is recorded on the context and then faults; \<open>guest_fault\<close> does not return, so
  the \<open>return 0\<close> behind it in the source is never reached.
\<close>

definition guest_stack_violation ::
    "machine \<Rightarrow> u32 \<Rightarrow> stack_fault \<Rightarrow> u32 \<Rightarrow> u32 \<Rightarrow> 'a outcome" where
  "guest_stack_violation s pc kind address len =
     guest_fault
       (upd_cpu (\<lambda>c. c\<lparr>stack_fault_kind := kind, stack_fault_address := address,
                        stack_fault_size := len, stack_fault_pc := pc,
                        stack_fault_native_site := 0\<rparr>) s)
       pc (guest_stack_fault_text kind)"

definition guest_stack_owner_violation :: "machine \<Rightarrow> u32 \<Rightarrow> 'a outcome" where
  "guest_stack_owner_violation s pc =
     guest_stack_violation s pc
       (if stack_owner (cpu s) \<noteq> None then GUEST_STACK_FAULT_OWNER
        else GUEST_STACK_FAULT_UNBOUND) (esp (cpu s)) 0"

definition guest_stack_native_violation ::
    "machine \<Rightarrow> u32 \<Rightarrow> stack_fault \<Rightarrow> u32 \<Rightarrow> u32 \<Rightarrow> 'a outcome" where
  "guest_stack_native_violation s native_site kind address len =
     guest_fault
       (upd_cpu (\<lambda>c. c\<lparr>stack_fault_kind := kind, stack_fault_address := address,
                        stack_fault_size := len, stack_fault_pc := 0,
                        stack_fault_native_site := native_site AND NOT 1\<rparr>) s)
       0 (guest_stack_fault_text kind)"

definition guest_stack_native_owner_violation :: "machine \<Rightarrow> u32 \<Rightarrow> 'a outcome" where
  "guest_stack_native_owner_violation s native_site =
     guest_stack_native_violation s native_site
       (if stack_owner (cpu s) \<noteq> None then GUEST_STACK_FAULT_OWNER
        else GUEST_STACK_FAULT_UNBOUND) (esp (cpu s)) 0"

section \<open>The checked operations (GUEST_STACK_REQUIRED)\<close>

definition guest_stack_set :: "machine \<Rightarrow> u32 \<Rightarrow> u32 \<Rightarrow> unit outcome" where
  "guest_stack_set s value pc =
     (let c = cpu s in
      if \<not> guest_stack_fast_bound c then guest_stack_owner_violation s pc
      else let capacity = stack_ceiling c - stack_floor c in
        if value - stack_floor c > capacity
        then guest_stack_violation s pc GUEST_STACK_FAULT_SET value 0
        else Returned () (s\<lparr>cpu := guest_stack_note_low (c\<lparr>esp := value\<rparr>) value\<rparr>))"

definition guest_stack_adjust :: "machine \<Rightarrow> u32 \<Rightarrow> u32 \<Rightarrow> unit outcome" where
  "guest_stack_adjust s amount pc =
     (let c = cpu s in
      if \<not> guest_stack_fast_bound c then guest_stack_owner_violation s pc
      else let capacity = stack_ceiling c - stack_floor c; offset = esp c - stack_floor c in
        if offset > capacity \<or> amount > capacity - offset
        then guest_stack_violation s pc GUEST_STACK_FAULT_ADJUST (esp c) amount
        else Returned () (s\<lparr>cpu := c\<lparr>esp := esp c + amount\<rparr>\<rparr>))"

definition guest_stack_address :: "machine \<Rightarrow> u32 \<Rightarrow> u32 \<Rightarrow> u32 \<Rightarrow> u32 outcome" where
  "guest_stack_address s address len pc =
     (let c = cpu s in
      if \<not> guest_stack_fast_bound c then guest_stack_owner_violation s pc
      else let capacity = stack_ceiling c - stack_floor c; offset = address - stack_floor c in
        if len = 0 \<or> len > capacity \<or> offset > capacity - len
        then guest_stack_violation s pc GUEST_STACK_FAULT_ACCESS address len
        else Returned address (s\<lparr>cpu := guest_stack_note_low c address\<rparr>))"

definition gpush_at :: "machine \<Rightarrow> u32 \<Rightarrow> u32 \<Rightarrow> unit outcome" where
  "gpush_at s value pc =
     (let c = cpu s in
      if \<not> guest_stack_fast_bound c then guest_stack_owner_violation s pc
      else let capacity = stack_ceiling c - stack_floor c; offset = esp c - stack_floor c in
        if offset < 4 \<or> offset > capacity
        then guest_stack_violation s pc GUEST_STACK_FAULT_PUSH (esp c - 4) 4
        else let nxt = esp c - 4 in
          Returned () (s\<lparr>cpu := guest_stack_note_low (c\<lparr>esp := nxt\<rparr>) nxt,
                         mem := st32 (mem s) nxt value\<rparr>))"

definition gpop_at :: "machine \<Rightarrow> u32 \<Rightarrow> u32 outcome" where
  "gpop_at s pc =
     (let c = cpu s in
      if \<not> guest_stack_fast_bound c then guest_stack_owner_violation s pc
      else let capacity = stack_ceiling c - stack_floor c; offset = esp c - stack_floor c in
        if capacity < 4 \<or> offset > capacity - 4
        then guest_stack_violation s pc GUEST_STACK_FAULT_POP (esp c) 4
        else Returned (ld32 (mem s) (esp c)) (s\<lparr>cpu := c\<lparr>esp := esp c + 4\<rparr>\<rparr>))"

definition gpush :: "machine \<Rightarrow> u32 \<Rightarrow> unit outcome" where
  "gpush s value = gpush_at s value 0"

definition gpop :: "machine \<Rightarrow> u32 outcome" where
  "gpop s = gpop_at s 0"

text \<open>The twins for generated code: same checks, the rejection records a native site.\<close>

definition guest_stack_set_generated :: "machine \<Rightarrow> u32 \<Rightarrow> u32 \<Rightarrow> unit outcome" where
  "guest_stack_set_generated s value native_site =
     (let c = cpu s in
      if \<not> guest_stack_fast_bound c then guest_stack_native_owner_violation s native_site
      else let capacity = stack_ceiling c - stack_floor c in
        if value - stack_floor c > capacity
        then guest_stack_native_violation s native_site GUEST_STACK_FAULT_SET value 0
        else Returned () (s\<lparr>cpu := guest_stack_note_low (c\<lparr>esp := value\<rparr>) value\<rparr>))"

definition guest_stack_adjust_generated :: "machine \<Rightarrow> u32 \<Rightarrow> u32 \<Rightarrow> unit outcome" where
  "guest_stack_adjust_generated s amount native_site =
     (let c = cpu s in
      if \<not> guest_stack_fast_bound c then guest_stack_native_owner_violation s native_site
      else let capacity = stack_ceiling c - stack_floor c; offset = esp c - stack_floor c in
        if offset > capacity \<or> amount > capacity - offset
        then guest_stack_native_violation s native_site GUEST_STACK_FAULT_ADJUST (esp c) amount
        else Returned () (s\<lparr>cpu := c\<lparr>esp := esp c + amount\<rparr>\<rparr>))"

definition guest_stack_address_generated ::
    "machine \<Rightarrow> u32 \<Rightarrow> u32 \<Rightarrow> u32 \<Rightarrow> u32 outcome" where
  "guest_stack_address_generated s address len native_site =
     (let c = cpu s in
      if \<not> guest_stack_fast_bound c then guest_stack_native_owner_violation s native_site
      else let capacity = stack_ceiling c - stack_floor c; offset = address - stack_floor c in
        if len = 0 \<or> len > capacity \<or> offset > capacity - len
        then guest_stack_native_violation s native_site GUEST_STACK_FAULT_ACCESS address len
        else Returned address (s\<lparr>cpu := guest_stack_note_low c address\<rparr>))"

definition gpush_generated :: "machine \<Rightarrow> u32 \<Rightarrow> u32 \<Rightarrow> unit outcome" where
  "gpush_generated s value native_site =
     (let c = cpu s in
      if \<not> guest_stack_fast_bound c then guest_stack_native_owner_violation s native_site
      else let capacity = stack_ceiling c - stack_floor c; offset = esp c - stack_floor c in
        if offset < 4 \<or> offset > capacity
        then guest_stack_native_violation s native_site GUEST_STACK_FAULT_PUSH (esp c - 4) 4
        else let nxt = esp c - 4 in
          Returned () (s\<lparr>cpu := guest_stack_note_low (c\<lparr>esp := nxt\<rparr>) nxt,
                         mem := st32 (mem s) nxt value\<rparr>))"

definition gpop_generated :: "machine \<Rightarrow> u32 \<Rightarrow> u32 outcome" where
  "gpop_generated s native_site =
     (let c = cpu s in
      if \<not> guest_stack_fast_bound c then guest_stack_native_owner_violation s native_site
      else let capacity = stack_ceiling c - stack_floor c; offset = esp c - stack_floor c in
        if capacity < 4 \<or> offset > capacity - 4
        then guest_stack_native_violation s native_site GUEST_STACK_FAULT_POP (esp c) 4
        else Returned (ld32 (mem s) (esp c)) (s\<lparr>cpu := c\<lparr>esp := esp c + 4\<rparr>\<rparr>))"

section \<open>The inline variants of the host build\<close>

text \<open>
  \<open>guest_stack_legacy_guard\<close> returns whether the context is guarded; a context whose whole
  stack record is zero is a legacy test context, a partial one is an ownership failure.
\<close>

definition guest_stack_legacy_guard :: "machine \<Rightarrow> u32 \<Rightarrow> bool outcome" where
  "guest_stack_legacy_guard s pc =
     (let c = cpu s in
      if stack_owner c = None then
        if stack_floor c \<noteq> 0 \<or> stack_ceiling c \<noteq> 0 \<or> stack_low_water c \<noteq> 0
        then guest_stack_violation s pc GUEST_STACK_FAULT_OWNER (esp c) 0
        else Returned False s
      else if \<not> guest_stack_fast_bound c then guest_stack_owner_violation s pc
      else Returned True s)"

definition guest_stack_set_host :: "machine \<Rightarrow> u32 \<Rightarrow> u32 \<Rightarrow> unit outcome" where
  "guest_stack_set_host s value pc =
     and_then (guest_stack_legacy_guard s pc) (\<lambda>guarded s.
       if \<not> guarded then Returned () (upd_cpu (\<lambda>c. c\<lparr>esp := value\<rparr>) s)
       else let c = cpu s; capacity = stack_ceiling c - stack_floor c in
         if value - stack_floor c > capacity
         then guest_stack_violation s pc GUEST_STACK_FAULT_SET value 0
         else Returned () (s\<lparr>cpu := guest_stack_note_low (c\<lparr>esp := value\<rparr>) value\<rparr>))"

definition guest_stack_adjust_host :: "machine \<Rightarrow> u32 \<Rightarrow> u32 \<Rightarrow> unit outcome" where
  "guest_stack_adjust_host s amount pc =
     and_then (guest_stack_legacy_guard s pc) (\<lambda>guarded s.
       if \<not> guarded then Returned () (upd_cpu (\<lambda>c. c\<lparr>esp := esp c + amount\<rparr>) s)
       else let c = cpu s; capacity = stack_ceiling c - stack_floor c;
                offset = esp c - stack_floor c in
         if offset > capacity \<or> amount > capacity - offset
         then guest_stack_violation s pc GUEST_STACK_FAULT_ADJUST (esp c) amount
         else Returned () (s\<lparr>cpu := c\<lparr>esp := esp c + amount\<rparr>\<rparr>))"

definition guest_stack_address_host :: "machine \<Rightarrow> u32 \<Rightarrow> u32 \<Rightarrow> u32 \<Rightarrow> u32 outcome" where
  "guest_stack_address_host s address len pc =
     and_then (guest_stack_legacy_guard s pc) (\<lambda>guarded s.
       if \<not> guarded then Returned address s
       else let c = cpu s; capacity = stack_ceiling c - stack_floor c;
                offset = address - stack_floor c in
         if len = 0 \<or> len > capacity \<or> offset > capacity - len
         then guest_stack_violation s pc GUEST_STACK_FAULT_ACCESS address len
         else Returned address (s\<lparr>cpu := guest_stack_note_low c address\<rparr>))"

definition gpush_at_host :: "machine \<Rightarrow> u32 \<Rightarrow> u32 \<Rightarrow> unit outcome" where
  "gpush_at_host s value pc =
     and_then (guest_stack_legacy_guard s pc) (\<lambda>guarded s.
       if \<not> guarded then
         let c = (cpu s)\<lparr>esp := esp (cpu s) - 4\<rparr>
         in Returned () (s\<lparr>cpu := c, mem := st32 (mem s) (esp c) value\<rparr>)
       else let c = cpu s; capacity = stack_ceiling c - stack_floor c;
                offset = esp c - stack_floor c in
         if offset < 4 \<or> offset > capacity
         then guest_stack_violation s pc GUEST_STACK_FAULT_PUSH (esp c - 4) 4
         else let nxt = esp c - 4 in
           Returned () (s\<lparr>cpu := guest_stack_note_low (c\<lparr>esp := nxt\<rparr>) nxt,
                          mem := st32 (mem s) nxt value\<rparr>))"

definition gpop_at_host :: "machine \<Rightarrow> u32 \<Rightarrow> u32 outcome" where
  "gpop_at_host s pc =
     and_then (guest_stack_legacy_guard s pc) (\<lambda>guarded s.
       if \<not> guarded then
         Returned (ld32 (mem s) (esp (cpu s))) (upd_cpu (\<lambda>c. c\<lparr>esp := esp c + 4\<rparr>) s)
       else let c = cpu s; capacity = stack_ceiling c - stack_floor c;
                offset = esp c - stack_floor c in
         if capacity < 4 \<or> offset > capacity - 4
         then guest_stack_violation s pc GUEST_STACK_FAULT_POP (esp c) 4
         else Returned (ld32 (mem s) (esp c)) (s\<lparr>cpu := c\<lparr>esp := esp c + 4\<rparr>\<rparr>))"

text \<open>The unchecked operations (\<open>GUEST_GENERATED_STACK_GUARD = 0\<close>).\<close>

definition guest_stack_set_generated_raw :: "machine \<Rightarrow> u32 \<Rightarrow> machine" where
  "guest_stack_set_generated_raw s value = upd_cpu (\<lambda>c. c\<lparr>esp := value\<rparr>) s"

definition guest_stack_adjust_generated_raw :: "machine \<Rightarrow> u32 \<Rightarrow> machine" where
  "guest_stack_adjust_generated_raw s amount = upd_cpu (\<lambda>c. c\<lparr>esp := esp c + amount\<rparr>) s"

definition gpush_generated_raw :: "machine \<Rightarrow> u32 \<Rightarrow> machine" where
  "gpush_generated_raw s value =
     (let c = (cpu s)\<lparr>esp := esp (cpu s) - 4\<rparr>
      in s\<lparr>cpu := c, mem := st32 (mem s) (esp c) value\<rparr>)"

definition gpop_generated_raw :: "machine \<Rightarrow> u32 \<times> machine" where
  "gpop_generated_raw s =
     (ld32 (mem s) (esp (cpu s)), upd_cpu (\<lambda>c. c\<lparr>esp := esp c + 4\<rparr>) s)"

section \<open>Binding and release\<close>

text \<open>True is the source's result 0 (bound), False its result 1 (refused, nothing changed).\<close>

definition guest_stack_bind :: "CPU \<Rightarrow> u32 \<Rightarrow> u32 \<Rightarrow> bool \<times> CPU" where
  "guest_stack_bind c lo hi =
     (if lo \<ge> hi \<or> hi - lo < 4 \<or> stack_owner c \<noteq> None \<or> stack_floor c \<noteq> 0 \<or>
         stack_ceiling c \<noteq> 0 \<or> stack_low_water c \<noteq> 0
      then (False, c)
      else (True, c\<lparr>stack_owner := Some (cpu_id c), stack_floor := lo, stack_ceiling := hi,
                    stack_low_water := hi, stack_fault_address := 0, stack_fault_size := 0,
                    stack_fault_pc := 0, stack_fault_native_site := 0,
                    stack_fault_kind := GUEST_STACK_FAULT_NONE, esp := hi, ebp := hi\<rparr>))"

text \<open>
  The process-wide allocation behind the stack: \<open>g_stack_mem\<close>, \<open>g_stack_owner\<close>,
  \<open>g_stack_base\<close>, \<open>g_stack_top\<close> and the cached TIB base.
\<close>

record stack_globals =
  g_stack_mem :: "u32 option"
  g_stack_owner :: "nat option"
  g_stack_base :: u32
  g_stack_top :: u32
  g_guest_fs_base_cached :: u32

definition GUEST_STACK_SIZE :: u32 where "GUEST_STACK_SIZE = 4 * 1024 * 1024"

text \<open>
  \<open>guest_stack_init\<close> for an allocator result \<open>p\<close> (\<open>None\<close> for \<open>NULL\<close>): the result, the
  context and the globals, which a failure leaves as they were; the block is then given back.
  Its zero-filling is not represented.
\<close>

definition guest_stack_init ::
    "u32 option \<Rightarrow> CPU \<Rightarrow> stack_globals \<Rightarrow> bool \<times> CPU \<times> stack_globals" where
  "guest_stack_init p c g =
     (if g_stack_mem g \<noteq> None then (False, c, g)
      else case p of None \<Rightarrow> (False, c, g)
      | Some base \<Rightarrow>
          if GUEST_STACK_SIZE \<le> 4096 + 4096 \<or> base > 0xFFFFFFFF - GUEST_STACK_SIZE
          then (False, c, g)
          else let lo = base + 4096; hi = base + GUEST_STACK_SIZE - 4096;
                   (bound, c1) = guest_stack_bind c lo hi in
            if \<not> bound then (False, c, g)
            else (True,
                  c1\<lparr>fault := None, fault_addr := 0, exit_api := None, exit_code := 0,
                     stop_kind := GUEST_RUN_RETURNED, run_scope := False, jump_sites := None,
                     jump_value := 0\<rparr>,
                  g\<lparr>g_stack_mem := Some base, g_stack_owner := Some (cpu_id c),
                    g_stack_base := stack_floor c1, g_stack_top := stack_ceiling c1,
                    g_guest_fs_base_cached := 0\<rparr>))"

definition guest_stack_free :: "CPU \<Rightarrow> stack_globals \<Rightarrow> CPU \<times> stack_globals" where
  "guest_stack_free c g =
     (if g_stack_mem g \<noteq> None \<and>
         (g_stack_owner g \<noteq> Some (cpu_id c) \<or> stack_owner c \<noteq> Some (cpu_id c))
      then (c, g)
      else
        (if stack_owner c = Some (cpu_id c)
         then c\<lparr>esp := 0, ebp := 0, jump_sites := None, jump_value := 0, stack_owner := None,
                stack_floor := 0, stack_ceiling := 0, stack_low_water := 0,
                stack_fault_address := 0, stack_fault_size := 0, stack_fault_pc := 0,
                stack_fault_native_site := 0, stack_fault_kind := GUEST_STACK_FAULT_NONE\<rparr>
         else c,
         g\<lparr>g_stack_mem := None, g_stack_owner := None, g_stack_base := 0, g_stack_top := 0,
           g_guest_fs_base_cached := 0\<rparr>))"

section \<open>The stack invariant\<close>

definition stack_ok :: "CPU \<Rightarrow> bool" where
  "stack_ok c \<longleftrightarrow> guest_stack_is_bound c \<and> stack_floor c \<le> stack_low_water c \<and>
     stack_low_water c \<le> esp c \<and> esp c \<le> stack_ceiling c"

definition same_stack :: "CPU \<Rightarrow> CPU \<Rightarrow> bool" where
  "same_stack c d \<longleftrightarrow> cpu_id d = cpu_id c \<and> stack_owner d = stack_owner c \<and>
     stack_floor d = stack_floor c \<and> stack_ceiling d = stack_ceiling c \<and>
     stack_low_water d \<le> stack_low_water c"

lemma stack_ok_fast: "stack_ok c \<Longrightarrow> guest_stack_fast_bound c"
  by (auto simp: stack_ok_def guest_stack_is_bound_def guest_stack_fast_bound_def)

lemma stack_ok_less: "stack_ok c \<Longrightarrow> stack_floor c < stack_ceiling c"
  by (auto simp: stack_ok_def guest_stack_is_bound_def)

lemma stack_ok_floor: "stack_ok c \<Longrightarrow> stack_floor c \<le> esp c"
  by (auto simp: stack_ok_def)

lemma stack_ok_ceiling: "stack_ok c \<Longrightarrow> esp c \<le> stack_ceiling c"
  by (auto simp: stack_ok_def)

lemma violation_not_returned [simp]:
  "guest_stack_violation s pc k a n \<noteq> Returned x t"
  "guest_stack_native_violation s pc k a n \<noteq> Returned x t"
  "guest_stack_owner_violation s pc \<noteq> Returned x t"
  "guest_stack_native_owner_violation s pc \<noteq> Returned x t"
  by (simp_all add: guest_stack_violation_def guest_stack_native_violation_def
      guest_stack_owner_violation_def guest_stack_native_owner_violation_def)

lemma note_low_sel [simp]:
  "cpu_id (guest_stack_note_low c a) = cpu_id c"
  "stack_owner (guest_stack_note_low c a) = stack_owner c"
  "stack_floor (guest_stack_note_low c a) = stack_floor c"
  "stack_ceiling (guest_stack_note_low c a) = stack_ceiling c"
  "esp (guest_stack_note_low c a) = esp c"
  "stack_low_water (guest_stack_note_low c a) = min (stack_low_water c) a"
  by (auto simp: guest_stack_note_low_def min_def)

text \<open>The four bounds tests of the code, read over the naturals.\<close>

lemma set_test:
  "stack_floor c < stack_ceiling c \<Longrightarrow>
   \<not> v - stack_floor c > stack_ceiling c - stack_floor c \<longleftrightarrow> stack_floor c \<le> v \<and> v \<le> stack_ceiling c"
  using word_window_iff [of "stack_floor c" "stack_ceiling c" v] by (simp add: not_less)

lemma adjust_test:
  fixes e f c n :: u32
  assumes "f \<le> e" "e \<le> c"
  shows "(e - f > c - f \<or> n > c - f - (e - f)) \<longleftrightarrow> unat c < unat e + unat n"
proof -
  have "e - f \<le> c - f" using assms word_window_iff [of f c e] by auto
  moreover have "c - f - (e - f) = c - e" by simp
  moreover have "unat (c - e) = unat c - unat e" using assms(2) by (rule unat_sub)
  moreover have "unat e \<le> unat c" using assms(2) by (simp add: word_le_nat_alt)
  ultimately show ?thesis by (auto simp: word_less_nat_alt word_le_nat_alt)
qed

lemma access_test:
  fixes a f c n :: u32
  assumes "f \<le> c"
  shows "(n = 0 \<or> n > c - f \<or> a - f > c - f - n) \<longleftrightarrow>
    \<not> (0 < unat n \<and> unat f \<le> unat a \<and> unat a + unat n \<le> unat c)"
proof (cases "n \<le> c - f")
  case True
  then show ?thesis using word_window_sub_iff [OF assms True, of a]
    by (auto simp: word_less_nat_alt word_le_nat_alt unat_gt_0)
next
  case False
  have "unat (c - f) = unat c - unat f" using assms by (rule unat_sub)
  then have "\<not> (unat f \<le> unat a \<and> unat a + unat n \<le> unat c)"
    using False by (auto simp: word_le_nat_alt)
  then show ?thesis using False by auto
qed

lemma push_test:
  fixes e f c :: u32
  assumes "f \<le> c"
  shows "(e - f < 4 \<or> e - f > c - f) \<longleftrightarrow> \<not> (unat f + 4 \<le> unat e \<and> e \<le> c)"
proof (cases "f \<le> e \<and> e \<le> c")
  case True
  then have "e - f \<le> c - f" using assms word_window_iff [of f c e] by auto
  moreover have "unat (e - f) = unat e - unat f" using True by (simp add: unat_sub)
  moreover have "unat f \<le> unat e" using True by (simp add: word_le_nat_alt)
  ultimately show ?thesis using True by (auto simp: word_less_nat_alt word_le_nat_alt)
next
  case False
  then have "\<not> e - f \<le> c - f" using assms word_window_iff [of f c e] by auto
  then show ?thesis using False by (auto simp: word_le_nat_alt word_less_nat_alt)
qed

lemma pop_test:
  fixes e f c :: u32
  assumes "f \<le> c"
  shows "(c - f < 4 \<or> e - f > c - f - 4) \<longleftrightarrow> \<not> (unat f \<le> unat e \<and> unat e + 4 \<le> unat c)"
  using access_test [OF assms, of 4 e] by (auto simp: word_less_nat_alt)

section \<open>What a returning operation did\<close>

lemma guest_stack_set_returned:
  "stack_floor (cpu s) < stack_ceiling (cpu s) \<Longrightarrow>
   guest_stack_set s v pc = Returned u t \<longleftrightarrow>
   guest_stack_fast_bound (cpu s) \<and> stack_floor (cpu s) \<le> v \<and> v \<le> stack_ceiling (cpu s) \<and>
   t = s\<lparr>cpu := guest_stack_note_low ((cpu s)\<lparr>esp := v\<rparr>) v\<rparr>"
  using set_test [of "cpu s" v] by (auto simp: guest_stack_set_def Let_def)

lemma guest_stack_adjust_returned:
  "stack_ok (cpu s) \<Longrightarrow> guest_stack_adjust s n pc = Returned u t \<longleftrightarrow>
   unat (esp (cpu s)) + unat n \<le> unat (stack_ceiling (cpu s)) \<and>
   t = upd_cpu (\<lambda>c. c\<lparr>esp := esp c + n\<rparr>) s"
  using adjust_test [OF stack_ok_floor stack_ok_ceiling, of "cpu s" n] stack_ok_fast [of "cpu s"]
  by (auto simp: guest_stack_adjust_def Let_def not_less)

lemma guest_stack_address_returned:
  "stack_floor (cpu s) < stack_ceiling (cpu s) \<Longrightarrow>
   guest_stack_address s a n pc = Returned u t \<longleftrightarrow>
   guest_stack_fast_bound (cpu s) \<and> 0 < unat n \<and> unat (stack_floor (cpu s)) \<le> unat a \<and>
   unat a + unat n \<le> unat (stack_ceiling (cpu s)) \<and> u = a \<and>
   t = upd_cpu (\<lambda>c. guest_stack_note_low c a) s"
  using access_test [of "stack_floor (cpu s)" "stack_ceiling (cpu s)" n a]
  by (auto simp: guest_stack_address_def Let_def)

lemma gpush_at_returned:
  "stack_floor (cpu s) < stack_ceiling (cpu s) \<Longrightarrow>
   gpush_at s v pc = Returned u t \<longleftrightarrow>
   guest_stack_fast_bound (cpu s) \<and> unat (stack_floor (cpu s)) + 4 \<le> unat (esp (cpu s)) \<and>
   esp (cpu s) \<le> stack_ceiling (cpu s) \<and>
   t = s\<lparr>cpu := guest_stack_note_low ((cpu s)\<lparr>esp := esp (cpu s) - 4\<rparr>) (esp (cpu s) - 4),
         mem := st32 (mem s) (esp (cpu s) - 4) v\<rparr>"
  using push_test [of "stack_floor (cpu s)" "stack_ceiling (cpu s)" "esp (cpu s)"]
  by (auto simp: gpush_at_def Let_def)

lemma gpop_at_returned:
  "stack_floor (cpu s) < stack_ceiling (cpu s) \<Longrightarrow>
   gpop_at s pc = Returned v t \<longleftrightarrow>
   guest_stack_fast_bound (cpu s) \<and> unat (stack_floor (cpu s)) \<le> unat (esp (cpu s)) \<and>
   unat (esp (cpu s)) + 4 \<le> unat (stack_ceiling (cpu s)) \<and>
   v = ld32 (mem s) (esp (cpu s)) \<and> t = upd_cpu (\<lambda>c. c\<lparr>esp := esp c + 4\<rparr>) s"
  using pop_test [of "stack_floor (cpu s)" "stack_ceiling (cpu s)" "esp (cpu s)"]
  by (auto simp: gpop_at_def Let_def)

lemmas stack_returned = guest_stack_set_returned guest_stack_adjust_returned
  guest_stack_address_returned gpush_at_returned gpop_at_returned

lemma unat_esp_minus_4: "unat f + 4 \<le> unat (e :: u32) \<Longrightarrow> unat (e - 4) = unat e - 4"
  by (simp add: unat_sub word_le_nat_alt)

lemma unat_esp_plus: "unat (e :: u32) + unat n \<le> unat (c :: u32) \<Longrightarrow> unat (e + n) = unat e + unat n"
  using unat_u32 [of c] by (intro unat_plus_small) simp

text \<open>One step of the stack: any checked operation that returns.\<close>

inductive stack_step :: "machine \<Rightarrow> machine \<Rightarrow> bool" where
  step_set: "guest_stack_set s v pc = Returned u t \<Longrightarrow> stack_step s t"
| step_adjust: "guest_stack_adjust s n pc = Returned u t \<Longrightarrow> stack_step s t"
| step_address: "guest_stack_address s a n pc = Returned b t \<Longrightarrow> stack_step s t"
| step_push: "gpush_at s v pc = Returned u t \<Longrightarrow> stack_step s t"
| step_pop: "gpop_at s pc = Returned w t \<Longrightarrow> stack_step s t"

lemma stack_step_ok:
  "stack_step s t \<Longrightarrow> stack_ok (cpu s) \<Longrightarrow> stack_ok (cpu t) \<and> same_stack (cpu s) (cpu t)"
proof (induction rule: stack_step.induct)
  case (step_set s v pc u t)
  then show ?case
    by (auto simp: stack_returned stack_ok_less stack_ok_def guest_stack_is_bound_def
        same_stack_def min_le_iff_disj)
next
  case (step_adjust s n pc u t)
  then have "unat (esp (cpu s)) + unat n \<le> unat (stack_ceiling (cpu s))"
    and t: "t = upd_cpu (\<lambda>c. c\<lparr>esp := esp c + n\<rparr>) s" by (auto simp: stack_returned)
  then have "unat (esp (cpu s) + n) = unat (esp (cpu s)) + unat n" by (simp add: unat_esp_plus)
  then show ?case using step_adjust
    by (auto simp: stack_returned stack_ok_def guest_stack_is_bound_def same_stack_def
        word_le_nat_alt)
next
  case (step_address s a n pc b t)
  then show ?case
    by (auto simp: stack_returned stack_ok_less stack_ok_def guest_stack_is_bound_def
        same_stack_def word_le_nat_alt min_def)
next
  case (step_push s v pc u t)
  then have "unat (esp (cpu s) - 4) = unat (esp (cpu s)) - 4"
    by (auto simp: stack_returned stack_ok_less unat_esp_minus_4)
  then show ?case using step_push
    by (auto simp: stack_returned stack_ok_less stack_ok_def guest_stack_is_bound_def
        same_stack_def word_le_nat_alt min_def)
next
  case (step_pop s pc w t)
  then have "unat (esp (cpu s) + 4) = unat (esp (cpu s)) + 4"
    using unat_esp_plus [of "esp (cpu s)" 4 "stack_ceiling (cpu s)"]
    by (auto simp: stack_returned stack_ok_less)
  then show ?case using step_pop
    by (auto simp: stack_returned stack_ok_less stack_ok_def guest_stack_is_bound_def
        same_stack_def word_le_nat_alt)
qed


lemma stack_steps_ok:
  "stack_step\<^sup>*\<^sup>* s t \<Longrightarrow> stack_ok (cpu s) \<Longrightarrow> stack_ok (cpu t) \<and> same_stack (cpu s) (cpu t)"
  by (induction rule: rtranclp_induct)
    (auto simp: same_stack_def dest!: stack_step_ok intro: order_trans)

section \<open>Memory effects\<close>

lemma unat_outside_window:
  fixes x a :: u32
  assumes "unat x < unat a \<or> unat a + n \<le> unat x" "unat a + n \<le> 2 ^ 32"
  shows "n \<le> unat (x - a)"
  using assms unat_u32 [of x] by (auto simp: unat_sub_if_size word_size)

lemma stack_step_mem:
  assumes "stack_step s t" "stack_ok (cpu s)"
    and "x < stack_floor (cpu s) \<or> stack_ceiling (cpu s) \<le> x"
  shows "mem t x = mem s x"
  using assms
proof (induction rule: stack_step.induct)
  case (step_push s v pc u t)
  then have r: "unat (stack_floor (cpu s)) + 4 \<le> unat (esp (cpu s))"
    "esp (cpu s) \<le> stack_ceiling (cpu s)"
    and t: "mem t = st32 (mem s) (esp (cpu s) - 4) v"
    by (auto simp: stack_returned stack_ok_less)
  have "unat (esp (cpu s) - 4) = unat (esp (cpu s)) - 4" using r(1) by (rule unat_esp_minus_4)
  then have "4 \<le> unat (x - (esp (cpu s) - 4))"
    using step_push.prems(2) r unat_u32 [of "esp (cpu s)"]
    by (intro unat_outside_window) (auto simp: word_le_nat_alt word_less_nat_alt)
  then show ?case by (simp add: t st32_outside)
qed (auto simp: stack_returned stack_ok_less)

lemma stack_steps_mem:
  assumes "stack_step\<^sup>*\<^sup>* s t" "stack_ok (cpu s)"
    and "x < stack_floor (cpu s) \<or> stack_ceiling (cpu s) \<le> x"
  shows "mem t x = mem s x"
  using assms(1)
proof (induction rule: rtranclp_induct)
  case (step t t')
  then have "stack_ok (cpu t)" "same_stack (cpu s) (cpu t)"
    using stack_steps_ok [OF step(1) assms(2)] by auto
  then show ?case using step assms(3) stack_step_mem [of t t' x] by (auto simp: same_stack_def)
qed simp

section \<open>The stack as a list of words\<close>

text \<open>The words between the stack pointer and the ceiling, most recent first.\<close>

fun words_at :: "mem \<Rightarrow> u32 \<Rightarrow> nat \<Rightarrow> u32 list" where
  "words_at m a 0 = []"
| "words_at m a (Suc n) = ld32 m a # words_at m (a + 4) n"

definition stack_words :: "machine \<Rightarrow> u32 list" where
  "stack_words s = words_at (mem s) (esp (cpu s))
     ((unat (stack_ceiling (cpu s)) - unat (esp (cpu s))) div 4)"

definition stack_room :: "machine \<Rightarrow> nat" where
  "stack_room s = (unat (esp (cpu s)) - unat (stack_floor (cpu s))) div 4"

lemma ld32_st32_below:
  assumes "unat a + 4 \<le> unat b" "unat b + 4 \<le> 2 ^ 32"
  shows "ld32 (st32 m a v) b = ld32 m b"
proof (rule cell32.ld_st_apart)
  have "4 \<le> unat (b - a)" using assms by (intro unat_outside_window) auto
  moreover have "4 \<le> unat (a - b)" using assms by (intro unat_outside_window) auto
  ultimately show "apart a 4 b 4" by (simp add: apart_def)
qed

lemma words_at_st32_below:
  assumes "unat a + 4 \<le> unat b" "unat b + 4 * n \<le> 2 ^ 32"
  shows "words_at (st32 m a v) b n = words_at m b n"
  using assms
proof (induction n arbitrary: b)
  case (Suc n)
  have "words_at (st32 m a v) (b + 4) n = words_at m (b + 4) n"
  proof (cases "n = 0")
    case False
    then have "unat (b + 4) = unat b + 4"
      using Suc.prems by (simp add: unat_word_ariths(1))
    then show ?thesis using Suc by simp
  qed simp
  then show ?case using Suc.prems by (simp add: ld32_st32_below)
qed simp

text \<open>
  The contract of a bounded last-in first-out stack: a push succeeds exactly when there is room,
  and items and room move together.
\<close>

locale bounded_stack =
  fixes push :: "'s \<Rightarrow> 'w \<Rightarrow> 's option"
    and pop :: "'s \<Rightarrow> ('w \<times> 's) option"
    and items :: "'s \<Rightarrow> 'w list"
    and room :: "'s \<Rightarrow> nat"
    and ok :: "'s \<Rightarrow> bool"
  assumes push_some: "ok s \<Longrightarrow> 0 < room s \<Longrightarrow>
      \<exists>t. push s v = Some t \<and> ok t \<and> items t = v # items s \<and> room t = room s - 1"
    and push_none: "ok s \<Longrightarrow> room s = 0 \<Longrightarrow> push s v = None"
    and pop_some: "ok s \<Longrightarrow> items s = v # vs \<Longrightarrow>
      \<exists>t. pop s = Some (v, t) \<and> ok t \<and> items t = vs \<and> room t = Suc (room s)"
    and pop_none: "ok s \<Longrightarrow> items s = [] \<Longrightarrow> pop s = None"
begin

fun push_all :: "'s \<Rightarrow> 'w list \<Rightarrow> 's option" where
  "push_all s [] = Some s"
| "push_all s (v # vs) = (case push s v of None \<Rightarrow> None | Some t \<Rightarrow> push_all t vs)"

fun pop_n :: "'s \<Rightarrow> nat \<Rightarrow> ('w list \<times> 's) option" where
  "pop_n s 0 = Some ([], s)"
| "pop_n s (Suc n) = (case pop s of None \<Rightarrow> None
     | Some (v, t) \<Rightarrow> (case pop_n t n of None \<Rightarrow> None | Some (vs, r) \<Rightarrow> Some (v # vs, r)))"

lemma push_all_some:
  "ok s \<Longrightarrow> length vs \<le> room s \<Longrightarrow>
   \<exists>t. push_all s vs = Some t \<and> ok t \<and> items t = rev vs @ items s \<and> room t = room s - length vs"
proof (induction vs arbitrary: s)
  case (Cons v vs)
  then obtain t where "push s v = Some t" "ok t" "items t = v # items s" "room t = room s - 1"
    using push_some [of s v] by auto
  then show ?case using Cons.IH [of t] Cons.prems by auto
qed simp

lemma push_all_none: "ok s \<Longrightarrow> room s < length vs \<Longrightarrow> push_all s vs = None"
proof (induction vs arbitrary: s)
  case (Cons v vs)
  show ?case
  proof (cases "room s = 0")
    case False
    then obtain t where "push s v = Some t" "ok t" "room t = room s - 1"
      using push_some [of s v] Cons.prems by auto
    then show ?thesis using Cons.IH [of t] Cons.prems False by auto
  qed (use Cons in \<open>simp add: push_none\<close>)
qed simp

lemma pop_n_some:
  "ok s \<Longrightarrow> items s = vs @ rest \<Longrightarrow>
   \<exists>t. pop_n s (length vs) = Some (vs, t) \<and> ok t \<and> items t = rest \<and> room t = room s + length vs"
proof (induction vs arbitrary: s)
  case (Cons v vs)
  then obtain t where "pop s = Some (v, t)" "ok t" "items t = vs @ rest" "room t = Suc (room s)"
    using pop_some [of s v "vs @ rest"] by auto
  then show ?case using Cons.IH [of t] by auto
qed simp

lemma push_pop_frame:
  assumes "ok s" "length vs \<le> room s"
  shows "\<exists>t u. push_all s vs = Some t \<and> pop_n t (length vs) = Some (rev vs, u) \<and>
    items u = items s \<and> room u = room s"
proof -
  obtain t where t: "push_all s vs = Some t" "ok t" "items t = rev vs @ items s"
    "room t = room s - length vs" using push_all_some [OF assms] by auto
  then show ?thesis using pop_n_some [of t "rev vs" "items s"] assms by auto
qed

end

text \<open>The provider: the checked push and pop of the runtime.\<close>

fun returned :: "'a outcome \<Rightarrow> ('a \<times> machine) option" where
  "returned (Returned x t) = Some (x, t)"
| "returned _ = None"

definition push_word :: "machine \<Rightarrow> u32 \<Rightarrow> machine option" where
  "push_word s v = map_option snd (returned (gpush s v))"

definition pop_word :: "machine \<Rightarrow> (u32 \<times> machine) option" where
  "pop_word s = returned (gpop s)"

definition machine_ok :: "machine \<Rightarrow> bool" where
  "machine_ok s = stack_ok (cpu s)"

lemma returned_Some_iff: "returned r = Some (x, t) \<longleftrightarrow> r = Returned x t"
  by (cases r) auto

lemma returned_None_iff: "returned r = None \<longleftrightarrow> (\<forall>x t. r \<noteq> Returned x t)"
  by (cases r) auto

lemma gpush_law:
  assumes ok: "stack_ok (cpu s)" and room: "0 < stack_room s"
  shows "\<exists>t. gpush s v = Returned () t \<and> stack_ok (cpu t) \<and> stack_words t = v # stack_words s \<and>
    stack_room t = stack_room s - 1"
proof -
  let ?e = "esp (cpu s)" and ?f = "stack_floor (cpu s)" and ?c = "stack_ceiling (cpu s)"
  have r: "unat ?f + 4 \<le> unat ?e" using room unfolding stack_room_def by (simp add: div_greater_zero_iff)
  have ce: "unat ?e \<le> unat ?c" using stack_ok_ceiling [OF ok] by (simp add: word_le_nat_alt)
  define t where "t = s\<lparr>cpu := guest_stack_note_low ((cpu s)\<lparr>esp := ?e - 4\<rparr>) (?e - 4),
         mem := st32 (mem s) (?e - 4) v\<rparr>"
  have g: "gpush s v = Returned () t" unfolding gpush_def
    using ok r stack_ok_ceiling [OF ok] by (simp add: gpush_at_returned stack_ok_less stack_ok_fast t_def)
  then have okt: "stack_ok (cpu t)"
    using stack_step_ok [OF step_push] ok unfolding gpush_def by blast
  have u: "unat (?e - 4) = unat ?e - 4" using r by (rule unat_esp_minus_4)
  have n: "(unat ?c - (unat ?e - 4)) div 4 = Suc ((unat ?c - unat ?e) div 4)"
  proof -
    have "unat ?c - (unat ?e - 4) = 4 + (unat ?c - unat ?e)" using r ce by linarith
    then show ?thesis by simp
  qed
  have "words_at (st32 (mem s) (?e - 4) v) ?e ((unat ?c - unat ?e) div 4)
      = words_at (mem s) ?e ((unat ?c - unat ?e) div 4)"
    using u r ce unat_u32 [of ?c] by (intro words_at_st32_below) auto
  then have w: "stack_words t = v # stack_words s"
    by (simp add: stack_words_def t_def u n cell32.ld_st_same)
  have "(unat ?e - 4 - unat ?f) div 4 = (unat ?e - unat ?f) div 4 - 1"
    using r le_div_geq [of 4 "unat ?e - unat ?f"] by (simp add: diff_right_commute)
  then have "stack_room t = stack_room s - 1" by (simp add: stack_room_def t_def u)
  then show ?thesis using g okt w by blast
qed

lemma gpush_no_room: "stack_ok (cpu s) \<Longrightarrow> stack_room s = 0 \<Longrightarrow> gpush s v \<noteq> Returned u t"
  using stack_ok_floor [of "cpu s"]
  by (auto simp: gpush_def gpush_at_returned stack_ok_less stack_room_def word_le_nat_alt div_eq_0_iff)

lemma gpop_law:
  assumes ok: "stack_ok (cpu s)" and w: "stack_words s = v # vs"
  shows "\<exists>t. gpop s = Returned v t \<and> stack_ok (cpu t) \<and> stack_words t = vs \<and>
    stack_room t = Suc (stack_room s)"
proof -
  let ?e = "esp (cpu s)" and ?f = "stack_floor (cpu s)" and ?c = "stack_ceiling (cpu s)"
  obtain n where n: "(unat ?c - unat ?e) div 4 = Suc n"
    using w unfolding stack_words_def by (cases "(unat ?c - unat ?e) div 4") auto
  then have r: "unat ?e + 4 \<le> unat ?c" by (cases "unat ?c - unat ?e < 4") auto
  have fe: "unat ?f \<le> unat ?e" using stack_ok_floor [OF ok] by (simp add: word_le_nat_alt)
  define t where "t = upd_cpu (\<lambda>c. c\<lparr>esp := esp c + 4\<rparr>) s"
  have v: "v = ld32 (mem s) ?e" "vs = words_at (mem s) (?e + 4) n"
    using w n by (simp_all add: stack_words_def)
  have g: "gpop s = Returned v t" unfolding gpop_def
    using ok r fe v by (simp add: gpop_at_returned stack_ok_less stack_ok_fast t_def)
  then have okt: "stack_ok (cpu t)"
    using stack_step_ok [OF step_pop] ok unfolding gpop_def by blast
  have u: "unat (?e + 4) = unat ?e + 4" using unat_esp_plus [of ?e 4 ?c] r by simp
  have "(unat ?c - (unat ?e + 4)) div 4 = n" using n by (simp add: le_div_geq r)
  then have "stack_words t = vs" by (simp add: stack_words_def t_def u v)
  moreover have "stack_room t = Suc (stack_room s)"
    using fe by (simp add: stack_room_def t_def u Suc_diff_le le_div_geq)
  ultimately show ?thesis using g okt by blast
qed

lemma gpop_empty: "stack_ok (cpu s) \<Longrightarrow> stack_words s = [] \<Longrightarrow> gpop s \<noteq> Returned v t"
proof -
  assume ok: "stack_ok (cpu s)" and "stack_words s = []"
  then have "(unat (stack_ceiling (cpu s)) - unat (esp (cpu s))) div 4 = 0"
    unfolding stack_words_def
    by (cases "(unat (stack_ceiling (cpu s)) - unat (esp (cpu s))) div 4") auto
  then show ?thesis
    by (auto simp: gpop_def gpop_at_returned stack_ok_less [OF ok] div_eq_0_iff)
qed

interpretation guest_stack: bounded_stack push_word pop_word stack_words stack_room machine_ok
proof unfold_locales
  fix s v assume "machine_ok s" "0 < stack_room s"
  then show "\<exists>t. push_word s v = Some t \<and> machine_ok t \<and> stack_words t = v # stack_words s \<and>
      stack_room t = stack_room s - 1"
    using gpush_law [of s v] by (auto simp: push_word_def machine_ok_def)
next
  fix s v assume "machine_ok s" "stack_room s = 0"
  then show "push_word s v = None"
    by (simp add: push_word_def machine_ok_def returned_None_iff gpush_no_room)
next
  fix s v vs assume "machine_ok s" "stack_words s = v # vs"
  then show "\<exists>t. pop_word s = Some (v, t) \<and> machine_ok t \<and> stack_words t = vs \<and>
      stack_room t = Suc (stack_room s)"
    using gpop_law [of s v vs] by (auto simp: pop_word_def machine_ok_def)
next
  fix s assume "machine_ok s" "stack_words s = []"
  then show "pop_word s = None"
    by (simp add: pop_word_def machine_ok_def returned_None_iff gpop_empty)
qed


section \<open>Argument frames\<close>

text \<open>The translated call sequence: pushes one after the other, stopping at the first rejection.\<close>

fun gpush_list :: "machine \<Rightarrow> u32 list \<Rightarrow> unit outcome" where
  "gpush_list s [] = Returned () s"
| "gpush_list s (v # vs) = and_then (gpush s v) (\<lambda>_ t. gpush_list t vs)"

fun gpop_list :: "machine \<Rightarrow> nat \<Rightarrow> u32 list outcome" where
  "gpop_list s 0 = Returned [] s"
| "gpop_list s (Suc n) =
     and_then (gpop s) (\<lambda>v t. and_then (gpop_list t n) (\<lambda>vs u. Returned (v # vs) u))"

lemma gpush_list_returned:
  "returned (gpush_list s vs) = map_option (Pair ()) (guest_stack.push_all s vs)"
proof (induction vs arbitrary: s)
  case (Cons v vs)
  have "push_word s v = map_option snd (returned (gpush s v))" by (simp add: push_word_def)
  then show ?case using Cons by (cases "gpush s v") simp_all
qed simp

lemma gpop_list_returned: "returned (gpop_list s n) = guest_stack.pop_n s n"
proof (induction n arbitrary: s)
  case (Suc n)
  have p: "pop_word s = returned (gpop s)" by (simp add: pop_word_def)
  show ?case
  proof (cases "gpop s")
    case (Returned v t)
    then show ?thesis using p by (cases "gpop_list t n") (simp_all flip: Suc)
  qed (use p in simp_all)
qed simp

lemma returned_violation [simp]:
  "returned (guest_stack_violation s pc k a n :: 'a outcome) = None"
  "returned (guest_stack_native_violation s ns k a n :: 'a outcome) = None"
  "returned (guest_stack_owner_violation s pc :: 'a outcome) = None"
  "returned (guest_stack_native_owner_violation s ns :: 'a outcome) = None"
  by (simp_all add: returned_None_iff)

section \<open>Properties\<close>

text \<open>A bound context for the examples: a stack of 32 bytes at \<open>0x1000\<close>.\<close>

definition example_machine :: machine where
  "example_machine =
     \<lparr>cpu = snd (guest_stack_bind (guest_cpu_init 7) 0x1000 0x1020), mem = (\<lambda>_. 0),
      sites = (\<lambda>_. \<lparr>previous = None, site_env = 0, site_esp = 0, site_eip = 0,
                      site_registration = 0\<rparr>), g_fault_count = 0\<rparr>"

lemma example_machine_ok: "stack_ok (cpu example_machine)"
  by (simp add: example_machine_def guest_stack_bind_def guest_cpu_init_def stack_ok_def
      guest_stack_is_bound_def)

lemma example_machine_sel [simp]:
  "esp (cpu example_machine) = 0x1020" "stack_floor (cpu example_machine) = 0x1000"
  "stack_ceiling (cpu example_machine) = 0x1020"
  by (simp_all add: example_machine_def guest_stack_bind_def guest_cpu_init_def)

text \<open>
  C3: from a well-formed bound context, any sequence of checked stack operations keeps the
  context bound to the same interval with its pointer and low-water mark inside it, and never
  changes a byte of guest memory outside the interval.
\<close>

theorem stack_containment:
  assumes "stack_ok (cpu s)" "stack_step\<^sup>*\<^sup>* s t"
  shows "stack_ok (cpu t) \<and> same_stack (cpu s) (cpu t) \<and>
    (\<forall>x. x < stack_floor (cpu s) \<or> stack_ceiling (cpu s) \<le> x \<longrightarrow> mem t x = mem s x)"
  using stack_steps_ok [OF assms(2,1)] stack_steps_mem [OF assms(2,1)] by blast

theorem stack_containment_witness:
  "\<exists>t. gpush_at example_machine 5 0 = Returned () t \<and> esp (cpu t) = 0x101C \<and>
       stack_ok (cpu t) \<and> mem t 0x1020 = 0"
proof -
  obtain t where t: "gpush_at example_machine 5 0 = Returned () t" "esp (cpu t) = 0x101C"
    using example_machine_ok
    by (simp add: gpush_at_returned stack_ok_fast)
  then have "stack_step\<^sup>*\<^sup>* example_machine t" by (auto intro: step_push)
  from stack_containment [OF example_machine_ok this]
  have "stack_ok (cpu t)" "mem t 0x1020 = mem example_machine 0x1020" by auto
  then show ?thesis using t by (auto simp: example_machine_def)
qed

text \<open>
  C4: a checked access is admitted exactly when it is non-empty and lies in the bound interval
  over the naturals, so that no wrapped address or size is ever accepted; the inline containment
  test decides the same.
\<close>

theorem stack_address_exact:
  assumes "stack_ok (cpu s)"
  shows "((\<exists>t. guest_stack_address s a n pc = Returned a t) \<longleftrightarrow>
      0 < unat n \<and> unat (stack_floor (cpu s)) \<le> unat a \<and>
      unat a + unat n \<le> unat (stack_ceiling (cpu s))) \<and>
    (guest_stack_contains (cpu s) a n \<longleftrightarrow> (\<exists>t. guest_stack_address s a n pc = Returned a t))"
proof (intro conjI)
  have l: "stack_floor (cpu s) < stack_ceiling (cpu s)" using assms by (rule stack_ok_less)
  show 1: "(\<exists>t. guest_stack_address s a n pc = Returned a t) \<longleftrightarrow>
      0 < unat n \<and> unat (stack_floor (cpu s)) \<le> unat a \<and>
      unat a + unat n \<le> unat (stack_ceiling (cpu s))"
    using assms l by (simp add: guest_stack_address_returned stack_ok_fast)
  let ?c = "stack_ceiling (cpu s)" and ?f = "stack_floor (cpu s)"
  have fc: "?f \<le> ?c" using l by simp
  have cf: "unat (?c - ?f) = unat ?c - unat ?f" using fc by (rule unat_sub)
  have "n \<le> ?c - ?f \<Longrightarrow> unat (?c - n) = unat ?c - unat n"
    using cf by (intro unat_sub) (simp add: word_le_nat_alt)
  then show "guest_stack_contains (cpu s) a n \<longleftrightarrow>
      (\<exists>t. guest_stack_address s a n pc = Returned a t)"
    unfolding 1 using assms cf fc
    by (auto simp: guest_stack_contains_def stack_ok_def Let_def word_le_nat_alt unat_gt_0)
qed

theorem stack_address_exact_witness:
  "(\<exists>t. guest_stack_address example_machine 0x101C 4 0 = Returned 0x101C t) \<and>
   \<not> (\<exists>t. guest_stack_address example_machine 0x101D 4 0 = Returned 0x101D t) \<and>
   \<not> (\<exists>t. guest_stack_address example_machine 0xFFFFFFFE 0x1010 0 = Returned 0xFFFFFFFE t)"
  using stack_address_exact [OF example_machine_ok, of "0x101C" 4 0]
    stack_address_exact [OF example_machine_ok, of "0x101D" 4 0]
    stack_address_exact [OF example_machine_ok, of "0xFFFFFFFE" "0x1010" 0] by simp

text \<open>
  C5: an argument frame that fits is pushed, leaves the caller's words below it untouched, and
  is popped back in reverse order, restoring pointer and words; a frame that does not fit is
  rejected.
\<close>

theorem frame_roundtrip:
  assumes "stack_ok (cpu s)"
  shows "(length vs \<le> stack_room s \<longrightarrow>
      (\<exists>t u. gpush_list s vs = Returned () t \<and> stack_words t = rev vs @ stack_words s \<and>
         gpop_list t (length vs) = Returned (rev vs) u \<and> stack_words u = stack_words s)) \<and>
    (stack_room s < length vs \<longrightarrow> (\<forall>u t. gpush_list s vs \<noteq> Returned u t))"
proof (rule conjI)
  have ok: "machine_ok s" using assms by (simp add: machine_ok_def)
  show "length vs \<le> stack_room s \<longrightarrow>
      (\<exists>t u. gpush_list s vs = Returned () t \<and> stack_words t = rev vs @ stack_words s \<and>
         gpop_list t (length vs) = Returned (rev vs) u \<and> stack_words u = stack_words s)"
  proof
    assume l: "length vs \<le> stack_room s"
    then obtain t where t: "guest_stack.push_all s vs = Some t" "machine_ok t"
      "stack_words t = rev vs @ stack_words s" using guest_stack.push_all_some [OF ok] by blast
    then obtain u where "guest_stack.pop_n t (length vs) = Some (rev vs, u)"
      "stack_words u = stack_words s" using guest_stack.pop_n_some [OF t(2,3)] by auto
    then show "\<exists>t u. gpush_list s vs = Returned () t \<and> stack_words t = rev vs @ stack_words s \<and>
         gpop_list t (length vs) = Returned (rev vs) u \<and> stack_words u = stack_words s"
      using t gpush_list_returned [of s vs] gpop_list_returned [of t "length vs"]
      by (auto simp: returned_Some_iff)
  qed
  show "stack_room s < length vs \<longrightarrow> (\<forall>u t. gpush_list s vs \<noteq> Returned u t)"
    using guest_stack.push_all_none [OF ok, of vs] gpush_list_returned [of s vs]
    by (auto simp: returned_None_iff)
qed

theorem frame_roundtrip_witness:
  "\<exists>t u. gpush_list example_machine [1, 2, 3] = Returned () t \<and>
     gpop_list t (length [1::u32, 2, 3]) = Returned [3, 2, 1] u"
proof -
  have "length [1::u32, 2, 3] \<le> stack_room example_machine" by (simp add: stack_room_def)
  moreover have "rev [1, 2, 3] = [3, 2, 1 :: u32]" by simp
  ultimately show ?thesis
    using frame_roundtrip [OF example_machine_ok, of "[1, 2, 3]"] by metis
qed

text \<open>
  C6: the variants agree.  On a bound context the host build's inline operations are the
  required ones; the generated twins return exactly when, and exactly what, the required
  operations return.
\<close>

theorem stack_variants_agree:
  "returned (gpush_generated s v ns) = returned (gpush_at s v pc) \<and>
   returned (gpop_generated s ns) = returned (gpop_at s pc) \<and>
   returned (guest_stack_set_generated s v ns) = returned (guest_stack_set s v pc) \<and>
   returned (guest_stack_adjust_generated s n ns) = returned (guest_stack_adjust s n pc) \<and>
   returned (guest_stack_address_generated s a n ns) = returned (guest_stack_address s a n pc) \<and>
   (guest_stack_fast_bound (cpu s) \<longrightarrow>
     gpush_at_host s v pc = gpush_at s v pc \<and> gpop_at_host s pc = gpop_at s pc \<and>
     guest_stack_set_host s v pc = guest_stack_set s v pc \<and>
     guest_stack_adjust_host s n pc = guest_stack_adjust s n pc \<and>
     guest_stack_address_host s a n pc = guest_stack_address s a n pc)"
proof (intro conjI impI)
  show "returned (gpush_generated s v ns) = returned (gpush_at s v pc)"
    by (simp add: gpush_generated_def gpush_at_def Let_def)
  show "returned (gpop_generated s ns) = returned (gpop_at s pc)"
    by (simp add: gpop_generated_def gpop_at_def Let_def)
  show "returned (guest_stack_set_generated s v ns) = returned (guest_stack_set s v pc)"
    by (simp add: guest_stack_set_generated_def guest_stack_set_def Let_def)
  show "returned (guest_stack_adjust_generated s n ns) = returned (guest_stack_adjust s n pc)"
    by (simp add: guest_stack_adjust_generated_def guest_stack_adjust_def Let_def)
  show "returned (guest_stack_address_generated s a n ns) =
      returned (guest_stack_address s a n pc)"
    by (simp add: guest_stack_address_generated_def guest_stack_address_def Let_def)
  assume b: "guest_stack_fast_bound (cpu s)"
  then have g: "guest_stack_legacy_guard s pc = Returned True s"
    by (auto simp: guest_stack_legacy_guard_def guest_stack_fast_bound_def Let_def)
  show "gpush_at_host s v pc = gpush_at s v pc"
    using b g by (simp add: gpush_at_host_def gpush_at_def Let_def)
  show "gpop_at_host s pc = gpop_at s pc"
    using b g by (simp add: gpop_at_host_def gpop_at_def Let_def)
  show "guest_stack_set_host s v pc = guest_stack_set s v pc"
    using b g by (simp add: guest_stack_set_host_def guest_stack_set_def Let_def)
  show "guest_stack_adjust_host s n pc = guest_stack_adjust s n pc"
    using b g by (simp add: guest_stack_adjust_host_def guest_stack_adjust_def Let_def)
  show "guest_stack_address_host s a n pc = guest_stack_address s a n pc"
    using b g by (simp add: guest_stack_address_host_def guest_stack_address_def Let_def)
qed

theorem stack_variants_agree_witness:
  "gpush_at_host example_machine 5 0 = gpush_at example_machine 5 0"
proof -
  have "guest_stack_fast_bound (cpu example_machine)"
    using example_machine_ok by (rule stack_ok_fast)
  then show ?thesis using stack_variants_agree [of example_machine 5 0 0] by blast
qed

definition no_stack :: "CPU \<Rightarrow> bool" where
  "no_stack c \<longleftrightarrow> stack_owner c = None \<and> stack_floor c = 0 \<and> stack_ceiling c = 0 \<and>
     stack_low_water c = 0"

text \<open>
  C7: the stack's life cycle.  Initialising a fresh context over an allocation that fits the
  address space yields a well-formed, full-size stack between two margins of a page each and is refused
  while a stack is live; releasing it unbinds the context and allows a new one; a context that
  does not own the live stack cannot release it.
\<close>

theorem stack_lifecycle:
  "g_stack_mem g = None \<and> no_stack c \<and> unat base + 2 ^ 22 < 2 ^ 32 \<longrightarrow>
     (\<exists>c1 g1. guest_stack_init (Some base) c g = (True, c1, g1) \<and> stack_ok c1 \<and>
        esp c1 = base + 0x3FF000 \<and> stack_floor c1 = base + 0x1000 \<and>
        guest_stack_capacity c1 = 0x3FE000 \<and> guest_stack_high_water c1 = 0 \<and>
        (\<forall>q. guest_stack_init q c1 g1 = (False, c1, g1)) \<and>
        (\<forall>d. cpu_id d \<noteq> cpu_id c \<longrightarrow> guest_stack_free d g1 = (d, g1)) \<and>
        no_stack (fst (guest_stack_free c1 g1)) \<and>
        g_stack_mem (snd (guest_stack_free c1 g1)) = None)"
proof
  assume a: "g_stack_mem g = None \<and> no_stack c \<and> unat base + 2 ^ 22 < 2 ^ 32"
  let ?lo = "base + 0x1000" and ?hi = "base + 0x3FF000"
  have lo: "unat ?lo = unat base + 0x1000" and hi: "unat ?hi = unat base + 0x3FF000"
    using a by (simp_all add: unat_word_ariths(1))
  have fit: "\<not> base > 0xFFFFFFFF - GUEST_STACK_SIZE"
    using a by (simp add: GUEST_STACK_SIZE_def word_less_nat_alt)
  have lt: "?lo < ?hi" using lo hi by (simp add: word_less_nat_alt)
  have span: "\<not> ?hi - ?lo < 4" by simp
  have h: "base + GUEST_STACK_SIZE - 4096 = ?hi" by (simp add: GUEST_STACK_SIZE_def)
  have big: "\<not> GUEST_STACK_SIZE \<le> 4096 + 4096" by (simp add: GUEST_STACK_SIZE_def)
  obtain c2 where b: "guest_stack_bind c ?lo ?hi = (True, c2)"
    and c2: "stack_ok c2" "esp c2 = ?hi" "stack_floor c2 = ?lo" "stack_ceiling c2 = ?hi"
     "stack_low_water c2 = ?hi" "cpu_id c2 = cpu_id c" "stack_owner c2 = Some (cpu_id c)"
    using a lt span
    by (auto simp: guest_stack_bind_def no_stack_def stack_ok_def guest_stack_is_bound_def)
  obtain b1 c1 g1 where i: "guest_stack_init (Some base) c g = (b1, c1, g1)"
    by (cases "guest_stack_init (Some base) c g")
  have c1: "b1" "stack_ok c1" "esp c1 = ?hi" "stack_floor c1 = ?lo" "stack_ceiling c1 = ?hi"
     "stack_low_water c1 = ?hi" "cpu_id c1 = cpu_id c" "stack_owner c1 = Some (cpu_id c)"
     "g_stack_mem g1 = Some base" "g_stack_owner g1 = Some (cpu_id c)"
    using i a fit big c2
    by (auto simp: guest_stack_init_def h b Let_def stack_ok_def guest_stack_is_bound_def)
  show "\<exists>c1 g1. guest_stack_init (Some base) c g = (True, c1, g1) \<and> stack_ok c1 \<and>
        esp c1 = base + 0x3FF000 \<and> stack_floor c1 = base + 0x1000 \<and>
        guest_stack_capacity c1 = 0x3FE000 \<and> guest_stack_high_water c1 = 0 \<and>
        (\<forall>q. guest_stack_init q c1 g1 = (False, c1, g1)) \<and>
        (\<forall>d. cpu_id d \<noteq> cpu_id c \<longrightarrow> guest_stack_free d g1 = (d, g1)) \<and>
        no_stack (fst (guest_stack_free c1 g1)) \<and>
        g_stack_mem (snd (guest_stack_free c1 g1)) = None"
  proof (intro exI conjI allI impI)
    show "guest_stack_init (Some base) c g = (True, c1, g1)" using i c1(1) by simp
  qed (use c1 in \<open>auto simp: guest_stack_capacity_def guest_stack_high_water_def stack_ok_def
       guest_stack_init_def guest_stack_free_def no_stack_def\<close>)
qed

theorem stack_lifecycle_witness:
  "\<exists>c1 g1. guest_stack_init (Some 0x70000000) (guest_cpu_init 7)
      \<lparr>g_stack_mem = None, g_stack_owner = None, g_stack_base = 0, g_stack_top = 0,
       g_guest_fs_base_cached = 0\<rparr> = (True, c1, g1) \<and> stack_ok c1"
  using stack_lifecycle
    [of "\<lparr>g_stack_mem = None, g_stack_owner = None, g_stack_base = 0, g_stack_top = 0,
         g_guest_fs_base_cached = 0\<rparr>" "guest_cpu_init 7" "0x70000000"]
  by (auto simp: no_stack_def guest_cpu_init_def)

text \<open>
  C8: a top-level run scope always closes.  A run on a CPU whose scope is already open is
  refused and changes nothing; any other run that comes back leaves the scope closed with no
  saved jump site, and reports a fault when the entry faulted or came back with a saved site.
\<close>

theorem run_scope_closes:
  "(run_scope (cpu s) \<longrightarrow> guest_run_until_stop entry s = Returned GUEST_RUN_INVALID s) \<and>
   (\<not> run_scope (cpu s) \<and> guest_run_until_stop entry s = Returned r t \<longrightarrow>
     \<not> run_scope (cpu t) \<and> jump_sites (cpu t) = None \<and> r = stop_kind (cpu t)) \<and>
   (\<not> run_scope (cpu s) \<and> entry (upd_cpu run_reset s) = Returned () u \<and>
     run_scope (cpu u) \<and> jump_sites (cpu u) \<noteq> None \<longrightarrow>
     (\<exists>t. guest_run_until_stop entry s = Returned GUEST_RUN_FAULT t)) \<and>
   (\<not> run_scope (cpu s) \<and> entry (upd_cpu run_reset s) = guest_fault u a w \<and> run_scope (cpu u) \<longrightarrow>
     (\<exists>t. guest_run_until_stop entry s = Returned GUEST_RUN_FAULT t \<and>
        fault (cpu t) = Some w \<and> fault_addr (cpu t) = a))"
  by (intro conjI; auto simp: guest_run_until_stop_def run_close_def guest_fault_def Let_def
      split: outcome.splits if_splits)

theorem run_scope_closes_witness:
  "\<exists>t. guest_run_until_stop (\<lambda>s. guest_fault s 0x401000 ''stop'') example_machine =
     Returned GUEST_RUN_FAULT t \<and> fault (cpu t) = Some ''stop'' \<and> fault_addr (cpu t) = 0x401000"
  using run_scope_closes [where u = "upd_cpu run_reset example_machine" and s = example_machine
      and entry = "\<lambda>s. guest_fault s 0x401000 ''stop''" and a = "0x401000" and w = "''stop''"]
  by (simp add: example_machine_def guest_stack_bind_def guest_cpu_init_def run_reset_def)

end
