(* ===== verification/Manager_Sha256.thy ===== *)
theory Manager_Sha256 imports Prelude begin

text \<open>
  The streaming SHA-256 of the save manager (\<open>vita/manager_sha256.c\<close>): the context, the block
  transform, and init, update and final.  The reference definition hashes the padded message
  block by block; the streaming code is proved to compute it however the message is cut.
\<close>

unbundle bit_operations_syntax

section \<open>The implementation\<close>

definition manager_sha256_rotr :: "u32 \<Rightarrow> nat \<Rightarrow> u32" where
  "manager_sha256_rotr value count = (drop_bit count value) OR (push_bit (32 - count) value)"

definition manager_sha256_load_be32 :: "u8 list \<Rightarrow> u32" where
  "manager_sha256_load_be32 d =
     (push_bit 24 (ucast (d ! 0)) OR push_bit 16 (ucast (d ! 1)) OR
      push_bit 8 (ucast (d ! 2)) OR ucast (d ! 3))"

definition constants :: "u32 list" where
  "constants = concat [
    [0x428a2f98, 0x71374491, 0xb5c0fbcf, 0xe9b5dba5],
    [0x3956c25b, 0x59f111f1, 0x923f82a4, 0xab1c5ed5],
    [0xd807aa98, 0x12835b01, 0x243185be, 0x550c7dc3],
    [0x72be5d74, 0x80deb1fe, 0x9bdc06a7, 0xc19bf174],
    [0xe49b69c1, 0xefbe4786, 0x0fc19dc6, 0x240ca1cc],
    [0x2de92c6f, 0x4a7484aa, 0x5cb0a9dc, 0x76f988da],
    [0x983e5152, 0xa831c66d, 0xb00327c8, 0xbf597fc7],
    [0xc6e00bf3, 0xd5a79147, 0x06ca6351, 0x14292967],
    [0x27b70a85, 0x2e1b2138, 0x4d2c6dfc, 0x53380d13],
    [0x650a7354, 0x766a0abb, 0x81c2c92e, 0x92722c85],
    [0xa2bfe8a1, 0xa81a664b, 0xc24b8b70, 0xc76c51a3],
    [0xd192e819, 0xd6990624, 0xf40e3585, 0x106aa070],
    [0x19a4c116, 0x1e376c08, 0x2748774c, 0x34b0bcb5],
    [0x391c0cb3, 0x4ed8aa4a, 0x5b9cca4f, 0x682e6ff3],
    [0x748f82ee, 0x78a5636f, 0x84c87814, 0x8cc70208],
    [0x90befffa, 0xa4506ceb, 0xbef9a3f7, 0xc67178f2]]"

text \<open>The message schedule: sixteen loads, then forty-eight derived words.\<close>

definition schedule_word :: "u32 list \<Rightarrow> nat \<Rightarrow> u32" where
  "schedule_word words index =
     (let x = words ! (index - 15); y = words ! (index - 2);
          s0 = manager_sha256_rotr x 7 XOR manager_sha256_rotr x 18 XOR drop_bit 3 x;
          s1 = manager_sha256_rotr y 17 XOR manager_sha256_rotr y 19 XOR drop_bit 10 y
      in words ! (index - 16) + s0 + words ! (index - 7) + s1)"

definition schedule :: "u8 list \<Rightarrow> u32 list" where
  "schedule block =
     fold (\<lambda>index words. words @ [schedule_word words index]) [16..<64]
       (map (\<lambda>index. manager_sha256_load_be32 (drop (index * 4) block)) [0..<16])"

type_synonym work = "u32 \<times> u32 \<times> u32 \<times> u32 \<times> u32 \<times> u32 \<times> u32 \<times> u32"

fun sha_round :: "u32 \<Rightarrow> u32 \<Rightarrow> work \<Rightarrow> work" where
  "sha_round k w (a, b, c, d, e, f, g, h) =
     (let sum1 = manager_sha256_rotr e 6 XOR manager_sha256_rotr e 11 XOR manager_sha256_rotr e 25;
          chosen = (e AND f) XOR ((NOT e) AND g);
          temporary1 = h + sum1 + chosen + k + w;
          sum0 = manager_sha256_rotr a 2 XOR manager_sha256_rotr a 13 XOR manager_sha256_rotr a 22;
          majority = (a AND b) XOR (a AND c) XOR (b AND c);
          temporary2 = sum0 + majority
      in (temporary1 + temporary2, a, b, c, d + temporary1, e, f, g))"

definition load_work :: "u32 list \<Rightarrow> work" where
  "load_work s = (s ! 0, s ! 1, s ! 2, s ! 3, s ! 4, s ! 5, s ! 6, s ! 7)"

fun add_work :: "u32 list \<Rightarrow> work \<Rightarrow> u32 list" where
  "add_work s (a, b, c, d, e, f, g, h) =
     [s ! 0 + a, s ! 1 + b, s ! 2 + c, s ! 3 + d, s ! 4 + e, s ! 5 + f, s ! 6 + g, s ! 7 + h]"

definition manager_sha256_transform :: "u32 list \<Rightarrow> u8 list \<Rightarrow> u32 list" where
  "manager_sha256_transform s block =
     (let words = schedule block
      in add_work s (fold (\<lambda>index. sha_round (constants ! index) (words ! index)) [0..<64]
                       (load_work s)))"

record manager_sha256_context =
  sha_state :: "u32 list"
  byte_count :: u64
  block :: "u8 list"
  block_size :: nat

definition initial :: "u32 list" where
  "initial = [0x6a09e667, 0xbb67ae85, 0x3c6ef372, 0xa54ff53a,
              0x510e527f, 0x9b05688c, 0x1f83d9ab, 0x5be0cd19]"

text \<open>\<open>init\<close> leaves the block buffer as it finds it.\<close>

definition manager_sha256_init :: "manager_sha256_context \<Rightarrow> manager_sha256_context" where
  "manager_sha256_init c = c\<lparr>sha_state := initial, byte_count := 0, block_size := 0\<rparr>"

text \<open>
  The copy loop of \<open>update\<close>.  The buffer position never exceeds the 64-byte buffer; for a
  position beyond it the C code is undefined, and the model stops.
\<close>

function update_loop :: "manager_sha256_context \<Rightarrow> u8 list \<Rightarrow> manager_sha256_context" where
  "update_loop c data =
     (if data = [] \<or> block_size c > 64 then c
      else let available = 64 - block_size c;
               amount = (if length data < available then length data else available);
               c1 = c\<lparr>block := take (block_size c) (block c) @ take amount data @
                               drop (block_size c + amount) (block c),
                       block_size := block_size c + amount\<rparr>;
               c2 = (if block_size c1 = 64
                     then c1\<lparr>sha_state := manager_sha256_transform (sha_state c1) (block c1),
                             block_size := 0\<rparr>
                     else c1)
           in update_loop c2 (drop amount data))"
  by pat_completeness auto
termination
  by (relation "measure (\<lambda>(c, data). 2 * length data + (if block_size c = 64 then 1 else 0))")
    (auto simp: Let_def)

declare update_loop.simps [simp del]

definition manager_sha256_update ::
    "manager_sha256_context \<Rightarrow> u8 list \<Rightarrow> manager_sha256_context" where
  "manager_sha256_update c data =
     update_loop (c\<lparr>byte_count := byte_count c + of_nat (length data)\<rparr>) data"

definition be32_bytes :: "u32 \<Rightarrow> u8 list" where
  "be32_bytes w = [ucast (drop_bit 24 w), ucast (drop_bit 16 w), ucast (drop_bit 8 w), ucast w]"

definition be64_bytes :: "u64 \<Rightarrow> u8 list" where
  "be64_bytes w = map (\<lambda>index. ucast (drop_bit (56 - index * 8) w)) [0..<8]"

definition manager_sha256_final :: "manager_sha256_context \<Rightarrow> u8 list" where
  "manager_sha256_final c =
     (let bit_count = byte_count c * 8;
          padding = (if block_size c < 56 then 56 - block_size c else 120 - block_size c);
          tail = [0x80] @ replicate (padding - 1) 0 @ be64_bytes bit_count;
          c1 = manager_sha256_update c tail
      in concat (map (\<lambda>index. be32_bytes (sha_state c1 ! index)) [0..<8]))"

section \<open>The reference definition\<close>

fun chunks :: "nat \<Rightarrow> 'a list \<Rightarrow> 'a list list" where
  "chunks 0 xs = []"
| "chunks (Suc n) xs = take 64 xs # chunks n (drop 64 xs)"

definition sha256_pad :: "u8 list \<Rightarrow> u8 list" where
  "sha256_pad m = m @ [0x80] @ replicate ((119 - length m mod 64) mod 64) 0 @
     be64_bytes (of_nat (8 * length m))"

definition compress_all :: "u8 list \<Rightarrow> u32 list" where
  "compress_all m =
     fold (\<lambda>blk s. manager_sha256_transform s blk) (chunks (length m div 64) m) initial"

definition sha256 :: "u8 list \<Rightarrow> u8 list" where
  "sha256 m = concat (map (\<lambda>index. be32_bytes (compress_all (sha256_pad m) ! index)) [0..<8])"

section \<open>The streaming invariant\<close>

definition absorbed :: "manager_sha256_context \<Rightarrow> u8 list \<Rightarrow> bool" where
  "absorbed c m \<longleftrightarrow> sha_state c = compress_all m \<and> length (block c) = 64 \<and>
     block_size c = length m mod 64 \<and>
     take (block_size c) (block c) = drop (64 * (length m div 64)) m"

lemma chunks_append: "length xs = 64 * n \<Longrightarrow> chunks (n + k) (xs @ ys) = chunks n xs @ chunks k ys"
proof (induction n arbitrary: xs)
  case (Suc n)
  then show ?case by (simp add: Suc.IH [of "drop 64 xs"])
qed simp

lemma chunks_take: "chunks n (take (64 * n) xs) = chunks n xs"
proof (induction n arbitrary: xs)
  case (Suc n)
  have "drop 64 (take (64 * Suc n) xs) = take (64 * n) (drop 64 xs)" by (simp add: drop_take)
  then show ?case using Suc by (simp add: min_def)
qed simp

lemma compress_all_partial:
  "length b < 64 \<Longrightarrow> length a mod 64 = 0 \<Longrightarrow> compress_all (a @ b) = compress_all a"
proof -
  assume b: "length b < 64" and a: "length a mod 64 = 0"
  then obtain n where n: "length a = 64 * n" by (metis mult.commute mod_0_imp_dvd dvdE)
  have "chunks (n + 0) (a @ b) = chunks n a" using chunks_append [OF n, of 0 b] by simp
  then show ?thesis using n b by (simp add: compress_all_def)
qed

lemma compress_all_block:
  "length b = 64 \<Longrightarrow> length a mod 64 = 0 \<Longrightarrow>
   compress_all (a @ b) = manager_sha256_transform (compress_all a) b"
proof -
  assume b: "length b = 64" and a: "length a mod 64 = 0"
  then obtain n where n: "length a = 64 * n" by (metis mult.commute mod_0_imp_dvd dvdE)
  have "chunks (n + 1) (a @ b) = chunks n a @ [b]" using chunks_append [OF n, of 1 b] b by simp
  then show ?thesis using n b by (simp add: compress_all_def)
qed

lemma compress_all_floor: "compress_all m = compress_all (take (64 * (length m div 64)) m)"
  using compress_all_partial [of "drop (64 * (length m div 64)) m" "take (64 * (length m div 64)) m"]
  by (simp add: minus_mult_div_eq_mod [symmetric] min_def minus_mod_eq_mult_div)

text \<open>The two ways one pass of the loop ends.\<close>

lemma absorbed_short:
  assumes "absorbed c m" "length d < 64 - block_size c"
  shows "absorbed (c\<lparr>block := take (block_size c) (block c) @ d @ drop (block_size c + length d) (block c),
     block_size := block_size c + length d\<rparr>) (m @ d)"
proof -
  define q where "q = length m div 64"
  define r where "r = length m mod 64"
  have m: "length m = 64 * q + r" "r < 64" by (simp_all add: q_def r_def)
  have l: "length (m @ d) = 64 * q + (r + length d)" "r + length d < 64"
    using assms m unfolding absorbed_def r_def by auto
  then have q: "length (m @ d) div 64 = q" and r: "length (m @ d) mod 64 = r + length d"
    by (metis div_less div_mult_self4 add_cancel_left_right zero_neq_numeral)
       (metis l mod_less mod_mult_self4)
  have "compress_all (m @ d) = compress_all m"
    using compress_all_floor [of "m @ d"] compress_all_floor [of m] q m(1) by (simp flip: q_def)
  moreover have "sha_state c = compress_all m" "length (block c) = 64" "block_size c = r"
    "take r (block c) = drop (64 * q) m"
    using assms(1) by (auto simp: absorbed_def q_def r_def)
  ultimately show ?thesis using l m unfolding absorbed_def q r by (simp add: min_def)
qed

lemma absorbed_full:
  assumes "absorbed c m" "length d = 64 - block_size c"
  shows "absorbed (c\<lparr>block := take (block_size c) (block c) @ d,
     sha_state := manager_sha256_transform (sha_state c) (take (block_size c) (block c) @ d),
     block_size := 0\<rparr>) (m @ d)"
proof -
  define q where "q = length m div 64"
  define r where "r = length m mod 64"
  have m: "length m = 64 * q + r" "r < 64" by (simp_all add: q_def r_def)
  have bs: "block_size c = r" "take r (block c) = drop (64 * q) m" "sha_state c = compress_all m"
    using assms(1) by (auto simp: absorbed_def q_def r_def)
  have l: "length (m @ d) = 64 * Suc q"
    using assms(2) bs(1) m by simp
  have ms: "take (64 * q) m @ (drop (64 * q) m @ d) = m @ d" by (simp flip: append_assoc)
  have "compress_all (m @ d) =
      manager_sha256_transform (compress_all (take (64 * q) m)) (drop (64 * q) m @ d)"
    using compress_all_block [of "drop (64 * q) m @ d" "take (64 * q) m"] assms(2) bs m
    unfolding ms by simp
  then have "compress_all (m @ d) = manager_sha256_transform (sha_state c) (take r (block c) @ d)"
    using bs compress_all_floor [of m] by (simp flip: q_def)
  moreover have "length (take r (block c) @ d) = 64"
    using assms bs by (simp add: absorbed_def min_def)
  ultimately show ?thesis using l bs unfolding absorbed_def by simp
qed

lemma absorbed_update_loop:
  "absorbed c m \<Longrightarrow> absorbed (update_loop c data) (m @ data)"
proof (induction c data arbitrary: m rule: update_loop.induct)
  case (1 c data)
  have bs: "block_size c < 64" "length (block c) = 64" using 1(2) by (auto simp: absorbed_def)
  show ?case
  proof (cases "data = []")
    case False
    let ?n = "64 - block_size c"
    show ?thesis
    proof (cases "length data < ?n")
      case True
      then have "update_loop c data = c\<lparr>block := take (block_size c) (block c) @ data @
          drop (block_size c + length data) (block c), block_size := block_size c + length data\<rparr>"
        using bs False by (subst update_loop.simps) (simp add: Let_def update_loop.simps [of _ "[]"])
      then show ?thesis using absorbed_short [OF 1(2) True] by simp
    next
      case False
      let ?c2 = "c\<lparr>block := take (block_size c) (block c) @ take ?n data,
        sha_state := manager_sha256_transform (sha_state c)
          (take (block_size c) (block c) @ take ?n data), block_size := 0\<rparr>"
      have u: "update_loop c data = update_loop ?c2 (drop ?n data)"
        using bs False \<open>data \<noteq> []\<close> by (subst update_loop.simps) (simp add: Let_def)
      have "absorbed ?c2 (m @ take ?n data)"
        using False by (intro absorbed_full [OF 1(2)]) simp
      then have "absorbed (update_loop ?c2 (drop ?n data)) ((m @ take ?n data) @ drop ?n data)"
        using 1(1) [OF _ refl refl refl refl, of "m @ take ?n data"] bs False \<open>data \<noteq> []\<close>
        by (simp add: Let_def)
      then show ?thesis using u by simp
    qed
  qed (use 1(2) in \<open>simp add: update_loop.simps\<close>)
qed

definition hashing :: "manager_sha256_context \<Rightarrow> u8 list \<Rightarrow> bool" where
  "hashing c m \<longleftrightarrow> absorbed c m \<and> byte_count c = of_nat (length m)"

lemma byte_count_update_loop [simp]: "byte_count (update_loop c data) = byte_count c"
proof (induction c data rule: update_loop.induct)
  case (1 c data)
  then show ?case by (subst update_loop.simps) (simp add: Let_def)
qed

lemma hashing_init: "length (block c) = 64 \<Longrightarrow> hashing (manager_sha256_init c) []"
  by (simp add: hashing_def absorbed_def manager_sha256_init_def compress_all_def)

lemma absorbed_byte_count: "absorbed (c\<lparr>byte_count := n\<rparr>) m = absorbed c m"
  by (simp add: absorbed_def)

lemma hashing_update: "hashing c m \<Longrightarrow> hashing (manager_sha256_update c data) (m @ data)"
  by (simp add: hashing_def manager_sha256_update_def absorbed_byte_count absorbed_update_loop)

lemma hashing_updates:
  "hashing c m \<Longrightarrow> hashing (fold (\<lambda>d c. manager_sha256_update c d) ds c) (m @ concat ds)"
proof (induction ds arbitrary: c m)
  case (Cons d ds)
  then show ?case using Cons.IH [OF hashing_update [OF Cons.prems, of d]] by simp
qed simp

lemma padding_length:
  "r < 64 \<Longrightarrow> (if r < 56 then 56 - r else 120 - r) - 1 = (119 - r) mod (64::nat)"
proof (cases "r < 56")
  case True
  then have "119 - r = (55 - r) + 64" by simp
  then have "(119 - r) mod 64 = (55 - r) mod 64" by (metis mod_add_self2)
  then show ?thesis using True by simp
qed simp

lemma hashing_final: "hashing c m \<Longrightarrow> manager_sha256_final c = sha256 m"
proof -
  assume h: "hashing c m"
  then have b: "block_size c = length m mod 64" by (auto simp: hashing_def absorbed_def)
  let ?p = "if block_size c < 56 then 56 - block_size c else 120 - block_size c"
  let ?t = "[0x80] @ replicate (?p - 1) 0 @ be64_bytes (byte_count c * 8)"
  have p: "?p - 1 = (119 - length m mod 64) mod 64"
    unfolding b by (rule padding_length) simp
  have n: "byte_count c * 8 = of_nat (8 * length m)"
    using h by (simp add: hashing_def mult.commute)
  have t: "m @ ?t = sha256_pad m" unfolding sha256_pad_def p n by simp
  have "hashing (manager_sha256_update c ?t) (m @ ?t)" using h by (rule hashing_update)
  then have s: "sha_state (manager_sha256_update c ?t) = compress_all (sha256_pad m)"
    unfolding t by (simp add: hashing_def absorbed_def)
  show ?thesis unfolding manager_sha256_final_def sha256_def Let_def s ..
qed

lemma length_sha256_pad: "length (sha256_pad m) mod 64 = 0"
proof -
  define r where "r = length m mod 64"
  have r: "r < 64" by (simp add: r_def)
  have "(length m + (119 - r) mod 64 + 9) mod 64 = (r + (119 - r) mod 64 + 9) mod 64"
    by (metis mod_add_left_eq r_def)
  also have "\<dots> = (r + (if r < 56 then 55 - r else 119 - r) + 9) mod 64"
    unfolding padding_length [OF r, symmetric] by (simp split: if_split)
  also have "\<dots> = 0" using r by (auto split: if_splits)
  finally have "(length m + (119 - r) mod 64 + 9) mod 64 = 0" .
  then show ?thesis by (simp add: sha256_pad_def be64_bytes_def r_def add.commute add.left_commute)
qed

section \<open>Properties\<close>

definition empty_context :: manager_sha256_context where
  "empty_context = \<lparr>sha_state = replicate 8 0, byte_count = 0, block = replicate 64 0, block_size = 0\<rparr>"

text \<open>
  C9: whatever pieces a message is handed over in, init, the updates and final return the
  digest of the whole padded message, hashed block by block; the padded message is a whole
  number of blocks.
\<close>

theorem sha256_streaming:
  assumes "length (block c) = 64"
  shows "manager_sha256_final (fold (\<lambda>d c. manager_sha256_update c d) ds (manager_sha256_init c)) =
      sha256 (concat ds) \<and> length (sha256_pad (concat ds)) mod 64 = 0"
  using hashing_final [OF hashing_updates [OF hashing_init [OF assms]], of ds] length_sha256_pad
  by simp

theorem sha256_streaming_witness:
  "manager_sha256_final (manager_sha256_update (manager_sha256_update
     (manager_sha256_init empty_context) [0x61]) [0x62, 0x63]) = sha256 [0x61, 0x62, 0x63]"
  using sha256_streaming [of empty_context "[[0x61], [0x62, 0x63]]"] by (simp add: empty_context_def)

end
