(* ===== verification/Pieces.thy ===== *)
theory Pieces imports Prelude begin

text \<open>
  The names between the separators of a path, empty ones left out, as the path policies of the FTP server and of the
  directory search read them.
\<close>

lemma length_behind_piece:
  assumes "dropWhile (\<lambda>b. b = sep) input \<noteq> []"
  shows "length (dropWhile (\<lambda>b. b \<noteq> sep) (dropWhile (\<lambda>b. b = sep) input)) < length input"
proof -
  let ?c = "dropWhile (\<lambda>b. b = sep) input"
  have "hd ?c \<noteq> sep" using hd_dropWhile [OF assms] by simp
  then have "length (dropWhile (\<lambda>b. b \<noteq> sep) ?c) < length ?c"
    using assms by (cases ?c) (auto simp: le_imp_less_Suc length_dropWhile_le)
  then show ?thesis using length_dropWhile_le [of "\<lambda>b. b = sep" input] by linarith
qed

function pieces :: "'a \<Rightarrow> 'a list \<Rightarrow> 'a list list" where
  "pieces sep input =
     (let cursor = dropWhile (\<lambda>b. b = sep) input in
      if cursor = [] then []
      else takeWhile (\<lambda>b. b \<noteq> sep) cursor # pieces sep (dropWhile (\<lambda>b. b \<noteq> sep) cursor))"
  by pat_completeness auto
termination
  by (relation "measure (\<lambda>(_, input). length input)") (auto simp: length_behind_piece)

declare pieces.simps [simp del]

lemma pieces_induct [case_names step]:
  assumes "\<And>input. (dropWhile (\<lambda>b. b = sep) input \<noteq> [] \<Longrightarrow>
      P (dropWhile (\<lambda>b. b \<noteq> sep) (dropWhile (\<lambda>b. b = sep) input))) \<Longrightarrow> P input"
  shows "P input"
proof (induction input rule: measure_induct_rule [where f = length])
  case (less input)
  show ?case by (rule assms, rule less, rule length_behind_piece)
qed

lemma pieces_none: "dropWhile (\<lambda>b. b = sep) input = [] \<Longrightarrow> pieces sep input = []"
  by (subst pieces.simps) (simp del: dropWhile_eq_Nil_conv)

lemma pieces_some:
  "dropWhile (\<lambda>b. b = sep) input = c \<Longrightarrow> c \<noteq> [] \<Longrightarrow>
   pieces sep input = takeWhile (\<lambda>b. b \<noteq> sep) c # pieces sep (dropWhile (\<lambda>b. b \<noteq> sep) c)"
  by (subst pieces.simps) (simp add: Let_def del: dropWhile_eq_Nil_conv)

lemma pieces_names: "s \<in> set (pieces sep input) \<Longrightarrow> s \<noteq> [] \<and> sep \<notin> set s"
proof (induction input rule: pieces_induct [of sep])
  case (step input)
  let ?c = "dropWhile (\<lambda>b. b = sep) input"
  show ?case
  proof (cases "?c = []")
    case False
    have "hd ?c \<noteq> sep" using hd_dropWhile [OF False] by simp
    then have "takeWhile (\<lambda>b. b \<noteq> sep) ?c \<noteq> []" using False by (cases ?c) auto
    moreover have "sep \<notin> set (takeWhile (\<lambda>b. b \<noteq> sep) ?c)"
      by (auto dest: set_takeWhileD)
    ultimately show ?thesis
      using step(1) [OF False] step(2) unfolding pieces_some [OF refl False] by auto
  qed (use step(2) in \<open>simp add: pieces_none del: dropWhile_eq_Nil_conv\<close>)
qed

lemma pieces_Cons:
  "sep \<notin> set s \<Longrightarrow> s \<noteq> [] \<Longrightarrow> t = [] \<or> hd t = sep \<Longrightarrow> pieces sep (s @ t) = s # pieces sep t"
proof -
  assume a: "sep \<notin> set s" "s \<noteq> []" "t = [] \<or> hd t = sep"
  then have "dropWhile (\<lambda>b. b = sep) (s @ t) = s @ t" by (cases s) auto
  moreover have "takeWhile (\<lambda>b. b \<noteq> sep) (s @ t) = s"
    using a by (cases t) (auto simp: takeWhile_eq_all_conv takeWhile_tail)
  moreover have "dropWhile (\<lambda>b. b \<noteq> sep) (s @ t) = t"
    using a by (cases t) (auto simp: dropWhile_append2 dropWhile_append)
  ultimately show ?thesis using a by (subst pieces.simps) (simp add: Let_def)
qed

lemma pieces_sep: "pieces sep (sep # t) = pieces sep t"
  by (simp add: pieces.simps [of sep "sep # t"] pieces.simps [of sep t])

lemma pieces_joined:
  "(\<And>s. s \<in> set ss \<Longrightarrow> s \<noteq> [] \<and> sep \<notin> set s) \<Longrightarrow> pieces sep (concat (map (\<lambda>s. sep # s) ss)) = ss"
proof (induction ss)
  case (Cons s ss)
  have "concat (map (\<lambda>s. sep # s) ss) = [] \<or> hd (concat (map (\<lambda>s. sep # s) ss)) = sep"
    by (cases ss) auto
  then show ?case using Cons by (simp add: pieces_sep pieces_Cons)
qed (simp add: pieces.simps)

section \<open>A root and what lies beneath it\<close>

text \<open>A path is beneath a root when it is the root, or goes on behind it with a separator.\<close>

definition beneath :: "'a \<Rightarrow> 'a list \<Rightarrow> 'a list \<Rightarrow> bool" where
  "beneath sep root input \<longleftrightarrow> input = root \<or> take (Suc (length root)) input = root @ [sep]"

lemma beneath_iff:
  "beneath sep root input \<longleftrightarrow> (\<exists>rest. input = root @ rest \<and> (rest = [] \<or> hd rest = sep))"
proof
  assume "\<exists>rest. input = root @ rest \<and> (rest = [] \<or> hd rest = sep)"
  then obtain rest where r: "input = root @ rest" "rest = [] \<or> hd rest = sep" by blast
  then show "beneath sep root input" by (cases rest) (auto simp: beneath_def)
next
  assume b: "beneath sep root input"
  have "\<exists>rest. input = root @ rest \<and> (rest = [] \<or> hd rest = sep)" if "take (Suc (length root)) input = root @ [sep]"
  proof -
    have "input = root @ sep # drop (Suc (length root)) input"
      using append_take_drop_id [of "Suc (length root)" input] that by simp
    then show ?thesis by fastforce
  qed
  then show "\<exists>rest. input = root @ rest \<and> (rest = [] \<or> hd rest = sep)" using b by (auto simp: beneath_def)
qed

text \<open>The form of the test the sources use: compare the root, then look at the character behind it.\<close>

lemma beneath_prefix:
  "take (length root) input = root \<and> (drop (length root) input = [] \<or> hd (drop (length root) input) = sep) \<longleftrightarrow>
   beneath sep root input"
  unfolding beneath_iff by (metis append_eq_conv_conj)

end
