(* ===== verification/Manager_Ftp.thy ===== *)
theory Manager_Ftp imports Pieces "HOL-Library.Multiset" begin

text \<open>
  The platform-neutral parts of the manager's FTP server: the lexical path policy
  (\<open>vita/manager_ftp_path.c\<close>), the command parser (\<open>vita/manager_ftp_protocol.c\<close>) and the
  worker life cycle (\<open>vita/manager_ftp_lifecycle.c\<close>).  A C string is the list of its characters
  before the terminator; the NULL arguments the functions reject first are not represented.
\<close>

section \<open>Paths\<close>

datatype manager_ftp_path_result =
  MANAGER_FTP_PATH_INVALID | MANAGER_FTP_PATH_TRAVERSAL | MANAGER_FTP_PATH_TOO_LONG

text \<open>\<open>MANAGER_FTP_PATH_OK\<close> is the right injection, with what the call wrote.\<close>

type_synonym 'a path_or = "manager_ftp_path_result + 'a"

fun and_ok :: "'a path_or \<Rightarrow> ('a \<Rightarrow> 'b path_or) \<Rightarrow> 'b path_or" where
  "and_ok (Inl e) f = Inl e"
| "and_ok (Inr x) f = f x"

abbreviation slash :: char where "slash \<equiv> CHR ''/''"

definition MANAGER_FTP_VITA_ROOT :: string where
  "MANAGER_FTP_VITA_ROOT = ''ux0:/data/isaacr001''"

definition MANAGER_FTP_LEGACY_ROOT :: string where
  "MANAGER_FTP_LEGACY_ROOT = ''/ux0:/data/isaacr001''"

definition MANAGER_FTP_PATH_CAPACITY :: nat where "MANAGER_FTP_PATH_CAPACITY = 1024"

definition manager_ftp_append :: "nat \<Rightarrow> string \<Rightarrow> string \<Rightarrow> string path_or" where
  "manager_ftp_append output_size output data =
     (if length output \<ge> output_size \<or> length data > output_size - length output - 1
      then Inl MANAGER_FTP_PATH_TOO_LONG else Inr (output @ data))"

definition manager_ftp_bad_character :: "char \<Rightarrow> bool" where
  "manager_ftp_bad_character c \<longleftrightarrow> (of_char c :: nat) < 0x20 \<or> (of_char c :: nat) = 0x7F \<or>
     c = CHR 0x5C \<or> c = CHR '':'' \<or> c = CHR 0x22"

function manager_ftp_append_segments :: "nat \<Rightarrow> string \<Rightarrow> string \<Rightarrow> string path_or" where
  "manager_ftp_append_segments output_size output input =
     (let cursor = dropWhile (\<lambda>c. c = slash) input in
      if cursor = [] then Inr output
      else
        let segment = takeWhile (\<lambda>c. c \<noteq> slash) cursor;
            rest = dropWhile (\<lambda>c. c \<noteq> slash) cursor in
        if segment = ''.'' \<or> segment = ''..'' then Inl MANAGER_FTP_PATH_TRAVERSAL
        else if list_ex manager_ftp_bad_character segment then Inl MANAGER_FTP_PATH_INVALID
        else and_ok (if length output > 1 then manager_ftp_append output_size output [slash]
                     else Inr output)
          (\<lambda>output. and_ok (manager_ftp_append output_size output segment)
            (\<lambda>output. manager_ftp_append_segments output_size output rest)))"
  by pat_completeness auto

termination manager_ftp_append_segments
  by (relation "measure (\<lambda>(_, _, input). length input)") (auto simp: length_behind_piece)

declare manager_ftp_append_segments.simps [simp del]

definition manager_ftp_strip_legacy_root :: "string \<Rightarrow> string option" where
  "manager_ftp_strip_legacy_root input =
     (let after = (\<lambda>root. take (length root) input = root \<and>
                  (drop (length root) input = [] \<or> hd (drop (length root) input) = slash))
      in if after MANAGER_FTP_LEGACY_ROOT then Some (drop (length MANAGER_FTP_LEGACY_ROOT) input)
         else if after MANAGER_FTP_VITA_ROOT then Some (drop (length MANAGER_FTP_VITA_ROOT) input)
         else None)"

definition manager_ftp_path_resolve ::
    "string \<Rightarrow> string \<Rightarrow> nat \<Rightarrow> nat \<Rightarrow> (string \<times> string) path_or" where
  "manager_ftp_path_resolve cwd input virtual_size vita_size =
     (if virtual_size < 2 \<or> vita_size < 2 \<or> \<not> (cwd \<noteq> [] \<and> hd cwd = slash)
      then Inl MANAGER_FTP_PATH_INVALID
      else and_ok (manager_ftp_append virtual_size [] [slash]) (\<lambda>v.
        and_ok (case manager_ftp_strip_legacy_root input of
            Some relative \<Rightarrow> Inr (v, relative)
          | None \<Rightarrow>
              if input \<noteq> [] \<and> hd input = slash then Inr (v, tl input)
              else and_ok (manager_ftp_append_segments virtual_size v (tl cwd))
                     (\<lambda>v. Inr (v, input))) (\<lambda>(v, relative).
        and_ok (manager_ftp_append_segments virtual_size v relative) (\<lambda>v.
        and_ok (manager_ftp_append vita_size [] MANAGER_FTP_VITA_ROOT) (\<lambda>w.
        if length v > 1 then and_ok (manager_ftp_append vita_size w v) (\<lambda>w. Inr (v, w))
        else Inr (v, w))))))"

definition manager_ftp_path_parent ::
    "string \<Rightarrow> nat \<Rightarrow> nat \<Rightarrow> (string \<times> string) path_or" where
  "manager_ftp_path_parent cwd virtual_size vita_size =
     and_ok (manager_ftp_path_resolve [slash] cwd MANAGER_FTP_PATH_CAPACITY
               MANAGER_FTP_PATH_CAPACITY) (\<lambda>(canonical, unused_vita).
       let upto = rev (dropWhile (\<lambda>c. c \<noteq> slash) (rev canonical));
           canonical = (if length canonical > 1
                        then (if length upto = 1 then [slash] else butlast upto)
                        else canonical)
       in manager_ftp_path_resolve [slash] canonical virtual_size vita_size)"

definition manager_ftp_path_is_root :: "string \<Rightarrow> bool" where
  "manager_ftp_path_is_root virtual_path \<longleftrightarrow>
     virtual_path \<noteq> [] \<and> hd virtual_path = slash \<and> tl virtual_path = []"

subsection \<open>The specification: lists of safe segments\<close>

abbreviation segments :: "string \<Rightarrow> string list" where "segments \<equiv> pieces slash"

text \<open>
  What a name may hold, without the code's own test: printable characters but the backslash, the colon and the double quote.
\<close>

definition name_char :: "char \<Rightarrow> bool" where
  "name_char c \<longleftrightarrow> 32 \<le> (of_char c :: nat) \<and> (of_char c :: nat) \<noteq> 127 \<and> c \<notin> set [CHR 0x5C, CHR '':'', CHR 0x22]"

definition safe_name :: "string \<Rightarrow> bool" where
  "safe_name s \<longleftrightarrow> s \<noteq> [] \<and> s \<noteq> ''.'' \<and> s \<noteq> ''..'' \<and> slash \<notin> set s \<and> list_all name_char s"

lemma bad_character: "manager_ftp_bad_character c \<longleftrightarrow> \<not> name_char c"
  unfolding manager_ftp_bad_character_def name_char_def list.set insert_iff empty_iff not_le [symmetric] by blast

lemma safe_name_bad:
  "safe_name s \<longleftrightarrow> s \<noteq> [] \<and> s \<noteq> ''.'' \<and> s \<noteq> ''..'' \<and> slash \<notin> set s \<and>
     \<not> list_ex manager_ftp_bad_character s"
  by (auto simp: safe_name_def bad_character list_all_iff list_ex_iff)

fun render :: "string list \<Rightarrow> string" where
  "render [] = [slash]"
| "render ss = concat (map (\<lambda>s. slash # s) ss)"

lemma append_segments_none:
  "dropWhile (\<lambda>c. c = slash) input = [] \<Longrightarrow> manager_ftp_append_segments n out input = Inr out"
  by (subst manager_ftp_append_segments.simps) (simp del: dropWhile_eq_Nil_conv)

lemma append_segments_some:
  "dropWhile (\<lambda>c. c = slash) input = c \<Longrightarrow> c \<noteq> [] \<Longrightarrow>
   takeWhile (\<lambda>c. c \<noteq> slash) c = s \<Longrightarrow> dropWhile (\<lambda>c. c \<noteq> slash) c = t \<Longrightarrow>
   manager_ftp_append_segments n out input =
     (if s = ''.'' \<or> s = ''..'' then Inl MANAGER_FTP_PATH_TRAVERSAL
      else if list_ex manager_ftp_bad_character s then Inl MANAGER_FTP_PATH_INVALID
      else and_ok (if length out > 1 then manager_ftp_append n out [slash] else Inr out)
          (\<lambda>out. and_ok (manager_ftp_append n out s)
            (\<lambda>out. manager_ftp_append_segments n out t)))"
  by (subst manager_ftp_append_segments.simps) (simp add: Let_def del: dropWhile_eq_Nil_conv)

lemma render_length: "1 \<le> length (render ss)"
  by (cases ss) auto

lemma render_snoc:
  "(if length (render ss) > 1 then render ss @ [slash] else render ss) @ s =
   (if ss = [] \<or> (\<forall>x \<in> set ss. x \<noteq> []) then render (ss @ [s])
    else (if length (render ss) > 1 then render ss @ [slash] else render ss) @ s)"
proof (cases ss)
  case (Cons a as)
  show ?thesis
  proof (cases "\<forall>x \<in> set ss. x \<noteq> []")
    case True
    then have "length (render ss) > 1" using Cons by (cases a) auto
    then show ?thesis using True Cons by simp
  qed (use Cons in simp)
qed simp

lemma render_prefix: "length (render ss) \<le> length (render (ss @ ts))"
  by (cases ss; cases ts) (auto simp: render_length)

lemma manager_ftp_append_ok:
  "length out < n \<Longrightarrow> manager_ftp_append n out d = Inr r \<longleftrightarrow> r = out @ d \<and> length (out @ d) < n"
  by (auto simp: manager_ftp_append_def)

lemma if_errors:
  "(if A then Inl e else if B then Inl e' else X) = Inr r \<longleftrightarrow> (\<not> A \<and> \<not> B) \<and> X = Inr r"
  by simp

lemma append_segments_ok:
  assumes "length (render ss) < n" "\<forall>s \<in> set ss. s \<noteq> []"
  shows "manager_ftp_append_segments n (render ss) input = Inr r \<longleftrightarrow>
    list_all safe_name (segments input) \<and> r = render (ss @ segments input) \<and> length r < n"
  using assms
proof (induction input arbitrary: ss rule: pieces_induct [of slash])
  case (step input)
  let ?c = "dropWhile (\<lambda>c. c = slash) input"
  show ?case
  proof (cases "?c = []")
    case True
    then show ?thesis using step(2)
      by (auto simp: append_segments_none pieces_none simp del: dropWhile_eq_Nil_conv)
  next
    case False
    define s where "s = takeWhile (\<lambda>c. c \<noteq> slash) ?c"
    define t where "t = dropWhile (\<lambda>c. c \<noteq> slash) ?c"
    have seg: "segments input = s # segments t"
      unfolding s_def t_def by (rule pieces_some [OF refl False])
    have unfolded: "manager_ftp_append_segments n out input =
       (if s = ''.'' \<or> s = ''..'' then Inl MANAGER_FTP_PATH_TRAVERSAL
        else if list_ex manager_ftp_bad_character s then Inl MANAGER_FTP_PATH_INVALID
        else and_ok (if length out > 1 then manager_ftp_append n out [slash] else Inr out)
            (\<lambda>out. and_ok (manager_ftp_append n out s)
              (\<lambda>out. manager_ftp_append_segments n out t)))" for out
      unfolding s_def t_def by (rule append_segments_some [OF refl False refl refl])
    have s: "s \<noteq> []" "slash \<notin> set s" using pieces_names [of s slash input] seg by auto
    let ?o = "if length (render ss) > 1 then render ss @ [slash] else render ss"
    have snoc: "?o @ s = render (ss @ [s])" using render_snoc [of ss s] step(3) by simp
    have sn: "safe_name s \<longleftrightarrow> \<not> (s = ''.'' \<or> s = ''..'') \<and> \<not> list_ex manager_ftp_bad_character s"
      using s by (auto simp: safe_name_bad)
    have ap: "and_ok (if length (render ss) > 1 then manager_ftp_append n (render ss) [slash]
          else Inr (render ss)) (\<lambda>out. and_ok (manager_ftp_append n out s) f) = Inr r \<longleftrightarrow>
        length (render (ss @ [s])) < n \<and> f (render (ss @ [s])) = Inr r" for f
      using s(1) step(2) unfolding snoc [symmetric] by (cases s) (auto simp: manager_ftp_append_def)
    have go: "manager_ftp_append_segments n (render ss) input = Inr r \<longleftrightarrow>
      safe_name s \<and> length (render (ss @ [s])) < n \<and>
      manager_ftp_append_segments n (render (ss @ [s])) t = Inr r"
      unfolding unfolded if_errors ap sn ..
    have le: "length (render (ss @ [s])) \<le> length (render (ss @ segments input))"
      using render_prefix [of "ss @ [s]" "segments t"] seg by simp
    show ?thesis
    proof (cases "length (render (ss @ [s])) < n")
      case True
      have "manager_ftp_append_segments n (render (ss @ [s])) t = Inr r \<longleftrightarrow>
        list_all safe_name (segments t) \<and> r = render (ss @ segments input) \<and> length r < n"
        using step(1) [OF False, folded t_def, of "ss @ [s]"] True step(3) s seg by simp
      then show ?thesis using go True by (simp add: seg)
    next
      case no: False
      then show ?thesis using go le by auto
    qed
  qed
qed

text \<open>
  The segments a request names: those behind an alias of the root, which must be the whole root, those of an absolute path, or those
  of \<open>cwd\<close> and of the request.
\<close>

definition requested :: "string \<Rightarrow> string \<Rightarrow> string list" where
  "requested cwd input =
     (if beneath slash ''/ux0:/data/isaacr001'' input then segments (drop (length ''/ux0:/data/isaacr001'') input)
      else if beneath slash ''ux0:/data/isaacr001'' input then segments (drop (length ''ux0:/data/isaacr001'') input)
      else if input \<noteq> [] \<and> hd input = slash then segments input
      else segments cwd @ segments input)"

definition vita_of :: "string list \<Rightarrow> string" where
  "vita_of ss = ''ux0:/data/isaacr001'' @ (if ss = [] then [] else render ss)"

lemma requested_strip:
  "requested cwd input =
     (case manager_ftp_strip_legacy_root input of
        Some relative \<Rightarrow> segments relative
      | None \<Rightarrow> if input \<noteq> [] \<and> hd input = slash then segments input
                else segments cwd @ segments input)"
  by (simp only: requested_def manager_ftp_strip_legacy_root_def Let_def beneath_prefix MANAGER_FTP_LEGACY_ROOT_def
      MANAGER_FTP_VITA_ROOT_def option.case split: if_split) simp

lemma vita_of_root: "vita_of ss = MANAGER_FTP_VITA_ROOT @ (if ss = [] then [] else render ss)"
  by (simp add: vita_of_def MANAGER_FTP_VITA_ROOT_def)

lemma segments_tl: "cwd \<noteq> [] \<Longrightarrow> hd cwd = slash \<Longrightarrow> segments (tl cwd) = segments cwd"
  using pieces_sep [of slash "tl cwd"] by (metis list.collapse)

lemma and_ok_Inr: "and_ok x f = Inr r \<longleftrightarrow> (\<exists>y. x = Inr y \<and> f y = Inr r)"
  by (cases x) auto

lemma render_long: "\<forall>s \<in> set ss. s \<noteq> [] \<Longrightarrow> Suc 0 < length (render ss) \<longleftrightarrow> ss \<noteq> []"
  by (cases ss; cases "hd ss") auto

lemma segments_nonempty: "\<forall>s \<in> set (segments input). s \<noteq> []"
  by (auto dest: pieces_names)

lemma append_segments_root:
  "1 < n \<Longrightarrow> manager_ftp_append_segments n [slash] input = Inr r \<longleftrightarrow>
   list_all safe_name (segments input) \<and> r = render (segments input) \<and> length r < n"
  using append_segments_ok [of "[]" n input r] by simp

lemma safe_nonempty: "list_all safe_name ss \<Longrightarrow> \<forall>s \<in> set ss. s \<noteq> []"
  by (auto simp: list_all_iff safe_name_def)

lemma virtual_part:
  assumes "2 \<le> n" "cwd \<noteq> []" "hd cwd = slash"
  shows "and_ok (case manager_ftp_strip_legacy_root input of
            Some relative \<Rightarrow> Inr ([slash], relative)
          | None \<Rightarrow>
              if input \<noteq> [] \<and> hd input = slash then Inr ([slash], tl input)
              else and_ok (manager_ftp_append_segments n [slash] (tl cwd))
                     (\<lambda>v. Inr (v, input)))
          (\<lambda>(v, relative). manager_ftp_append_segments n v relative) = Inr r \<longleftrightarrow>
     list_all safe_name (requested cwd input) \<and> r = render (requested cwd input) \<and> length r < n"
proof (cases "manager_ftp_strip_legacy_root input")
  case None
  show ?thesis
  proof (cases "input \<noteq> [] \<and> hd input = slash")
    case True
    then show ?thesis using None assms
      by (simp add: requested_strip append_segments_root segments_tl)
  next
    case False
    have "and_ok (and_ok (manager_ftp_append_segments n [slash] (tl cwd)) (\<lambda>v. Inr (v, input)))
          (\<lambda>(v, relative). manager_ftp_append_segments n v relative) = Inr r \<longleftrightarrow>
       list_all safe_name (segments cwd) \<and> length (render (segments cwd)) < n \<and>
       manager_ftp_append_segments n (render (segments cwd)) input = Inr r"
      using assms by (auto simp: and_ok_Inr append_segments_root segments_tl)
    also have "\<dots> \<longleftrightarrow> list_all safe_name (segments cwd @ segments input) \<and>
        r = render (segments cwd @ segments input) \<and> length r < n"
      using append_segments_ok [of "segments cwd" n input r] segments_nonempty [of cwd]
        render_prefix [of "segments cwd" "segments input"] by auto
    finally show ?thesis unfolding requested_strip None option.case if_not_P [OF False] .
  qed
next
  case (Some relative)
  then show ?thesis using assms by (simp add: requested_strip append_segments_root)
qed

lemma resolve_ok:
  "manager_ftp_path_resolve cwd input vs ws = Inr r \<longleftrightarrow>
     2 \<le> vs \<and> 2 \<le> ws \<and> cwd \<noteq> [] \<and> hd cwd = slash \<and>
     list_all safe_name (requested cwd input) \<and>
     r = (render (requested cwd input), vita_of (requested cwd input)) \<and>
     length (fst r) < vs \<and> length (snd r) < ws"
proof (cases "2 \<le> vs \<and> 2 \<le> ws \<and> cwd \<noteq> [] \<and> hd cwd = slash")
  case True
  have a: "manager_ftp_append vs [] [slash] = Inr [slash]" using True by (simp add: manager_ftp_append_def)
  let ?q = "requested cwd input"
  have "manager_ftp_path_resolve cwd input vs ws = Inr r \<longleftrightarrow>
     (\<exists>v. (list_all safe_name ?q \<and> v = render ?q \<and> length v < vs) \<and>
        and_ok (manager_ftp_append ws [] MANAGER_FTP_VITA_ROOT) (\<lambda>w.
        if length v > 1 then and_ok (manager_ftp_append ws w v) (\<lambda>w. Inr (v, w))
        else Inr (v, w)) = Inr r)"
    unfolding virtual_part [symmetric, OF conjunct1 [OF True] conjunct1 [OF conjunct2 [OF conjunct2 [OF True]]]
        conjunct2 [OF conjunct2 [OF conjunct2 [OF True]]]]
    using True a
    by (simp add: manager_ftp_path_resolve_def and_ok_Inr Let_def split_beta) blast
  also have "\<dots> \<longleftrightarrow> list_all safe_name ?q \<and> r = (render ?q, vita_of ?q) \<and>
      length (fst r) < vs \<and> length (snd r) < ws"
    using True safe_nonempty [of ?q] render_long [of ?q]
    by (auto simp: and_ok_Inr manager_ftp_append_def vita_of_root split: if_splits)
  finally show ?thesis using True by blast
next
  case False
  then show ?thesis by (auto simp: manager_ftp_path_resolve_def)
qed

subsection \<open>The parent directory\<close>

lemma set_render: "set (render ss) \<subseteq> insert slash (\<Union> (set ` set ss))"
  by (cases ss) auto

lemma safe_no_colon: "safe_name s \<Longrightarrow> CHR '':'' \<notin> set s"
  by (auto simp: safe_name_bad list_ex_iff manager_ftp_bad_character_def)

lemma render_not_legacy: "list_all safe_name ss \<Longrightarrow> manager_ftp_strip_legacy_root (render ss) = None"
proof -
  assume "list_all safe_name ss"
  then have c: "CHR '':'' \<notin> set (render ss)"
    using set_render [of ss] safe_no_colon by (fastforce simp: list_all_iff)
  have "take n (render ss) \<noteq> r" if "CHR '':'' \<in> set r" for n r
    using c that by (metis in_set_takeD)
  then show ?thesis
    by (simp add: manager_ftp_strip_legacy_root_def MANAGER_FTP_LEGACY_ROOT_def
        MANAGER_FTP_VITA_ROOT_def Let_def)
qed

lemma requested_render: "list_all safe_name ss \<Longrightarrow> requested cwd (render ss) = ss"
proof (cases ss)
  case Nil
  assume "list_all safe_name ss"
  have "segments [slash] = []" by (simp add: pieces_none)
  then show ?thesis using Nil render_not_legacy [of "[]"] by (simp add: requested_strip)
next
  case (Cons a as)
  assume s: "list_all safe_name ss"
  have "t \<noteq> [] \<and> slash \<notin> set t" if "t \<in> set ss" for t
    using s that by (auto simp: list_all_iff safe_name_def)
  then have "segments (render ss) = ss" using pieces_joined [of ss slash] Cons by simp
  then show ?thesis using render_not_legacy [OF s] Cons by (simp add: requested_strip)
qed

definition parent_string :: "string \<Rightarrow> string" where
  "parent_string canonical =
     (let upto = rev (dropWhile (\<lambda>c. c \<noteq> slash) (rev canonical))
      in if length canonical > 1 then (if length upto = 1 then [slash] else butlast upto)
         else canonical)"

lemma parent_string_render: "list_all safe_name ss \<Longrightarrow> parent_string (render ss) = render (butlast ss)"
proof (cases ss rule: rev_cases)
  case (snoc as a)
  assume "list_all safe_name ss"
  then have a: "slash \<notin> set a" "a \<noteq> []" using snoc by (auto simp: safe_name_def)
  have r: "render ss = concat (map (\<lambda>s. slash # s) as) @ slash # a"
    using snoc by (cases as) auto
  have "dropWhile (\<lambda>c. c \<noteq> slash) (rev a @ slash # x) = slash # x" for x
    using a by (simp add: dropWhile_append3 dropWhile_append)
  then have "rev (dropWhile (\<lambda>c. c \<noteq> slash) (rev (render ss))) =
      concat (map (\<lambda>s. slash # s) as) @ [slash]" by (simp add: r)
  moreover have "1 < length (render ss)" using a r by (cases a) auto
  ultimately show ?thesis using snoc by (cases as) (simp_all add: parent_string_def Let_def butlast_append)
qed (simp add: parent_string_def)

section \<open>Commands\<close>

datatype manager_ftp_command = MANAGER_FTP_COMMAND_UNKNOWN | MANAGER_FTP_COMMAND_NOOP
  | MANAGER_FTP_COMMAND_USER | MANAGER_FTP_COMMAND_PASS | MANAGER_FTP_COMMAND_QUIT
  | MANAGER_FTP_COMMAND_SYST | MANAGER_FTP_COMMAND_FEAT | MANAGER_FTP_COMMAND_OPTS
  | MANAGER_FTP_COMMAND_TYPE | MANAGER_FTP_COMMAND_PASV | MANAGER_FTP_COMMAND_PWD
  | MANAGER_FTP_COMMAND_CWD | MANAGER_FTP_COMMAND_CDUP | MANAGER_FTP_COMMAND_LIST
  | MANAGER_FTP_COMMAND_NLST | MANAGER_FTP_COMMAND_MLSD | MANAGER_FTP_COMMAND_RETR
  | MANAGER_FTP_COMMAND_STOR | MANAGER_FTP_COMMAND_DELE | MANAGER_FTP_COMMAND_RMD
  | MANAGER_FTP_COMMAND_MKD | MANAGER_FTP_COMMAND_RNFR | MANAGER_FTP_COMMAND_RNTO
  | MANAGER_FTP_COMMAND_SIZE

definition manager_ftp_command_names :: "(string \<times> manager_ftp_command) list" where
  "manager_ftp_command_names =
     [(''NOOP'', MANAGER_FTP_COMMAND_NOOP), (''USER'', MANAGER_FTP_COMMAND_USER),
      (''PASS'', MANAGER_FTP_COMMAND_PASS), (''QUIT'', MANAGER_FTP_COMMAND_QUIT),
      (''SYST'', MANAGER_FTP_COMMAND_SYST), (''FEAT'', MANAGER_FTP_COMMAND_FEAT),
      (''OPTS'', MANAGER_FTP_COMMAND_OPTS), (''TYPE'', MANAGER_FTP_COMMAND_TYPE),
      (''PASV'', MANAGER_FTP_COMMAND_PASV), (''PWD'', MANAGER_FTP_COMMAND_PWD),
      (''CWD'', MANAGER_FTP_COMMAND_CWD), (''CDUP'', MANAGER_FTP_COMMAND_CDUP),
      (''LIST'', MANAGER_FTP_COMMAND_LIST), (''NLST'', MANAGER_FTP_COMMAND_NLST),
      (''MLSD'', MANAGER_FTP_COMMAND_MLSD), (''RETR'', MANAGER_FTP_COMMAND_RETR),
      (''STOR'', MANAGER_FTP_COMMAND_STOR), (''DELE'', MANAGER_FTP_COMMAND_DELE),
      (''RMD'', MANAGER_FTP_COMMAND_RMD), (''MKD'', MANAGER_FTP_COMMAND_MKD),
      (''RNFR'', MANAGER_FTP_COMMAND_RNFR), (''RNTO'', MANAGER_FTP_COMMAND_RNTO),
      (''SIZE'', MANAGER_FTP_COMMAND_SIZE)]"

record manager_ftp_parsed_command =
  ftp_command :: manager_ftp_command
  has_argument :: bool
  argument :: string

text \<open>\<open>isalpha\<close> and \<open>toupper\<close> of the C locale.\<close>

definition isalpha :: "char \<Rightarrow> bool" where
  "isalpha c \<longleftrightarrow> (let n = (of_char c :: nat) in (65 \<le> n \<and> n \<le> 90) \<or> (97 \<le> n \<and> n \<le> 122))"

definition toupper :: "char \<Rightarrow> char" where
  "toupper c = (let n = (of_char c :: nat) in if 97 \<le> n \<and> n \<le> 122 then char_of (n - 32) else c)"

definition blank :: "char \<Rightarrow> bool" where
  "blank c \<longleftrightarrow> c = CHR '' '' \<or> c = CHR 0x09"

definition line_end :: "char \<Rightarrow> bool" where
  "line_end c \<longleftrightarrow> c = CHR 0x0D \<or> c = CHR 0x0A"

definition control :: "char \<Rightarrow> bool" where
  "control c \<longleftrightarrow> (of_char c :: nat) < 0x20 \<or> (of_char c :: nat) = 0x7F"

text \<open>The first loop: at most eight letters, upper-cased, up to a blank or the end of the line.\<close>

fun command_word :: "string \<Rightarrow> string \<Rightarrow> (string \<times> string) option" where
  "command_word acc [] = Some (acc, [])"
| "command_word acc (c # cs) =
     (if blank c then Some (acc, c # cs)
      else if \<not> isalpha c \<or> length acc = 8 then None
      else command_word (acc @ [toupper c]) cs)"

definition command_of_name :: "string \<Rightarrow> manager_ftp_command" where
  "command_of_name w =
     (case map_of manager_ftp_command_names w of Some c \<Rightarrow> c | None \<Rightarrow> MANAGER_FTP_COMMAND_UNKNOWN)"

definition drop_trailing :: "('a \<Rightarrow> bool) \<Rightarrow> 'a list \<Rightarrow> 'a list" where
  "drop_trailing P xs = rev (dropWhile P (rev xs))"

text \<open>\<open>None\<close> is the result -1.\<close>

definition manager_ftp_parse_command :: "string \<Rightarrow> manager_ftp_parsed_command option" where
  "manager_ftp_parse_command line =
     (if line = [] then None
      else case command_word [] (drop_trailing line_end line) of None \<Rightarrow> None
      | Some (command, rest) \<Rightarrow>
          if command = [] then None
          else let arg = drop_trailing blank (dropWhile blank rest) in
            if length arg \<ge> MANAGER_FTP_PATH_CAPACITY then None
            else if list_ex control arg then None
            else Some \<lparr>ftp_command = command_of_name command, has_argument = arg \<noteq> [],
                       argument = arg\<rparr>)"

datatype manager_ftp_path_requirement =
  MANAGER_FTP_PATH_NONE | MANAGER_FTP_PATH_OPTIONAL | MANAGER_FTP_PATH_REQUIRED

fun manager_ftp_command_path_requirement ::
    "manager_ftp_command \<Rightarrow> manager_ftp_path_requirement" where
  "manager_ftp_command_path_requirement MANAGER_FTP_COMMAND_LIST = MANAGER_FTP_PATH_OPTIONAL"
| "manager_ftp_command_path_requirement MANAGER_FTP_COMMAND_NLST = MANAGER_FTP_PATH_OPTIONAL"
| "manager_ftp_command_path_requirement MANAGER_FTP_COMMAND_MLSD = MANAGER_FTP_PATH_OPTIONAL"
| "manager_ftp_command_path_requirement MANAGER_FTP_COMMAND_CWD = MANAGER_FTP_PATH_REQUIRED"
| "manager_ftp_command_path_requirement MANAGER_FTP_COMMAND_RETR = MANAGER_FTP_PATH_REQUIRED"
| "manager_ftp_command_path_requirement MANAGER_FTP_COMMAND_STOR = MANAGER_FTP_PATH_REQUIRED"
| "manager_ftp_command_path_requirement MANAGER_FTP_COMMAND_DELE = MANAGER_FTP_PATH_REQUIRED"
| "manager_ftp_command_path_requirement MANAGER_FTP_COMMAND_RMD = MANAGER_FTP_PATH_REQUIRED"
| "manager_ftp_command_path_requirement MANAGER_FTP_COMMAND_MKD = MANAGER_FTP_PATH_REQUIRED"
| "manager_ftp_command_path_requirement MANAGER_FTP_COMMAND_RNFR = MANAGER_FTP_PATH_REQUIRED"
| "manager_ftp_command_path_requirement MANAGER_FTP_COMMAND_RNTO = MANAGER_FTP_PATH_REQUIRED"
| "manager_ftp_command_path_requirement MANAGER_FTP_COMMAND_SIZE = MANAGER_FTP_PATH_REQUIRED"
| "manager_ftp_command_path_requirement _ = MANAGER_FTP_PATH_NONE"

lemma line_end_alone: "line_end x \<Longrightarrow> \<not> isalpha x \<and> \<not> blank x \<and> control x"
  by (elim disjE [OF iffD1 [OF line_end_def]]) (simp_all add: isalpha_def blank_def control_def)

lemma isalpha_not_blank: "isalpha c \<Longrightarrow> \<not> blank c"
  by (auto simp: isalpha_def blank_def)

lemma command_word_letters:
  "list_all isalpha w \<Longrightarrow> length acc + length w \<le> 8 \<Longrightarrow> rest = [] \<or> blank (hd rest) \<Longrightarrow>
   command_word acc (w @ rest) = Some (acc @ map toupper w, rest)"
  by (induction w arbitrary: acc; cases rest) (auto simp: isalpha_not_blank)

lemma drop_trailing_append:
  "list_all P ys \<Longrightarrow> xs = [] \<or> \<not> P (last xs) \<Longrightarrow> drop_trailing P (xs @ ys) = xs"
  unfolding drop_trailing_def
  by (cases xs rule: rev_cases) (auto simp: list_all_iff dropWhile_append)

lemma command_names_length: "map_of manager_ftp_command_names w = Some c \<Longrightarrow> 0 < length w \<and> length w \<le> 8"
  by (drule map_of_SomeD) (auto simp: manager_ftp_command_names_def)

section \<open>The worker life cycle\<close>

text \<open>
  The socket slots are the indices 0 (listen), 1 (control), 2 (passive) and 3 (data); a slot
  argument is the unsigned value the source casts the enumeration to.
\<close>

definition MANAGER_FTP_SOCKET_LISTEN :: nat where "MANAGER_FTP_SOCKET_LISTEN = 0"
definition MANAGER_FTP_SOCKET_CONTROL :: nat where "MANAGER_FTP_SOCKET_CONTROL = 1"
definition MANAGER_FTP_SOCKET_PASSIVE :: nat where "MANAGER_FTP_SOCKET_PASSIVE = 2"
definition MANAGER_FTP_SOCKET_DATA :: nat where "MANAGER_FTP_SOCKET_DATA = 3"
definition MANAGER_FTP_SOCKET_COUNT :: nat where "MANAGER_FTP_SOCKET_COUNT = 4"

record manager_ftp_lifecycle =
  stop_requested :: bool
  worker_running :: bool
  sockets :: "int list"

definition manager_ftp_lifecycle_valid_slot :: "nat \<Rightarrow> bool" where
  "manager_ftp_lifecycle_valid_slot slot \<longleftrightarrow> slot < MANAGER_FTP_SOCKET_COUNT"

definition manager_ftp_lifecycle_init :: manager_ftp_lifecycle where
  "manager_ftp_lifecycle_init =
     \<lparr>stop_requested = False, worker_running = False,
      sockets = replicate MANAGER_FTP_SOCKET_COUNT (-1)\<rparr>"

definition manager_ftp_lifecycle_should_stop :: "manager_ftp_lifecycle \<Rightarrow> bool" where
  "manager_ftp_lifecycle_should_stop state = stop_requested state"

definition manager_ftp_lifecycle_set_worker_running ::
    "manager_ftp_lifecycle \<Rightarrow> int \<Rightarrow> manager_ftp_lifecycle" where
  "manager_ftp_lifecycle_set_worker_running state running =
     state\<lparr>worker_running := running \<noteq> 0\<rparr>"

definition manager_ftp_lifecycle_is_listening :: "manager_ftp_lifecycle \<Rightarrow> bool" where
  "manager_ftp_lifecycle_is_listening state \<longleftrightarrow>
     \<not> stop_requested state \<and> worker_running state \<and>
     sockets state ! MANAGER_FTP_SOCKET_LISTEN \<ge> 0"

text \<open>\<open>True\<close> is the result 0, the socket is published.\<close>

definition manager_ftp_lifecycle_publish ::
    "manager_ftp_lifecycle \<Rightarrow> nat \<Rightarrow> int \<Rightarrow> bool \<times> manager_ftp_lifecycle" where
  "manager_ftp_lifecycle_publish state slot socket =
     (if \<not> manager_ftp_lifecycle_valid_slot slot \<or> socket < 0 \<or> stop_requested state \<or>
         sockets state ! slot \<ge> 0
      then (False, state)
      else (True, state\<lparr>sockets := (sockets state)[slot := socket]\<rparr>))"

definition manager_ftp_lifecycle_load :: "manager_ftp_lifecycle \<Rightarrow> nat \<Rightarrow> int" where
  "manager_ftp_lifecycle_load state slot =
     (if \<not> manager_ftp_lifecycle_valid_slot slot then -1 else sockets state ! slot)"

definition manager_ftp_lifecycle_load_if_running :: "manager_ftp_lifecycle \<Rightarrow> nat \<Rightarrow> int" where
  "manager_ftp_lifecycle_load_if_running state slot =
     (if stop_requested state \<or> \<not> worker_running state then -1
      else manager_ftp_lifecycle_load state slot)"

definition manager_ftp_lifecycle_take ::
    "manager_ftp_lifecycle \<Rightarrow> nat \<Rightarrow> int \<times> manager_ftp_lifecycle" where
  "manager_ftp_lifecycle_take state slot =
     (if \<not> manager_ftp_lifecycle_valid_slot slot then (-1, state)
      else (sockets state ! slot, state\<lparr>sockets := (sockets state)[slot := -1]\<rparr>))"

text \<open>The snapshot of all four sockets is the first component of the result.\<close>

definition manager_ftp_lifecycle_begin_stop ::
    "manager_ftp_lifecycle \<Rightarrow> int list \<times> manager_ftp_lifecycle" where
  "manager_ftp_lifecycle_begin_stop state =
     (sockets state,
      state\<lparr>stop_requested := True,
            sockets := (sockets state)[MANAGER_FTP_SOCKET_LISTEN := -1,
                                       MANAGER_FTP_SOCKET_PASSIVE := -1]\<rparr>)"

text \<open>
  The operations in any order, as the lock serialises them, with two ghost multisets: the
  descriptors ever published, and those handed to an owner that closes them (the result of a
  take, and the two accept sockets the stop caller receives).
\<close>

definition owned :: "int \<Rightarrow> int multiset" where
  "owned d = (if d \<ge> 0 then {#d#} else {#})"

type_synonym lifecycle_run = "manager_ftp_lifecycle \<times> int multiset \<times> int multiset"

inductive lifecycle_step :: "lifecycle_run \<Rightarrow> lifecycle_run \<Rightarrow> bool" where
  publish: "manager_ftp_lifecycle_publish s slot d = (True, t) \<Longrightarrow>
    lifecycle_step (s, pub, out) (t, add_mset d pub, out)"
| rejected: "manager_ftp_lifecycle_publish s slot d = (False, t) \<Longrightarrow>
    lifecycle_step (s, pub, out) (t, pub, out)"
| take: "manager_ftp_lifecycle_take s slot = (d, t) \<Longrightarrow>
    lifecycle_step (s, pub, out) (t, pub, owned d + out)"
| running: "lifecycle_step (s, pub, out) (manager_ftp_lifecycle_set_worker_running s r, pub, out)"
| stop: "manager_ftp_lifecycle_begin_stop s = (snap, t) \<Longrightarrow>
    lifecycle_step (s, pub, out)
      (t, pub, owned (snap ! MANAGER_FTP_SOCKET_LISTEN) + owned (snap ! MANAGER_FTP_SOCKET_PASSIVE) + out)"

definition held :: "manager_ftp_lifecycle \<Rightarrow> int multiset" where
  "held s = (\<Sum>i<4. owned (sockets s ! i))"

definition lifecycle_ok :: "lifecycle_run \<Rightarrow> bool" where
  "lifecycle_ok r = (case r of (s, pub, out) \<Rightarrow>
     length (sockets s) = 4 \<and> pub = held s + out \<and>
     (stop_requested s \<longrightarrow> sockets s ! MANAGER_FTP_SOCKET_LISTEN < 0 \<and>
        sockets s ! MANAGER_FTP_SOCKET_PASSIVE < 0))"

lemma list4: "length xs = 4 \<Longrightarrow> \<exists>a b c d. xs = [a, b, c, d]"
  by (auto simp: length_Suc_conv numeral_eq_Suc)

lemma lifecycle_ok_list: "lifecycle_ok (s, pub, out) \<Longrightarrow> \<exists>a b c d. sockets s = [a, b, c, d]"
  by (rule list4) (simp add: lifecycle_ok_def)

lemma lessThan4: "(\<Sum>i<4. f i) = f 0 + f 1 + f 2 + (f (3::nat) :: 'a::comm_monoid_add)"
  by (simp add: numeral_eq_Suc)

lemma less4: "n < 4 \<Longrightarrow> n = 0 \<or> n = 1 \<or> n = 2 \<or> n = (3::nat)"
  by auto

lemmas slot_defs = MANAGER_FTP_SOCKET_LISTEN_def MANAGER_FTP_SOCKET_CONTROL_def
  MANAGER_FTP_SOCKET_PASSIVE_def MANAGER_FTP_SOCKET_DATA_def MANAGER_FTP_SOCKET_COUNT_def
  manager_ftp_lifecycle_valid_slot_def

definition holding :: "int list \<Rightarrow> int multiset" where
  "holding xs = (\<Sum>i<4. owned (xs ! i))"

lemma held_holding: "held s = holding (sockets s)"
  by (simp add: held_def holding_def)

lemma holding_update:
  assumes "length xs = 4" "i < 4"
  shows "holding (xs[i := d]) + owned (xs ! i) = holding xs + owned d"
proof -
  obtain a b c e where xs: "xs = [a, b, c, e]" using list4 [OF assms(1)] by blast
  from less4 [OF assms(2)] show ?thesis
    by (elim disjE) (simp_all add: xs holding_def lessThan4)
qed

lemma owned_neg: "d < 0 \<Longrightarrow> owned d = {#}"
  by (simp add: owned_def)

lemma lifecycle_step_ok: "lifecycle_step r r' \<Longrightarrow> lifecycle_ok r \<Longrightarrow> lifecycle_ok r'"
proof (induction rule: lifecycle_step.induct)
  case (publish s slot d t pub out)
  then have p: "slot < 4" "0 \<le> d" "\<not> stop_requested s" "sockets s ! slot < 0"
    "t = s\<lparr>sockets := (sockets s)[slot := d]\<rparr>"
    by (auto simp: manager_ftp_lifecycle_publish_def slot_defs split: if_splits)
  moreover have "holding ((sockets s)[slot := d]) = holding (sockets s) + owned d"
    using holding_update [of "sockets s" slot d] p publish(2) by (simp add: lifecycle_ok_def owned_neg)
  ultimately show ?case using publish(2)
    by (simp add: lifecycle_ok_def held_holding owned_def)
next
  case (take s slot d t pub out)
  show ?case
  proof (cases "slot < 4")
    case True
    then have t: "d = sockets s ! slot" "t = s\<lparr>sockets := (sockets s)[slot := -1]\<rparr>"
      using take(1) by (auto simp: manager_ftp_lifecycle_take_def slot_defs)
    have "length (sockets s) = 4" using take(2) by (simp add: lifecycle_ok_def)
    then show ?thesis using take(2) holding_update [of "sockets s" slot "-1"] True
      by (auto simp: t lifecycle_ok_def held_holding owned_neg ac_simps slot_defs nth_list_update)
  next
    case False
    then show ?thesis using take
      by (auto simp: manager_ftp_lifecycle_take_def slot_defs owned_def)
  qed
next
  case (stop s snap t pub out)
  then have l: "length (sockets s) = 4" by (simp add: lifecycle_ok_def)
  then show ?case using stop holding_update [of "sockets s" 0 "-1"]
      holding_update [of "(sockets s)[0 := -1]" 2 "-1"]
    by (auto simp: lifecycle_ok_def held_holding slot_defs owned_neg ac_simps
        manager_ftp_lifecycle_begin_stop_def)
qed (auto simp: lifecycle_ok_def held_def manager_ftp_lifecycle_publish_def
      manager_ftp_lifecycle_set_worker_running_def split: if_splits)

lemma lifecycle_steps_ok: "lifecycle_step\<^sup>*\<^sup>* r r' \<Longrightarrow> lifecycle_ok r \<Longrightarrow> lifecycle_ok r'"
  by (induction rule: rtranclp_induct) (auto intro: lifecycle_step_ok)

lemma lifecycle_init_ok: "lifecycle_ok (manager_ftp_lifecycle_init, {#}, {#})"
  by (simp add: lifecycle_ok_def manager_ftp_lifecycle_init_def held_def lessThan4 owned_def
      slot_defs numeral_eq_Suc)

lemma lifecycle_step_stopped:
  "lifecycle_step r r' \<Longrightarrow> stop_requested (fst r) \<Longrightarrow>
   stop_requested (fst r') \<and> fst (snd r') = fst (snd r)"
  by (induction rule: lifecycle_step.induct)
    (auto simp: manager_ftp_lifecycle_publish_def manager_ftp_lifecycle_take_def
      manager_ftp_lifecycle_set_worker_running_def manager_ftp_lifecycle_begin_stop_def
      split: if_splits)

section \<open>Properties\<close>

text \<open>
  C10: a path resolves exactly when every requested segment is a safe name and both results
  fit, and then the virtual path is the canonical rendering of the segments and the Vita path is
  that rendering below the mapped root; so no resolved path leaves the root.  The aliases of the
  root, the names allowed and the root itself are written out in \<open>requested\<close>, \<open>safe_name\<close>
  and \<open>vita_of\<close>, which use no test of the code.
\<close>

theorem ftp_path_exact:
  "manager_ftp_path_resolve cwd input vs ws = Inr (v, w) \<longleftrightarrow>
     2 \<le> vs \<and> 2 \<le> ws \<and> cwd \<noteq> [] \<and> hd cwd = slash \<and>
     list_all safe_name (requested cwd input) \<and>
     v = render (requested cwd input) \<and> w = vita_of (requested cwd input) \<and>
     length v < vs \<and> length w < ws"
  by (auto simp: resolve_ok)

text \<open>
  The parent of a resolvable path is the path without its last segment, the root is its
  own parent, and resolving a resolved path again changes nothing.
\<close>

lemma ftp_path_parent:
  "(manager_ftp_path_parent cwd vs ws = Inr r \<longleftrightarrow>
     (\<exists>v w. manager_ftp_path_resolve [slash] cwd MANAGER_FTP_PATH_CAPACITY
              MANAGER_FTP_PATH_CAPACITY = Inr (v, w)) \<and>
     2 \<le> vs \<and> 2 \<le> ws \<and>
     r = (render (butlast (requested [slash] cwd)), vita_of (butlast (requested [slash] cwd))) \<and>
     length (fst r) < vs \<and> length (snd r) < ws) \<and>
   (manager_ftp_path_resolve cwd' input vs ws = Inr (v', w') \<longrightarrow>
     manager_ftp_path_resolve [slash] v' vs ws = Inr (v', w'))"
proof
  let ?q = "requested [slash] cwd"
  have "manager_ftp_path_parent cwd vs ws = and_ok (manager_ftp_path_resolve [slash] cwd
      MANAGER_FTP_PATH_CAPACITY MANAGER_FTP_PATH_CAPACITY)
      (\<lambda>(c, u). manager_ftp_path_resolve [slash] (parent_string c) vs ws)"
    by (simp add: manager_ftp_path_parent_def parent_string_def Let_def cong: if_cong)
  then have "manager_ftp_path_parent cwd vs ws = Inr r \<longleftrightarrow>
     (\<exists>v w. manager_ftp_path_resolve [slash] cwd MANAGER_FTP_PATH_CAPACITY
              MANAGER_FTP_PATH_CAPACITY = Inr (v, w)) \<and>
     manager_ftp_path_resolve [slash] (parent_string (render ?q)) vs ws = Inr r"
    by (auto simp: and_ok_Inr resolve_ok)
  also have "\<dots> \<longleftrightarrow> (\<exists>v w. manager_ftp_path_resolve [slash] cwd MANAGER_FTP_PATH_CAPACITY
              MANAGER_FTP_PATH_CAPACITY = Inr (v, w)) \<and>
     2 \<le> vs \<and> 2 \<le> ws \<and> r = (render (butlast ?q), vita_of (butlast ?q)) \<and>
     length (fst r) < vs \<and> length (snd r) < ws"
  proof (rule conj_cong [OF refl])
    assume "\<exists>v w. manager_ftp_path_resolve [slash] cwd MANAGER_FTP_PATH_CAPACITY
              MANAGER_FTP_PATH_CAPACITY = Inr (v, w)"
    then have s: "list_all safe_name ?q" by (auto simp: resolve_ok)
    then have b: "list_all safe_name (butlast ?q)" by (auto simp: list_all_iff dest: in_set_butlastD)
    show "manager_ftp_path_resolve [slash] (parent_string (render ?q)) vs ws = Inr r \<longleftrightarrow>
       2 \<le> vs \<and> 2 \<le> ws \<and> r = (render (butlast ?q), vita_of (butlast ?q)) \<and>
       length (fst r) < vs \<and> length (snd r) < ws"
      using b by (simp add: resolve_ok parent_string_render [OF s] requested_render [OF b])
  qed
  finally show "manager_ftp_path_parent cwd vs ws = Inr r \<longleftrightarrow>
     (\<exists>v w. manager_ftp_path_resolve [slash] cwd MANAGER_FTP_PATH_CAPACITY
              MANAGER_FTP_PATH_CAPACITY = Inr (v, w)) \<and>
     2 \<le> vs \<and> 2 \<le> ws \<and>
     r = (render (butlast (requested [slash] cwd)), vita_of (butlast (requested [slash] cwd))) \<and>
     length (fst r) < vs \<and> length (snd r) < ws" .
  show "manager_ftp_path_resolve cwd' input vs ws = Inr (v', w') \<longrightarrow>
     manager_ftp_path_resolve [slash] v' vs ws = Inr (v', w')"
    by (auto simp: resolve_ok requested_render)
qed

text \<open>
  C11: every FTP verb of the table, in any mix of cases, is parsed back from its line, with or without an argument: blanks around
  the argument and line ends are dropped, and an argument that fits, holds no control character and neither begins nor
  ends with a blank is the argument.
\<close>

theorem ftp_command_roundtrip:
  assumes "map_of manager_ftp_command_names (map toupper w) = Some c" "list_all isalpha w"
    and "list_all blank sep" "list_all blank pad" "list_all line_end ends" "arg \<noteq> [] \<longrightarrow> sep \<noteq> []"
    and "arg \<noteq> [] \<longrightarrow> \<not> blank (hd arg) \<and> \<not> blank (last arg)" "\<not> list_ex control arg"
    and "length arg < MANAGER_FTP_PATH_CAPACITY"
  shows "manager_ftp_parse_command (w @ sep @ arg @ pad @ ends) =
      Some \<lparr>ftp_command = c, has_argument = (arg \<noteq> []), argument = arg\<rparr>"
proof -
  have w: "map toupper w \<noteq> []" "length w \<le> 8" using command_names_length [OF assms(1)] by auto
  have "\<not> line_end x" if "x \<in> set (w @ sep @ arg @ pad)" for x
  proof -
    have "isalpha x \<or> blank x \<or> \<not> control x"
      using that assms(2-4,8) unfolding list_all_iff list_ex_iff set_append by blast
    then show ?thesis using line_end_alone by blast
  qed
  then have "w @ sep @ arg @ pad = [] \<or> \<not> line_end (last (w @ sep @ arg @ pad))"
    using last_in_set [of "w @ sep @ arg @ pad"] by metis
  then have "drop_trailing line_end ((w @ sep @ arg @ pad) @ ends) = w @ sep @ arg @ pad"
    by (rule drop_trailing_append [OF assms(5)])
  then have line: "drop_trailing line_end (w @ sep @ arg @ pad @ ends) = w @ sep @ arg @ pad" by simp
  have "sep @ arg @ pad = [] \<or> blank (hd (sep @ arg @ pad))"
    using assms(3,4,6) by (cases sep; cases arg; cases pad) auto
  then have word: "command_word [] (w @ (sep @ arg @ pad)) = Some ([] @ map toupper w, sep @ arg @ pad)"
    using w(2) assms(2) by (intro command_word_letters) auto
  have "drop_trailing blank (dropWhile blank (sep @ arg @ pad)) = arg"
  proof (cases "arg = []")
    case True
    then have "\<forall>x\<in>set (sep @ arg @ pad). blank x" using assms(3,4) by (auto simp: list_all_iff)
    then have "dropWhile blank (sep @ arg @ pad) = []" by (simp only: dropWhile_eq_Nil_conv)
    then show ?thesis using True by (simp only: drop_trailing_def rev.simps dropWhile.simps)
  next
    case False
    then have "dropWhile blank (sep @ arg @ pad) = arg @ pad"
      using assms(3,7) by (cases arg) (auto simp: list_all_iff dropWhile_append)
    moreover have "drop_trailing blank (arg @ pad) = arg"
      by (rule drop_trailing_append [OF assms(4)]) (use assms(7) in blast)
    ultimately show ?thesis by simp
  qed
  then show ?thesis using assms w line word
    by (simp add: manager_ftp_parse_command_def Let_def command_of_name_def)
qed

theorem ftp_command_roundtrip_witness:
  "manager_ftp_parse_command (''retr'' @ '' '' @ ''a b'' @ [CHR 0x09] @ [CHR 0x0D, CHR 0x0A]) =
     Some \<lparr>ftp_command = MANAGER_FTP_COMMAND_RETR, has_argument = True, argument = ''a b''\<rparr> \<and>
   manager_ftp_parse_command (''Quit'' @ [] @ [] @ [] @ [CHR 0x0D, CHR 0x0A]) =
     Some \<lparr>ftp_command = MANAGER_FTP_COMMAND_QUIT, has_argument = False, argument = []\<rparr>"
proof -
  have "manager_ftp_parse_command (''retr'' @ '' '' @ ''a b'' @ [CHR 0x09] @ [CHR 0x0D, CHR 0x0A]) =
      Some \<lparr>ftp_command = MANAGER_FTP_COMMAND_RETR, has_argument = (''a b'' \<noteq> []), argument = ''a b''\<rparr>"
    by (rule ftp_command_roundtrip) (code_simp+)
  moreover have "manager_ftp_parse_command (''Quit'' @ [] @ [] @ [] @ [CHR 0x0D, CHR 0x0A]) =
      Some \<lparr>ftp_command = MANAGER_FTP_COMMAND_QUIT, has_argument = (([] :: string) \<noteq> []), argument = []\<rparr>"
    by (rule ftp_command_roundtrip) (code_simp+)
  ultimately show ?thesis by simp
qed

text \<open>
  C12: over any interleaving of the life-cycle operations no descriptor is lost or handed out
  twice (what was published is what the slots hold plus what owners received), and once a stop
  has begun nothing is published and no accept socket is held.
\<close>

theorem ftp_descriptors_conserved:
  assumes "lifecycle_step\<^sup>*\<^sup>* (manager_ftp_lifecycle_init, {#}, {#}) (s, pub, out)"
  shows "pub = held s + out \<and>
    (stop_requested s \<longrightarrow> sockets s ! MANAGER_FTP_SOCKET_LISTEN < 0 \<and>
       sockets s ! MANAGER_FTP_SOCKET_PASSIVE < 0 \<and> \<not> manager_ftp_lifecycle_is_listening s \<and>
       (\<forall>slot d. fst (manager_ftp_lifecycle_publish s slot d) = False) \<and>
       (\<forall>t pub' out'. lifecycle_step (s, pub, out) (t, pub', out') \<longrightarrow>
          stop_requested t \<and> pub' = pub))"
  using lifecycle_steps_ok [OF assms lifecycle_init_ok] lifecycle_step_stopped [of "(s, pub, out)"]
  by (fastforce simp: lifecycle_ok_def manager_ftp_lifecycle_is_listening_def
      manager_ftp_lifecycle_publish_def)

theorem ftp_descriptors_conserved_witness:
  "{#5#} = held (snd (manager_ftp_lifecycle_publish manager_ftp_lifecycle_init 0 5)) + {#}"
proof -
  have "lifecycle_step\<^sup>*\<^sup>* (manager_ftp_lifecycle_init, {#}, {#})
      (snd (manager_ftp_lifecycle_publish manager_ftp_lifecycle_init 0 5), {#5#}, {#})"
    by (rule r_into_rtranclp, rule publish [where slot = 0])
      (simp add: manager_ftp_lifecycle_publish_def manager_ftp_lifecycle_init_def slot_defs)
  from ftp_descriptors_conserved [OF this] show ?thesis by blast
qed

end
