(* ===== verification/Manager_Storage.thy ===== *)
theory Manager_Storage imports Manager_Sha256 "HOL-Library.State_Monad" begin

text \<open>
  The save and mod storage of the manager (\<open>vita/manager_storage.c\<close>).  Every access to the
  device goes through the table \<open>manager_storage_io\<close>, a parameter of the model: a record of state
  transformers over a device state \<open>'s\<close>.  Results keep the sign conventions of the C interface.
  The functions are written in the state monad in the order of the source; an early return is a
  branch.  Strings are character lists; \<open>snprintf\<close> into a bounded buffer is \<open>format\<close>, which
  yields nothing when the text does not fit.
\<close>

section \<open>Data\<close>

datatype manager_storage_result = MANAGER_STORAGE_OK | MANAGER_STORAGE_SYNC_WARNING
  | MANAGER_STORAGE_INVALID | MANAGER_STORAGE_IO_ERROR | MANAGER_STORAGE_CONFLICT
  | MANAGER_STORAGE_HASH_MISMATCH | MANAGER_STORAGE_TOO_LARGE | MANAGER_STORAGE_CAPACITY

text \<open>\<open>result < 0\<close> in the source.\<close>

definition failed :: "manager_storage_result \<Rightarrow> bool" where
  "failed r \<longleftrightarrow> r \<noteq> MANAGER_STORAGE_OK \<and> r \<noteq> MANAGER_STORAGE_SYNC_WARNING"

datatype manager_storage_node_kind = MANAGER_STORAGE_NODE_FILE
  | MANAGER_STORAGE_NODE_DIRECTORY | MANAGER_STORAGE_NODE_OTHER

datatype manager_save_backup_origin = MANAGER_SAVE_BACKUP_DATED
  | MANAGER_SAVE_BACKUP_LOCAL | MANAGER_SAVE_BACKUP_SYNC

record manager_storage_dir_entry =
  entry_name :: string
  entry_kind :: manager_storage_node_kind
  entry_size :: nat

record manager_mod_entry =
  mod_name :: string
  disabled :: bool

record manager_save_slot =
  slot_number :: nat
  present :: bool
  slot_size :: nat

record manager_save_backup =
  backup_slot :: nat
  origin :: manager_save_backup_origin
  backup_size :: nat
  label :: string
  path :: string

text \<open>
  The device table.  \<open>stat_path\<close> answers with the status, the kind and the size (meaningful for
  status 0); \<open>read_data\<close> (\<open>read\<close> in the source) answers \<open>None\<close> for a negative amount and otherwise the bytes it put in the
  buffer; \<open>read_directory\<close> answers with the status and the entry.
\<close>

record 's manager_storage_io =
  stat_path :: "string \<Rightarrow> ('s, int \<times> manager_storage_node_kind \<times> nat) state"
  open_read :: "string \<Rightarrow> ('s, int) state"
  open_write_exclusive :: "string \<Rightarrow> ('s, int) state"
  read_data :: "int \<Rightarrow> nat \<Rightarrow> ('s, u8 list option) state"
  write_data :: "int \<Rightarrow> u8 list \<Rightarrow> ('s, int) state"
  sync_file :: "int \<Rightarrow> ('s, int) state"
  close_file :: "int \<Rightarrow> ('s, int) state"
  remove_file :: "string \<Rightarrow> ('s, int) state"
  rename_path :: "string \<Rightarrow> string \<Rightarrow> ('s, int) state"
  make_directory :: "string \<Rightarrow> ('s, int) state"
  sync_device :: "('s, int) state"
  open_directory :: "string \<Rightarrow> ('s, int) state"
  read_directory :: "int \<Rightarrow> ('s, int \<times> manager_storage_dir_entry) state"
  close_directory :: "int \<Rightarrow> ('s, int) state"

abbreviation ret :: "'a \<Rightarrow> ('s, 'a) state" where "ret \<equiv> State_Monad.return"

definition MANAGER_STORAGE_ROOT :: string where
  "MANAGER_STORAGE_ROOT = ''ux0:/data/isaacr001''"
definition MANAGER_STORAGE_MOD_ROOT :: string where
  "MANAGER_STORAGE_MOD_ROOT = MANAGER_STORAGE_ROOT @ ''/mods''"
definition MANAGER_STORAGE_SAVE_ROOT :: string where
  "MANAGER_STORAGE_SAVE_ROOT =
     MANAGER_STORAGE_ROOT @ ''/Documents/My Games/Binding of Isaac Repentance''"
definition MANAGER_STORAGE_BACKUP_ROOT :: string where
  "MANAGER_STORAGE_BACKUP_ROOT = MANAGER_STORAGE_ROOT @ ''/.manager-backups''"
definition MANAGER_STORAGE_SYNC_BACKUP_ROOT :: string where
  "MANAGER_STORAGE_SYNC_BACKUP_ROOT = MANAGER_STORAGE_ROOT @ ''/.sync-backups''"
definition MANAGER_STORAGE_PATH_CAPACITY :: nat where "MANAGER_STORAGE_PATH_CAPACITY = 512"
definition MANAGER_STORAGE_NAME_CAPACITY :: nat where "MANAGER_STORAGE_NAME_CAPACITY = 128"
definition MANAGER_STORAGE_LABEL_CAPACITY :: nat where "MANAGER_STORAGE_LABEL_CAPACITY = 96"
definition MANAGER_STORAGE_MAX_SAVE_BYTES :: nat where
  "MANAGER_STORAGE_MAX_SAVE_BYTES = 8 * 1024 * 1024"
definition MANAGER_STORAGE_COPY_BUFFER :: nat where "MANAGER_STORAGE_COPY_BUFFER = 32768"

section \<open>Formatting and names\<close>

fun decimal :: "nat \<Rightarrow> string" where
  "decimal n = (if n < 10 then [] else decimal (n div 10)) @ [char_of (48 + n mod 10)]"

declare decimal.simps [simp del]

text \<open>\<open>%04u\<close>\<close>

definition decimal4 :: "nat \<Rightarrow> string" where
  "decimal4 n = replicate (4 - length (decimal n)) (CHR ''0'') @ decimal n"

definition manager_storage_format :: "nat \<Rightarrow> string \<Rightarrow> string option" where
  "manager_storage_format capacity t = (if length t < capacity then Some t else None)"

abbreviation "in_path \<equiv> manager_storage_format MANAGER_STORAGE_PATH_CAPACITY"

definition manager_storage_slot_path :: "nat \<Rightarrow> string option" where
  "manager_storage_slot_path slot =
     in_path (MANAGER_STORAGE_SAVE_ROOT @ ''/persistentgamedata'' @ decimal slot @ ''.dat'')"

definition manager_storage_restore_temp_path :: "nat \<Rightarrow> string option" where
  "manager_storage_restore_temp_path slot =
     in_path (MANAGER_STORAGE_SAVE_ROOT @ ''/.manager-restore-slot'' @ decimal slot @ ''.tmp'')"

definition manager_storage_rollback_path :: "nat \<Rightarrow> string option" where
  "manager_storage_rollback_path slot =
     in_path (MANAGER_STORAGE_SAVE_ROOT @ ''/.manager-rollback-slot'' @ decimal slot @ ''.dat'')"

definition manager_storage_backup_temp_path :: "nat \<Rightarrow> string option" where
  "manager_storage_backup_temp_path slot =
     in_path (MANAGER_STORAGE_BACKUP_ROOT @ ''/.manager-backup-slot'' @ decimal slot @ ''.tmp'')"

definition unsafe_char :: "char \<Rightarrow> bool" where
  "unsafe_char c \<longleftrightarrow> (of_char c :: nat) < 0x20 \<or> (of_char c :: nat) = 0x7F \<or> c = CHR ''/'' \<or>
     c = CHR 0x5C \<or> c = CHR '':''"

definition manager_storage_safe_segment :: "string \<Rightarrow> bool" where
  "manager_storage_safe_segment name \<longleftrightarrow> name \<noteq> [] \<and> name \<noteq> ''.'' \<and> name \<noteq> ''..'' \<and>
     \<not> list_ex unsafe_char name \<and> length name < MANAGER_STORAGE_NAME_CAPACITY"

definition manager_storage_join :: "string \<Rightarrow> string \<Rightarrow> string \<Rightarrow> string option" where
  "manager_storage_join root name suffix = in_path (root @ ''/'' @ name @ suffix)"

definition isdigit :: "char \<Rightarrow> bool" where
  "isdigit c \<longleftrightarrow> 48 \<le> (of_char c :: nat) \<and> (of_char c :: nat) \<le> 57"

definition tolower :: "char \<Rightarrow> char" where
  "tolower c = (let n = (of_char c :: nat) in if 65 \<le> n \<and> n \<le> 90 then char_of (n + 32) else c)"

fun manager_storage_ascii_equal :: "string \<Rightarrow> string \<Rightarrow> bool" where
  "manager_storage_ascii_equal (a # as) (b # bs) =
     (if tolower a \<noteq> tolower b then False else manager_storage_ascii_equal as bs)"
| "manager_storage_ascii_equal as bs = (as = [] \<and> bs = [])"

definition manager_storage_parse_dated_name :: "string \<Rightarrow> nat option" where
  "manager_storage_parse_dated_name name =
     (if length name < 8 + 1 + 23 then None
      else if \<not> list_all isdigit (take 8 name) then None
      else if name ! 8 \<noteq> CHR ''.'' then None
      else let tail = drop 9 name;
               tail = (if map tolower (take 3 tail) = ''rep'' \<and> tail ! 3 = CHR ''_''
                       then drop 4 tail else tail)
           in find (\<lambda>index. manager_storage_ascii_equal tail
                              (''persistentgamedata'' @ decimal index @ ''.dat'')) [1, 2, 3])"

definition manager_storage_parse_local_name :: "string \<Rightarrow> (nat \<times> nat) option" where
  "manager_storage_parse_local_name name =
     (let d = (\<lambda>i. (of_char (name ! i) :: nat) - 48) in
      if length name \<noteq> 14 \<or> take 4 name \<noteq> ''slot'' \<or>
         \<not> (49 \<le> (of_char (name ! 4) :: nat) \<and> (of_char (name ! 4) :: nat) \<le> 51) \<or>
         name ! 5 \<noteq> CHR ''-'' \<or> \<not> isdigit (name ! 6) \<or> \<not> isdigit (name ! 7) \<or>
         \<not> isdigit (name ! 8) \<or> \<not> isdigit (name ! 9) \<or> take 4 (drop 10 name) \<noteq> ''.dat''
      then None
      else Some (d 4, d 6 * 1000 + d 7 * 100 + d 8 * 10 + d 9))"

section \<open>Device helpers\<close>

definition manager_storage_stat ::
    "'s manager_storage_io \<Rightarrow> string \<Rightarrow> ('s, int \<times> manager_storage_node_kind \<times> nat) state" where
  "manager_storage_stat io p =
     do { (result, kind, len) \<leftarrow> stat_path io p;
          ret (if result = 0 then (result, kind, len) else (result, MANAGER_STORAGE_NODE_OTHER, 0)) }"

definition manager_storage_ensure_backup_root ::
    "'s manager_storage_io \<Rightarrow> ('s, manager_storage_result) state" where
  "manager_storage_ensure_backup_root io =
     do { (result, kind, _) \<leftarrow> manager_storage_stat io MANAGER_STORAGE_BACKUP_ROOT;
          if result = 0 then
            ret (if kind = MANAGER_STORAGE_NODE_DIRECTORY then MANAGER_STORAGE_OK
                 else MANAGER_STORAGE_CONFLICT)
          else if result < 0 then ret MANAGER_STORAGE_IO_ERROR
          else do {
            made \<leftarrow> make_directory io MANAGER_STORAGE_BACKUP_ROOT;
            if made < 0 then ret MANAGER_STORAGE_IO_ERROR
            else do {
              synced \<leftarrow> sync_device io;
              if synced < 0 then ret MANAGER_STORAGE_SYNC_WARNING
              else do {
                (result, kind, _) \<leftarrow> manager_storage_stat io MANAGER_STORAGE_BACKUP_ROOT;
                ret (if result = 0 \<and> kind = MANAGER_STORAGE_NODE_DIRECTORY
                     then MANAGER_STORAGE_OK else MANAGER_STORAGE_IO_ERROR) } } } }"

definition backup_name :: "string \<Rightarrow> nat \<Rightarrow> nat \<Rightarrow> string" where
  "backup_name prefix slot index =
     MANAGER_STORAGE_BACKUP_ROOT @ ''/'' @ prefix @ decimal slot @ ''-'' @ decimal4 index @ ''.dat''"

text \<open>The result is the code with the selected path and index.\<close>

function find_free_from :: "'s manager_storage_io \<Rightarrow> string \<Rightarrow> nat \<Rightarrow> nat \<Rightarrow>
    ('s, manager_storage_result \<times> string \<times> nat) state" where
  "find_free_from io prefix slot index =
     (if index > 9999 then ret (MANAGER_STORAGE_CAPACITY, [], 0)
      else case in_path (backup_name prefix slot index) of
        None \<Rightarrow> ret (MANAGER_STORAGE_INVALID, [], 0)
      | Some p \<Rightarrow>
          do { (result, _, _) \<leftarrow> manager_storage_stat io p;
               if result = 1 then ret (MANAGER_STORAGE_OK, p, index)
               else if result < 0 then ret (MANAGER_STORAGE_IO_ERROR, [], 0)
               else find_free_from io prefix slot (Suc index) })"
  by pat_completeness auto
termination by (relation "measure (\<lambda>(_, _, _, index). 10000 - index)") auto

declare find_free_from.simps [simp del]

definition manager_storage_find_free_backup :: "'s manager_storage_io \<Rightarrow> string \<Rightarrow> nat \<Rightarrow>
    ('s, manager_storage_result \<times> string \<times> nat) state" where
  "manager_storage_find_free_backup io prefix slot = find_free_from io prefix slot 0"

text \<open>A fresh hash context; its buffer is uninitialised memory, any 64 bytes.\<close>

definition fresh_hash :: manager_sha256_context where
  "fresh_hash = manager_sha256_init
     \<lparr>sha_state = [], byte_count = 0, block = replicate 64 0, block_size = 0\<rparr>"

lemma read_progress: "x \<noteq> [] \<Longrightarrow> \<not> m < t + length x \<Longrightarrow> m - (t + length x) < m - t"
  by (cases x) auto

text \<open>The read loop, up to end of file: the code, the hash and the total.\<close>

function hash_loop :: "'s manager_storage_io \<Rightarrow> int \<Rightarrow> manager_sha256_context \<Rightarrow> nat \<Rightarrow>
    ('s, manager_storage_result \<times> manager_sha256_context \<times> nat) state" where
  "hash_loop io handle hash total_bytes =
     do { amount \<leftarrow> read_data io handle MANAGER_STORAGE_COPY_BUFFER;
          case amount of None \<Rightarrow> ret (MANAGER_STORAGE_IO_ERROR, hash, total_bytes)
          | Some buffer \<Rightarrow>
              if buffer = [] then ret (MANAGER_STORAGE_OK, hash, total_bytes)
              else if total_bytes + length buffer > MANAGER_STORAGE_MAX_SAVE_BYTES
              then ret (MANAGER_STORAGE_TOO_LARGE, hash, total_bytes + length buffer)
              else hash_loop io handle (manager_sha256_update hash buffer)
                     (total_bytes + length buffer) }"
  by pat_completeness auto
termination
  by (relation "measure (\<lambda>(_, _, _, total_bytes). MANAGER_STORAGE_MAX_SAVE_BYTES - total_bytes)")
    (auto intro: read_progress)

declare hash_loop.simps [simp del]

text \<open>The code, the digest and the size.\<close>

definition manager_storage_hash_path :: "'s manager_storage_io \<Rightarrow> string \<Rightarrow>
    ('s, manager_storage_result \<times> u8 list \<times> nat) state" where
  "manager_storage_hash_path io p =
     do { handle \<leftarrow> open_read io p;
          if handle < 0 then ret (MANAGER_STORAGE_IO_ERROR, [], 0)
          else do {
            (result, hash, total_bytes) \<leftarrow> hash_loop io handle fresh_hash 0;
            closed \<leftarrow> close_file io handle;
            let result = (if closed < 0 \<and> result = MANAGER_STORAGE_OK
                          then MANAGER_STORAGE_IO_ERROR else result) in
            if result \<noteq> MANAGER_STORAGE_OK then ret (result, [], 0)
            else ret (MANAGER_STORAGE_OK, manager_sha256_final hash, total_bytes) } }"

text \<open>The inner write loop over what is left of the buffer; \<open>True\<close> when all was written.\<close>

function write_loop :: "'s manager_storage_io \<Rightarrow> int \<Rightarrow> u8 list \<Rightarrow> ('s, bool) state" where
  "write_loop io handle left =
     (if left = [] then ret True
      else do { written \<leftarrow> write_data io handle left;
                if written \<le> 0 then ret False
                else write_loop io handle (drop (nat written) left) })"
  by pat_completeness auto
termination by (relation "measure (\<lambda>(_, _, left). length left)") auto

declare write_loop.simps [simp del]

function copy_loop :: "'s manager_storage_io \<Rightarrow> int \<Rightarrow> int \<Rightarrow> manager_sha256_context \<Rightarrow> nat \<Rightarrow>
    ('s, manager_storage_result \<times> manager_sha256_context \<times> nat) state" where
  "copy_loop io source_handle destination_handle hash total_bytes =
     do { amount \<leftarrow> read_data io source_handle MANAGER_STORAGE_COPY_BUFFER;
          case amount of None \<Rightarrow> ret (MANAGER_STORAGE_IO_ERROR, hash, total_bytes)
          | Some buffer \<Rightarrow>
              if buffer = [] then ret (MANAGER_STORAGE_OK, hash, total_bytes)
              else if total_bytes + length buffer > MANAGER_STORAGE_MAX_SAVE_BYTES
              then ret (MANAGER_STORAGE_TOO_LARGE, hash, total_bytes + length buffer)
              else do {
                written \<leftarrow> write_loop io destination_handle buffer;
                if \<not> written
                then ret (MANAGER_STORAGE_IO_ERROR, manager_sha256_update hash buffer,
                          total_bytes + length buffer)
                else copy_loop io source_handle destination_handle
                       (manager_sha256_update hash buffer) (total_bytes + length buffer) } }"
  by pat_completeness auto
termination
  by (relation "measure (\<lambda>(_, _, _, _, total_bytes). MANAGER_STORAGE_MAX_SAVE_BYTES - total_bytes)")
    (auto intro: read_progress)

declare copy_loop.simps [simp del]

definition worst :: "bool \<Rightarrow> manager_storage_result \<Rightarrow> manager_storage_result" where
  "worst bad result =
     (if bad \<and> result = MANAGER_STORAGE_OK then MANAGER_STORAGE_IO_ERROR else result)"

text \<open>After the copy loop: sync, close both handles, and verify the copy by reading it back.\<close>

definition copy_finish :: "'s manager_storage_io \<Rightarrow> int \<Rightarrow> int \<Rightarrow> string \<Rightarrow>
    manager_storage_result \<Rightarrow> manager_sha256_context \<Rightarrow> nat \<Rightarrow>
    ('s, manager_storage_result \<times> u8 list \<times> nat) state" where
  "copy_finish io source_handle destination_handle temporary result hash total_bytes =
     do { synced \<leftarrow> (if result = MANAGER_STORAGE_OK then sync_file io destination_handle
                    else ret 0);
          closed_destination \<leftarrow> close_file io destination_handle;
          closed_source \<leftarrow> close_file io source_handle;
          let result = worst (closed_source < 0)
                         (worst (closed_destination < 0) (worst (synced < 0) result)) in
          if result \<noteq> MANAGER_STORAGE_OK
          then do { _ \<leftarrow> remove_file io temporary; ret (result, [], 0) }
          else let digest = manager_sha256_final hash in do {
            (result, readback, readback_size) \<leftarrow> manager_storage_hash_path io temporary;
            if result \<noteq> MANAGER_STORAGE_OK \<or> readback_size \<noteq> total_bytes \<or> digest \<noteq> readback
            then do { _ \<leftarrow> remove_file io temporary;
                      ret (if result = MANAGER_STORAGE_OK then MANAGER_STORAGE_HASH_MISMATCH
                           else result, [], 0) }
            else ret (MANAGER_STORAGE_OK, digest, total_bytes) } }"

definition manager_storage_copy_verified :: "'s manager_storage_io \<Rightarrow> string \<Rightarrow> string \<Rightarrow>
    ('s, manager_storage_result \<times> u8 list \<times> nat) state" where
  "manager_storage_copy_verified io source temporary =
     do { source_handle \<leftarrow> open_read io source;
          if source_handle < 0 then ret (MANAGER_STORAGE_IO_ERROR, [], 0)
          else do {
            destination_handle \<leftarrow> open_write_exclusive io temporary;
            if destination_handle < 0
            then do { _ \<leftarrow> close_file io source_handle; ret (MANAGER_STORAGE_CONFLICT, [], 0) }
            else do {
              (result, hash, total_bytes) \<leftarrow>
                copy_loop io source_handle destination_handle fresh_hash 0;
              copy_finish io source_handle destination_handle temporary result hash total_bytes } } }"

definition manager_storage_remove_managed_file :: "'s manager_storage_io \<Rightarrow> string \<Rightarrow>
    ('s, manager_storage_result) state" where
  "manager_storage_remove_managed_file io p =
     do { (result, kind, _) \<leftarrow> manager_storage_stat io p;
          if result = 1 then ret MANAGER_STORAGE_OK
          else if result < 0 then ret MANAGER_STORAGE_IO_ERROR
          else if kind \<noteq> MANAGER_STORAGE_NODE_FILE then ret MANAGER_STORAGE_CONFLICT
          else do { removed \<leftarrow> remove_file io p;
                    ret (if removed < 0 then MANAGER_STORAGE_IO_ERROR else MANAGER_STORAGE_OK) } }"

section \<open>Sorting\<close>

text \<open>\<open>strcmp\<close>: the sign of the comparison as unsigned bytes.\<close>

fun strcmp :: "string \<Rightarrow> string \<Rightarrow> int" where
  "strcmp [] [] = 0"
| "strcmp [] (_ # _) = -1"
| "strcmp (_ # _) [] = 1"
| "strcmp (a # as) (b # bs) =
     (if a = b then strcmp as bs else if (of_char a :: nat) < of_char b then -1 else 1)"

text \<open>
  One pass of the insertion sort: the sorted prefix is given from its right end, as the inner
  loop walks it; entries that compare above \<open>value\<close> are shifted one place up.
\<close>

fun shift_in :: "('a \<Rightarrow> 'a \<Rightarrow> bool) \<Rightarrow> 'a \<Rightarrow> 'a list \<Rightarrow> 'a list" where
  "shift_in gt value [] = [value]"
| "shift_in gt value (e # es) =
     (if gt e value then e # shift_in gt value es else value # e # es)"

definition insertion_sort :: "('a \<Rightarrow> 'a \<Rightarrow> bool) \<Rightarrow> 'a list \<Rightarrow> 'a list" where
  "insertion_sort gt entries = rev (foldl (\<lambda>done_rev value. shift_in gt value done_rev) [] entries)"

definition manager_storage_sort_mods :: "manager_mod_entry list \<Rightarrow> manager_mod_entry list" where
  "manager_storage_sort_mods = insertion_sort (\<lambda>e v. strcmp (mod_name e) (mod_name v) > 0)"

definition manager_storage_sort_backups :: "manager_save_backup list \<Rightarrow> manager_save_backup list" where
  "manager_storage_sort_backups = insertion_sort (\<lambda>e v. strcmp (label e) (label v) < 0)"

section \<open>Mods\<close>

text \<open>
  A directory is read until its end, and how long that takes is up to the device.  The read loops
  are partial functions on the device state: \<open>None\<close> is a loop that never ends.  A scan threads the
  entries found so far and the number skipped.
\<close>

type_synonym 'e scan = "manager_storage_result \<times> 'e list \<times> nat"

type_synonym ('s, 'a) looping = "'s \<Rightarrow> ('a \<times> 's) option"

partial_function (option) mods_loop :: "'s manager_storage_io \<Rightarrow> int \<Rightarrow> nat \<Rightarrow>
    manager_mod_entry list \<Rightarrow> nat \<Rightarrow> ('s, manager_mod_entry scan) looping" where
  "mods_loop io directory capacity entries skipped s =
     (case run_state (read_directory io directory) s of ((read_result, entry), s) \<Rightarrow>
        if read_result \<le> 0
        then Some ((if read_result < 0 then MANAGER_STORAGE_IO_ERROR else MANAGER_STORAGE_OK,
                    entries, skipped), s)
        else if entry_kind entry \<noteq> MANAGER_STORAGE_NODE_DIRECTORY \<or>
                \<not> manager_storage_safe_segment (entry_name entry)
        then mods_loop io directory capacity entries
               (if entry_name entry \<noteq> ''.'' \<and> entry_name entry \<noteq> ''..''
                then skipped + 1 else skipped) s
        else case manager_storage_join MANAGER_STORAGE_MOD_ROOT (entry_name entry) ''/disable.it'' of
          None \<Rightarrow> mods_loop io directory capacity entries (skipped + 1) s
        | Some marker \<Rightarrow>
            (case run_state (manager_storage_stat io marker) s of
               ((stat_result, marker_kind, _), s) \<Rightarrow>
                 if stat_result < 0 then Some ((MANAGER_STORAGE_IO_ERROR, entries, skipped), s)
                 else if stat_result = 0 \<and> marker_kind \<noteq> MANAGER_STORAGE_NODE_FILE
                 then mods_loop io directory capacity entries (skipped + 1) s
                 else if length entries = capacity
                 then mods_loop io directory capacity entries (skipped + 1) s
                 else mods_loop io directory capacity
                   (entries @ [\<lparr>mod_name = entry_name entry, disabled = (stat_result = 0)\<rparr>])
                   skipped s))"

text \<open>\<open>perform\<close> is one call of the device among loops that may not end.\<close>

definition perform :: "('s, 'a) state \<Rightarrow> ('s, 'a) looping" where
  "perform m s = Some (run_state m s)"

definition manager_storage_list_mods :: "'s manager_storage_io \<Rightarrow> nat \<Rightarrow>
    ('s, manager_mod_entry scan) looping" where
  "manager_storage_list_mods io capacity s =
     do { ((root_status, root_kind, _), s) \<leftarrow>
            perform (manager_storage_stat io MANAGER_STORAGE_MOD_ROOT) s;
          if root_status = 1 then Some ((MANAGER_STORAGE_OK, [], 0), s)
          else if root_status < 0 then Some ((MANAGER_STORAGE_IO_ERROR, [], 0), s)
          else if root_kind \<noteq> MANAGER_STORAGE_NODE_DIRECTORY
          then Some ((MANAGER_STORAGE_CONFLICT, [], 0), s)
          else do {
            (directory, s) \<leftarrow> perform (open_directory io MANAGER_STORAGE_MOD_ROOT) s;
            if directory < 0 then Some ((MANAGER_STORAGE_IO_ERROR, [], 0), s)
            else do {
              ((result, entries, skipped), s) \<leftarrow> mods_loop io directory capacity [] 0 s;
              (closed, s) \<leftarrow> perform (close_directory io directory) s;
              let result = worst (closed < 0) result;
                  used = (if failed result then [] else entries) in
              Some ((result, manager_storage_sort_mods used, skipped), s) } } }"

definition manager_storage_set_mod_enabled :: "'s manager_storage_io \<Rightarrow> string \<Rightarrow> bool \<Rightarrow>
    ('s, manager_storage_result) state" where
  "manager_storage_set_mod_enabled io name enabled =
     (if \<not> manager_storage_safe_segment name then ret MANAGER_STORAGE_INVALID
      else case (manager_storage_join MANAGER_STORAGE_MOD_ROOT name [],
                 manager_storage_join MANAGER_STORAGE_MOD_ROOT name ''/disable.it'',
                 manager_storage_join MANAGER_STORAGE_MOD_ROOT name
                   ''/.isaac-manager-disable-marker'') of
        (Some directory, Some marker, Some stash) \<Rightarrow>
          do { (directory_status, directory_kind, _) \<leftarrow> manager_storage_stat io directory;
               if directory_status \<noteq> 0 \<or> directory_kind \<noteq> MANAGER_STORAGE_NODE_DIRECTORY
               then ret MANAGER_STORAGE_INVALID
               else do {
                 (marker_status, marker_kind, _) \<leftarrow> manager_storage_stat io marker;
                 (stash_status, stash_kind, _) \<leftarrow> manager_storage_stat io stash;
                 if marker_status < 0 \<or> stash_status < 0 then ret MANAGER_STORAGE_IO_ERROR
                 else if (marker_status = 0 \<and> marker_kind \<noteq> MANAGER_STORAGE_NODE_FILE) \<or>
                         (stash_status = 0 \<and> stash_kind \<noteq> MANAGER_STORAGE_NODE_FILE)
                 then ret MANAGER_STORAGE_CONFLICT
                 else if enabled then
                   (if marker_status = 1 then ret MANAGER_STORAGE_OK
                    else if stash_status = 0 then ret MANAGER_STORAGE_CONFLICT
                    else do {
                      moved \<leftarrow> rename_path io marker stash;
                      if moved < 0 then ret MANAGER_STORAGE_IO_ERROR
                      else do {
                        synced \<leftarrow> sync_device io;
                        if synced < 0
                        then do { _ \<leftarrow> rename_path io stash marker; ret MANAGER_STORAGE_IO_ERROR }
                        else ret MANAGER_STORAGE_OK } })
                 else if marker_status = 0 then ret MANAGER_STORAGE_OK
                 else if stash_status = 0 then do {
                   moved \<leftarrow> rename_path io stash marker;
                   if moved < 0 then ret MANAGER_STORAGE_IO_ERROR
                   else do {
                     synced \<leftarrow> sync_device io;
                     if synced < 0
                     then do { _ \<leftarrow> rename_path io marker stash; ret MANAGER_STORAGE_IO_ERROR }
                     else ret MANAGER_STORAGE_OK } }
                 else do {
                   handle \<leftarrow> open_write_exclusive io marker;
                   if handle < 0 then ret MANAGER_STORAGE_CONFLICT
                   else do {
                     synced \<leftarrow> sync_file io handle;
                     closed \<leftarrow> close_file io handle;
                     if synced < 0 \<or> closed < 0
                     then do { _ \<leftarrow> remove_file io marker; ret MANAGER_STORAGE_IO_ERROR }
                     else do {
                       flushed \<leftarrow> sync_device io;
                       ret (if flushed < 0 then MANAGER_STORAGE_SYNC_WARNING
                            else MANAGER_STORAGE_OK) } } } } }
      | _ \<Rightarrow> ret MANAGER_STORAGE_INVALID)"

section \<open>Save slots and backups\<close>

text \<open>The slots filled before the first failure; a slot not reached keeps what the caller had.\<close>

fun save_slots_from :: "'s manager_storage_io \<Rightarrow> nat list \<Rightarrow>
    ('s, manager_storage_result \<times> manager_save_slot list) state" where
  "save_slots_from io [] = ret (MANAGER_STORAGE_OK, [])"
| "save_slots_from io (slot # slots) =
     (case manager_storage_slot_path slot of None \<Rightarrow> ret (MANAGER_STORAGE_INVALID, [])
      | Some p \<Rightarrow>
          do { (stat_result, kind, len) \<leftarrow> manager_storage_stat io p;
               if stat_result < 0 then ret (MANAGER_STORAGE_IO_ERROR, [])
               else if stat_result = 0 \<and> kind \<noteq> MANAGER_STORAGE_NODE_FILE
               then ret (MANAGER_STORAGE_CONFLICT, [])
               else do {
                 (result, rest) \<leftarrow> save_slots_from io slots;
                 ret (result, \<lparr>slot_number = slot, present = (stat_result = 0),
                        slot_size = if stat_result = 0 then len else 0\<rparr> # rest) } })"

definition manager_storage_get_save_slots :: "'s manager_storage_io \<Rightarrow>
    ('s, manager_storage_result \<times> manager_save_slot list) state" where
  "manager_storage_get_save_slots io = save_slots_from io [1, 2, 3]"

definition manager_storage_add_backup :: "nat \<Rightarrow> manager_save_backup list \<Rightarrow> nat \<Rightarrow>
    manager_save_backup \<Rightarrow> manager_save_backup scan" where
  "manager_storage_add_backup capacity entries skipped e =
     (if length entries = capacity then (MANAGER_STORAGE_OK, entries, skipped + 1)
      else if length (label e) \<ge> MANAGER_STORAGE_LABEL_CAPACITY \<or>
              length (path e) \<ge> MANAGER_STORAGE_PATH_CAPACITY
      then (MANAGER_STORAGE_INVALID, entries, skipped)
      else (MANAGER_STORAGE_OK, entries @ [e], skipped))"

text \<open>The two flat scans: \<open>DATED\<close> saves beside the live ones and \<open>LOCAL\<close> backups.\<close>

definition flat_slot :: "manager_save_backup_origin \<Rightarrow> string \<Rightarrow> nat option" where
  "flat_slot orig name =
     (if orig = MANAGER_SAVE_BACKUP_DATED then manager_storage_parse_dated_name name
      else map_option fst (manager_storage_parse_local_name name))"

partial_function (option) flat_loop :: "'s manager_storage_io \<Rightarrow> int \<Rightarrow> string \<Rightarrow>
    manager_save_backup_origin \<Rightarrow> nat \<Rightarrow> manager_save_backup list \<Rightarrow> nat \<Rightarrow>
    ('s, manager_save_backup scan) looping" where
  "flat_loop io directory root orig capacity entries skipped s =
     (case run_state (read_directory io directory) s of ((read_result, entry), s) \<Rightarrow>
        if read_result \<le> 0
        then Some ((if read_result < 0 then MANAGER_STORAGE_IO_ERROR else MANAGER_STORAGE_OK,
                    entries, skipped), s)
        else if entry_kind entry \<noteq> MANAGER_STORAGE_NODE_FILE \<or>
                \<not> manager_storage_safe_segment (entry_name entry)
        then flat_loop io directory root orig capacity entries skipped s
        else case flat_slot orig (entry_name entry) of
          None \<Rightarrow> flat_loop io directory root orig capacity entries skipped s
        | Some slot \<Rightarrow>
            (case (if entry_size entry > MANAGER_STORAGE_MAX_SAVE_BYTES then None
                   else manager_storage_join root (entry_name entry) []) of
               None \<Rightarrow> flat_loop io directory root orig capacity entries (skipped + 1) s
             | Some p \<Rightarrow>
                 (case manager_storage_add_backup capacity entries skipped
                    \<lparr>backup_slot = slot, origin = orig, backup_size = entry_size entry,
                     label = (if orig = MANAGER_SAVE_BACKUP_DATED then ''DATED'' else ''LOCAL'') @
                             '' S'' @ decimal slot @ '' '' @ take 72 (entry_name entry),
                     path = p\<rparr> of (result, entries, skipped) \<Rightarrow>
                    if result \<noteq> MANAGER_STORAGE_OK then Some ((result, entries, skipped), s)
                    else flat_loop io directory root orig capacity entries skipped s)))"

definition manager_storage_scan_flat_backups :: "'s manager_storage_io \<Rightarrow> string \<Rightarrow>
    manager_save_backup_origin \<Rightarrow> nat \<Rightarrow> manager_save_backup list \<Rightarrow> nat \<Rightarrow>
    ('s, manager_save_backup scan) looping" where
  "manager_storage_scan_flat_backups io root orig capacity entries skipped s =
     do { ((root_status, root_kind, _), s) \<leftarrow> perform (manager_storage_stat io root) s;
          if root_status = 1 then Some ((MANAGER_STORAGE_OK, entries, skipped), s)
          else if root_status < 0 then Some ((MANAGER_STORAGE_IO_ERROR, entries, skipped), s)
          else if root_kind \<noteq> MANAGER_STORAGE_NODE_DIRECTORY
          then Some ((MANAGER_STORAGE_CONFLICT, entries, skipped), s)
          else do {
            (directory, s) \<leftarrow> perform (open_directory io root) s;
            if directory < 0 then Some ((MANAGER_STORAGE_IO_ERROR, entries, skipped), s)
            else do {
              ((result, entries, skipped), s) \<leftarrow>
                flat_loop io directory root orig capacity entries skipped s;
              (closed, s) \<leftarrow> perform (close_directory io directory) s;
              Some ((worst (closed < 0) result, entries, skipped), s) } } }"

definition sync_tail :: "nat \<Rightarrow> string" where
  "sync_tail slot = ''/Documents/My Games/Binding of Isaac Repentance/'' @
     ''persistentgamedata'' @ decimal slot @ ''.dat''"

fun sync_slots :: "'s manager_storage_io \<Rightarrow> string \<Rightarrow> nat list \<Rightarrow> nat \<Rightarrow>
    manager_save_backup list \<Rightarrow> nat \<Rightarrow> ('s, manager_save_backup scan) state" where
  "sync_slots io name [] capacity entries skipped = ret (MANAGER_STORAGE_OK, entries, skipped)"
| "sync_slots io name (slot # slots) capacity entries skipped =
     (case in_path (MANAGER_STORAGE_SYNC_BACKUP_ROOT @ ''/'' @ name @ sync_tail slot) of
        None \<Rightarrow> sync_slots io name slots capacity entries (skipped + 1)
      | Some p \<Rightarrow>
          do { (stat_result, kind, len) \<leftarrow> manager_storage_stat io p;
               if stat_result < 0 then ret (MANAGER_STORAGE_IO_ERROR, entries, skipped)
               else if stat_result = 1 \<or> kind \<noteq> MANAGER_STORAGE_NODE_FILE
               then sync_slots io name slots capacity entries skipped
               else if len > MANAGER_STORAGE_MAX_SAVE_BYTES
               then sync_slots io name slots capacity entries (skipped + 1)
               else (case manager_storage_add_backup capacity entries skipped
                      \<lparr>backup_slot = slot, origin = MANAGER_SAVE_BACKUP_SYNC, backup_size = len,
                       label = ''SYNC S'' @ decimal slot @ '' '' @ take 72 name, path = p\<rparr> of
                      (result, entries, skipped) \<Rightarrow>
                      if result \<noteq> MANAGER_STORAGE_OK then ret (result, entries, skipped)
                      else sync_slots io name slots capacity entries skipped) })"

partial_function (option) sync_loop :: "'s manager_storage_io \<Rightarrow> int \<Rightarrow> nat \<Rightarrow>
    manager_save_backup list \<Rightarrow> nat \<Rightarrow> ('s, manager_save_backup scan) looping" where
  "sync_loop io directory capacity entries skipped s =
     (case run_state (read_directory io directory) s of ((read_result, entry), s) \<Rightarrow>
        if read_result \<le> 0
        then Some ((if read_result < 0 then MANAGER_STORAGE_IO_ERROR else MANAGER_STORAGE_OK,
                    entries, skipped), s)
        else if entry_kind entry \<noteq> MANAGER_STORAGE_NODE_DIRECTORY \<or>
                \<not> manager_storage_safe_segment (entry_name entry)
        then sync_loop io directory capacity entries skipped s
        else case run_state (sync_slots io (entry_name entry) [1, 2, 3] capacity entries skipped) s of
          ((result, entries, skipped), s) \<Rightarrow>
            if result \<noteq> MANAGER_STORAGE_OK then Some ((result, entries, skipped), s)
            else sync_loop io directory capacity entries skipped s)"

definition manager_storage_scan_sync_backups :: "'s manager_storage_io \<Rightarrow> nat \<Rightarrow>
    manager_save_backup list \<Rightarrow> nat \<Rightarrow> ('s, manager_save_backup scan) looping" where
  "manager_storage_scan_sync_backups io capacity entries skipped s =
     do { ((root_status, root_kind, _), s) \<leftarrow>
            perform (manager_storage_stat io MANAGER_STORAGE_SYNC_BACKUP_ROOT) s;
          if root_status = 1 then Some ((MANAGER_STORAGE_OK, entries, skipped), s)
          else if root_status < 0 then Some ((MANAGER_STORAGE_IO_ERROR, entries, skipped), s)
          else if root_kind \<noteq> MANAGER_STORAGE_NODE_DIRECTORY
          then Some ((MANAGER_STORAGE_CONFLICT, entries, skipped), s)
          else do {
            (directory, s) \<leftarrow> perform (open_directory io MANAGER_STORAGE_SYNC_BACKUP_ROOT) s;
            if directory < 0 then Some ((MANAGER_STORAGE_IO_ERROR, entries, skipped), s)
            else do {
              ((result, entries, skipped), s) \<leftarrow> sync_loop io directory capacity entries skipped s;
              (closed, s) \<leftarrow> perform (close_directory io directory) s;
              Some ((worst (closed < 0) result, entries, skipped), s) } } }"

text \<open>\<open>next_scan\<close> runs the following scan only while the result is \<open>MANAGER_STORAGE_OK\<close>.\<close>

definition next_scan :: "'e scan \<Rightarrow> ('e list \<Rightarrow> nat \<Rightarrow> ('s, 'e scan) looping) \<Rightarrow>
    ('s, 'e scan) looping" where
  "next_scan r f s =
     (case r of (result, entries, skipped) \<Rightarrow>
        if result = MANAGER_STORAGE_OK then f entries skipped s
        else Some ((result, entries, skipped), s))"

definition manager_storage_list_save_backups :: "'s manager_storage_io \<Rightarrow> nat \<Rightarrow>
    ('s, manager_save_backup scan) looping" where
  "manager_storage_list_save_backups io capacity s =
     do { (dated, s) \<leftarrow> manager_storage_scan_flat_backups io MANAGER_STORAGE_SAVE_ROOT
            MANAGER_SAVE_BACKUP_DATED capacity [] 0 s;
          (local, s) \<leftarrow> next_scan dated (manager_storage_scan_flat_backups io
            MANAGER_STORAGE_BACKUP_ROOT MANAGER_SAVE_BACKUP_LOCAL capacity) s;
          ((result, entries, skipped), s) \<leftarrow>
            next_scan local (manager_storage_scan_sync_backups io capacity) s;
          Some ((result, manager_storage_sort_backups (if failed result then [] else entries),
                 skipped), s) }"

text \<open>Which backup paths a restore accepts.\<close>

definition manager_storage_local_path_allowed :: "string \<Rightarrow> nat \<Rightarrow> bool" where
  "manager_storage_local_path_allowed p slot =
     (let root = MANAGER_STORAGE_BACKUP_ROOT @ ''/'' in
      if take (length root) p \<noteq> root then False
      else case manager_storage_parse_local_name (drop (length root) p) of
        None \<Rightarrow> False | Some (parsed_slot, _) \<Rightarrow> parsed_slot = slot)"

definition manager_storage_dated_path_allowed :: "string \<Rightarrow> nat \<Rightarrow> bool" where
  "manager_storage_dated_path_allowed p slot =
     (let root = MANAGER_STORAGE_SAVE_ROOT @ ''/'' in
      if take (length root) p \<noteq> root then False
      else case manager_storage_parse_dated_name (drop (length root) p) of
        None \<Rightarrow> False | Some parsed_slot \<Rightarrow> parsed_slot = slot)"

definition manager_storage_sync_path_allowed :: "string \<Rightarrow> nat \<Rightarrow> bool" where
  "manager_storage_sync_path_allowed p slot =
     (let root = MANAGER_STORAGE_SYNC_BACKUP_ROOT @ ''/'' in
      if take (length root) p \<noteq> root then False
      else let session = drop (length root) p;
               name = takeWhile (\<lambda>c. c \<noteq> CHR ''/'') session;
               slash = dropWhile (\<lambda>c. c \<noteq> CHR ''/'') session
           in if slash = [] \<or> name = [] \<or> length name \<ge> MANAGER_STORAGE_NAME_CAPACITY then False
              else if \<not> manager_storage_safe_segment name then False
              else slash = sync_tail slot)"

definition manager_storage_backup_allowed :: "manager_save_backup \<Rightarrow> bool" where
  "manager_storage_backup_allowed b =
     (if backup_slot b < 1 \<or> backup_slot b > 3 \<or>
         backup_size b > MANAGER_STORAGE_MAX_SAVE_BYTES then False
      else case origin b of
        MANAGER_SAVE_BACKUP_DATED \<Rightarrow> manager_storage_dated_path_allowed (path b) (backup_slot b)
      | MANAGER_SAVE_BACKUP_LOCAL \<Rightarrow> manager_storage_local_path_allowed (path b) (backup_slot b)
      | MANAGER_SAVE_BACKUP_SYNC \<Rightarrow> manager_storage_sync_path_allowed (path b) (backup_slot b))"

section \<open>Recovery, backup and restore\<close>

text \<open>
  The first half of \<open>recover_slot\<close>: a rollback file left by an interrupted restore goes back
  into place.  The result is \<open>Inl\<close> for an early return and \<open>Inr\<close> with the warning flag.
\<close>

definition recover_rollback :: "'s manager_storage_io \<Rightarrow> nat \<Rightarrow> string \<Rightarrow> string \<Rightarrow>
    ('s, manager_storage_result + bool) state" where
  "recover_rollback io slot target rollback =
     do { (target_status, target_kind, _) \<leftarrow> manager_storage_stat io target;
          (rollback_status, rollback_kind, _) \<leftarrow> manager_storage_stat io rollback;
          if target_status < 0 \<or> rollback_status < 0 then ret (Inl MANAGER_STORAGE_IO_ERROR)
          else if rollback_status = 0 then
            (if rollback_kind \<noteq> MANAGER_STORAGE_NODE_FILE then ret (Inl MANAGER_STORAGE_CONFLICT)
             else do {
               moved \<leftarrow>
                 (if target_status = 0 then
                    (if target_kind \<noteq> MANAGER_STORAGE_NODE_FILE
                     then ret (Inl MANAGER_STORAGE_CONFLICT)
                     else do {
                       result \<leftarrow> manager_storage_ensure_backup_root io;
                       if failed result then ret (Inl result)
                       else do {
                         (found, quarantine, _) \<leftarrow>
                           manager_storage_find_free_backup io ''recovered-slot'' slot;
                         if found \<noteq> MANAGER_STORAGE_OK then ret (Inl found)
                         else do {
                           renamed \<leftarrow> rename_path io target quarantine;
                           ret (if renamed < 0 then Inl MANAGER_STORAGE_IO_ERROR
                                else Inr (result = MANAGER_STORAGE_SYNC_WARNING,
                                          Some quarantine)) } } })
                  else if target_status \<noteq> 1 then ret (Inl MANAGER_STORAGE_IO_ERROR)
                  else ret (Inr (False, None)));
               case moved of Inl e \<Rightarrow> ret (Inl e)
               | Inr (warning, quarantine) \<Rightarrow> do {
                   renamed \<leftarrow> rename_path io rollback target;
                   if renamed < 0
                   then (case quarantine of
                           Some q \<Rightarrow> do { _ \<leftarrow> rename_path io q target;
                                          ret (Inl MANAGER_STORAGE_IO_ERROR) }
                         | None \<Rightarrow> ret (Inl MANAGER_STORAGE_IO_ERROR))
                   else do {
                     synced \<leftarrow> sync_device io;
                     ret (Inr (warning \<or> synced < 0)) } } })
          else if target_status = 0 \<and> target_kind \<noteq> MANAGER_STORAGE_NODE_FILE
          then ret (Inl MANAGER_STORAGE_CONFLICT)
          else ret (Inr False) }"

definition manager_storage_recover_slot :: "'s manager_storage_io \<Rightarrow> nat \<Rightarrow>
    ('s, manager_storage_result) state" where
  "manager_storage_recover_slot io slot =
     (case (manager_storage_slot_path slot, manager_storage_restore_temp_path slot,
            manager_storage_backup_temp_path slot, manager_storage_rollback_path slot) of
        (Some target, Some temporary, Some backup_temporary, Some rollback) \<Rightarrow>
          do { rolled \<leftarrow> recover_rollback io slot target rollback;
               case rolled of Inl e \<Rightarrow> ret e
               | Inr warning \<Rightarrow> do {
                   result \<leftarrow> manager_storage_remove_managed_file io temporary;
                   if failed result then ret result
                   else do {
                     result \<leftarrow> manager_storage_remove_managed_file io backup_temporary;
                     if failed result then ret result
                     else do {
                       synced \<leftarrow> sync_device io;
                       ret (if warning \<or> synced < 0 then MANAGER_STORAGE_SYNC_WARNING
                            else MANAGER_STORAGE_OK) } } } }
      | _ \<Rightarrow> ret MANAGER_STORAGE_INVALID)"

fun recover_slots :: "'s manager_storage_io \<Rightarrow> nat list \<Rightarrow> bool \<Rightarrow>
    ('s, manager_storage_result) state" where
  "recover_slots io [] warning =
     ret (if warning then MANAGER_STORAGE_SYNC_WARNING else MANAGER_STORAGE_OK)"
| "recover_slots io (slot # slots) warning =
     do { result \<leftarrow> manager_storage_recover_slot io slot;
          if failed result then ret result
          else recover_slots io slots (warning \<or> result = MANAGER_STORAGE_SYNC_WARNING) }"

definition manager_storage_recover :: "'s manager_storage_io \<Rightarrow> ('s, manager_storage_result) state" where
  "manager_storage_recover io = recover_slots io [1, 2, 3] False"

definition manager_storage_backup_slot :: "'s manager_storage_io \<Rightarrow> nat \<Rightarrow>
    ('s, manager_storage_result \<times> manager_save_backup option) state" where
  "manager_storage_backup_slot io slot =
     (if slot < 1 \<or> slot > 3 then ret (MANAGER_STORAGE_INVALID, None)
      else do {
        recovered \<leftarrow> manager_storage_recover_slot io slot;
        if failed recovered then ret (recovered, None)
        else do {
          ensured \<leftarrow> manager_storage_ensure_backup_root io;
          if failed ensured then ret (ensured, None)
          else case (manager_storage_slot_path slot, manager_storage_backup_temp_path slot) of
            (Some source, Some temporary) \<Rightarrow>
              do { (status, source_kind, len) \<leftarrow> manager_storage_stat io source;
                   if status \<noteq> 0 \<or> source_kind \<noteq> MANAGER_STORAGE_NODE_FILE
                   then ret (MANAGER_STORAGE_INVALID, None)
                   else if len > MANAGER_STORAGE_MAX_SAVE_BYTES
                   then ret (MANAGER_STORAGE_TOO_LARGE, None)
                   else do {
                     (found, destination, index) \<leftarrow>
                       manager_storage_find_free_backup io ''slot'' slot;
                     if found \<noteq> MANAGER_STORAGE_OK then ret (found, None)
                     else do {
                       (result, digest, len) \<leftarrow> manager_storage_copy_verified io source temporary;
                       if result \<noteq> MANAGER_STORAGE_OK then ret (result, None)
                       else do {
                         renamed \<leftarrow> rename_path io temporary destination;
                         if renamed < 0
                         then do { _ \<leftarrow> remove_file io temporary;
                                   ret (MANAGER_STORAGE_IO_ERROR, None) }
                         else do {
                           synced \<leftarrow> sync_device io;
                           ret (if recovered = MANAGER_STORAGE_SYNC_WARNING \<or>
                                   ensured = MANAGER_STORAGE_SYNC_WARNING \<or> synced < 0
                                then MANAGER_STORAGE_SYNC_WARNING else MANAGER_STORAGE_OK,
                                Some \<lparr>backup_slot = slot, origin = MANAGER_SAVE_BACKUP_LOCAL,
                                      backup_size = len,
                                      label = ''LOCAL S'' @ decimal slot @ '' slot'' @
                                        decimal slot @ ''-'' @ decimal4 index @ ''.dat'',
                                      path = destination\<rparr>) } } } } }
          | _ \<Rightarrow> ret (MANAGER_STORAGE_INVALID, None) } })"

definition manager_storage_rollback_promotion :: "'s manager_storage_io \<Rightarrow> string \<Rightarrow> string \<Rightarrow>
    string \<Rightarrow> bool \<Rightarrow> ('s, unit) state" where
  "manager_storage_rollback_promotion io target temporary rollback had_old =
     do { (target_status, kind, _) \<leftarrow> manager_storage_stat io target;
          moved \<leftarrow> (if target_status = 0 \<and> kind = MANAGER_STORAGE_NODE_FILE
                   then rename_path io target temporary else ret 0);
          if moved < 0 then ret ()
          else do {
            back \<leftarrow> (if had_old then rename_path io rollback target else ret 0);
            if back < 0 then do { _ \<leftarrow> rename_path io temporary target; ret () }
            else do { _ \<leftarrow> remove_file io temporary; _ \<leftarrow> sync_device io; ret () } } }"

text \<open>
  \<open>restore_backup\<close> from the verified copy on: move the old save aside, promote the copy,
  verify it in place, and archive the old save.
\<close>

definition restore_archive :: "'s manager_storage_io \<Rightarrow> string \<Rightarrow> string \<Rightarrow> string \<Rightarrow> string \<Rightarrow>
    bool \<Rightarrow> bool \<Rightarrow> ('s, manager_storage_result) state" where
  "restore_archive io target temporary rollback archive had_old warning =
     (if had_old then do {
        archived \<leftarrow> rename_path io rollback archive;
        if archived < 0 then do {
          manager_storage_rollback_promotion io target temporary rollback True;
          ret MANAGER_STORAGE_IO_ERROR }
        else do {
          synced \<leftarrow> sync_device io;
          ret (if warning \<or> synced < 0 then MANAGER_STORAGE_SYNC_WARNING
               else MANAGER_STORAGE_OK) } }
      else ret (if warning then MANAGER_STORAGE_SYNC_WARNING else MANAGER_STORAGE_OK))"

definition restore_verify :: "'s manager_storage_io \<Rightarrow> string \<Rightarrow> string \<Rightarrow> string \<Rightarrow> string \<Rightarrow>
    u8 list \<Rightarrow> nat \<Rightarrow> bool \<Rightarrow> bool \<Rightarrow> ('s, manager_storage_result) state" where
  "restore_verify io target temporary rollback archive expected expected_size had_old warning =
     do { (result, actual, actual_size) \<leftarrow> manager_storage_hash_path io target;
          if result \<noteq> MANAGER_STORAGE_OK \<or> actual_size \<noteq> expected_size \<or> expected \<noteq> actual
          then do {
            manager_storage_rollback_promotion io target temporary rollback had_old;
            ret (if result = MANAGER_STORAGE_OK then MANAGER_STORAGE_HASH_MISMATCH else result) }
          else do {
            synced \<leftarrow> sync_device io;
            if synced < 0 then do {
              manager_storage_rollback_promotion io target temporary rollback had_old;
              ret MANAGER_STORAGE_IO_ERROR }
            else restore_archive io target temporary rollback archive had_old warning } }"

definition restore_promote :: "'s manager_storage_io \<Rightarrow> string \<Rightarrow> string \<Rightarrow> string \<Rightarrow> string \<Rightarrow>
    u8 list \<Rightarrow> nat \<Rightarrow> bool \<Rightarrow> bool \<Rightarrow> ('s, manager_storage_result) state" where
  "restore_promote io target temporary rollback archive expected expected_size had_old warning =
     do { promoted \<leftarrow> rename_path io temporary target;
          if promoted < 0 then do {
            _ \<leftarrow> (if had_old then rename_path io rollback target else ret 0);
            _ \<leftarrow> remove_file io temporary;
            _ \<leftarrow> sync_device io;
            ret MANAGER_STORAGE_IO_ERROR }
          else restore_verify io target temporary rollback archive expected expected_size
                 had_old warning }"

definition restore_swap :: "'s manager_storage_io \<Rightarrow> string \<Rightarrow> string \<Rightarrow> string \<Rightarrow> string \<Rightarrow>
    u8 list \<Rightarrow> nat \<Rightarrow> bool \<Rightarrow> ('s, manager_storage_result) state" where
  "restore_swap io target temporary rollback archive expected expected_size warning =
     do { (target_status, target_kind, _) \<leftarrow> manager_storage_stat io target;
          if target_status < 0 \<or> (target_status = 0 \<and> target_kind \<noteq> MANAGER_STORAGE_NODE_FILE)
          then do { _ \<leftarrow> remove_file io temporary;
                    ret (if target_status < 0 then MANAGER_STORAGE_IO_ERROR
                         else MANAGER_STORAGE_CONFLICT) }
          else if target_status = 0 then do {
            moved \<leftarrow> rename_path io target rollback;
            if moved < 0
            then do { _ \<leftarrow> remove_file io temporary; ret MANAGER_STORAGE_IO_ERROR }
            else do {
              synced \<leftarrow> sync_device io;
              if synced < 0 then do {
                _ \<leftarrow> rename_path io rollback target;
                _ \<leftarrow> remove_file io temporary;
                ret MANAGER_STORAGE_IO_ERROR }
              else restore_promote io target temporary rollback archive expected expected_size
                     True warning } }
          else restore_promote io target temporary rollback archive expected expected_size
                 False warning }"

text \<open>\<open>restore_backup\<close> once the slot is recovered.\<close>

definition restore_recovered :: "'s manager_storage_io \<Rightarrow> manager_save_backup \<Rightarrow> bool \<Rightarrow>
    ('s, manager_storage_result) state" where
  "restore_recovered io b warning =
     do { (status, source_kind, source_size) \<leftarrow> manager_storage_stat io (path b);
          if status \<noteq> 0 \<or> source_kind \<noteq> MANAGER_STORAGE_NODE_FILE
          then ret MANAGER_STORAGE_INVALID
          else if source_size > MANAGER_STORAGE_MAX_SAVE_BYTES then ret MANAGER_STORAGE_TOO_LARGE
          else do {
            ensured \<leftarrow> manager_storage_ensure_backup_root io;
            if failed ensured then ret ensured
            else case (manager_storage_slot_path (backup_slot b),
                       manager_storage_restore_temp_path (backup_slot b),
                       manager_storage_rollback_path (backup_slot b)) of
              (Some target, Some temporary, Some rollback) \<Rightarrow> do {
                (found, archive, _) \<leftarrow>
                  manager_storage_find_free_backup io ''slot'' (backup_slot b);
                if found \<noteq> MANAGER_STORAGE_OK then ret found
                else do {
                  (result, expected, expected_size) \<leftarrow>
                    manager_storage_copy_verified io (path b) temporary;
                  if result \<noteq> MANAGER_STORAGE_OK then ret result
                  else restore_swap io target temporary rollback archive expected expected_size
                         (warning \<or> ensured = MANAGER_STORAGE_SYNC_WARNING) } }
            | _ \<Rightarrow> ret MANAGER_STORAGE_INVALID } }"

definition manager_storage_restore_backup :: "'s manager_storage_io \<Rightarrow> manager_save_backup \<Rightarrow>
    ('s, manager_storage_result) state" where
  "manager_storage_restore_backup io b =
     (if \<not> manager_storage_backup_allowed b then ret MANAGER_STORAGE_INVALID
      else do {
        recovered \<leftarrow> manager_storage_recover_slot io (backup_slot b);
        if failed recovered then ret recovered
        else restore_recovered io b (recovered = MANAGER_STORAGE_SYNC_WARNING) })"

end
