(* ===== verification/Manager_Storage_Safe.thy ===== *)
theory Manager_Storage_Safe imports Manager_Storage begin

text \<open>
  What the manager's storage guarantees over any device that keeps the contract of
  \<open>manager_storage_io\<close>: no operation, failing at any point or not, loses a save; a failed
  restore is undone by the next recovery; a successful one has put a verified copy in place.

  The contract is the locale \<open>storage_device\<close>.  A device may fail any call; a failing call leaves
  the files as they are, so a power loss after some call is the device that fails every later
  call, and each statement about all devices is also one about all crash points.
\<close>

lemma failed_simps [simp]:
  "\<not> failed MANAGER_STORAGE_OK" "\<not> failed MANAGER_STORAGE_SYNC_WARNING"
  "failed MANAGER_STORAGE_INVALID" "failed MANAGER_STORAGE_IO_ERROR" "failed MANAGER_STORAGE_CONFLICT"
  "failed MANAGER_STORAGE_HASH_MISMATCH" "failed MANAGER_STORAGE_TOO_LARGE"
  "failed MANAGER_STORAGE_CAPACITY"
  by (simp_all add: failed_def)

section \<open>Weakest preconditions for the state monad\<close>

definition wp :: "('s, 'a) state \<Rightarrow> ('a \<Rightarrow> 's \<Rightarrow> bool) \<Rightarrow> 's \<Rightarrow> bool" where
  "wp m Q s = (case run_state m s of (x, t) \<Rightarrow> Q x t)"

named_theorems wp_intros \<open>backward rules for the weakest precondition\<close>

lemma wpI: "(\<And>x t. run_state m s = (x, t) \<Longrightarrow> Q x t) \<Longrightarrow> wp m Q s"
  by (simp add: wp_def split: prod.split)

lemma wpD: "wp m Q s \<Longrightarrow> run_state m s = (x, t) \<Longrightarrow> Q x t"
  by (simp add: wp_def)

lemma wp_mono: "wp m P s \<Longrightarrow> (\<And>x t. P x t \<Longrightarrow> Q x t) \<Longrightarrow> wp m Q s"
  by (auto simp: wp_def split: prod.splits)

lemma wp_ret [wp_intros]: "Q x s \<Longrightarrow> wp (ret x) Q s"
  by (simp add: wp_def)

lemma wp_bind [wp_intros]: "wp m (\<lambda>x. wp (f x) Q) s \<Longrightarrow> wp (State_Monad.bind m f) Q s"
  by (cases m; cases "run_state m s") (auto simp: wp_def State_Monad.bind_def split: prod.splits)

lemma wp_if [wp_intros]:
  "(P \<Longrightarrow> wp m Q s) \<Longrightarrow> (\<not> P \<Longrightarrow> wp n Q s) \<Longrightarrow> wp (if P then m else n) Q s"
  by simp

lemma wp_case_prod [wp_intros]:
  "(\<And>a b. x = (a, b) \<Longrightarrow> wp (f a b) Q s) \<Longrightarrow> wp (case x of (a, b) \<Rightarrow> f a b) Q s"
  by (cases x) simp

lemma wp_case_option [wp_intros]:
  "(x = None \<Longrightarrow> wp m Q s) \<Longrightarrow> (\<And>y. x = Some y \<Longrightarrow> wp (f y) Q s) \<Longrightarrow>
   wp (case x of None \<Rightarrow> m | Some y \<Rightarrow> f y) Q s"
  by (cases x) simp_all

lemma wp_case_sum [wp_intros]:
  "(\<And>y. x = Inl y \<Longrightarrow> wp (f y) Q s) \<Longrightarrow> (\<And>y. x = Inr y \<Longrightarrow> wp (g y) Q s) \<Longrightarrow>
   wp (case x of Inl y \<Rightarrow> f y | Inr y \<Rightarrow> g y) Q s"
  by (cases x) simp_all

lemma wp_let [wp_intros]: "(\<And>y. y = x \<Longrightarrow> wp (f y) Q s) \<Longrightarrow> wp (let y = x in f y) Q s"
  by simp

section \<open>The managed files of a slot\<close>

definition target_file :: "nat \<Rightarrow> string" where
  "target_file slot = MANAGER_STORAGE_SAVE_ROOT @ ''/persistentgamedata'' @ decimal slot @ ''.dat''"

definition restore_temp_file :: "nat \<Rightarrow> string" where
  "restore_temp_file slot =
     MANAGER_STORAGE_SAVE_ROOT @ ''/.manager-restore-slot'' @ decimal slot @ ''.tmp''"

definition rollback_file :: "nat \<Rightarrow> string" where
  "rollback_file slot =
     MANAGER_STORAGE_SAVE_ROOT @ ''/.manager-rollback-slot'' @ decimal slot @ ''.dat''"

definition backup_temp_file :: "nat \<Rightarrow> string" where
  "backup_temp_file slot =
     MANAGER_STORAGE_BACKUP_ROOT @ ''/.manager-backup-slot'' @ decimal slot @ ''.tmp''"

lemmas file_names = target_file_def restore_temp_file_def rollback_file_def backup_temp_file_def
  backup_name_def MANAGER_STORAGE_SAVE_ROOT_def MANAGER_STORAGE_BACKUP_ROOT_def
  MANAGER_STORAGE_SYNC_BACKUP_ROOT_def MANAGER_STORAGE_ROOT_def

lemma decimal_digit: "n < 10 \<Longrightarrow> decimal n = [char_of (48 + n)]"
  by (simp add: decimal.simps)

lemma slot_paths:
  assumes "1 \<le> slot" "slot \<le> 3"
  shows "manager_storage_slot_path slot = Some (target_file slot)"
    "manager_storage_restore_temp_path slot = Some (restore_temp_file slot)"
    "manager_storage_rollback_path slot = Some (rollback_file slot)"
    "manager_storage_backup_temp_path slot = Some (backup_temp_file slot)"
  using assms decimal_digit [of slot]
  by (simp_all add: manager_storage_slot_path_def manager_storage_restore_temp_path_def
      manager_storage_rollback_path_def manager_storage_backup_temp_path_def file_names
      manager_storage_format_def MANAGER_STORAGE_PATH_CAPACITY_def)

lemma managed_distinct:
  "distinct [target_file a, rollback_file a, restore_temp_file a, backup_temp_file a,
     backup_name ''recovered-slot'' b i, backup_name ''slot'' b i, MANAGER_STORAGE_BACKUP_ROOT]"
  by (simp add: file_names)

definition managed :: "nat \<Rightarrow> string set" where
  "managed slot = {target_file slot, rollback_file slot, restore_temp_file slot,
     backup_temp_file slot, MANAGER_STORAGE_BACKUP_ROOT}"

text \<open>The save a slot holds: an unfinished restore's rollback file counts before the target.\<close>

definition current :: "(string \<Rightarrow> 'n option) \<Rightarrow> nat \<Rightarrow> 'n option" where
  "current f slot = (case f (rollback_file slot) of Some x \<Rightarrow> Some x | None \<Rightarrow> f (target_file slot))"

lemma take_root: "take (length r) p = r \<Longrightarrow> \<exists>n. p = r @ n \<and> drop (length r) p = n"
  by (metis append_take_drop_id)

lemma dated_digit: "manager_storage_parse_dated_name n = Some k \<Longrightarrow> \<exists>d m. n = d # m \<and> isdigit d"
  by (cases n) (auto simp: manager_storage_parse_dated_name_def split: if_splits)

lemma local_slot: "manager_storage_parse_local_name n = Some k \<Longrightarrow> \<exists>m. n = ''slot'' @ m"
proof -
  assume "manager_storage_parse_local_name n = Some k"
  then have "take 4 n = ''slot''"
    by (auto simp: manager_storage_parse_local_name_def Let_def split: if_splits)
  then show ?thesis by (metis append_take_drop_id)
qed

lemma allowed_slot:
  "manager_storage_backup_allowed b \<Longrightarrow> 1 \<le> backup_slot b \<and> backup_slot b \<le> 3"
  by (auto simp: manager_storage_backup_allowed_def split: if_splits)

lemma allowed_path_not_managed:
  assumes "manager_storage_backup_allowed b"
  shows "path b \<notin> managed (backup_slot b) \<union> range (backup_name ''recovered-slot'' (backup_slot b))"
proof (cases "origin b")
  case MANAGER_SAVE_BACKUP_DATED
  then have a: "manager_storage_dated_path_allowed (path b) (backup_slot b)"
    using assms by (auto simp: manager_storage_backup_allowed_def split: if_splits)
  define r where "r = MANAGER_STORAGE_SAVE_ROOT @ ''/''"
  obtain k where "take (length r) (path b) = r"
    "manager_storage_parse_dated_name (drop (length r) (path b)) = Some k"
    using a unfolding manager_storage_dated_path_allowed_def Let_def r_def [symmetric]
    by (auto split: if_splits option.splits)
  then obtain n where "path b = (MANAGER_STORAGE_SAVE_ROOT @ ''/'') @ n"
    "manager_storage_parse_dated_name n = Some k" using take_root unfolding r_def by metis
  then show ?thesis using dated_digit [of n k]
    by (auto simp: managed_def file_names isdigit_def)
next
  case MANAGER_SAVE_BACKUP_LOCAL
  then have a: "manager_storage_local_path_allowed (path b) (backup_slot b)"
    using assms by (auto simp: manager_storage_backup_allowed_def split: if_splits)
  define r where "r = MANAGER_STORAGE_BACKUP_ROOT @ ''/''"
  obtain k where "take (length r) (path b) = r"
    "manager_storage_parse_local_name (drop (length r) (path b)) = Some k"
    using a unfolding manager_storage_local_path_allowed_def Let_def r_def [symmetric]
    by (auto split: if_splits option.splits)
  then obtain n where "path b = (MANAGER_STORAGE_BACKUP_ROOT @ ''/'') @ n"
    "manager_storage_parse_local_name n = Some k" using take_root unfolding r_def by metis
  then show ?thesis using local_slot [of n k]
    by (auto simp: managed_def file_names)
next
  case MANAGER_SAVE_BACKUP_SYNC
  then have a: "manager_storage_sync_path_allowed (path b) (backup_slot b)"
    using assms by (auto simp: manager_storage_backup_allowed_def split: if_splits)
  define r where "r = MANAGER_STORAGE_SYNC_BACKUP_ROOT @ ''/''"
  have "take (length r) (path b) = r"
    using a unfolding manager_storage_sync_path_allowed_def Let_def r_def [symmetric]
    by (auto split: if_splits)
  then obtain n where "path b = (MANAGER_STORAGE_SYNC_BACKUP_ROOT @ ''/'') @ n"
    using take_root unfolding r_def by metis
  then show ?thesis by (auto simp: managed_def file_names)
qed

section \<open>Names of local backups\<close>

lemma replicate_small: "replicate 3 x = [x, x, x]" "replicate 2 x = [x, x]"
  by (simp_all add: numeral_3_eq_3 numeral_2_eq_2)

lemma char_zero: "CHR ''0'' = char_of (48::nat)"
  by code_simp

lemmas replicate_zero = replicate_small char_zero

lemma digits_sum: "i div 1000 * 1000 + i div 100 mod 10 * 100 + i div 10 mod 10 * 10 + i mod 10 = (i::nat)"
proof -
  define a b c d where "a = i div 1000" "b = i div 100 mod 10" "c = i div 10 mod 10" "d = i mod 10"
  have "i = i div 10 * 10 + d" by (simp add: a_b_c_d_def)
  moreover have "i div 10 = i div 100 * 10 + c"
    using div_mult_mod_eq [of "i div 10" 10] by (simp add: a_b_c_d_def div_mult2_eq [symmetric])
  moreover have "i div 100 = a * 10 + b"
    using div_mult_mod_eq [of "i div 100" 10] by (simp add: a_b_c_d_def div_mult2_eq [symmetric])
  ultimately have "i = ((a * 10 + b) * 10 + c) * 10 + d" by metis
  then show ?thesis unfolding a_b_c_d_def [symmetric] by simp
qed

lemma decimal4_digits:
  assumes "n \<le> 9999"
  shows "decimal4 n = map (\<lambda>d. char_of (48 + d)) [n div 1000, n div 100 mod 10, n div 10 mod 10, n mod 10]"
proof -
  consider "n < 10" | "10 \<le> n" "n < 100" | "100 \<le> n" "n < 1000" | "1000 \<le> n" by linarith
  then show ?thesis
  proof cases
    case 1
    then show ?thesis by (simp add: replicate_zero decimal4_def decimal.simps [of n])
  next
    case 2
    then have "n div 10 < 10" by simp
    then show ?thesis using 2
      by (simp add: replicate_zero decimal4_def decimal.simps [of n] decimal.simps [of "n div 10"])
  next
    case 3
    then have a: "n div 100 < 10" by simp
    have "n div 10 div 10 = n div 100" by (simp add: div_mult2_eq [symmetric])
    then show ?thesis using 3 a
      by (simp add: replicate_zero decimal4_def decimal.simps [of n] decimal.simps [of "n div 10"]
          decimal.simps [of "n div 100"])
  next
    case 4
    then have a: "n div 1000 < 10" using assms by simp
    have e: "n div 10 div 10 = n div 100" "n div 100 div 10 = n div 1000"
      by (simp_all add: div_mult2_eq [symmetric])
    have g: "\<not> n div 100 < 10" "\<not> n div 10 < 10" "\<not> n < 10" using 4 by auto
    have "n div 1000 mod 10 = n div 1000" using a by simp
    then show ?thesis using g a e
      by (simp add: replicate_zero decimal4_def decimal.simps [of n] decimal.simps [of "n div 10"]
          decimal.simps [of "n div 100"] decimal.simps [of "n div 1000"])
  qed
qed

definition digit :: "nat \<Rightarrow> char" where
  "digit d = char_of (48 + d)"

lemma of_char_digit: "d < 10 \<Longrightarrow> (of_char (digit d) :: nat) = 48 + d"
  by (simp add: digit_def)

lemma isdigit_digit: "d < 10 \<Longrightarrow> isdigit (digit d)"
  by (simp add: isdigit_def of_char_digit)

lemma parse_local_digits:
  assumes "1 \<le> slot" "slot \<le> 3" "a < 10" "b < 10" "c < 10" "d < 10"
  shows "manager_storage_parse_local_name
      (''slot'' @ [digit slot] @ ''-'' @ [digit a, digit b, digit c, digit d] @ ''.dat'') =
      Some (slot, a * 1000 + b * 100 + c * 10 + d)"
  using assms by (simp add: manager_storage_parse_local_name_def Let_def isdigit_digit of_char_digit)

lemma local_name_roundtrip:
  assumes "1 \<le> slot" "slot \<le> 3" "i \<le> 9999"
  shows "manager_storage_parse_local_name
      (''slot'' @ decimal slot @ ''-'' @ decimal4 i @ ''.dat'') = Some (slot, i)"
proof -
  have "i div 1000 < 10" using assms by simp
  then have "manager_storage_parse_local_name (''slot'' @ [digit slot] @ ''-'' @
      [digit (i div 1000), digit (i div 100 mod 10), digit (i div 10 mod 10), digit (i mod 10)] @ ''.dat'') =
      Some (slot, i div 1000 * 1000 + i div 100 mod 10 * 100 + i div 10 mod 10 * 10 + i mod 10)"
    using assms by (intro parse_local_digits) auto
  moreover have "decimal slot = [digit slot]"
    using assms decimal_digit [of slot] by (simp add: digit_def)
  ultimately show ?thesis unfolding decimal4_digits [OF assms(3)] digits_sum by (simp add: digit_def)
qed

section \<open>The contract of a device\<close>

datatype node = File "u8 list" | Directory | Other

fun node_kind :: "node \<Rightarrow> manager_storage_node_kind" where
  "node_kind (File _) = MANAGER_STORAGE_NODE_FILE"
| "node_kind Directory = MANAGER_STORAGE_NODE_DIRECTORY"
| "node_kind Other = MANAGER_STORAGE_NODE_OTHER"

text \<open>
  \<open>files\<close> is the device's name space, \<open>reader\<close> the path and offset of a handle open for
  reading, \<open>writer\<close> the path of one open for writing.
\<close>

locale storage_device =
  fixes io :: "'s manager_storage_io"
    and files :: "'s \<Rightarrow> string \<Rightarrow> node option"
    and reader :: "'s \<Rightarrow> int \<Rightarrow> (string \<times> nat) option"
    and writer :: "'s \<Rightarrow> int \<Rightarrow> string option"
  assumes stat_law: "run_state (stat_path io p) s = ((r, k, n), t) \<Longrightarrow> files t = files s \<and>
      (r = 0 \<longrightarrow> (\<exists>x. files s p = Some x \<and> k = node_kind x)) \<and>
      (0 < r \<longrightarrow> r = 1 \<and> files s p = None)"
    and open_read_law: "run_state (open_read io p) s = (h, t) \<Longrightarrow> files t = files s \<and>
      (0 \<le> h \<longrightarrow> (\<exists>c. files s p = Some (File c)) \<and> reader t h = Some (p, 0))"
    and open_write_law: "run_state (open_write_exclusive io p) s = (h, t) \<Longrightarrow>
      (h < 0 \<longrightarrow> files t = files s) \<and>
      (0 \<le> h \<longrightarrow> files s p = None \<and> files t = (files s)(p := Some (File [])) \<and>
         writer t h = Some p \<and> (\<forall>g x. reader s g = Some x \<longrightarrow> reader t g = Some x))"
    and read_law: "run_state (read_data io h m) s = (b, t) \<Longrightarrow> files t = files s \<and>
      writer t = writer s \<and>
      (\<forall>bs p n c. b = Some bs \<longrightarrow> reader s h = Some (p, n) \<longrightarrow> files s p = Some (File c) \<longrightarrow>
         (\<exists>d. drop n c = bs @ d) \<and> (bs = [] \<longrightarrow> length c \<le> n) \<and>
         reader t h = Some (p, n + length bs))"
    and write_law: "run_state (write_data io h bs) s = (w, t) \<Longrightarrow> writer t = writer s \<and>
      reader t = reader s \<and> (\<forall>q. writer s h \<noteq> Some q \<longrightarrow> files t q = files s q)"
    and sync_file_law: "run_state (sync_file io h) s = (r, t) \<Longrightarrow> files t = files s"
    and close_file_law: "run_state (close_file io h) s = (r, t) \<Longrightarrow> files t = files s"
    and sync_device_law: "run_state (sync_device io) s = (r, t) \<Longrightarrow> files t = files s"
    and remove_law: "run_state (remove_file io p) s = (r, t) \<Longrightarrow>
      (r < 0 \<longrightarrow> files t = files s) \<and> (0 \<le> r \<longrightarrow> files t = (files s)(p := None))"
    and rename_law: "run_state (rename_path io p q) s = (r, t) \<Longrightarrow>
      (r < 0 \<longrightarrow> files t = files s) \<and>
      (0 \<le> r \<longrightarrow> (\<exists>x. files s p = Some x \<and> files t = (files s)(p := None, q := Some x)))"
    and make_directory_law: "run_state (make_directory io p) s = (r, t) \<Longrightarrow>
      (r < 0 \<longrightarrow> files t = files s) \<and>
      (0 \<le> r \<longrightarrow> files s p = None \<and> files t = (files s)(p := Some Directory))"
begin

subsection \<open>The calls\<close>

lemma stat_wp [wp_intros]:
  assumes "\<And>r k n t. files t = files s \<Longrightarrow> r < 0 \<Longrightarrow> Q (r, k, n) t"
    and "\<And>k n t. files t = files s \<Longrightarrow> files s p = None \<Longrightarrow> Q (1, k, n) t"
    and "\<And>x n t. files t = files s \<Longrightarrow> files s p = Some x \<Longrightarrow> Q (0, node_kind x, n) t"
  shows "wp (manager_storage_stat io p) Q s"
  unfolding manager_storage_stat_def
proof (rule wp_bind, rule wpI)
  fix y t assume y: "run_state (stat_path io p) s = (y, t)"
  obtain r k n where [simp]: "y = (r, k, n)" by (cases y)
  note l = stat_law [OF y [simplified]]
  consider "r < 0" | "r = 0" | "0 < r" by linarith
  then show "wp (case y of (result, kind, len) \<Rightarrow> ret (if result = 0 then (result, kind, len)
      else (result, MANAGER_STORAGE_NODE_OTHER, 0))) Q t"
    using l assms by cases (auto simp: wp_def)
qed

lemma sync_wp [wp_intros]:
  "(\<And>r t. files t = files s \<Longrightarrow> Q r t) \<Longrightarrow> wp (sync_device io) Q s"
  by (rule wpI) (blast dest: sync_device_law)

lemma sync_file_wp [wp_intros]:
  "(\<And>r t. files t = files s \<Longrightarrow> Q r t) \<Longrightarrow> wp (sync_file io h) Q s"
  by (rule wpI) (blast dest: sync_file_law)

lemma close_wp [wp_intros]:
  "(\<And>r t. files t = files s \<Longrightarrow> Q r t) \<Longrightarrow> wp (close_file io h) Q s"
  by (rule wpI) (blast dest: close_file_law)

lemma remove_wp [wp_intros]:
  "(\<And>r t. r < 0 \<Longrightarrow> files t = files s \<Longrightarrow> Q r t) \<Longrightarrow>
   (\<And>r t. 0 \<le> r \<Longrightarrow> files t = (files s)(p := None) \<Longrightarrow> Q r t) \<Longrightarrow> wp (remove_file io p) Q s"
  by (rule wpI) (meson not_less remove_law)

lemma rename_wp [wp_intros]:
  "(\<And>r t. r < 0 \<Longrightarrow> files t = files s \<Longrightarrow> Q r t) \<Longrightarrow>
   (\<And>r x t. 0 \<le> r \<Longrightarrow> files s p = Some x \<Longrightarrow> files t = (files s)(p := None, q := Some x) \<Longrightarrow> Q r t) \<Longrightarrow>
   wp (rename_path io p q) Q s"
  by (rule wpI) (meson not_less rename_law)

lemma make_directory_wp [wp_intros]:
  "(\<And>r t. r < 0 \<Longrightarrow> files t = files s \<Longrightarrow> Q r t) \<Longrightarrow>
   (\<And>r t. 0 \<le> r \<Longrightarrow> files s p = None \<Longrightarrow> files t = (files s)(p := Some Directory) \<Longrightarrow> Q r t) \<Longrightarrow>
   wp (make_directory io p) Q s"
  by (rule wpI) (meson not_less make_directory_law)

subsection \<open>Hashing and copying\<close>

lemma take_read: "drop n c = bs @ d \<Longrightarrow> take (n + length bs) c = take n c @ bs"
  by (simp add: take_add)

lemma drop_read_length: "drop n c = bs @ d \<Longrightarrow> n \<le> length c \<Longrightarrow> n + length bs \<le> length c"
  by (metis add_le_cancel_left le_add1 le_add_diff_inverse length_append length_drop)

lemma hash_loop_wp:
  assumes "files s p = Some (File c)" "reader s h = Some (p, n)" "hashing hash (take n c)"
    and "n \<le> length c" "n \<le> MANAGER_STORAGE_MAX_SAVE_BYTES"
    and "\<And>r hs tot t. files t = files s \<Longrightarrow> r = MANAGER_STORAGE_OK \<or> failed r \<Longrightarrow>
      (r = MANAGER_STORAGE_OK \<Longrightarrow> hashing hs c \<and> tot = length c) \<Longrightarrow> Q (r, hs, tot) t"
  shows "wp (hash_loop io h hash n) Q s"
  using assms
proof (induction "MANAGER_STORAGE_MAX_SAVE_BYTES - n" arbitrary: n hash s rule: less_induct)
  case less
  show ?case
  proof (subst hash_loop.simps, rule wp_bind, rule wpI, rule wp_case_option)
    fix b t assume r: "run_state (read_data io h MANAGER_STORAGE_COPY_BUFFER) s = (b, t)"
    note l = read_law [OF r]
    { assume "b = None"
      then show "wp (ret (MANAGER_STORAGE_IO_ERROR, hash, n)) Q t"
        using l by (intro wp_ret less.prems(6)) auto }
    fix bs assume b: "b = Some bs"
    then obtain d where d: "drop n c = bs @ d" "bs = [] \<longrightarrow> length c \<le> n" "files t = files s"
      "reader t h = Some (p, n + length bs)" using l less.prems(1,2) by blast
    show "wp (if bs = [] then ret (MANAGER_STORAGE_OK, hash, n)
        else if n + length bs > MANAGER_STORAGE_MAX_SAVE_BYTES
        then ret (MANAGER_STORAGE_TOO_LARGE, hash, n + length bs)
        else hash_loop io h (manager_sha256_update hash bs) (n + length bs)) Q t"
    proof (intro wp_if wp_ret)
      assume "bs = []"
      then show "Q (MANAGER_STORAGE_OK, hash, n) t"
        using d less.prems by (intro less.prems(6)) auto
    next
      show "Q (MANAGER_STORAGE_TOO_LARGE, hash, n + length bs) t"
        using d by (intro less.prems(6)) auto
    next
      assume ne: "bs \<noteq> []" "\<not> n + length bs > MANAGER_STORAGE_MAX_SAVE_BYTES"
      show "wp (hash_loop io h (manager_sha256_update hash bs) (n + length bs)) Q t"
      proof (rule less.hyps)
        show "hashing (manager_sha256_update hash bs) (take (n + length bs) c)"
          unfolding take_read [OF d(1)] by (rule hashing_update [OF less.prems(3)])
      qed (use d ne less.prems in \<open>auto simp: drop_read_length intro: read_progress\<close>)
    qed
  qed
qed

lemma fresh_hash_hashing: "hashing fresh_hash []"
  unfolding fresh_hash_def by (rule hashing_init) simp

lemma hash_path_wp [wp_intros]:
  assumes "\<And>r d n t. files t = files s \<Longrightarrow> failed r \<Longrightarrow> Q (r, d, n) t"
    and "\<And>c t. files t = files s \<Longrightarrow> files s p = Some (File c) \<Longrightarrow>
      Q (MANAGER_STORAGE_OK, sha256 c, length c) t"
  shows "wp (manager_storage_hash_path io p) Q s"
  unfolding manager_storage_hash_path_def
proof (rule wp_bind, rule wpI, rule wp_if)
  fix h t assume o: "run_state (open_read io p) s = (h, t)"
  note l = open_read_law [OF o]
  { assume "h < 0"
    show "wp (ret (MANAGER_STORAGE_IO_ERROR, [], 0)) Q t"
      using l assms(1) by (auto intro!: wp_ret) }
  assume "\<not> h < 0"
  then obtain c where c: "files s p = Some (File c)" "reader t h = Some (p, 0)" "files t = files s"
    using l by auto
  show "wp (State_Monad.bind (hash_loop io h fresh_hash 0) (\<lambda>(result, hash, total_bytes).
      State_Monad.bind (close_file io h) (\<lambda>closed.
        let result = (if closed < 0 \<and> result = MANAGER_STORAGE_OK
                      then MANAGER_STORAGE_IO_ERROR else result) in
        if result \<noteq> MANAGER_STORAGE_OK then ret (result, [], 0)
        else ret (MANAGER_STORAGE_OK, manager_sha256_final hash, total_bytes)))) Q t"
  proof (rule wp_bind, rule hash_loop_wp [where p = p and c = c])
    fix r hs tot u
    assume u: "files u = files t" "r = MANAGER_STORAGE_OK \<or> failed r" "r = MANAGER_STORAGE_OK \<Longrightarrow> hashing hs c \<and> tot = length c"
    show "wp (case (r, hs, tot) of (result, hash, total_bytes) \<Rightarrow>
      State_Monad.bind (close_file io h) (\<lambda>closed.
        let result = (if closed < 0 \<and> result = MANAGER_STORAGE_OK
                      then MANAGER_STORAGE_IO_ERROR else result) in
        if result \<noteq> MANAGER_STORAGE_OK then ret (result, [], 0)
        else ret (MANAGER_STORAGE_OK, manager_sha256_final hash, total_bytes))) Q u"
      using u c assms by (auto intro!: wp_intros simp: hashing_final split: if_splits)
  qed (use c fresh_hash_hashing in auto)
qed

lemma write_loop_wp:
  assumes "writer s h = Some p" "reader s g = Some x"
    and "\<And>ok t. writer t h = Some p \<Longrightarrow> reader t g = Some x \<Longrightarrow> \<forall>q. q \<noteq> p \<longrightarrow> files t q = files s q \<Longrightarrow> Q ok t"
  shows "wp (write_loop io h left) Q s"
  using assms
proof (induction "length left" arbitrary: left s rule: less_induct)
  case less
  show ?case
  proof (subst write_loop.simps, rule wp_if)
    show "wp (ret True) Q s" using less.prems by (blast intro: wp_ret)
    show "wp (State_Monad.bind (write_data io h left) (\<lambda>written.
        if written \<le> 0 then ret False else write_loop io h (drop (nat written) left))) Q s"
      if "left \<noteq> []"
    proof (rule wp_bind, rule wpI, rule wp_if)
      fix w t assume r: "run_state (write_data io h left) s = (w, t)"
      note l = write_law [OF r]
      { show "wp (ret False) Q t" using l less.prems by (intro wp_ret less.prems(3)) auto }
      assume "\<not> w \<le> 0"
      then show "wp (write_loop io h (drop (nat w) left)) Q t"
        using that l less.prems by (intro less.hyps) auto
    qed
  qed
qed

lemma copy_loop_wp:
  assumes "files s p = Some (File c)" "reader s h = Some (p, n)" "hashing hash (take n c)"
    and "n \<le> length c" "n \<le> MANAGER_STORAGE_MAX_SAVE_BYTES" "writer s g = Some q" "p \<noteq> q"
    and "\<And>r hs tot t. \<forall>x. x \<noteq> q \<longrightarrow> files t x = files s x \<Longrightarrow>
      r = MANAGER_STORAGE_OK \<or> failed r \<Longrightarrow>
      (r = MANAGER_STORAGE_OK \<longrightarrow> hashing hs c \<and> tot = length c \<and> tot \<le> MANAGER_STORAGE_MAX_SAVE_BYTES) \<Longrightarrow> Q (r, hs, tot) t"
  shows "wp (copy_loop io h g hash n) Q s"
  using assms
proof (induction "MANAGER_STORAGE_MAX_SAVE_BYTES - n" arbitrary: n hash s rule: less_induct)
  case less
  show ?case
  proof (subst copy_loop.simps, rule wp_bind, rule wpI, rule wp_case_option)
    fix b t assume r: "run_state (read_data io h MANAGER_STORAGE_COPY_BUFFER) s = (b, t)"
    note l = read_law [OF r]
    { assume "b = None"
      then show "wp (ret (MANAGER_STORAGE_IO_ERROR, hash, n)) Q t"
        using l by (intro wp_ret less.prems(8)) auto }
    fix bs assume b: "b = Some bs"
    then obtain d where d: "drop n c = bs @ d" "bs = [] \<longrightarrow> length c \<le> n" "files t = files s"
      "reader t h = Some (p, n + length bs)" "writer t g = Some q"
      using l less.prems(1,2,6) by auto
    show "wp (if bs = [] then ret (MANAGER_STORAGE_OK, hash, n)
        else if n + length bs > MANAGER_STORAGE_MAX_SAVE_BYTES
        then ret (MANAGER_STORAGE_TOO_LARGE, hash, n + length bs)
        else State_Monad.bind (write_loop io g bs) (\<lambda>written.
          if \<not> written then ret (MANAGER_STORAGE_IO_ERROR, manager_sha256_update hash bs,
                                n + length bs)
          else copy_loop io h g (manager_sha256_update hash bs) (n + length bs))) Q t"
    proof (intro wp_if wp_ret wp_bind)
      assume "bs = []"
      then show "Q (MANAGER_STORAGE_OK, hash, n) t"
        using d less.prems by (intro less.prems(8)) auto
    next
      show "Q (MANAGER_STORAGE_TOO_LARGE, hash, n + length bs) t"
        using d by (intro less.prems(8)) auto
    next
      assume ne: "bs \<noteq> []" "\<not> n + length bs > MANAGER_STORAGE_MAX_SAVE_BYTES"
      show "wp (write_loop io g bs) (\<lambda>written. wp (if \<not> written
          then ret (MANAGER_STORAGE_IO_ERROR, manager_sha256_update hash bs, n + length bs)
          else copy_loop io h g (manager_sha256_update hash bs) (n + length bs)) Q) t"
      proof (rule write_loop_wp [OF d(5,4)], intro wp_if wp_ret)
        fix ok u assume u: "writer u g = Some q" "reader u h = Some (p, n + length bs)"
          "\<forall>x. x \<noteq> q \<longrightarrow> files u x = files t x"
        { show "Q (MANAGER_STORAGE_IO_ERROR, manager_sha256_update hash bs, n + length bs) u"
            using u d by (intro less.prems(8)) auto }
        show "wp (copy_loop io h g (manager_sha256_update hash bs) (n + length bs)) Q u"
        proof (rule less.hyps)
          show "hashing (manager_sha256_update hash bs) (take (n + length bs) c)"
            unfolding take_read [OF d(1)] by (rule hashing_update [OF less.prems(3)])
        qed (use d u ne less.prems in \<open>auto simp: drop_read_length intro: read_progress\<close>)
      qed
    qed
  qed
qed

lemma worst_ok: "worst b r = MANAGER_STORAGE_OK \<longleftrightarrow> \<not> b \<and> r = MANAGER_STORAGE_OK"
  by (auto simp: worst_def)

lemma worst_failed: "failed (worst b r) \<longleftrightarrow> (b \<and> r = MANAGER_STORAGE_OK) \<or> failed r"
  by (auto simp: worst_def)

lemma copy_finish_wp:
  assumes "r = MANAGER_STORAGE_OK \<Longrightarrow> hashing hs c \<and> tot = length c \<and> tot \<le> MANAGER_STORAGE_MAX_SAVE_BYTES"
    and "r = MANAGER_STORAGE_OK \<or> failed r"
    and "\<And>r d n t. \<forall>x. x \<noteq> tmp \<longrightarrow> files t x = files s x \<Longrightarrow> failed r \<Longrightarrow> Q (r, d, n) t"
    and "\<And>c' t. files t = files s \<Longrightarrow> files s tmp = Some (File c') \<Longrightarrow> sha256 c' = sha256 c \<Longrightarrow>
      length c' = length c \<Longrightarrow> length c \<le> MANAGER_STORAGE_MAX_SAVE_BYTES \<Longrightarrow> Q (MANAGER_STORAGE_OK, sha256 c, length c) t"
  shows "wp (copy_finish io h g tmp r hs tot) Q s"
proof (cases "r = MANAGER_STORAGE_OK")
  case True
  then have "manager_sha256_final hs = sha256 c" "tot = length c" "length c \<le> MANAGER_STORAGE_MAX_SAVE_BYTES"
    using assms(1) hashing_final by auto
  then show ?thesis unfolding copy_finish_def using True
    by (auto intro!: wp_intros intro: assms(4) simp: worst_ok)
      (auto intro!: assms(3) simp: worst_ok worst_failed)
next
  case False
  then have "failed r" using assms(2) by simp
  with False show ?thesis unfolding copy_finish_def
    by (auto intro!: wp_intros intro: assms(3) simp: worst_ok worst_failed)
qed

lemma copy_verified_wp [wp_intros]:
  assumes "source \<noteq> tmp"
    and fail: "\<And>r d n t. \<forall>x. x \<noteq> tmp \<longrightarrow> files t x = files s x \<Longrightarrow> failed r \<Longrightarrow> Q (r, d, n) t"
    and ok: "\<And>c c' t. \<forall>x. x \<noteq> tmp \<longrightarrow> files t x = files s x \<Longrightarrow> files s source = Some (File c) \<Longrightarrow>
      files s tmp = None \<Longrightarrow> files t tmp = Some (File c') \<Longrightarrow> sha256 c' = sha256 c \<Longrightarrow>
      length c' = length c \<Longrightarrow> length c \<le> MANAGER_STORAGE_MAX_SAVE_BYTES \<Longrightarrow> Q (MANAGER_STORAGE_OK, sha256 c, length c) t"
  shows "wp (manager_storage_copy_verified io source tmp) Q s"
  unfolding manager_storage_copy_verified_def
proof (rule wp_bind, rule wpI, rule wp_if)
  fix h t assume o: "run_state (open_read io source) s = (h, t)"
  note l = open_read_law [OF o]
  { show "wp (ret (MANAGER_STORAGE_IO_ERROR, [], 0)) Q t"
      using l by (intro wp_ret fail) auto }
  assume "\<not> h < 0"
  then obtain c where c: "files s source = Some (File c)" "reader t h = Some (source, 0)"
    "files t = files s" using l by auto
  show "wp (State_Monad.bind (open_write_exclusive io tmp) (\<lambda>g.
      if g < 0 then State_Monad.bind (close_file io h) (\<lambda>_. ret (MANAGER_STORAGE_CONFLICT, [], 0))
      else State_Monad.bind (copy_loop io h g fresh_hash 0)
        (\<lambda>(result, hash, total_bytes). copy_finish io h g tmp result hash total_bytes))) Q t"
  proof (rule wp_bind, rule wpI, rule wp_if)
    fix g u assume w: "run_state (open_write_exclusive io tmp) t = (g, u)"
    note lw = open_write_law [OF w]
    { assume "g < 0"
      then show "wp (State_Monad.bind (close_file io h) (\<lambda>_. ret (MANAGER_STORAGE_CONFLICT, [], 0))) Q u"
        using lw c by (auto intro!: wp_intros fail) }
    assume "\<not> g < 0"
    then have g: "files s tmp = None" "files u = (files s)(tmp := Some (File []))"
      "writer u g = Some tmp" "reader u h = Some (source, 0)" using lw c by auto
    show "wp (State_Monad.bind (copy_loop io h g fresh_hash 0)
        (\<lambda>(result, hash, total_bytes). copy_finish io h g tmp result hash total_bytes)) Q u"
    proof (rule wp_bind, rule copy_loop_wp [where p = source and c = c and q = tmp])
      fix r hs tot v
      assume v: "\<forall>x. x \<noteq> tmp \<longrightarrow> files v x = files u x"
        "r = MANAGER_STORAGE_OK \<or> failed r"
        "r = MANAGER_STORAGE_OK \<longrightarrow> hashing hs c \<and> tot = length c \<and> tot \<le> MANAGER_STORAGE_MAX_SAVE_BYTES"
      have v': "\<forall>x. x \<noteq> tmp \<longrightarrow> files v x = files s x" using v g by auto
      have "wp (copy_finish io h g tmp r hs tot) Q v"
        by (rule copy_finish_wp [where c = c]) (use v v' c g in \<open>auto intro: fail ok\<close>)
      then show "wp (case (r, hs, tot) of (result, hash, total_bytes) \<Rightarrow>
          copy_finish io h g tmp result hash total_bytes) Q v" by simp
    qed (use c g assms(1) fresh_hash_hashing in auto)
  qed
qed

lemma remove_managed_wp [wp_intros]:
  assumes "\<And>r t. files t = files s \<Longrightarrow> failed r \<Longrightarrow> Q r t"
    and "\<And>t. files t = (files s)(p := None) \<Longrightarrow> Q MANAGER_STORAGE_OK t"
  shows "wp (manager_storage_remove_managed_file io p) Q s"
proof -
  have "files s p = None \<Longrightarrow> (files s)(p := None) = files s" by auto
  then show ?thesis unfolding manager_storage_remove_managed_file_def
    by (intro wp_intros) (auto intro!: wp_intros assms simp: failed_def)
qed

lemma ensure_root_wp [wp_intros]:
  assumes "\<And>r t. \<forall>x. x \<noteq> MANAGER_STORAGE_BACKUP_ROOT \<longrightarrow> files t x = files s x \<Longrightarrow> Q r t"
  shows "wp (manager_storage_ensure_backup_root io) Q s"
  unfolding manager_storage_ensure_backup_root_def
  by (intro wp_intros) (auto intro!: wp_intros assms)

lemma find_free_from_wp:
  assumes "\<And>r t q i. files t = files s \<Longrightarrow> failed r \<Longrightarrow> Q (r, q, i) t"
    and "\<And>i t. files t = files s \<Longrightarrow> files s (backup_name prefix slot i) = None \<Longrightarrow> i \<le> 9999 \<Longrightarrow>
      Q (MANAGER_STORAGE_OK, backup_name prefix slot i, i) t"
  shows "wp (find_free_from io prefix slot k) Q s"
  using assms
proof (induction "10000 - k" arbitrary: k s rule: less_induct)
  case less
  have ih: "k \<le> 9999 \<Longrightarrow> files t = files s \<Longrightarrow> wp (find_free_from io prefix slot (Suc k)) Q t" for t
    using less.prems by (intro less.hyps) auto
  have f: "in_path q = Some p \<Longrightarrow> p = q" for p q
    by (simp add: manager_storage_format_def split: if_splits)
  show ?case
    by (subst find_free_from.simps, intro wp_intros)
      (auto intro!: wp_intros ih intro: less.prems simp: failed_def dest!: f)
qed

lemma find_free_wp [wp_intros]:
  assumes "\<And>r t q i. files t = files s \<Longrightarrow> failed r \<Longrightarrow> Q (r, q, i) t"
    and "\<And>i t. files t = files s \<Longrightarrow> files s (backup_name prefix slot i) = None \<Longrightarrow> i \<le> 9999 \<Longrightarrow>
      Q (MANAGER_STORAGE_OK, backup_name prefix slot i, i) t"
  shows "wp (manager_storage_find_free_backup io prefix slot) Q s"
  unfolding manager_storage_find_free_backup_def by (rule find_free_from_wp) (use assms in auto)

subsection \<open>Recovery\<close>

definition kept :: "(string \<Rightarrow> node option) \<Rightarrow> (string \<Rightarrow> node option) \<Rightarrow> string set \<Rightarrow> bool" where
  "kept f g xs \<longleftrightarrow> (\<forall>x. x \<notin> xs \<longrightarrow> f x \<noteq> None \<longrightarrow> g x = f x)"

abbreviation quarantine :: "nat \<Rightarrow> nat \<Rightarrow> string" where
  "quarantine slot \<equiv> backup_name ''recovered-slot'' slot"

definition archived :: "(string \<Rightarrow> node option) \<Rightarrow> (string \<Rightarrow> node option) \<Rightarrow> string \<Rightarrow> nat \<Rightarrow> u8 list \<Rightarrow> bool" where
  "archived f g prefix slot c \<longleftrightarrow>
     (\<exists>i. f (backup_name prefix slot i) = None \<and> g (backup_name prefix slot i) = Some (File c))"

lemma archivedI:
  "f (backup_name prefix slot i) = None \<Longrightarrow> g (backup_name prefix slot i) = Some (File c) \<Longrightarrow>
   archived f g prefix slot c"
  by (auto simp: archived_def)

lemma quarantine_other:
  "(\<And>i. quarantine slot i \<notin> {a, b, d}) \<Longrightarrow>
   a \<noteq> quarantine slot i \<and> b \<noteq> quarantine slot i \<and> d \<noteq> quarantine slot i"
  by auto

lemma node_kind_file: "node_kind x = MANAGER_STORAGE_NODE_FILE \<longleftrightarrow> (\<exists>c. x = File c)"
  by (cases x) auto

lemma recover_rollback_wp:
  assumes "target \<noteq> rollback" "target \<noteq> MANAGER_STORAGE_BACKUP_ROOT" "rollback \<noteq> MANAGER_STORAGE_BACKUP_ROOT"
    and "\<And>i. quarantine slot i \<notin> {target, rollback, MANAGER_STORAGE_BACKUP_ROOT}"
  shows "wp (recover_rollback io slot target rollback) (\<lambda>r t.
    kept (files s) (files t) {target, rollback, MANAGER_STORAGE_BACKUP_ROOT} \<and>
    (\<forall>x. x \<notin> {target, rollback, MANAGER_STORAGE_BACKUP_ROOT} \<union> range (quarantine slot) \<longrightarrow>
       files t x = files s x) \<and>
    (files s rollback = None \<longrightarrow> files t = files s) \<and>
    (case r of
       Inl e \<Rightarrow> failed e \<and> files t rollback = files s rollback \<and>
         (\<forall>c. files s target = Some (File c) \<longrightarrow> files t target = Some (File c) \<or>
            archived (files s) (files t) ''recovered-slot'' slot c)
     | Inr w \<Rightarrow> files t rollback = None \<and> (\<forall>x. files t target = Some x \<longrightarrow> (\<exists>c. x = File c)) \<and>
         (\<forall>x. files s rollback = Some x \<longrightarrow> files t target = Some x \<and>
            (\<forall>c. files s target = Some (File c) \<longrightarrow>
               archived (files s) (files t) ''recovered-slot'' slot c)))) s"
  unfolding recover_rollback_def
  apply (intro wp_intros)
  using assms not_sym [OF assms(1)] quarantine_other [OF assms(4)]
  by (simp_all add: kept_def failed_def node_kind_file) (auto intro!: archivedI)

lemma recover_slot_wp:
  assumes "1 \<le> slot" "slot \<le> 3"
  shows "wp (manager_storage_recover_slot io slot) (\<lambda>r t.
    kept (files s) (files t) (managed slot) \<and>
    (\<forall>x. x \<notin> managed slot \<union> range (quarantine slot) \<longrightarrow> files t x = files s x) \<and>
    current (files t) slot = current (files s) slot \<and>
    (\<forall>c. files s (target_file slot) = Some (File c) \<longrightarrow> files t (target_file slot) = Some (File c) \<or>
       archived (files s) (files t) ''recovered-slot'' slot c) \<and>
    (\<not> failed r \<longrightarrow> files t (rollback_file slot) = None \<and> files t (restore_temp_file slot) = None \<and>
       files t (backup_temp_file slot) = None \<and>
       (\<forall>x. files t (target_file slot) = Some x \<longrightarrow> (\<exists>c. x = File c)))) s"
proof -
  let ?T = "target_file slot" and ?R = "rollback_file slot"
  have q: "quarantine slot i \<notin> {?T, ?R, MANAGER_STORAGE_BACKUP_ROOT}" for i
    using managed_distinct [of slot slot i] by auto
  have ne: "?T \<noteq> ?R" "?T \<noteq> MANAGER_STORAGE_BACKUP_ROOT" "?R \<noteq> MANAGER_STORAGE_BACKUP_ROOT"
    using managed_distinct [of slot] by auto
  have qt: "restore_temp_file slot \<noteq> quarantine slot i" "backup_temp_file slot \<noteq> quarantine slot i"
    "quarantine slot i \<noteq> restore_temp_file slot" "quarantine slot i \<noteq> backup_temp_file slot" for i
    using managed_distinct [of slot slot i] by auto
  have arch: "archived f g ''recovered-slot'' slot c \<Longrightarrow>
      archived f (g(restore_temp_file slot := None)) ''recovered-slot'' slot c"
    "archived f g ''recovered-slot'' slot c \<Longrightarrow>
      archived f (g(restore_temp_file slot := None, backup_temp_file slot := None)) ''recovered-slot'' slot c"
    for f g c using qt by (auto simp: archived_def)
  show ?thesis
    unfolding manager_storage_recover_slot_def slot_paths [OF assms] option.case prod.case
    apply (rule wp_bind, rule wp_mono, rule recover_rollback_wp [OF ne q])
    apply (intro wp_intros)
    using managed_distinct [of slot]
    by (simp_all add: kept_def managed_def current_def failed_def split: option.splits)
      (auto intro: arch)
qed

subsection \<open>Restore\<close>

lemma rollback_promotion_wp [wp_intros]:
  assumes "distinct [target, tmp, rollback]"
    and "\<And>t. \<forall>x. x \<notin> {target, tmp, rollback} \<longrightarrow> files t x = files s x \<Longrightarrow>
      (had_old \<longrightarrow> (\<forall>x. files s rollback = Some x \<longrightarrow> files t rollback = Some x \<or>
         (files t rollback = None \<and> files t target = Some x))) \<Longrightarrow> Q () t"
  shows "wp (manager_storage_rollback_promotion io target tmp rollback had_old) Q s"
  unfolding manager_storage_rollback_promotion_def
  apply (rule wp_mono [where P = "\<lambda>u t. (\<forall>x. x \<notin> {target, tmp, rollback} \<longrightarrow> files t x = files s x) \<and>
      (had_old \<longrightarrow> (\<forall>x. files s rollback = Some x \<longrightarrow> files t rollback = Some x \<or>
         (files t rollback = None \<and> files t target = Some x)))"])
   apply (intro wp_intros)
  using assms by auto

text \<open>The old save \<open>x\<close>, if there was one, is where the next recovery finds it.\<close>

definition old_safe :: "string \<Rightarrow> string \<Rightarrow> node \<Rightarrow> (string \<Rightarrow> node option) \<Rightarrow> bool" where
  "old_safe target rollback x f \<longleftrightarrow>
     f rollback = Some x \<or> (f rollback = None \<and> f target = Some x)"

lemma restore_archive_wp:
  assumes "distinct [target, tmp, rollback, archive]"
    and "had_old \<longrightarrow> files s rollback = Some x" "\<not> had_old \<longrightarrow> files s rollback = None"
    and "files s target = Some (File c)"
  shows "wp (restore_archive io target tmp rollback archive had_old warning) (\<lambda>r t.
    (\<forall>y. y \<notin> {target, tmp, rollback, archive} \<longrightarrow> files t y = files s y) \<and>
    (failed r \<longrightarrow> had_old \<longrightarrow> old_safe target rollback x (files t)) \<and>
    (\<not> failed r \<longrightarrow> files t rollback = None \<and> (had_old \<longrightarrow> files t archive = Some x) \<and>
       files t target = Some (File c))) s"
  unfolding restore_archive_def
  apply (intro wp_intros)
  using assms by (auto simp: failed_def old_safe_def)

lemma restore_verify_wp:
  assumes "distinct [target, tmp, rollback, archive]"
    and "had_old \<longrightarrow> files s rollback = Some x" "\<not> had_old \<longrightarrow> files s rollback = None"
  shows "wp (restore_verify io target tmp rollback archive expected n had_old warning) (\<lambda>r t.
    (\<forall>y. y \<notin> {target, tmp, rollback, archive} \<longrightarrow> files t y = files s y) \<and>
    (failed r \<longrightarrow> had_old \<longrightarrow> old_safe target rollback x (files t)) \<and>
    (\<not> failed r \<longrightarrow> files t rollback = None \<and> (had_old \<longrightarrow> files t archive = Some x) \<and>
       (\<exists>c. files t target = Some (File c) \<and> sha256 c = expected \<and> length c = n))) s"
  unfolding restore_verify_def
  apply (intro wp_intros)
  using assms apply simp_all
     apply (auto simp: old_safe_def) [3]
  subgoal for c t b r ta
    by (rule wp_mono, rule restore_archive_wp [where c = c and x = x]) auto
  done

lemma restore_promote_wp:
  assumes "distinct [target, tmp, rollback, archive]"
    and "had_old \<longrightarrow> files s rollback = Some x" "\<not> had_old \<longrightarrow> files s rollback = None"
  shows "wp (restore_promote io target tmp rollback archive expected n had_old warning) (\<lambda>r t.
    (\<forall>y. y \<notin> {target, tmp, rollback, archive} \<longrightarrow> files t y = files s y) \<and>
    (failed r \<longrightarrow> had_old \<longrightarrow> old_safe target rollback x (files t)) \<and>
    (\<not> failed r \<longrightarrow> files t rollback = None \<and> (had_old \<longrightarrow> files t archive = Some x) \<and>
       (\<exists>c. files t target = Some (File c) \<and> sha256 c = expected \<and> length c = n))) s"
  unfolding restore_promote_def
  apply (intro wp_intros)
  using assms apply simp_all
      apply (auto simp: old_safe_def) [4]
  subgoal for r y t
    by (rule wp_mono, rule restore_verify_wp [where x = x]) auto
  done

lemma restore_swap_wp:
  assumes "distinct [target, tmp, rollback, archive]" "files s rollback = None"
  shows "wp (restore_swap io target tmp rollback archive expected n warning) (\<lambda>r t.
    (\<forall>y. y \<notin> {target, tmp, rollback, archive} \<longrightarrow> files t y = files s y) \<and>
    (failed r \<longrightarrow> (\<forall>x. files s target = Some x \<longrightarrow> old_safe target rollback x (files t))) \<and>
    (\<not> failed r \<longrightarrow> files t rollback = None \<and>
       (\<forall>x. files s target = Some x \<longrightarrow> files t archive = Some x) \<and>
       (\<exists>c. files t target = Some (File c) \<and> sha256 c = expected \<and> length c = n))) s"
  unfolding restore_swap_def
  apply (intro wp_intros)
  using assms apply (simp_all add: old_safe_def)
  subgoal for k m t
    by (rule wp_mono, rule restore_promote_wp) (auto simp: old_safe_def)
  subgoal by auto
  subgoal for x m t u v w r y ta ra tb
    by (rule wp_mono, rule restore_promote_wp [where x = y]) (auto simp: old_safe_def)
  done

lemma restore_recovered_wp:
  assumes "manager_storage_backup_allowed b" "files s (rollback_file (backup_slot b)) = None"
  shows "wp (restore_recovered io b w) (\<lambda>r t.
    (\<forall>y. y \<notin> managed (backup_slot b) \<union> range (backup_name ''slot'' (backup_slot b)) \<longrightarrow>
       files t y = files s y) \<and>
    (failed r \<longrightarrow> (\<forall>x. files s (target_file (backup_slot b)) = Some x \<longrightarrow>
       old_safe (target_file (backup_slot b)) (rollback_file (backup_slot b)) x (files t))) \<and>
    (\<not> failed r \<longrightarrow> files t (rollback_file (backup_slot b)) = None \<and>
       (\<forall>x. files s (target_file (backup_slot b)) = Some x \<longrightarrow>
          (\<exists>i. files t (backup_name ''slot'' (backup_slot b) i) = Some x)) \<and>
       (\<exists>c d. files s (path b) = Some (File c) \<and>
          files t (target_file (backup_slot b)) = Some (File d) \<and>
          sha256 d = sha256 c \<and> length d = length c))) s"
proof -
  let ?k = "backup_slot b"
  have k: "1 \<le> ?k" "?k \<le> 3" using allowed_slot [OF assms(1)] by auto
  have p: "path b \<noteq> restore_temp_file ?k" "path b \<noteq> MANAGER_STORAGE_BACKUP_ROOT"
    using allowed_path_not_managed [OF assms(1)] by (auto simp: managed_def)
  define T R S where "T = target_file ?k" "R = rollback_file ?k" "S = restore_temp_file ?k"
  have d: "distinct [T, S, R, backup_name ''slot'' ?k i]"
      "MANAGER_STORAGE_BACKUP_ROOT \<notin> set [T, S, R, backup_name ''slot'' ?k i]" for i
    using managed_distinct [of ?k ?k i] by (auto simp: T_R_S_def)
  note sp = slot_paths [OF k, folded T_R_S_def]
  show ?thesis
    unfolding restore_recovered_def sp option.case prod.case T_R_S_def [symmetric]
    apply (intro wp_intros)
    using d [of 0] p assms(2)
    apply (simp_all add: managed_def old_safe_def T_R_S_def [symmetric])
       apply (fastforce+) [3]
    subgoal
      by (rule wp_mono, rule restore_swap_wp) (use d in \<open>auto simp: old_safe_def\<close>)
    done
qed

lemma old_safe_current:
  "old_safe (target_file k) (rollback_file k) x f \<Longrightarrow> current f k = Some x"
  by (auto simp: old_safe_def current_def)

lemma restore_backup_wp:
  "wp (manager_storage_restore_backup io b) (\<lambda>r t.
    (\<forall>c. current (files s) (backup_slot b) = Some (File c) \<longrightarrow>
       (failed r \<longrightarrow> current (files t) (backup_slot b) = Some (File c)) \<and>
       (\<not> failed r \<longrightarrow> (\<exists>i. files t (backup_name ''slot'' (backup_slot b) i) = Some (File c)))) \<and>
    (\<forall>c. files s (target_file (backup_slot b)) = Some (File c) \<longrightarrow> (\<exists>p. files t p = Some (File c))) \<and>
    (\<not> failed r \<longrightarrow> manager_storage_backup_allowed b \<and> files t (rollback_file (backup_slot b)) = None \<and>
       (\<exists>c d. files s (path b) = Some (File c) \<and>
          files t (target_file (backup_slot b)) = Some (File d) \<and>
          sha256 d = sha256 c \<and> length d = length c)) \<and>
    (\<forall>x. x \<notin> managed (backup_slot b) \<union> range (backup_name ''recovered-slot'' (backup_slot b)) \<union>
         range (backup_name ''slot'' (backup_slot b)) \<longrightarrow> files t x = files s x)) s"
proof (cases "manager_storage_backup_allowed b")
  case False
  then show ?thesis
    by (auto simp: manager_storage_restore_backup_def intro!: wp_intros)
next
  case True
  let ?k = "backup_slot b"
  have k: "1 \<le> ?k" "?k \<le> 3" using allowed_slot [OF True] by auto
  have p: "path b \<notin> managed ?k" "path b \<notin> range (backup_name ''recovered-slot'' ?k)"
    using allowed_path_not_managed [OF True] by auto
  have q: "backup_name ''recovered-slot'' ?k i \<notin> managed ?k"
    "backup_name ''recovered-slot'' ?k i \<notin> range (backup_name ''slot'' ?k)" for i
    by (auto simp: managed_def file_names)
  have "wp (manager_storage_recover_slot io ?k) (\<lambda>rec u. wp (if failed rec then ret rec
      else restore_recovered io b (rec = MANAGER_STORAGE_SYNC_WARNING)) (\<lambda>r t.
    (\<forall>c. current (files s) ?k = Some (File c) \<longrightarrow>
       (failed r \<longrightarrow> current (files t) ?k = Some (File c)) \<and>
       (\<not> failed r \<longrightarrow> (\<exists>i. files t (backup_name ''slot'' ?k i) = Some (File c)))) \<and>
    (\<forall>c. files s (target_file ?k) = Some (File c) \<longrightarrow> (\<exists>p. files t p = Some (File c))) \<and>
    (\<not> failed r \<longrightarrow> manager_storage_backup_allowed b \<and> files t (rollback_file ?k) = None \<and>
       (\<exists>c d. files s (path b) = Some (File c) \<and> files t (target_file ?k) = Some (File d) \<and>
          sha256 d = sha256 c \<and> length d = length c)) \<and>
    (\<forall>x. x \<notin> managed ?k \<union> range (backup_name ''recovered-slot'' ?k) \<union>
         range (backup_name ''slot'' ?k) \<longrightarrow> files t x = files s x)) u) s"
  proof (rule wp_mono, rule recover_slot_wp [OF k], rule wp_if)
    fix rec u
    assume u: "kept (files s) (files u) (managed ?k) \<and>
       (\<forall>x. x \<notin> managed ?k \<union> range (backup_name ''recovered-slot'' ?k) \<longrightarrow> files u x = files s x) \<and>
       current (files u) ?k = current (files s) ?k \<and>
       (\<forall>c. files s (target_file ?k) = Some (File c) \<longrightarrow> files u (target_file ?k) = Some (File c) \<or>
          archived (files s) (files u) ''recovered-slot'' ?k c) \<and>
       (\<not> failed rec \<longrightarrow> files u (rollback_file ?k) = None \<and> files u (restore_temp_file ?k) = None \<and>
          files u (backup_temp_file ?k) = None \<and>
          (\<forall>x. files u (target_file ?k) = Some x \<longrightarrow> (\<exists>c. x = File c)))"
    { assume "failed rec"
      then show "wp (ret rec) (\<lambda>r t.
        (\<forall>c. current (files s) ?k = Some (File c) \<longrightarrow>
           (failed r \<longrightarrow> current (files t) ?k = Some (File c)) \<and>
           (\<not> failed r \<longrightarrow> (\<exists>i. files t (backup_name ''slot'' ?k i) = Some (File c)))) \<and>
        (\<forall>c. files s (target_file ?k) = Some (File c) \<longrightarrow> (\<exists>p. files t p = Some (File c))) \<and>
        (\<not> failed r \<longrightarrow> manager_storage_backup_allowed b \<and> files t (rollback_file ?k) = None \<and>
           (\<exists>c d. files s (path b) = Some (File c) \<and> files t (target_file ?k) = Some (File d) \<and>
              sha256 d = sha256 c \<and> length d = length c)) \<and>
        (\<forall>x. x \<notin> managed ?k \<union> range (backup_name ''recovered-slot'' ?k) \<union>
             range (backup_name ''slot'' ?k) \<longrightarrow> files t x = files s x)) u"
        using u by (intro wp_ret) (auto simp: archived_def) }
    assume ok: "\<not> failed rec"
    then have R: "files u (rollback_file ?k) = None" using u by blast
    then have cur: "current (files s) ?k = files u (target_file ?k)" using u by (simp add: current_def)
    have src: "files u (path b) = files s (path b)" using u p by auto
    show "wp (restore_recovered io b (rec = MANAGER_STORAGE_SYNC_WARNING)) (\<lambda>r t.
        (\<forall>c. current (files s) ?k = Some (File c) \<longrightarrow>
           (failed r \<longrightarrow> current (files t) ?k = Some (File c)) \<and>
           (\<not> failed r \<longrightarrow> (\<exists>i. files t (backup_name ''slot'' ?k i) = Some (File c)))) \<and>
        (\<forall>c. files s (target_file ?k) = Some (File c) \<longrightarrow> (\<exists>p. files t p = Some (File c))) \<and>
        (\<not> failed r \<longrightarrow> manager_storage_backup_allowed b \<and> files t (rollback_file ?k) = None \<and>
           (\<exists>c d. files s (path b) = Some (File c) \<and> files t (target_file ?k) = Some (File d) \<and>
              sha256 d = sha256 c \<and> length d = length c)) \<and>
        (\<forall>x. x \<notin> managed ?k \<union> range (backup_name ''recovered-slot'' ?k) \<union>
             range (backup_name ''slot'' ?k) \<longrightarrow> files t x = files s x)) u"
    proof (rule wp_mono, rule restore_recovered_wp [OF True R])
      fix r t
      assume t: "(\<forall>y. y \<notin> managed ?k \<union> range (backup_name ''slot'' ?k) \<longrightarrow> files t y = files u y) \<and>
        (failed r \<longrightarrow> (\<forall>x. files u (target_file ?k) = Some x \<longrightarrow>
           old_safe (target_file ?k) (rollback_file ?k) x (files t))) \<and>
        (\<not> failed r \<longrightarrow> files t (rollback_file ?k) = None \<and>
           (\<forall>x. files u (target_file ?k) = Some x \<longrightarrow> (\<exists>i. files t (backup_name ''slot'' ?k i) = Some x)) \<and>
           (\<exists>c d. files u (path b) = Some (File c) \<and> files t (target_file ?k) = Some (File d) \<and>
              sha256 d = sha256 c \<and> length d = length c))"
      have keep: "\<exists>p. files t p = Some (File c)" if old: "files s (target_file ?k) = Some (File c)" for c
      proof (cases "files u (target_file ?k) = Some (File c)")
        case tu: True
        then show ?thesis using t old_safe_def by (cases "failed r") blast+
      next
        case False
        then obtain i where "files u (backup_name ''recovered-slot'' ?k i) = Some (File c)"
          using u old False unfolding archived_def by blast
        moreover have "files t (backup_name ''recovered-slot'' ?k i) =
            files u (backup_name ''recovered-slot'' ?k i)" using t q [of i] by blast
        ultimately show ?thesis by auto
      qed
      show "(\<forall>c. current (files s) ?k = Some (File c) \<longrightarrow>
           (failed r \<longrightarrow> current (files t) ?k = Some (File c)) \<and>
           (\<not> failed r \<longrightarrow> (\<exists>i. files t (backup_name ''slot'' ?k i) = Some (File c)))) \<and>
        (\<forall>c. files s (target_file ?k) = Some (File c) \<longrightarrow> (\<exists>p. files t p = Some (File c))) \<and>
        (\<not> failed r \<longrightarrow> manager_storage_backup_allowed b \<and> files t (rollback_file ?k) = None \<and>
           (\<exists>c d. files s (path b) = Some (File c) \<and> files t (target_file ?k) = Some (File d) \<and>
              sha256 d = sha256 c \<and> length d = length c)) \<and>
        (\<forall>x. x \<notin> managed ?k \<union> range (backup_name ''recovered-slot'' ?k) \<union>
             range (backup_name ''slot'' ?k) \<longrightarrow> files t x = files s x)"
        using t u cur src keep True old_safe_current by (intro conjI) auto
    qed
  qed
  then show ?thesis
    unfolding manager_storage_restore_backup_def using True by (auto intro: wp_bind)
qed

end

section \<open>Backup and recovery of all slots\<close>

lemma local_allowed:
  assumes "1 \<le> k" "k \<le> 3" "i \<le> 9999"
  shows "manager_storage_local_path_allowed (backup_name ''slot'' k i) k"
  using local_name_roundtrip [OF assms]
  by (simp add: manager_storage_local_path_allowed_def backup_name_def)

lemma backup_name_inj:
  assumes "1 \<le> k" "k \<le> 3" "i \<le> 9999" "j \<le> 9999"
    and "backup_name ''slot'' k i = backup_name ''slot'' k j"
  shows "i = j"
  using assms local_name_roundtrip [of k i] local_name_roundtrip [of k j] by (simp add: backup_name_def)

definition copied :: "(string \<Rightarrow> node option) \<Rightarrow> (string \<Rightarrow> node option) \<Rightarrow> string \<Rightarrow> string \<Rightarrow> nat \<Rightarrow> bool" where
  "copied f g p q n \<longleftrightarrow> (\<exists>c d. f p = Some (File c) \<and> g q = Some (File d) \<and> sha256 d = sha256 c \<and>
     length d = length c \<and> n = length c)"

lemma copiedI:
  "f p = Some (File c) \<Longrightarrow> g q = Some (File d) \<Longrightarrow> sha256 d = sha256 c \<Longrightarrow> length d = length c \<Longrightarrow> n = length c \<Longrightarrow> copied f g p q n"
  by (auto simp: copied_def)

lemma copied_same: "copied f g p q n \<Longrightarrow> f' p = f p \<Longrightarrow> copied f' g p q n"
  by (auto simp: copied_def)

lemma current_none: "f (rollback_file k) = None \<Longrightarrow> current f k = f (target_file k)"
  by (simp add: current_def)

definition settled :: "(string \<Rightarrow> node option) \<Rightarrow> nat \<Rightarrow> bool" where
  "settled f k \<longleftrightarrow> f (rollback_file k) = None \<and> f (restore_temp_file k) = None \<and>
     f (backup_temp_file k) = None \<and> (\<forall>x. f (target_file k) = Some x \<longrightarrow> (\<exists>c. x = File c))"

lemma slot_files_apart:
  assumes "j \<in> {1, 2, 3}" "k \<in> {1, 2, 3::nat}" "j \<noteq> k"
  shows "{target_file j, rollback_file j, restore_temp_file j, backup_temp_file j} \<inter>
    (managed k \<union> range (backup_name ''recovered-slot'' k)) = {}"
  using assms by (auto simp: managed_def file_names decimal_digit)

definition slots_recovered :: "(string \<Rightarrow> node option) \<Rightarrow> (string \<Rightarrow> node option) \<Rightarrow> nat set \<Rightarrow> bool \<Rightarrow> bool" where
  "slots_recovered f g ks ok \<longleftrightarrow>
     (\<forall>k \<in> {1, 2, 3}. current g k = current f k) \<and>
     (ok \<longrightarrow> (\<forall>k \<in> {1, 2, 3}. k \<in> ks \<or> settled f k \<longrightarrow> settled g k)) \<and>
     (\<forall>x. x \<notin> (\<Union>k \<in> ks. managed k \<union> range (backup_name ''recovered-slot'' k)) \<longrightarrow> g x = f x)"

context storage_device begin

lemma backup_tail_wp:
  assumes k: "1 \<le> k" "k \<le> 3"
  shows "wp (do { ensured \<leftarrow> manager_storage_ensure_backup_root io;
          if failed ensured then ret (ensured, None)
          else do { (status, source_kind, len) \<leftarrow> manager_storage_stat io (target_file k);
                   if status \<noteq> 0 \<or> source_kind \<noteq> MANAGER_STORAGE_NODE_FILE
                   then ret (MANAGER_STORAGE_INVALID, None)
                   else if len > MANAGER_STORAGE_MAX_SAVE_BYTES
                   then ret (MANAGER_STORAGE_TOO_LARGE, None)
                   else do {
                     (found, destination, index) \<leftarrow>
                       manager_storage_find_free_backup io ''slot'' k;
                     if found \<noteq> MANAGER_STORAGE_OK then ret (found, None)
                     else do {
                       (result, digest, len) \<leftarrow> manager_storage_copy_verified io (target_file k) (backup_temp_file k);
                       if result \<noteq> MANAGER_STORAGE_OK then ret (result, None)
                       else do {
                         renamed \<leftarrow> rename_path io (backup_temp_file k) destination;
                         if renamed < 0
                         then do { _ \<leftarrow> remove_file io (backup_temp_file k);
                                   ret (MANAGER_STORAGE_IO_ERROR, None) }
                         else do {
                           synced \<leftarrow> sync_device io;
                           ret (if w ensured synced
                                then MANAGER_STORAGE_SYNC_WARNING else MANAGER_STORAGE_OK,
                                Some \<lparr>backup_slot = k, origin = MANAGER_SAVE_BACKUP_LOCAL,
                                      backup_size = len, label = l index,
                                      path = destination\<rparr>) } } } } } })
   (\<lambda>(r, b) t.
    (\<forall>x. x \<notin> {backup_temp_file k, MANAGER_STORAGE_BACKUP_ROOT} \<union>
         range (backup_name ''slot'' k) \<longrightarrow> files t x = files s x) \<and>
    (\<forall>i x. files s (backup_name ''slot'' k i) = Some x \<longrightarrow> files t (backup_name ''slot'' k i) = Some x) \<and>
    (\<not> failed r \<longrightarrow> (\<exists>a. b = Some a \<and> manager_storage_backup_allowed a \<and> backup_slot a = k \<and>
       files s (path a) = None \<and> copied (files s) (files t) (target_file k) (path a) (backup_size a)))) s"
proof -
  have d: "distinct [target_file k, backup_temp_file k, backup_name ''slot'' k i, MANAGER_STORAGE_BACKUP_ROOT]" for i
    using managed_distinct [of k k i] by simp
  have n: "target_file k \<noteq> backup_temp_file k" "target_file k \<noteq> MANAGER_STORAGE_BACKUP_ROOT"
     "backup_temp_file k \<noteq> MANAGER_STORAGE_BACKUP_ROOT" "MANAGER_STORAGE_BACKUP_ROOT \<noteq> backup_temp_file k"
    using d by auto
  have e: "backup_name ''slot'' k i \<noteq> target_file k" "backup_name ''slot'' k i \<noteq> backup_temp_file k"
     "backup_name ''slot'' k i \<noteq> MANAGER_STORAGE_BACKUP_ROOT" for i
    using d [of i] by auto
  note a = local_allowed [OF k]
  define T S where "T = target_file k" "S = backup_temp_file k"
  note [simp] = n [folded T_S_def] e [folded T_S_def] e [folded T_S_def, THEN not_sym]
  show ?thesis
    unfolding T_S_def [symmetric]
    apply (intro wp_intros)
    using k a apply (simp_all add: manager_storage_backup_allowed_def)
    apply (auto intro!: copiedI)
    done
qed

lemma backup_slot_wp:
  "wp (manager_storage_backup_slot io k) (\<lambda>(r, b) t.
    (\<forall>x. x \<notin> managed k \<union> range (backup_name ''recovered-slot'' k) \<union>
         range (backup_name ''slot'' k) \<longrightarrow> files t x = files s x) \<and>
    (\<forall>i x. files s (backup_name ''slot'' k i) = Some x \<longrightarrow> files t (backup_name ''slot'' k i) = Some x) \<and>
    current (files t) k = current (files s) k \<and>
    (\<not> failed r \<longrightarrow> (\<exists>a c d. b = Some a \<and> manager_storage_backup_allowed a \<and> backup_slot a = k \<and>
       backup_size a = length c \<and> files s (path a) = None \<and>
       current (files s) k = Some (File c) \<and> files t (path a) = Some (File d) \<and>
       sha256 d = sha256 c \<and> length d = length c))) s"
proof (cases "k < 1 \<or> k > 3")
  case True
  then show ?thesis by (auto simp: manager_storage_backup_slot_def intro!: wp_intros)
next
  case False
  then have k: "1 \<le> k" "k \<le> 3" by auto
  have n: "x \<in> managed k \<Longrightarrow> x \<noteq> backup_name ''slot'' k i \<and> backup_name ''slot'' k i \<noteq> x" for x i
    by (auto simp: managed_def file_names)
  have q: "backup_name ''slot'' k i \<noteq> backup_name ''recovered-slot'' k j" for i j
    by (simp add: backup_name_def)
  have same: "\<forall>x. x \<notin> {backup_temp_file k, MANAGER_STORAGE_BACKUP_ROOT} \<union>
      range (backup_name ''slot'' k) \<longrightarrow> files t x = files u x \<Longrightarrow>
      files t (rollback_file k) = files u (rollback_file k) \<and>
      files t (target_file k) = files u (target_file k)" for t u
    using managed_distinct [of k k] n by (simp add: managed_def) (metis rangeE)
  show ?thesis
    unfolding manager_storage_backup_slot_def slot_paths [OF k] option.case prod.case
    apply (simp only: False if_False)
    apply (rule wp_bind, rule wp_mono, rule recover_slot_wp [OF k], rule wp_if)
     apply (rule wp_ret, simp add: kept_def managed_def file_names)
    apply (rule wp_mono, rule backup_tail_wp [OF k])
    subgoal for rec u r t
      using same [of t u] n q allowed_path_not_managed [of "the (snd r)"]
      by (cases r) (auto simp: kept_def current_none copied_def managed_def, metis+)
    done
qed


lemma recover_slots_wp:
  "set ks \<subseteq> {1, 2, 3} \<Longrightarrow>
   wp (recover_slots io ks w) (\<lambda>r t. slots_recovered (files s) (files t) (set ks) (\<not> failed r)) s"
proof (induction ks arbitrary: w s)
  case Nil
  then show ?case by (auto intro!: wp_ret simp: slots_recovered_def)
next
  case (Cons k ks)
  then have k: "1 \<le> k" "k \<le> 3" "k \<in> {1, 2, 3}" by auto
  have other: "current (files u) j = current (files s) j \<and> (settled (files s) j \<longrightarrow> settled (files u) j)"
    if f: "\<forall>x. x \<notin> managed k \<union> range (backup_name ''recovered-slot'' k) \<longrightarrow> files u x = files s x"
      and j: "j \<in> {1, 2, 3}" "j \<noteq> k" for u j
  proof -
    have "x \<in> {target_file j, rollback_file j, restore_temp_file j, backup_temp_file j} \<Longrightarrow>
        x \<notin> managed k \<union> range (backup_name ''recovered-slot'' k)" for x
      using slot_files_apart [OF j(1) k(3) j(2)] by blast
    then have "x \<in> {target_file j, rollback_file j, restore_temp_file j, backup_temp_file j} \<Longrightarrow>
        files u x = files s x" for x using f by blast
    then show ?thesis by (auto simp: current_def settled_def split: option.split)
  qed
  have one: "wp (manager_storage_recover_slot io k)
      (\<lambda>r u. slots_recovered (files s) (files u) {k} (\<not> failed r)) s"
    apply (rule wp_mono, rule recover_slot_wp [OF k(1,2)])
    subgoal premises p for r t
    proof -
      have "\<not> failed r \<Longrightarrow> settled (files t) k" using p by (simp add: settled_def)
      then show ?thesis using other [of t] p unfolding slots_recovered_def by blast
    qed
    done
  have trans: "slots_recovered f g {k} True \<Longrightarrow> slots_recovered g h (set ks) ok \<Longrightarrow>
      slots_recovered f h (set (k # ks)) ok" for f g h ok
    unfolding slots_recovered_def by auto
  show ?case
    unfolding recover_slots.simps
  proof (rule wp_bind, rule wp_mono, rule one, rule wp_if, rule wp_ret)
    fix r u assume u: "slots_recovered (files s) (files u) {k} (\<not> failed r)"
    show "slots_recovered (files s) (files u) (set (k # ks)) (\<not> failed r)" if "failed r"
      using u that by (auto simp: slots_recovered_def)
    show "wp (recover_slots io ks (w \<or> r = MANAGER_STORAGE_SYNC_WARNING))
        (\<lambda>r t. slots_recovered (files s) (files t) (set (k # ks)) (\<not> failed r)) u" if "\<not> failed r"
      by (rule wp_mono, rule Cons.IH) (use Cons.prems u that trans in auto)
  qed
qed

lemma recover_wp:
  "wp (manager_storage_recover io)
     (\<lambda>r t. slots_recovered (files s) (files t) {1, 2, 3} (\<not> failed r)) s"
  using recover_slots_wp [of "[1, 2, 3]" False s] by (simp add: manager_storage_recover_def)

end

end
