(* ===== verification/Manager_Storage_Listing.thy ===== *)
theory Manager_Storage_Listing imports Manager_Storage_Safe "HOL-Library.Multiset" begin

text \<open>
  The listings of the manager: the insertion sorts order without losing an entry, switching a mod
  moves only its marker, and every backup a listing offers is one a restore accepts.
\<close>

section \<open>Sorting\<close>

lemma mset_shift_in: "mset (shift_in gt v xs) = add_mset v (mset xs)"
  by (induction xs) auto

text \<open>
  A comparison to sort by.  The prefix is kept from its right end, so it descends.
\<close>

definition comparison :: "('a \<Rightarrow> 'a \<Rightarrow> bool) \<Rightarrow> bool" where
  "comparison gt \<longleftrightarrow>
     (\<forall>a b c. \<not> gt a b \<longrightarrow> \<not> gt b c \<longrightarrow> \<not> gt a c) \<and> (\<forall>a b. gt a b \<longrightarrow> \<not> gt b a)"

lemma set_shift_in [simp]: "set (shift_in gt v xs) = insert v (set xs)"
  by (induction xs) auto

lemma sorted_shift_in:
  assumes "comparison gt" "sorted_wrt (\<lambda>a b. \<not> gt b a) xs"
  shows "sorted_wrt (\<lambda>a b. \<not> gt b a) (shift_in gt v xs)"
  using assms(2)
proof (induction xs)
  case (Cons e es)
  show ?case
  proof (cases "gt e v")
    case True
    then have "\<not> gt v e" using assms(1) unfolding comparison_def by blast
    then show ?thesis using True Cons by simp
  next
    case False
    have "\<forall>y \<in> set es. \<not> gt y e" using Cons.prems by simp
    then have "\<forall>y \<in> set es. \<not> gt y v" using assms(1) False unfolding comparison_def by blast
    then show ?thesis using False Cons.prems by simp
  qed
qed simp

lemma insertion_sort_rev:
  assumes "comparison gt" "sorted_wrt (\<lambda>a b. \<not> gt b a) acc"
  shows "mset (foldl (\<lambda>done_rev value. shift_in gt value done_rev) acc xs) = mset acc + mset xs \<and>
    sorted_wrt (\<lambda>a b. \<not> gt b a) (foldl (\<lambda>done_rev value. shift_in gt value done_rev) acc xs)"
  using assms(2)
proof (induction xs arbitrary: acc)
  case (Cons v xs)
  from Cons.IH [OF sorted_shift_in [OF assms(1) Cons.prems, where v = v]] show ?case
    by (simp add: mset_shift_in)
qed simp

lemma insertion_sort:
  assumes "comparison gt"
  shows "mset (insertion_sort gt xs) = mset xs \<and> sorted_wrt (\<lambda>a b. \<not> gt a b) (insertion_sort gt xs)"
  using insertion_sort_rev [OF assms, where acc = "[]" and xs = xs]
  by (simp add: insertion_sort_def sorted_wrt_rev)

lemma strcmp_eq: "strcmp a b = 0 \<longleftrightarrow> a = b"
  by (induction a b rule: strcmp.induct) auto

lemma strcmp_swap: "strcmp b a = - strcmp a b"
proof (induction a b rule: strcmp.induct)
  case (4 a as b bs)
  have "a \<noteq> b \<Longrightarrow> (of_char a :: nat) \<noteq> of_char b" by simp
  with 4 show ?case by (cases "a = b") simp_all
qed simp_all

lemma strcmp_trans: "strcmp a b \<le> 0 \<Longrightarrow> strcmp b c \<le> 0 \<Longrightarrow> strcmp a c \<le> 0"
proof (induction a arbitrary: b c)
  case Nil
  then show ?case by (cases c) simp_all
next
  case (Cons x xs)
  then obtain y ys where [simp]: "b = y # ys" by (cases b) simp_all
  then obtain z zs where [simp]: "c = z # zs" using Cons.prems by (cases c) simp_all
  show ?case using Cons.prems Cons.IH [of ys zs] by (auto split: if_splits)
qed

lemma comparison_strcmp:
  "comparison (\<lambda>a b. strcmp (f a) (f b) > 0)" "comparison (\<lambda>a b. strcmp (f a) (f b) < 0)"
proof -
  have swap: "strcmp y x > 0 \<longleftrightarrow> strcmp x y < 0" for x y
    by (subst strcmp_swap) linarith
  show "comparison (\<lambda>a b. strcmp (f a) (f b) > 0)"
    unfolding comparison_def using strcmp_trans swap by (metis not_less less_asym)
  show "comparison (\<lambda>a b. strcmp (f a) (f b) < 0)"
    unfolding comparison_def using strcmp_trans swap by (metis not_less less_asym)
qed

lemma sort_mods:
  "mset (manager_storage_sort_mods xs) = mset xs \<and>
   sorted_wrt (\<lambda>a b. strcmp (mod_name a) (mod_name b) \<le> 0) (manager_storage_sort_mods xs)"
  using insertion_sort [OF comparison_strcmp(1), where xs = xs and f1 = mod_name]
  by (simp add: manager_storage_sort_mods_def not_less)

lemma sort_backups:
  "mset (manager_storage_sort_backups xs) = mset xs \<and>
   sorted_wrt (\<lambda>a b. strcmp (label a) (label b) \<ge> 0) (manager_storage_sort_backups xs)"
  using insertion_sort [OF comparison_strcmp(2), where xs = xs and f1 = label]
  by (simp add: manager_storage_sort_backups_def not_less)

section \<open>Mods\<close>

definition mod_marker :: "string \<Rightarrow> string" where
  "mod_marker name = MANAGER_STORAGE_MOD_ROOT @ ''/'' @ name @ ''/disable.it''"

definition mod_stash :: "string \<Rightarrow> string" where
  "mod_stash name = MANAGER_STORAGE_MOD_ROOT @ ''/'' @ name @ ''/.isaac-manager-disable-marker''"

lemma marker_stash: "mod_marker name \<noteq> mod_stash name"
  by (simp add: mod_marker_def mod_stash_def)

lemma joined: "manager_storage_join r n e = Some p \<Longrightarrow> p = r @ ''/'' @ n @ e"
  by (auto simp: manager_storage_join_def manager_storage_format_def split: if_splits)

context storage_device begin

lemma create_wp:
  "(\<And>h t. h < 0 \<Longrightarrow> files t = files s \<Longrightarrow> Q h t) \<Longrightarrow>
   (\<And>h t. 0 \<le> h \<Longrightarrow> files s p = None \<Longrightarrow> files t = (files s)(p := Some (File [])) \<Longrightarrow> Q h t) \<Longrightarrow>
   wp (open_write_exclusive io p) Q s"
  by (rule wpI) (meson not_less open_write_law)

lemma set_mod_enabled_wp:
  "wp (manager_storage_set_mod_enabled io name enabled) (\<lambda>r t.
     (\<forall>x. x \<notin> {mod_marker name, mod_stash name} \<longrightarrow> files t x = files s x) \<and>
     (\<not> failed r \<longrightarrow> (if enabled then files t (mod_marker name) = None
        else \<exists>c. files t (mod_marker name) = Some (File c))) \<and>
     (\<forall>x. files s (mod_marker name) = Some x \<or> files s (mod_stash name) = Some x \<longrightarrow>
        files t (mod_marker name) = Some x \<or> files t (mod_stash name) = Some x)) s"
proof (cases "manager_storage_join MANAGER_STORAGE_MOD_ROOT name [] = None \<or>
    manager_storage_join MANAGER_STORAGE_MOD_ROOT name ''/disable.it'' = None \<or>
    manager_storage_join MANAGER_STORAGE_MOD_ROOT name ''/.isaac-manager-disable-marker'' = None")
  case True
  then have "manager_storage_set_mod_enabled io name enabled = ret MANAGER_STORAGE_INVALID"
    by (auto simp: manager_storage_set_mod_enabled_def split: option.split)
  then show ?thesis by (auto intro!: wp_ret)
next
  case False
  then obtain p m q where o: "manager_storage_join MANAGER_STORAGE_MOD_ROOT name [] = Some p"
    "manager_storage_join MANAGER_STORAGE_MOD_ROOT name ''/disable.it'' = Some m"
    "manager_storage_join MANAGER_STORAGE_MOD_ROOT name ''/.isaac-manager-disable-marker'' = Some q"
    by auto
  have "m = mod_marker name" "q = mod_stash name"
    unfolding mod_marker_def mod_stash_def by (rule joined [OF o(2)], rule joined [OF o(3)])
  note j = o [unfolded this]
  show ?thesis
    unfolding manager_storage_set_mod_enabled_def j option.case prod.case
    by (intro wp_intros create_wp)
      (use marker_stash [of name] marker_stash [of name, symmetric] in \<open>simp_all add: node_kind_file\<close>)
qed

end

section \<open>Listing backups\<close>

lemma wp_any: "(\<And>x t. Q x t) \<Longrightarrow> wp m Q s"
  by (simp add: wp_def split: prod.split)

text \<open>What a listing holds at any point: no more than fits, and only what a restore accepts.\<close>

definition offered :: "nat \<Rightarrow> manager_save_backup list \<Rightarrow> bool" where
  "offered capacity es \<longleftrightarrow> length es \<le> capacity \<and> (\<forall>e \<in> set es. manager_storage_backup_allowed e)"

lemma offered_add:
  "manager_storage_add_backup capacity es n e = (r, es', n') \<Longrightarrow> offered capacity es \<Longrightarrow>
   manager_storage_backup_allowed e \<Longrightarrow> offered capacity es'"
  by (auto simp: offered_def manager_storage_add_backup_def split: if_splits)

lemma dated_range: "manager_storage_parse_dated_name n = Some k \<Longrightarrow> 1 \<le> k \<and> k \<le> 3"
  by (auto simp: manager_storage_parse_dated_name_def Let_def split: if_splits)

lemma local_range: "manager_storage_parse_local_name n = Some (k, i) \<Longrightarrow> 1 \<le> k \<and> k \<le> 3"
  by (auto simp: manager_storage_parse_local_name_def Let_def split: if_splits)

definition flat_root :: "manager_save_backup_origin \<Rightarrow> string \<Rightarrow> bool" where
  "flat_root orig root \<longleftrightarrow>
     orig = MANAGER_SAVE_BACKUP_DATED \<and> root = MANAGER_STORAGE_SAVE_ROOT \<or>
     orig = MANAGER_SAVE_BACKUP_LOCAL \<and> root = MANAGER_STORAGE_BACKUP_ROOT"

lemma flat_root_simps [simp]:
  "flat_root MANAGER_SAVE_BACKUP_DATED MANAGER_STORAGE_SAVE_ROOT"
  "flat_root MANAGER_SAVE_BACKUP_LOCAL MANAGER_STORAGE_BACKUP_ROOT"
  by (simp_all add: flat_root_def)

lemma flat_allowed:
  assumes "flat_slot orig name = Some k" "n \<le> MANAGER_STORAGE_MAX_SAVE_BYTES"
    and "flat_root orig root"
    and "manager_storage_join root name [] = Some p"
  shows "manager_storage_backup_allowed
    \<lparr>backup_slot = k, origin = orig, backup_size = n, label = l, path = p\<rparr>"
  using assms joined [OF assms(4)] dated_range [of name] local_range [of name]
  by (auto simp: flat_root_def flat_slot_def manager_storage_backup_allowed_def
      manager_storage_dated_path_allowed_def manager_storage_local_path_allowed_def)

lemma safe_no_slash: "manager_storage_safe_segment name \<Longrightarrow> \<forall>c \<in> set name. c \<noteq> CHR ''/''"
  by (auto simp: manager_storage_safe_segment_def unsafe_char_def list_ex_iff)

lemma sync_allowed:
  assumes "manager_storage_safe_segment name" "1 \<le> k" "k \<le> 3" "n \<le> MANAGER_STORAGE_MAX_SAVE_BYTES"
    and "in_path (MANAGER_STORAGE_SYNC_BACKUP_ROOT @ ''/'' @ name @ sync_tail k) = Some p"
  shows "manager_storage_backup_allowed
    \<lparr>backup_slot = k, origin = MANAGER_SAVE_BACKUP_SYNC, backup_size = n, label = l, path = p\<rparr>"
proof -
  have p: "p = (MANAGER_STORAGE_SYNC_BACKUP_ROOT @ ''/'') @ name @ sync_tail k"
    using assms(5) by (simp add: manager_storage_format_def split: if_splits)
  obtain u where u: "sync_tail k = CHR ''/'' # u" by (simp add: sync_tail_def)
  have "takeWhile (\<lambda>c. c \<noteq> CHR ''/'') (name @ sync_tail k) = name"
    "dropWhile (\<lambda>c. c \<noteq> CHR ''/'') (name @ sync_tail k) = sync_tail k"
    using safe_no_slash [OF assms(1)] by (simp_all add: u takeWhile_tail dropWhile_append3)
  then show ?thesis
    using assms(1-4) u unfolding p manager_storage_backup_allowed_def
    by (simp add: manager_storage_sync_path_allowed_def manager_storage_safe_segment_def
        del: append_assoc dropWhile_eq_Nil_conv)
qed

text \<open>
  What a device promises of directories: a stream opened on one delivers its entries one after the
  other and then its end; any call may fail.  Looking at a path changes no directory, and a path
  that is not there has no entries.
\<close>

locale storage_listing =
  fixes io :: "'s manager_storage_io"
    and listed :: "'s \<Rightarrow> string \<Rightarrow> manager_storage_dir_entry list"
    and stream :: "'s \<Rightarrow> int \<Rightarrow> manager_storage_dir_entry list"
  assumes look_law: "run_state (stat_path io p) s = ((r, k, n), t) \<Longrightarrow>
      listed t = listed s \<and> stream t = stream s \<and> (r = 1 \<longrightarrow> listed s p = [])"
    and open_directory_law: "run_state (open_directory io p) s = (h, t) \<Longrightarrow>
      listed t = listed s \<and> (0 \<le> h \<longrightarrow> stream t h = listed s p)"
    and read_directory_law: "run_state (read_directory io h) s = ((r, e), t) \<Longrightarrow>
      listed t = listed s \<and> (0 < r \<longrightarrow> stream s h = e # stream t h) \<and> (r = 0 \<longrightarrow> stream s h = [])"
    and close_directory_law: "run_state (close_directory io h) s = (r, t) \<Longrightarrow> listed t = listed s"

text \<open>The backups that the entries of a flat directory stand for are among those found.\<close>

definition flat_found :: "manager_save_backup_origin \<Rightarrow> string \<Rightarrow>
    manager_storage_dir_entry list \<Rightarrow> manager_save_backup list \<Rightarrow> bool" where
  "flat_found orig root entries es \<longleftrightarrow>
     (\<forall>e \<in> set entries. \<forall>k. entry_kind e = MANAGER_STORAGE_NODE_FILE \<longrightarrow>
        manager_storage_safe_segment (entry_name e) \<longrightarrow> flat_slot orig (entry_name e) = Some k \<longrightarrow>
        (\<exists>b \<in> set es. origin b = orig \<and> backup_slot b = k \<and> backup_size b = entry_size e \<and>
           path b = root @ ''/'' @ entry_name e))"

lemma flat_found_Nil [simp]: "flat_found orig root [] es"
  by (simp add: flat_found_def)

lemma flat_found_Cons: "flat_found orig root [e] es \<Longrightarrow> flat_found orig root entries es \<Longrightarrow>
    flat_found orig root (e # entries) es"
  by (auto simp: flat_found_def)

lemma flat_found_mono: "flat_found orig root entries es \<Longrightarrow> set es \<subseteq> set es' \<Longrightarrow>
    flat_found orig root entries es'"
  unfolding flat_found_def by (meson subsetD)

text \<open>
  A scan that ends: what it found is offered, nothing found or skipped before is forgotten, and if
  it went well and skipped nothing then the goal \<open>P\<close> of the scan is met.
\<close>

definition scans :: "('s \<Rightarrow> string \<Rightarrow> manager_storage_dir_entry list) \<Rightarrow> nat \<Rightarrow>
    manager_save_backup list \<Rightarrow> nat \<Rightarrow> 's \<Rightarrow> (manager_save_backup list \<Rightarrow> bool) \<Rightarrow>
    (manager_save_backup scan \<times> 's) option \<Rightarrow> bool" where
  "scans listed capacity es n s P m \<longleftrightarrow> (\<exists>r es' n' t. m = Some ((r, es', n'), t) \<and> listed t = listed s \<and>
     offered capacity es' \<and> set es \<subseteq> set es' \<and> n \<le> n' \<and> (r = MANAGER_STORAGE_OK \<longrightarrow> n' = n \<longrightarrow> P es'))"

lemma scansE:
  assumes "scans listed capacity es n s P m"
  obtains r es' n' t where "m = Some ((r, es', n'), t)" "listed t = listed s" "offered capacity es'"
    "set es \<subseteq> set es'" "n \<le> n'" "r = MANAGER_STORAGE_OK \<Longrightarrow> n' = n \<Longrightarrow> P es'"
  using assms unfolding scans_def by blast

lemma scansI [intro]:
  "listed t = listed s \<Longrightarrow> offered capacity es' \<Longrightarrow> set es \<subseteq> set es' \<Longrightarrow> n \<le> n' \<Longrightarrow>
   (r = MANAGER_STORAGE_OK \<Longrightarrow> n' = n \<Longrightarrow> P es') \<Longrightarrow>
   scans listed capacity es n s P (Some ((r, es', n'), t))"
  unfolding scans_def by blast

text \<open>The rest of a scan, run on what its first part left.\<close>

lemma scans_from:
  assumes "scans listed capacity es1 n1 s1 Q m" "listed s1 = listed s" "set es \<subseteq> set es1" "n \<le> n1"
    and "\<And>es'. n1 = n \<Longrightarrow> set es1 \<subseteq> set es' \<Longrightarrow> Q es' \<Longrightarrow> P es'"
  shows "scans listed capacity es n s P m"
  using assms(1)
proof (rule scansE)
  fix r es' n' t
  assume "m = Some ((r, es', n'), t)" "listed t = listed s1" "offered capacity es'"
    "set es1 \<subseteq> set es'" "n1 \<le> n'" "r = MANAGER_STORAGE_OK \<Longrightarrow> n' = n1 \<Longrightarrow> Q es'"
  then show ?thesis using assms(2-5) by (auto intro!: scansI)
qed

context storage_listing begin

lemma look: "run_state (manager_storage_stat io p) s = ((r, k, n), t) \<Longrightarrow>
    listed t = listed s \<and> stream t = stream s \<and> (r = 1 \<longrightarrow> listed s p = [])"
  using look_law [of p s]
  by (cases "run_state (stat_path io p) s")
    (auto simp: manager_storage_stat_def State_Monad.bind_def split: prod.splits if_splits)

lemma flat_loop_scans:
  assumes "flat_root orig root"
  shows "offered capacity es \<Longrightarrow> scans listed capacity es n s (flat_found orig root (stream s directory))
    (flat_loop io directory root orig capacity es n s)"
proof (induction s arbitrary: es n
    rule: measure_induct_rule [where f = "\<lambda>s. length (stream s directory)"])
  case (less s)
  let ?goal = "scans listed capacity es n s (flat_found orig root (stream s directory))"
  obtain r e u where run: "run_state (read_directory io directory) s = ((r, e), u)" by (metis surj_pair)
  note u = read_directory_law [OF run]
  show ?case
  proof (cases "r \<le> 0")
    case True
    then show ?thesis using u less.prems by (subst flat_loop.simps) (auto simp: run intro!: scansI)
  next
    case False
    then have s: "stream s directory = e # stream u directory" using u by simp
    have rest: "?goal (flat_loop io directory root orig capacity es1 n1 u)"
      if "offered capacity es1" "set es \<subseteq> set es1" "n \<le> n1"
        "n1 = n \<longrightarrow> flat_found orig root [e] es1" for es1 n1
    proof (rule scans_from)
      show "scans listed capacity es1 n1 u (flat_found orig root (stream u directory))
          (flat_loop io directory root orig capacity es1 n1 u)"
        using less.IH [of u] that(1) by (simp add: s)
    next
      fix es'
      assume "n1 = n" "set es1 \<subseteq> set es'" "flat_found orig root (stream u directory) es'"
      moreover from this have "flat_found orig root [e] es'" using that(4) flat_found_mono by blast
      ultimately show "flat_found orig root (stream s directory) es'" by (simp add: s flat_found_Cons)
    qed (use that u in simp_all)
    show ?thesis
    proof (cases "entry_kind e \<noteq> MANAGER_STORAGE_NODE_FILE \<or>
        \<not> manager_storage_safe_segment (entry_name e) \<or> flat_slot orig (entry_name e) = None")
      case True
      then have "flat_found orig root [e] es" by (auto simp: flat_found_def)
      with True False rest [of es n] less.prems show ?thesis
        by (subst flat_loop.simps) (auto simp: run split: option.split)
    next
      case wanted: False
      then obtain k where k: "flat_slot orig (entry_name e) = Some k" by auto
      show ?thesis
      proof (cases "if entry_size e > MANAGER_STORAGE_MAX_SAVE_BYTES then None
          else manager_storage_join root (entry_name e) []")
        case None
        then show ?thesis using wanted k \<open>\<not> r \<le> 0\<close> rest [of es "n + 1"] less.prems
          by (subst flat_loop.simps) (simp add: run)
      next
        case (Some p)
        then have p: "manager_storage_join root (entry_name e) [] = Some p"
          "entry_size e \<le> MANAGER_STORAGE_MAX_SAVE_BYTES" by (auto split: if_splits)
        let ?l = "(if orig = MANAGER_SAVE_BACKUP_DATED then ''DATED'' else ''LOCAL'') @
            '' S'' @ decimal k @ '' '' @ take 72 (entry_name e)"
        let ?b = "\<lparr>backup_slot = k, origin = orig, backup_size = entry_size e, label = ?l, path = p\<rparr>"
        obtain r' es1 n1 where add: "manager_storage_add_backup capacity es n ?b = (r', es1, n1)"
          by (metis surj_pair)
        have b: "manager_storage_backup_allowed ?b" by (rule flat_allowed [OF k p(2) assms p(1)])
        note o = offered_add [OF add less.prems b]
        have f: "set es \<subseteq> set es1" "n \<le> n1"
          "r' = MANAGER_STORAGE_OK \<Longrightarrow> n1 = n \<Longrightarrow> ?b \<in> set es1"
          using add by (auto simp: manager_storage_add_backup_def split: if_splits)
        have found: "r' = MANAGER_STORAGE_OK \<Longrightarrow> n1 = n \<Longrightarrow> flat_found orig root [e] es1"
          using f(3) k joined [OF p(1)] by (force simp: flat_found_def)
        have step: "flat_loop io directory root orig capacity es n s =
            (if r' \<noteq> MANAGER_STORAGE_OK then Some ((r', es1, n1), u)
             else flat_loop io directory root orig capacity es1 n1 u)"
          using wanted k \<open>\<not> r \<le> 0\<close> p add
          by (subst flat_loop.simps) (simp add: run not_less [symmetric])
        show ?thesis
        proof (cases "r' = MANAGER_STORAGE_OK")
          case True
          then show ?thesis unfolding step using rest [OF o f(1,2)] found by simp
        next
          case False
          then show ?thesis unfolding step using o f u by (auto intro!: scansI)
        qed
      qed
    qed
  qed
qed

lemma look_wp:
  "(\<And>x t. listed t = listed s \<Longrightarrow> stream t = stream s \<Longrightarrow> Q x t) \<Longrightarrow>
   wp (manager_storage_stat io p) Q s"
  by (rule wpI) (metis look surj_pair)

lemma sync_slots_grows:
  assumes "manager_storage_safe_segment name" "set slots \<subseteq> {1, 2, 3}" "offered capacity es"
  shows "wp (sync_slots io name slots capacity es n) (\<lambda>(_, es', n') t. listed t = listed s \<and>
    stream t = stream s \<and> offered capacity es' \<and> set es \<subseteq> set es' \<and> n \<le> n') s"
  using assms(2,3)
proof (induction slots arbitrary: es n s)
  case Nil
  then show ?case by (simp add: wp_def)
next
  case (Cons k slots)
  let ?Q = "\<lambda>(_, es', n') t. listed t = listed s \<and>
    stream t = stream s \<and> offered capacity es' \<and> set es \<subseteq> set es' \<and> n \<le> n'"
  have k: "1 \<le> k" "k \<le> 3" using Cons.prems(1) by auto
  have rest: "wp (sync_slots io name slots capacity es1 n1) ?Q u"
    if "offered capacity es1" "set es \<subseteq> set es1" "n \<le> n1" "listed u = listed s" "stream u = stream s"
    for es1 n1 u
    by (rule wp_mono, rule Cons.IH) (use Cons.prems that in auto)
  have added: "set es \<subseteq> set es1 \<and> n \<le> n1"
    if "manager_storage_add_backup capacity es n b = (r, es1, n1)" for b r es1 n1
    using that by (auto simp: manager_storage_add_backup_def split: if_splits)
  show ?case
    unfolding sync_slots.simps
    apply (rule wp_case_option)
     apply (rule rest; use Cons.prems in simp)
    apply (rule wp_bind, rule look_wp, intro wp_intros)
    using Cons.prems k assms(1)
    by (auto intro: offered_add [OF _ _ sync_allowed] intro!: wp_ret rest dest: added)
qed

lemma sync_loop_scans:
  "offered capacity es \<Longrightarrow>
   scans listed capacity es n s (\<lambda>_. True) (sync_loop io directory capacity es n s)"
proof (induction s arbitrary: es n
    rule: measure_induct_rule [where f = "\<lambda>s. length (stream s directory)"])
  case (less s)
  obtain r e u where run: "run_state (read_directory io directory) s = ((r, e), u)" by (metis surj_pair)
  note u = read_directory_law [OF run]
  show ?case
  proof (cases "r \<le> 0")
    case True
    then show ?thesis using u less.prems by (subst sync_loop.simps) (auto simp: run intro!: scansI)
  next
    case False
    then have s: "stream s directory = e # stream u directory" using u by simp
    have rest: "scans listed capacity es n s (\<lambda>_. True) (sync_loop io directory capacity es1 n1 v)"
      if "offered capacity es1" "set es \<subseteq> set es1" "n \<le> n1" "listed v = listed u" "stream v = stream u"
      for es1 n1 v
      by (rule scans_from, rule less.IH) (use that s u in auto)
    show ?thesis
    proof (cases "entry_kind e \<noteq> MANAGER_STORAGE_NODE_DIRECTORY \<or>
        \<not> manager_storage_safe_segment (entry_name e)")
      case True
      then show ?thesis using False rest [of es n u] less.prems
        by (subst sync_loop.simps) (auto simp: run)
    next
      case wanted: False
      obtain r' es1 n1 v where slots: "run_state (sync_slots io (entry_name e) [1, 2, 3] capacity es n) u =
          ((r', es1, n1), v)" by (metis surj_pair)
      have v: "listed v = listed u \<and> stream v = stream u \<and> offered capacity es1 \<and>
          set es \<subseteq> set es1 \<and> n \<le> n1"
        using wpD [OF sync_slots_grows slots] wanted less.prems by simp
      have "sync_loop io directory capacity es n s =
          (if r' \<noteq> MANAGER_STORAGE_OK then Some ((r', es1, n1), v)
           else sync_loop io directory capacity es1 n1 v)"
        using wanted False by (subst sync_loop.simps) (simp add: run slots del: sync_slots.simps One_nat_def)
      then show ?thesis using rest v u by (auto intro!: scansI)
    qed
  qed
qed

lemma scan_flat_scans:
  assumes "flat_root orig root" "offered capacity es"
  shows "scans listed capacity es n s (flat_found orig root (listed s root))
    (manager_storage_scan_flat_backups io root orig capacity es n s)"
proof -
  obtain r k m u where stat: "run_state (manager_storage_stat io root) s = ((r, k, m), u)"
    by (metis surj_pair)
  obtain h v where opened: "run_state (open_directory io root) u = (h, v)" by (metis surj_pair)
  note u = look [OF stat] and v = open_directory_law [OF opened]
  from flat_loop_scans [OF assms, of n v h] show ?thesis
  proof (rule scansE)
    fix r' es' n' w
    assume loop: "flat_loop io h root orig capacity es n v = Some ((r', es', n'), w)"
      "listed w = listed v" "offered capacity es'" "set es \<subseteq> set es'" "n \<le> n'"
      "r' = MANAGER_STORAGE_OK \<Longrightarrow> n' = n \<Longrightarrow> flat_found orig root (stream v h) es'"
    obtain c x where closed: "run_state (close_directory io h) w = (c, x)" by (metis surj_pair)
    note x = close_directory_law [OF closed]
    show ?thesis
      unfolding manager_storage_scan_flat_backups_def perform_def
      using u v x assms loop
      by (auto simp: stat opened closed worst_def intro!: scansI)
  qed
qed

lemma scan_sync_scans:
  assumes "offered capacity es"
  shows "scans listed capacity es n s (\<lambda>_. True)
    (manager_storage_scan_sync_backups io capacity es n s)"
proof -
  obtain r k m u where stat: "run_state (manager_storage_stat io MANAGER_STORAGE_SYNC_BACKUP_ROOT) s = ((r, k, m), u)"
    by (metis surj_pair)
  obtain h v where opened: "run_state (open_directory io MANAGER_STORAGE_SYNC_BACKUP_ROOT) u = (h, v)"
    by (metis surj_pair)
  note u = look [OF stat] and v = open_directory_law [OF opened]
  from sync_loop_scans [OF assms, of n v h] show ?thesis
  proof (rule scansE)
    fix r' es' n' w
    assume loop: "sync_loop io h capacity es n v = Some ((r', es', n'), w)"
      "listed w = listed v" "offered capacity es'" "set es \<subseteq> set es'" "n \<le> n'"
    obtain c x where closed: "run_state (close_directory io h) w = (c, x)" by (metis surj_pair)
    note x = close_directory_law [OF closed]
    show ?thesis
      unfolding manager_storage_scan_sync_backups_def perform_def
      using u v x assms loop
      by (auto simp: stat opened closed worst_def intro!: scansI)
  qed
qed

lemma next_scans:
  assumes "offered capacity es"
    and "\<And>es n. offered capacity es \<Longrightarrow> scans listed capacity es n s P (f es n s)"
  shows "scans listed capacity es n s (\<lambda>es'. r = MANAGER_STORAGE_OK \<longrightarrow> P es') (next_scan (r, es, n) f s)"
  using assms by (auto simp: next_scan_def scans_def)

lemma list_save_backups_ends:
  "\<exists>r es n t. manager_storage_list_save_backups io capacity s = Some ((r, es, n), t) \<and>
     offered capacity es \<and> sorted_wrt (\<lambda>a b. strcmp (label a) (label b) \<ge> 0) es \<and>
     (failed r \<longrightarrow> es = []) \<and>
     (r = MANAGER_STORAGE_OK \<longrightarrow> n = 0 \<longrightarrow>
        flat_found MANAGER_SAVE_BACKUP_DATED MANAGER_STORAGE_SAVE_ROOT
          (listed s MANAGER_STORAGE_SAVE_ROOT) es \<and>
        flat_found MANAGER_SAVE_BACKUP_LOCAL MANAGER_STORAGE_BACKUP_ROOT
          (listed s MANAGER_STORAGE_BACKUP_ROOT) es)"
proof -
  have empty: "offered capacity []" by (simp add: offered_def)
  have sorted: "set (manager_storage_sort_backups es) = set es"
    "offered capacity es \<Longrightarrow> offered capacity (manager_storage_sort_backups es)"
    "sorted_wrt (\<lambda>a b. strcmp (label a) (label b) \<ge> 0) (manager_storage_sort_backups es)" for es
    using sort_backups [of es] by (metis set_mset_mset, metis offered_def set_mset_mset size_mset, simp)
  obtain r1 es1 n1 u where 1: "manager_storage_scan_flat_backups io MANAGER_STORAGE_SAVE_ROOT
        MANAGER_SAVE_BACKUP_DATED capacity [] 0 s = Some ((r1, es1, n1), u)"
      "listed u = listed s" "offered capacity es1"
      "set [] \<subseteq> set es1" "0 \<le> n1" "r1 = MANAGER_STORAGE_OK \<Longrightarrow> n1 = 0 \<Longrightarrow> flat_found MANAGER_SAVE_BACKUP_DATED
         MANAGER_STORAGE_SAVE_ROOT (listed s MANAGER_STORAGE_SAVE_ROOT) es1"
    by (rule scansE [OF scan_flat_scans [OF flat_root_simps(1) empty, of 0 s]]) blast
  have two: "scans listed capacity es1 n1 u (\<lambda>es'. r1 = MANAGER_STORAGE_OK \<longrightarrow>
      flat_found MANAGER_SAVE_BACKUP_LOCAL MANAGER_STORAGE_BACKUP_ROOT
        (listed u MANAGER_STORAGE_BACKUP_ROOT) es')
      (next_scan (r1, es1, n1) (manager_storage_scan_flat_backups io
        MANAGER_STORAGE_BACKUP_ROOT MANAGER_SAVE_BACKUP_LOCAL capacity) u)"
    by (rule next_scans [OF 1(3)], rule scan_flat_scans, rule flat_root_simps(2))
  obtain r2 es2 n2 v where 2: "next_scan (r1, es1, n1) (manager_storage_scan_flat_backups io
        MANAGER_STORAGE_BACKUP_ROOT MANAGER_SAVE_BACKUP_LOCAL capacity) u = Some ((r2, es2, n2), v)"
      "listed v = listed u" "offered capacity es2" "set es1 \<subseteq> set es2" "n1 \<le> n2"
      "r2 = MANAGER_STORAGE_OK \<Longrightarrow> n2 = n1 \<Longrightarrow> r1 = MANAGER_STORAGE_OK \<longrightarrow> flat_found MANAGER_SAVE_BACKUP_LOCAL
         MANAGER_STORAGE_BACKUP_ROOT (listed u MANAGER_STORAGE_BACKUP_ROOT) es2"
    by (rule scansE [OF two]) blast
  have three: "scans listed capacity es2 n2 v (\<lambda>_. r2 = MANAGER_STORAGE_OK \<longrightarrow> True)
      (next_scan (r2, es2, n2) (manager_storage_scan_sync_backups io capacity) v)"
    by (rule next_scans [OF 2(3)], rule scan_sync_scans)
  obtain r3 es3 n3 w where 3: "next_scan (r2, es2, n2) (manager_storage_scan_sync_backups io
        capacity) v = Some ((r3, es3, n3), w)"
      "listed w = listed v" "offered capacity es3" "set es2 \<subseteq> set es3" "n2 \<le> n3"
    by (rule scansE [OF three]) blast
  have stop: "r2 = MANAGER_STORAGE_OK \<and> r1 = MANAGER_STORAGE_OK" if "r3 = MANAGER_STORAGE_OK"
    using that 2(1) 3(1) by (auto simp: next_scan_def split: if_splits)
  have "manager_storage_list_save_backups io capacity s =
      Some ((r3, manager_storage_sort_backups (if failed r3 then [] else es3), n3), w)"
    by (simp add: manager_storage_list_save_backups_def 1(1) 2(1) 3(1))
  moreover have "flat_found MANAGER_SAVE_BACKUP_DATED MANAGER_STORAGE_SAVE_ROOT
        (listed s MANAGER_STORAGE_SAVE_ROOT) es3 \<and> flat_found MANAGER_SAVE_BACKUP_LOCAL
        MANAGER_STORAGE_BACKUP_ROOT (listed s MANAGER_STORAGE_BACKUP_ROOT) es3"
    if "r3 = MANAGER_STORAGE_OK" "n3 = 0"
    using stop [OF that(1)] 1(2,6) 2(4,5,6) 3(4,5) that(2)
    by (metis flat_found_mono le_zero_eq subset_trans)
  ultimately show ?thesis
    using sorted empty 3(3)
    by (auto simp: manager_storage_sort_backups_def insertion_sort_def flat_found_def)
qed

text \<open>The listing of the mods ends as well.\<close>

definition mods_found :: "manager_storage_dir_entry list \<Rightarrow> manager_mod_entry list \<Rightarrow> bool" where
  "mods_found entries es \<longleftrightarrow>
     (\<forall>e \<in> set entries. entry_kind e = MANAGER_STORAGE_NODE_DIRECTORY \<longrightarrow>
        manager_storage_safe_segment (entry_name e) \<longrightarrow> entry_name e \<in> mod_name ` set es)"

lemma mods_loop_ends:
  "length es \<le> capacity \<Longrightarrow> \<exists>r es' n' t. mods_loop io directory capacity es n s = Some ((r, es', n'), t) \<and>
     length es' \<le> capacity \<and> set es \<subseteq> set es' \<and> n \<le> n' \<and>
     (r = MANAGER_STORAGE_OK \<longrightarrow> n' = n \<longrightarrow> mods_found (stream s directory) es')"
proof (induction s arbitrary: es n
    rule: measure_induct_rule [where f = "\<lambda>s. length (stream s directory)"])
  case (less s)
  let ?ends = "\<lambda>m. \<exists>r es' n' t. m = Some ((r, es', n'), t) \<and>
     length es' \<le> capacity \<and> set es \<subseteq> set es' \<and> n \<le> n' \<and>
     (r = MANAGER_STORAGE_OK \<longrightarrow> n' = n \<longrightarrow> mods_found (stream s directory) es')"
  obtain r e u where run: "run_state (read_directory io directory) s = ((r, e), u)" by (metis surj_pair)
  note u = read_directory_law [OF run]
  show ?case
  proof (cases "r \<le> 0")
    case True
    then show ?thesis using u less.prems
      by (subst mods_loop.simps) (auto simp: run mods_found_def)
  next
    case False
    then have s: "stream s directory = e # stream u directory" using u by simp
    have rest: "?ends (mods_loop io directory capacity es1 n1 v)"
      if "length es1 \<le> capacity" "set es \<subseteq> set es1" "n \<le> n1" "stream v = stream u"
        "n1 = n \<longrightarrow> mods_found [e] es1" for es1 n1 v
    proof -
      note h = that
      obtain r' es' n' t where "mods_loop io directory capacity es1 n1 v = Some ((r', es', n'), t)"
        "length es' \<le> capacity" "set es1 \<subseteq> set es'" "n1 \<le> n'"
        "r' = MANAGER_STORAGE_OK \<longrightarrow> n' = n1 \<longrightarrow> mods_found (stream u directory) es'"
        using less.IH [of v es1 n1] h(1,4) s by auto
      then show ?thesis using h(2,3,5) by (auto simp: s mods_found_def)
    qed
    show ?thesis
    proof (cases "entry_kind e \<noteq> MANAGER_STORAGE_NODE_DIRECTORY \<or>
        \<not> manager_storage_safe_segment (entry_name e)")
      case True
      then have "mods_found [e] es1" for es1 by (auto simp: mods_found_def)
      with True False rest [of es _ u] less.prems show ?thesis
        by (subst mods_loop.simps) (auto simp: run)
    next
      case wanted: False
      show ?thesis
      proof (cases "manager_storage_join MANAGER_STORAGE_MOD_ROOT (entry_name e) ''/disable.it''")
        case None
        then show ?thesis using wanted False rest [of es "n + 1" u] less.prems
          by (subst mods_loop.simps) (simp add: run)
      next
        case (Some m)
        obtain q k j v where stat: "run_state (manager_storage_stat io m) u = ((q, k, j), v)"
          by (metis surj_pair)
        note v = look [OF stat]
        let ?es = "es @ [\<lparr>mod_name = entry_name e, disabled = (q = 0)\<rparr>]"
        have skip: "?ends (mods_loop io directory capacity es (n + 1) v)"
          by (rule rest) (use v less.prems in simp_all)
        have add: "?ends (mods_loop io directory capacity ?es n v)" if "length es \<noteq> capacity"
          by (rule rest) (use v less.prems that in \<open>simp_all add: mods_found_def subset_insertI\<close>)
        have step: "mods_loop io directory capacity es n s =
            (if q < 0 then Some ((MANAGER_STORAGE_IO_ERROR, es, n), v)
             else if q = 0 \<and> k \<noteq> MANAGER_STORAGE_NODE_FILE \<or> length es = capacity
             then mods_loop io directory capacity es (n + 1) v
             else mods_loop io directory capacity ?es n v)"
          using wanted False Some by (subst mods_loop.simps) (simp add: run stat)
        show ?thesis
        proof (cases "q < 0")
          case True
          then show ?thesis unfolding step using less.prems by simp
        next
          case False
          then show ?thesis unfolding step using skip add by simp
        qed
      qed
    qed
  qed
qed

lemma list_mods_ends:
  "\<exists>r es n t. manager_storage_list_mods io capacity s = Some ((r, es, n), t) \<and> length es \<le> capacity \<and>
     sorted_wrt (\<lambda>a b. strcmp (mod_name a) (mod_name b) \<le> 0) es \<and> (failed r \<longrightarrow> es = []) \<and>
     (r = MANAGER_STORAGE_OK \<longrightarrow> n = 0 \<longrightarrow> mods_found (listed s MANAGER_STORAGE_MOD_ROOT) es)"
proof -
  obtain r k m u where stat: "run_state (manager_storage_stat io MANAGER_STORAGE_MOD_ROOT) s = ((r, k, m), u)"
    by (metis surj_pair)
  obtain h v where opened: "run_state (open_directory io MANAGER_STORAGE_MOD_ROOT) u = (h, v)"
    by (metis surj_pair)
  note u = look [OF stat] and v = open_directory_law [OF opened]
  obtain r' es n w where loop: "mods_loop io h capacity [] 0 v = Some ((r', es, n), w)"
    "length es \<le> capacity" "r' = MANAGER_STORAGE_OK \<longrightarrow> n = 0 \<longrightarrow> mods_found (stream v h) es"
    using mods_loop_ends [of "[]" capacity h 0 v] by auto
  obtain c x where closed: "run_state (close_directory io h) w = (c, x)" by (metis surj_pair)
  have sorted: "set (manager_storage_sort_mods xs) = set xs" "length (manager_storage_sort_mods xs) = length xs"
    "sorted_wrt (\<lambda>a b. strcmp (mod_name a) (mod_name b) \<le> 0) (manager_storage_sort_mods xs)" for xs
    using sort_mods [of xs] by (metis set_mset_mset, metis size_mset, simp)
  have [simp]: "manager_storage_sort_mods [] = []"
    by (simp add: manager_storage_sort_mods_def insertion_sort_def)
  show ?thesis
    unfolding manager_storage_list_mods_def perform_def
    using u v loop sorted
    by (auto simp: stat opened closed worst_def Let_def mods_found_def split: if_splits)
qed

end

end
