(* ===== verification/Manager_Storage_Vita.thy ===== *)
theory Manager_Storage_Vita imports Manager_Storage_Listing begin

text \<open>
  The manager's storage on the console (\<open>vita/manager_storage_vita.c\<close>): the device table over the
  file services of the system.  The services are not part of the repository, they are the
  parameter \<open>sce_io\<close>; \<open>sce_device\<close> states what they are documented to do, and the table is shown to
  keep the contract \<open>storage_device\<close> over them.  A device with a script of failures shows that the
  documented behaviour can be had.
\<close>

section \<open>The services and the table\<close>

record sce_stat =
  st_mode :: u32
  st_size :: int

record sce_dirent =
  d_name :: string
  d_stat :: sce_stat

datatype sce_flag = SCE_O_RDONLY | SCE_O_WRONLY | SCE_O_CREAT | SCE_O_EXCL

record 's sce_io =
  SCE_S_ISREG :: "u32 \<Rightarrow> bool"
  SCE_S_ISDIR :: "u32 \<Rightarrow> bool"
  sceIoGetstat :: "string \<Rightarrow> ('s, int \<times> sce_stat) state"
  sceIoOpen :: "string \<Rightarrow> sce_flag list \<Rightarrow> nat \<Rightarrow> ('s, int) state"
  sceIoRead :: "int \<Rightarrow> nat \<Rightarrow> ('s, int \<times> u8 list) state"
  sceIoWrite :: "int \<Rightarrow> u8 list \<Rightarrow> ('s, int) state"
  sceIoSyncByFd :: "int \<Rightarrow> nat \<Rightarrow> ('s, int) state"
  sceIoClose :: "int \<Rightarrow> ('s, int) state"
  sceIoRemove :: "string \<Rightarrow> ('s, int) state"
  sceIoRename :: "string \<Rightarrow> string \<Rightarrow> ('s, int) state"
  sceIoMkdir :: "string \<Rightarrow> nat \<Rightarrow> ('s, int) state"
  sceIoSync :: "string \<Rightarrow> nat \<Rightarrow> ('s, int) state"
  sceIoDopen :: "string \<Rightarrow> ('s, int) state"
  sceIoDread :: "int \<Rightarrow> ('s, int \<times> sce_dirent) state"
  sceIoDclose :: "int \<Rightarrow> ('s, int) state"

definition manager_storage_vita_kind :: "'s sce_io \<Rightarrow> u32 \<Rightarrow> manager_storage_node_kind" where
  "manager_storage_vita_kind sce m =
     (if SCE_S_ISREG sce m then MANAGER_STORAGE_NODE_FILE
      else if SCE_S_ISDIR sce m then MANAGER_STORAGE_NODE_DIRECTORY
      else MANAGER_STORAGE_NODE_OTHER)"

text \<open>The C result is the low 32 bits; \<open>0x80010002\<close> is \<open>ENOENT\<close>.  A failed \<open>stat\<close> sets no kind or size.\<close>

definition enoent :: "int \<Rightarrow> bool" where
  "enoent result \<longleftrightarrow> (word_of_int result :: u32) = 0x80010002"

definition manager_storage_vita_stat ::
    "'s sce_io \<Rightarrow> string \<Rightarrow> ('s, int \<times> manager_storage_node_kind \<times> nat) state" where
  "manager_storage_vita_stat sce p =
     do { (result, status) \<leftarrow> sceIoGetstat sce p;
          if enoent result then ret (1, MANAGER_STORAGE_NODE_OTHER, 0)
          else if result < 0 then ret (-1, MANAGER_STORAGE_NODE_OTHER, 0)
          else ret (0, manager_storage_vita_kind sce (st_mode status), nat (st_size status)) }"

definition manager_storage_vita_open_read :: "'s sce_io \<Rightarrow> string \<Rightarrow> ('s, int) state" where
  "manager_storage_vita_open_read sce p = sceIoOpen sce p [SCE_O_RDONLY] 0"

definition manager_storage_vita_open_write_exclusive :: "'s sce_io \<Rightarrow> string \<Rightarrow> ('s, int) state" where
  "manager_storage_vita_open_write_exclusive sce p =
     sceIoOpen sce p [SCE_O_WRONLY, SCE_O_CREAT, SCE_O_EXCL] 511"

definition manager_storage_vita_read :: "'s sce_io \<Rightarrow> int \<Rightarrow> nat \<Rightarrow> ('s, u8 list option) state" where
  "manager_storage_vita_read sce handle n =
     do { (amount, buffer) \<leftarrow> sceIoRead sce handle n;
          ret (if amount < 0 then None else Some (take (nat amount) buffer)) }"

definition manager_storage_vita_write :: "'s sce_io \<Rightarrow> int \<Rightarrow> u8 list \<Rightarrow> ('s, int) state" where
  "manager_storage_vita_write sce handle bytes = sceIoWrite sce handle bytes"

definition manager_storage_vita_sync_file :: "'s sce_io \<Rightarrow> int \<Rightarrow> ('s, int) state" where
  "manager_storage_vita_sync_file sce handle = sceIoSyncByFd sce handle 0"

definition manager_storage_vita_close_file :: "'s sce_io \<Rightarrow> int \<Rightarrow> ('s, int) state" where
  "manager_storage_vita_close_file sce handle = sceIoClose sce handle"

definition manager_storage_vita_remove_file :: "'s sce_io \<Rightarrow> string \<Rightarrow> ('s, int) state" where
  "manager_storage_vita_remove_file sce p = sceIoRemove sce p"

definition manager_storage_vita_rename :: "'s sce_io \<Rightarrow> string \<Rightarrow> string \<Rightarrow> ('s, int) state" where
  "manager_storage_vita_rename sce source destination = sceIoRename sce source destination"

definition manager_storage_vita_make_directory :: "'s sce_io \<Rightarrow> string \<Rightarrow> ('s, int) state" where
  "manager_storage_vita_make_directory sce p = sceIoMkdir sce p 511"

definition manager_storage_vita_sync_device :: "'s sce_io \<Rightarrow> ('s, int) state" where
  "manager_storage_vita_sync_device sce = sceIoSync sce ''ux0:'' 0"

definition manager_storage_vita_open_directory :: "'s sce_io \<Rightarrow> string \<Rightarrow> ('s, int) state" where
  "manager_storage_vita_open_directory sce p = sceIoDopen sce p"

text \<open>A name with no terminator, or too long for the entry, is reported as an unnamed other node.\<close>

definition manager_storage_vita_read_directory ::
    "'s sce_io \<Rightarrow> int \<Rightarrow> ('s, int \<times> manager_storage_dir_entry) state" where
  "manager_storage_vita_read_directory sce handle =
     do { (result, native) \<leftarrow> sceIoDread sce handle;
          let name = takeWhile (\<lambda>c. c \<noteq> CHR 0x00) (d_name native);
              other = \<lparr>entry_name = [], entry_kind = MANAGER_STORAGE_NODE_OTHER, entry_size = 0\<rparr>
          in if result \<le> 0 then ret (result, other)
             else if length name = length (d_name native) \<or>
                     length name \<ge> MANAGER_STORAGE_NAME_CAPACITY then ret (1, other)
             else ret (1, \<lparr>entry_name = name,
                           entry_kind = manager_storage_vita_kind sce (st_mode (d_stat native)),
                           entry_size = nat (st_size (d_stat native))\<rparr>) }"

definition manager_storage_vita_close_directory :: "'s sce_io \<Rightarrow> int \<Rightarrow> ('s, int) state" where
  "manager_storage_vita_close_directory sce handle = sceIoDclose sce handle"

definition manager_storage_vita_io :: "'s sce_io \<Rightarrow> 's manager_storage_io" where
  "manager_storage_vita_io sce =
     \<lparr>stat_path = manager_storage_vita_stat sce,
      open_read = manager_storage_vita_open_read sce,
      open_write_exclusive = manager_storage_vita_open_write_exclusive sce,
      read_data = manager_storage_vita_read sce,
      write_data = manager_storage_vita_write sce,
      sync_file = manager_storage_vita_sync_file sce,
      close_file = manager_storage_vita_close_file sce,
      remove_file = manager_storage_vita_remove_file sce,
      rename_path = manager_storage_vita_rename sce,
      make_directory = manager_storage_vita_make_directory sce,
      sync_device = manager_storage_vita_sync_device sce,
      open_directory = manager_storage_vita_open_directory sce,
      read_directory = manager_storage_vita_read_directory sce,
      close_directory = manager_storage_vita_close_directory sce\<rparr>"

section \<open>The contract of the services\<close>

locale sce_device =
  fixes sce :: "'s sce_io"
    and files :: "'s \<Rightarrow> string \<Rightarrow> node option"
    and reader :: "'s \<Rightarrow> int \<Rightarrow> (string \<times> nat) option"
    and writer :: "'s \<Rightarrow> int \<Rightarrow> string option"
  assumes getstat_law: "run_state (sceIoGetstat sce p) s = ((r, a), t) \<Longrightarrow> files t = files s \<and>
      (enoent r \<longrightarrow> files s p = None) \<and>
      (\<not> enoent r \<longrightarrow> 0 \<le> r \<longrightarrow>
         (\<exists>x. files s p = Some x \<and>
            SCE_S_ISREG sce (st_mode a) = (node_kind x = MANAGER_STORAGE_NODE_FILE) \<and>
            SCE_S_ISDIR sce (st_mode a) = (node_kind x = MANAGER_STORAGE_NODE_DIRECTORY)))"
    and open_law: "run_state (sceIoOpen sce p [SCE_O_RDONLY] m) s = (h, t) \<Longrightarrow> files t = files s \<and>
      (0 \<le> h \<longrightarrow> (\<exists>c. files s p = Some (File c)) \<and> reader t h = Some (p, 0))"
    and create_law: "run_state (sceIoOpen sce p [SCE_O_WRONLY, SCE_O_CREAT, SCE_O_EXCL] m) s = (h, t) \<Longrightarrow>
      (h < 0 \<longrightarrow> files t = files s) \<and>
      (0 \<le> h \<longrightarrow> files s p = None \<and> files t = (files s)(p := Some (File [])) \<and>
         writer t h = Some p \<and> (\<forall>g x. reader s g = Some x \<longrightarrow> reader t g = Some x))"
    and sce_read_law: "run_state (sceIoRead sce h m) s = ((r, b), t) \<Longrightarrow> files t = files s \<and>
      writer t = writer s \<and>
      (0 \<le> r \<longrightarrow> length b = nat r \<and> (\<forall>p n c. reader s h = Some (p, n) \<longrightarrow>
         files s p = Some (File c) \<longrightarrow>
         (\<exists>d. drop n c = b @ d) \<and> (b = [] \<longrightarrow> length c \<le> n) \<and> reader t h = Some (p, n + length b)))"
    and sce_write_law: "run_state (sceIoWrite sce h bs) s = (w, t) \<Longrightarrow> writer t = writer s \<and>
      reader t = reader s \<and> (\<forall>q. writer s h \<noteq> Some q \<longrightarrow> files t q = files s q)"
    and sync_fd_law: "run_state (sceIoSyncByFd sce h n) s = (r, t) \<Longrightarrow> files t = files s"
    and sce_close_law: "run_state (sceIoClose sce h) s = (r, t) \<Longrightarrow> files t = files s"
    and sce_sync_law: "run_state (sceIoSync sce d n) s = (r, t) \<Longrightarrow> files t = files s"
    and sce_remove_law: "run_state (sceIoRemove sce p) s = (r, t) \<Longrightarrow>
      (r < 0 \<longrightarrow> files t = files s) \<and> (0 \<le> r \<longrightarrow> files t = (files s)(p := None))"
    and sce_rename_law: "run_state (sceIoRename sce p q) s = (r, t) \<Longrightarrow>
      (r < 0 \<longrightarrow> files t = files s) \<and>
      (0 \<le> r \<longrightarrow> (\<exists>x. files s p = Some x \<and> files t = (files s)(p := None, q := Some x)))"
    and mkdir_law: "run_state (sceIoMkdir sce p m) s = (r, t) \<Longrightarrow>
      (r < 0 \<longrightarrow> files t = files s) \<and>
      (0 \<le> r \<longrightarrow> files s p = None \<and> files t = (files s)(p := Some Directory))"

lemma run_bind:
  "run_state (State_Monad.bind m f) s = (case run_state m s of (x, t) \<Rightarrow> run_state (f x) t)"
  by (cases m) (auto simp: State_Monad.bind_def split: prod.split)

lemma run_ret [simp]: "run_state (ret x) s = (x, s)"
  by simp

lemma run_if: "run_state (if b then m else n) s = (if b then run_state m s else run_state n s)"
  by simp

lemmas vita_defs = manager_storage_vita_io_def manager_storage_vita_stat_def
  manager_storage_vita_open_read_def manager_storage_vita_open_write_exclusive_def
  manager_storage_vita_read_def manager_storage_vita_write_def manager_storage_vita_sync_file_def
  manager_storage_vita_close_file_def manager_storage_vita_remove_file_def
  manager_storage_vita_rename_def manager_storage_vita_make_directory_def
  manager_storage_vita_sync_device_def

lemma enoent_negative: "enoent r \<Longrightarrow> r \<noteq> 0"
  by (auto simp: enoent_def)

sublocale sce_device \<subseteq> storage_device "manager_storage_vita_io sce" files reader writer
proof
  fix p s r k n t
  assume a: "run_state (stat_path (manager_storage_vita_io sce) p) s = ((r, k, n), t)"
  obtain q a where g: "run_state (sceIoGetstat sce p) s = ((q, a), t)"
    and r: "r = (if enoent q then 1 else if q < 0 then -1 else 0)"
    and k: "\<not> enoent q \<longrightarrow> 0 \<le> q \<longrightarrow> k = manager_storage_vita_kind sce (st_mode a)"
    using a by (auto simp: vita_defs run_bind run_if split: prod.splits if_splits)
  note l = getstat_law [OF g]
  show "files t = files s \<and> (r = 0 \<longrightarrow> (\<exists>x. files s p = Some x \<and> k = node_kind x)) \<and>
      (0 < r \<longrightarrow> r = 1 \<and> files s p = None)"
  proof (cases "enoent q \<or> q < 0")
    case True
    then show ?thesis using l r by (cases "enoent q") simp_all
  next
    case False
    then obtain x where x: "files s p = Some x"
      "SCE_S_ISREG sce (st_mode a) = (node_kind x = MANAGER_STORAGE_NODE_FILE)"
      "SCE_S_ISDIR sce (st_mode a) = (node_kind x = MANAGER_STORAGE_NODE_DIRECTORY)"
      using l by auto
    then have "k = node_kind x"
      using k False by (cases x) (simp_all add: manager_storage_vita_kind_def)
    then show ?thesis using False l r x by simp
  qed
next
  fix h m s b t
  assume a: "run_state (read_data (manager_storage_vita_io sce) h m) s = (b, t)"
  obtain r c u where e: "run_state (sceIoRead sce h m) s = ((r, c), u)" by (metis surj_pair)
  have b: "b = (if r < 0 then None else Some (take (nat r) c))" "u = t"
    using a by (simp_all add: vita_defs run_bind e)
  note l = sce_read_law [OF e, unfolded b(2)]
  show "files t = files s \<and> writer t = writer s \<and>
      (\<forall>bs p n c. b = Some bs \<longrightarrow> reader s h = Some (p, n) \<longrightarrow> files s p = Some (File c) \<longrightarrow>
         (\<exists>d. drop n c = bs @ d) \<and> (bs = [] \<longrightarrow> length c \<le> n) \<and> reader t h = Some (p, n + length bs))"
  proof (cases "r < 0")
    case False
    then have "b = Some c" using b l by simp
    then show ?thesis using l False by auto
  qed (use l b in simp)
qed (simp_all add: vita_defs open_law create_law sce_write_law sync_fd_law sce_close_law
    sce_sync_law sce_remove_law sce_rename_law mkdir_law)

context sce_device begin

lemma contract: "storage_device (manager_storage_vita_io sce) files reader writer"
  by (rule storage_device_axioms)

end

section \<open>Directories\<close>

text \<open>What a directory entry of the system becomes in the table.\<close>

definition vita_entry :: "'s sce_io \<Rightarrow> sce_dirent \<Rightarrow> manager_storage_dir_entry" where
  "vita_entry sce d =
     (let name = takeWhile (\<lambda>c. c \<noteq> CHR 0x00) (d_name d) in
      if length name = length (d_name d) \<or> length name \<ge> MANAGER_STORAGE_NAME_CAPACITY
      then \<lparr>entry_name = [], entry_kind = MANAGER_STORAGE_NODE_OTHER, entry_size = 0\<rparr>
      else \<lparr>entry_name = name, entry_kind = manager_storage_vita_kind sce (st_mode (d_stat d)),
            entry_size = nat (st_size (d_stat d))\<rparr>)"

text \<open>
  The directory services: a directory that is not there has no entries, a stream delivers what the
  directory held when it was opened, one entry a call, and 0 at its end; any call may fail.
\<close>

locale sce_directory =
  fixes sce :: "'s sce_io"
    and dirents :: "'s \<Rightarrow> string \<Rightarrow> sce_dirent list"
    and unread :: "'s \<Rightarrow> int \<Rightarrow> sce_dirent list"
  assumes getstat_dir_law: "run_state (sceIoGetstat sce p) s = ((r, a), t) \<Longrightarrow>
      dirents t = dirents s \<and> unread t = unread s \<and> (enoent r \<longrightarrow> dirents s p = [])"
    and dopen_law: "run_state (sceIoDopen sce p) s = (h, t) \<Longrightarrow>
      dirents t = dirents s \<and> (0 \<le> h \<longrightarrow> unread t h = dirents s p)"
    and dread_law: "run_state (sceIoDread sce h) s = ((r, d), t) \<Longrightarrow>
      dirents t = dirents s \<and> (0 < r \<longrightarrow> unread s h = d # unread t h) \<and> (r = 0 \<longrightarrow> unread s h = [])"
    and dclose_law: "run_state (sceIoDclose sce h) s = (r, t) \<Longrightarrow> dirents t = dirents s"

sublocale sce_directory \<subseteq> storage_listing "manager_storage_vita_io sce"
  "\<lambda>s p. map (vita_entry sce) (dirents s p)" "\<lambda>s h. map (vita_entry sce) (unread s h)"
proof
  fix p s r k n t
  assume "run_state (stat_path (manager_storage_vita_io sce) p) s = ((r, k, n), t)"
  then obtain q a where "run_state (sceIoGetstat sce p) s = ((q, a), t)" "r = 1 \<longrightarrow> enoent q"
    by (auto simp: vita_defs run_bind run_if split: prod.splits if_splits)
  with getstat_dir_law [of p s q a t]
  show "(\<lambda>p. map (vita_entry sce) (dirents t p)) = (\<lambda>p. map (vita_entry sce) (dirents s p)) \<and>
      (\<lambda>h. map (vita_entry sce) (unread t h)) = (\<lambda>h. map (vita_entry sce) (unread s h)) \<and>
      (r = 1 \<longrightarrow> map (vita_entry sce) (dirents s p) = [])" by simp
next
  fix h s r e t
  assume a: "run_state (read_directory (manager_storage_vita_io sce) h) s = ((r, e), t)"
  obtain q d u where d: "run_state (sceIoDread sce h) s = ((q, d), u)" by (metis surj_pair)
  note l = dread_law [OF d]
  have "u = t" "r = (if 0 < q then 1 else q)" "0 < q \<longrightarrow> e = vita_entry sce d"
    using a by (auto simp: manager_storage_vita_io_def manager_storage_vita_read_directory_def
        vita_entry_def run_bind d Let_def split: if_splits)
  with l show "(\<lambda>p. map (vita_entry sce) (dirents t p)) = (\<lambda>p. map (vita_entry sce) (dirents s p)) \<and>
      (0 < r \<longrightarrow> map (vita_entry sce) (unread s h) = e # map (vita_entry sce) (unread t h)) \<and>
      (r = 0 \<longrightarrow> map (vita_entry sce) (unread s h) = [])" by (auto split: if_splits)
next
  fix p s h t
  assume "run_state (open_directory (manager_storage_vita_io sce) p) s = (h, t)"
  then have "run_state (sceIoDopen sce p) s = (h, t)"
    by (simp add: manager_storage_vita_io_def manager_storage_vita_open_directory_def)
  from dopen_law [OF this]
  show "(\<lambda>p. map (vita_entry sce) (dirents t p)) = (\<lambda>p. map (vita_entry sce) (dirents s p)) \<and>
      (0 \<le> h \<longrightarrow> map (vita_entry sce) (unread t h) = map (vita_entry sce) (dirents s p))" by simp
next
  fix h s r t
  assume "run_state (close_directory (manager_storage_vita_io sce) h) s = (r, t)"
  then have "run_state (sceIoDclose sce h) s = (r, t)"
    by (simp add: manager_storage_vita_io_def manager_storage_vita_close_directory_def)
  from dclose_law [OF this]
  show "(\<lambda>p. map (vita_entry sce) (dirents t p)) = (\<lambda>p. map (vita_entry sce) (dirents s p))" by simp
qed

context sce_directory begin

lemma listing: "storage_listing (manager_storage_vita_io sce)
    (\<lambda>s p. map (vita_entry sce) (dirents s p)) (\<lambda>s h. map (vita_entry sce) (unread s h))"
  by (rule storage_listing_axioms)

end

section \<open>A device with a budget of calls\<close>

text \<open>
  Files in memory and one directory stream; the device serves \<open>budget\<close> calls and fails every later one, as a card pulled
  out or a battery that dies would.
\<close>

record memory_card =
  card_files :: "string \<Rightarrow> node option"
  card_readers :: "int \<Rightarrow> (string \<times> nat) option"
  card_writers :: "int \<Rightarrow> string option"
  card_next :: nat
  card_folders :: "string \<Rightarrow> sce_dirent list"
  card_dirents :: "sce_dirent list"
  budget :: nat

text \<open>The entries of a folder; one that is not there has none.\<close>

definition card_folder :: "memory_card \<Rightarrow> string \<Rightarrow> sce_dirent list" where
  "card_folder s p = (if card_files s p = None then [] else card_folders s p)"

definition serve :: "'a \<Rightarrow> (memory_card \<Rightarrow> 'a \<times> memory_card) \<Rightarrow> (memory_card, 'a) state" where
  "serve e f = State (\<lambda>s. if budget s = 0 then (e, s) else f (s\<lparr>budget := budget s - 1\<rparr>))"

definition node_stat :: "node \<Rightarrow> sce_stat" where
  "node_stat x = (case x of File c \<Rightarrow> \<lparr>st_mode = 0x2000, st_size = int (length c)\<rparr>
     | Directory \<Rightarrow> \<lparr>st_mode = 0x1000, st_size = 0\<rparr> | Other \<Rightarrow> \<lparr>st_mode = 0, st_size = 0\<rparr>)"

definition card_open :: "string \<Rightarrow> sce_flag list \<Rightarrow> memory_card \<Rightarrow> int \<times> memory_card" where
  "card_open p flags s =
     (let h = int (card_next s) in
      if flags = [SCE_O_RDONLY] then
        (case card_files s p of
           Some (File c) \<Rightarrow> (h, s\<lparr>card_readers := (card_readers s)(h := Some (p, 0)),
                                card_next := card_next s + 1\<rparr>)
         | _ \<Rightarrow> (-1, s))
      else if card_files s p = None \<and> card_readers s h = None then
        (h, s\<lparr>card_files := (card_files s)(p := Some (File [])),
              card_writers := (card_writers s)(h := Some p), card_next := card_next s + 1\<rparr>)
      else (-1, s))"

definition card_read :: "int \<Rightarrow> nat \<Rightarrow> memory_card \<Rightarrow> (int \<times> u8 list) \<times> memory_card" where
  "card_read h m s =
     (case card_readers s h of
        Some (p, n) \<Rightarrow> (case card_files s p of
          Some (File c) \<Rightarrow>
            if m = 0 then ((-1, []), s)
            else let b = take m (drop n c) in
              ((int (length b), b), s\<lparr>card_readers := (card_readers s)(h := Some (p, n + length b))\<rparr>)
        | _ \<Rightarrow> ((-1, []), s))
      | None \<Rightarrow> ((-1, []), s))"

definition card_write :: "int \<Rightarrow> u8 list \<Rightarrow> memory_card \<Rightarrow> int \<times> memory_card" where
  "card_write h bs s =
     (case card_writers s h of
        Some p \<Rightarrow> (case card_files s p of
          Some (File c) \<Rightarrow> (int (length bs), s\<lparr>card_files := (card_files s)(p := Some (File (c @ bs)))\<rparr>)
        | _ \<Rightarrow> (-1, s))
      | None \<Rightarrow> (-1, s))"

definition card_io :: "memory_card sce_io" where
  "card_io = \<lparr>SCE_S_ISREG = (\<lambda>m. m = 0x2000), SCE_S_ISDIR = (\<lambda>m. m = 0x1000),
     sceIoGetstat = (\<lambda>p. serve (-1, node_stat Other) (\<lambda>s. case card_files s p of
       None \<Rightarrow> ((-2147418110, node_stat Other), s) | Some x \<Rightarrow> ((0, node_stat x), s))),
     sceIoOpen = (\<lambda>p flags _. serve (-1) (card_open p flags)),
     sceIoRead = (\<lambda>h m. serve (-1, []) (card_read h m)),
     sceIoWrite = (\<lambda>h bs. serve (-1) (card_write h bs)),
     sceIoSyncByFd = (\<lambda>_ _. serve (-1) (\<lambda>s. (0, s))),
     sceIoClose = (\<lambda>_. serve (-1) (\<lambda>s. (0, s))),
     sceIoRemove = (\<lambda>p. serve (-1) (\<lambda>s. if card_files s p = None then (-1, s)
       else (0, s\<lparr>card_files := (card_files s)(p := None)\<rparr>))),
     sceIoRename = (\<lambda>p q. serve (-1) (\<lambda>s. case card_files s p of None \<Rightarrow> (-1, s)
       | Some x \<Rightarrow> (0, s\<lparr>card_files := (card_files s)(p := None, q := Some x)\<rparr>))),
     sceIoMkdir = (\<lambda>p _. serve (-1) (\<lambda>s. if card_files s p \<noteq> None then (-1, s)
       else (0, s\<lparr>card_files := (card_files s)(p := Some Directory)\<rparr>))),
     sceIoSync = (\<lambda>_ _. serve (-1) (\<lambda>s. (0, s))),
     sceIoDopen = (\<lambda>p. serve (-1) (\<lambda>s. (0, s\<lparr>card_dirents := card_folder s p\<rparr>))),
     sceIoDread = (\<lambda>_. serve (-1, \<lparr>d_name = [], d_stat = node_stat Other\<rparr>)
       (\<lambda>s. case card_dirents s of [] \<Rightarrow> ((0, \<lparr>d_name = [], d_stat = node_stat Other\<rparr>), s)
        | d # ds \<Rightarrow> ((1, d), s\<lparr>card_dirents := ds\<rparr>))),
     sceIoDclose = (\<lambda>_. serve (-1) (\<lambda>s. (0, s)))\<rparr>"

lemma run_serve: "run_state (serve e f) s =
   (if budget s = 0 then (e, s) else f (s\<lparr>budget := budget s - 1\<rparr>))"
  by (simp add: serve_def)

lemma enoent_card [simp]: "enoent (-2147418110)" "\<not> enoent (-1)" "\<not> enoent 0"
  by (simp_all add: enoent_def)

lemma take_part: "\<exists>d. xs = take m xs @ d"
  by (metis append_take_drop_id)

interpretation card: sce_device card_io card_files card_readers card_writers
proof
  fix p s r a t
  assume "run_state (sceIoGetstat card_io p) s = ((r, a), t)"
  then show "card_files t = card_files s \<and> (enoent r \<longrightarrow> card_files s p = None) \<and>
      (\<not> enoent r \<longrightarrow> 0 \<le> r \<longrightarrow> (\<exists>x. card_files s p = Some x \<and>
         SCE_S_ISREG card_io (st_mode a) = (node_kind x = MANAGER_STORAGE_NODE_FILE) \<and>
         SCE_S_ISDIR card_io (st_mode a) = (node_kind x = MANAGER_STORAGE_NODE_DIRECTORY)))"
    by (auto simp: card_io_def run_serve node_stat_def split: if_splits option.splits node.splits)
next
  fix h m s r b t
  assume "run_state (sceIoRead card_io h m) s = ((r, b), t)"
  then show "card_files t = card_files s \<and> card_writers t = card_writers s \<and>
      (0 \<le> r \<longrightarrow> length b = nat r \<and> (\<forall>p n c. card_readers s h = Some (p, n) \<longrightarrow>
         card_files s p = Some (File c) \<longrightarrow> (\<exists>d. drop n c = b @ d) \<and> (b = [] \<longrightarrow> length c \<le> n) \<and>
         card_readers t h = Some (p, n + length b)))"
    by (auto simp: card_io_def run_serve card_read_def Let_def split: if_splits option.splits node.splits
        intro: take_part)
qed (auto simp: card_io_def run_serve card_open_def card_write_def Let_def
    split: if_splits option.splits node.splits)

interpretation card_dirs: sce_directory card_io card_folder "\<lambda>s _. card_dirents s"
  by unfold_locales
    (auto simp: card_io_def run_serve card_folder_def fun_eq_iff split: if_splits option.splits list.splits)

end
