(* ===== verification/Manager_Storage_Card.thy ===== *)
theory Manager_Storage_Card imports Manager_Storage_Vita begin

text \<open>
  Runs of the manager's storage on the card with a budget: what each call answers and leaves, a
  verified copy, and three whole runs, a restore that succeeds, one cut short and recovered, and
  a listing.  They show that the hypotheses of the storage properties can hold.
\<close>

abbreviation "cio \<equiv> manager_storage_vita_io card_io"

fun node_length :: "node \<Rightarrow> nat" where
  "node_length (File c) = length c"
| "node_length _ = 0"

text \<open>Spending one call.\<close>

abbreviation spent :: "memory_card \<Rightarrow> memory_card" where
  "spent s \<equiv> s\<lparr>budget := budget s - 1\<rparr>"

lemmas card_defs = vita_defs manager_storage_vita_kind_def card_io_def run_serve run_bind

lemma card_stat:
  "run_state (manager_storage_stat cio p) s =
     (if budget s = 0 then ((-1, MANAGER_STORAGE_NODE_OTHER, 0), s)
      else case card_files s p of None \<Rightarrow> ((1, MANAGER_STORAGE_NODE_OTHER, 0), spent s)
      | Some x \<Rightarrow> ((0, node_kind x, node_length x), spent s))"
  by (auto simp: manager_storage_stat_def card_defs node_stat_def split: option.split node.split)

lemma card_rename:
  "run_state (rename_path cio p q) s =
     (if budget s = 0 then (-1, s)
      else case card_files s p of None \<Rightarrow> (-1, spent s)
      | Some x \<Rightarrow> (0, (spent s)\<lparr>card_files := (card_files s)(p := None, q := Some x)\<rparr>))"
  by (auto simp: card_defs split: option.split)

lemma card_remove:
  "run_state (remove_file cio p) s =
     (if budget s = 0 then (-1, s)
      else if card_files s p = None then (-1, spent s)
      else (0, (spent s)\<lparr>card_files := (card_files s)(p := None)\<rparr>))"
  by (auto simp: card_defs)

lemma card_sync: "run_state (sync_device cio) s = (if budget s = 0 then (-1, s) else (0, spent s))"
  by (simp add: card_defs)

lemma card_sync_file: "run_state (sync_file cio h) s = (if budget s = 0 then (-1, s) else (0, spent s))"
  by (simp add: card_defs)

lemma card_close: "run_state (close_file cio h) s = (if budget s = 0 then (-1, s) else (0, spent s))"
  by (simp add: card_defs)

lemma card_open_read:
  "run_state (open_read cio p) s =
     (if budget s = 0 then (-1, s) else card_open p [SCE_O_RDONLY] (spent s))"
  by (simp add: card_defs)

lemma card_create:
  "run_state (open_write_exclusive cio p) s =
     (if budget s = 0 then (-1, s) else card_open p [SCE_O_WRONLY, SCE_O_CREAT, SCE_O_EXCL] (spent s))"
  by (simp add: card_defs)

lemma card_write_run:
  "run_state (write_data cio h bs) s = (if budget s = 0 then (-1, s) else card_write h bs (spent s))"
  by (simp add: card_defs)

lemma card_read_run:
  "run_state (read_data cio h m) s =
     (if budget s = 0 then (None, s)
      else case card_read h m (spent s) of ((r, b), t) \<Rightarrow>
        (if r < 0 then None else Some (take (nat r) b), t))"
  by (simp add: card_defs split: prod.split)

lemma card_mkdir:
  "run_state (make_directory cio p) s =
     (if budget s = 0 then (-1, s)
      else if card_files s p \<noteq> None then (-1, spent s)
      else (0, (spent s)\<lparr>card_files := (card_files s)(p := Some Directory)\<rparr>))"
  by (auto simp: card_defs)

lemmas card_runs = run_bind run_if card_stat card_rename card_remove card_sync card_sync_file card_close
  card_open_read card_create card_write_run card_read_run card_mkdir

lemma card_hash:
  assumes "card_files s p = Some (File c)" "c \<noteq> []" "length c \<le> 32768" "4 \<le> budget s"
  shows "run_state (manager_storage_hash_path cio p) s =
    ((MANAGER_STORAGE_OK, sha256 c, length c),
     s\<lparr>card_readers := (card_readers s)(int (card_next s) := Some (p, length c)),
       card_next := card_next s + 1, budget := budget s - 4\<rparr>)"
proof -
  have "hashing (manager_sha256_update fresh_hash c) ([] @ c)"
    by (rule hashing_update, unfold fresh_hash_def, rule hashing_init) simp
  then have h: "manager_sha256_final (manager_sha256_update fresh_hash c) = sha256 c"
    using hashing_final by simp
  obtain n where n: "budget s = Suc (Suc (Suc (Suc n)))"
    using assms(4) by (cases "budget s"; cases "budget s - 1"; cases "budget s - 2"; cases "budget s - 3") auto
  have l: "\<not> 8388608 < length c" "min (length c) 32768 = length c" using assms(3) by auto
  note d = card_runs card_open_def card_read_def assms Let_def MANAGER_STORAGE_COPY_BUFFER_def
    MANAGER_STORAGE_MAX_SAVE_BYTES_def n l h
  have 2: "budget t = Suc (Suc m) \<Longrightarrow> card_readers t g = Some (p, length c) \<Longrightarrow>
      card_files t p = Some (File c) \<Longrightarrow> run_state (hash_loop cio g hs tot) t =
      ((MANAGER_STORAGE_OK, hs, tot), t\<lparr>card_readers := card_readers t, budget := Suc m\<rparr>)" for t g hs tot m
    by (subst hash_loop.simps) (simp add: d fun_upd_idem)
  show ?thesis
    unfolding manager_storage_hash_path_def
    apply (simp add: d)
    apply (subst hash_loop.simps)
    apply (simp add: d 2)
    done
qed

lemma card_copy:
  assumes "card_files s p = Some (File c)" "c \<noteq> []" "length c \<le> 32768" "card_files s q = None"
    and "card_readers s (1 + int (card_next s)) = None" "12 \<le> budget s"
  shows "\<exists>rs ws. run_state (manager_storage_copy_verified cio p q) s =
    ((MANAGER_STORAGE_OK, sha256 c, length c),
     s\<lparr>card_files := (card_files s)(q := Some (File c)), card_readers := rs, card_writers := ws,
       card_next := card_next s + 3, budget := budget s - 12\<rparr>)"
proof -
  have "hashing (manager_sha256_update fresh_hash c) ([] @ c)"
    by (rule hashing_update, unfold fresh_hash_def, rule hashing_init) simp
  then have h: "manager_sha256_final (manager_sha256_update fresh_hash c) = sha256 c"
    using hashing_final by simp
  have pq: "p \<noteq> q" "q \<noteq> p" using assms(1,4) by auto
  define n where "n = budget s - 12"
  have n: "budget s = n + 12" using assms(6) by (simp add: n_def)
  have l: "\<not> 8388608 < length c" "min (length c) 32768 = length c" using assms(3) by auto
  note d = card_runs card_open_def card_read_def card_write_def assms(1-5) Let_def
    MANAGER_STORAGE_COPY_BUFFER_def MANAGER_STORAGE_MAX_SAVE_BYTES_def n l h pq
  have w: "0 < budget t \<Longrightarrow> card_writers t g = Some q \<Longrightarrow> card_files t q = Some (File []) \<Longrightarrow>
      run_state (write_loop cio g c) t = (True, (spent t)\<lparr>card_files := (card_files t)(q := Some (File c))\<rparr>)" for t g
    by (subst write_loop.simps, simp add: d, subst write_loop.simps, simp)
  have 2: "0 < budget t \<Longrightarrow> card_readers t g = Some (p, length c) \<Longrightarrow>
      card_files t p = Some (File c) \<Longrightarrow> run_state (copy_loop cio g k hs tot) t =
      ((MANAGER_STORAGE_OK, hs, tot), t\<lparr>card_readers := card_readers t, budget := budget t - 1\<rparr>)" for t g hs tot k
    by (subst copy_loop.simps) (simp add: d fun_upd_idem)
  have 1: "3 \<le> budget t \<Longrightarrow> card_readers t g = Some (p, 0) \<Longrightarrow> card_writers t k = Some q \<Longrightarrow>
      card_files t p = Some (File c) \<Longrightarrow> card_files t q = Some (File []) \<Longrightarrow>
      run_state (copy_loop cio g k fresh_hash 0) t =
      ((MANAGER_STORAGE_OK, manager_sha256_update fresh_hash c, length c),
       t\<lparr>card_files := (card_files t)(q := Some (File c)),
         card_readers := (card_readers t)(g := Some (p, length c)), budget := budget t - 3\<rparr>)" for t g k
    by (subst copy_loop.simps) (simp add: d w 2)
  show ?thesis
    unfolding manager_storage_copy_verified_def copy_finish_def
    by (simp add: d 1 card_hash worst_def)
      ((rule exI)+, rule memory_card.equality, simp_all)
qed


definition card_start :: memory_card where
  "card_start = \<lparr>card_files = [target_file 1 \<mapsto> File [1, 2], backup_name ''slot'' 1 0 \<mapsto> File [3],
       MANAGER_STORAGE_BACKUP_ROOT \<mapsto> Directory, MANAGER_STORAGE_SAVE_ROOT \<mapsto> Directory],
     card_readers = Map.empty, card_writers = Map.empty, card_next = 0,
     card_folders = (\<lambda>_. []), card_dirents = [], budget = 1000\<rparr>"

definition card_backup :: manager_save_backup where
  "card_backup = \<lparr>backup_slot = 1, origin = MANAGER_SAVE_BACKUP_LOCAL, backup_size = 1,
     label = ''LOCAL S1 slot1-0000.dat'', path = backup_name ''slot'' 1 0\<rparr>"

lemma card_allowed: "manager_storage_backup_allowed card_backup"
  using local_allowed [of 1 0]
  by (simp add: card_backup_def manager_storage_backup_allowed_def MANAGER_STORAGE_MAX_SAVE_BYTES_def)

lemmas slot1_paths = slot_paths [of 1, OF order_refl one_le_numeral]

lemma card_recover:
  "run_state (manager_storage_recover_slot cio 1) card_start =
     (MANAGER_STORAGE_OK, card_start\<lparr>budget := 995\<rparr>)"
  unfolding manager_storage_recover_slot_def recover_rollback_def slot1_paths option.case prod.case
  by (simp add: card_runs manager_storage_remove_managed_file_def card_start_def file_names decimal_digit)

lemma card_restore:
  "fst (run_state (manager_storage_restore_backup cio card_backup) card_start) = MANAGER_STORAGE_OK"
proof -
  let ?s = "card_start\<lparr>budget := 991\<rparr>"
  note [simp del] = One_nat_def and [simp] = One_nat_def [symmetric]
  have p: "path card_backup = backup_name ''slot'' 1 0" "backup_slot card_backup = 1"
    by (simp_all add: card_backup_def)
  have in_path: "in_path (backup_name ''slot'' 1 i) = Some (backup_name ''slot'' 1 i)" if "i \<le> 1" for i
    using that by (cases i) (simp_all add: manager_storage_format_def file_names decimal_digit decimal4_def MANAGER_STORAGE_PATH_CAPACITY_def)
  have f: "card_files card_start (backup_name ''slot'' 1 0) = Some (File [3])"
    "card_files card_start (target_file 1) = Some (File [1, 2])"
    "card_files card_start (rollback_file 1) = None"
    by (simp_all add: card_start_def file_names)
  have "backup_name ''slot'' 1 1 \<noteq> backup_name ''slot'' 1 0" using backup_name_inj [of 1 1 0] by auto
  then have f1: "card_files card_start (backup_name ''slot'' 1 1) = None"
    by (simp add: card_start_def file_names)
  have b: "budget card_start = 1000" by (simp add: card_start_def)
  have free: "run_state (manager_storage_find_free_backup cio ''slot'' 1) (card_start\<lparr>budget := 993\<rparr>) =
      ((MANAGER_STORAGE_OK, backup_name ''slot'' 1 1, 1), ?s)"
    unfolding manager_storage_find_free_backup_def
    apply (subst find_free_from.simps)
    apply (subst find_free_from.simps)
    apply (simp add: in_path card_runs f f1 b)
    done
  let ?T = "restore_temp_file 1"
  obtain rs ws where copy: "run_state (manager_storage_copy_verified cio (backup_name ''slot'' 1 0) ?T) ?s =
      ((MANAGER_STORAGE_OK, sha256 [3], 1),
       ?s\<lparr>card_files := (card_files ?s)(?T := Some (File [3])), card_readers := rs, card_writers := ws,
         card_next := 3, budget := 979\<rparr>)"
    using card_copy [of ?s "backup_name ''slot'' 1 0" "[3]" ?T]
    by (auto simp: card_start_def file_names)
  have ens: "run_state (manager_storage_ensure_backup_root cio) (card_start\<lparr>budget := 994\<rparr>) =
      (MANAGER_STORAGE_OK, card_start\<lparr>budget := 993\<rparr>)"
    by (simp add: manager_storage_ensure_backup_root_def card_runs card_start_def file_names)
  have ne: "rollback_file 1 \<noteq> target_file 1" "target_file 1 \<noteq> rollback_file 1"
    "restore_temp_file 1 \<noteq> rollback_file 1" "rollback_file 1 \<noteq> restore_temp_file 1"
    "restore_temp_file 1 \<noteq> target_file 1" "target_file 1 \<noteq> restore_temp_file 1"
    by (simp_all add: file_names)
  show ?thesis
    unfolding manager_storage_restore_backup_def restore_recovered_def p slot1_paths option.case prod.case
    apply (simp add: card_allowed run_bind card_recover slot1_paths)
    apply (simp add: card_runs ens free copy f b MANAGER_STORAGE_MAX_SAVE_BYTES_def)
    apply (simp add: restore_swap_def restore_promote_def restore_verify_def restore_archive_def card_runs f b ne card_hash)
    done
qed

text \<open>The card after a restore was cut short: the save is in the rollback file, and it answers nothing.\<close>

definition card_cut :: memory_card where
  "card_cut = card_start\<lparr>card_files := (card_files card_start)(rollback_file 1 := Some (File [9])), budget := 0\<rparr>"

lemma card_cut_restore:
  "run_state (manager_storage_restore_backup cio card_backup) card_cut = (MANAGER_STORAGE_IO_ERROR, card_cut)"
  unfolding manager_storage_restore_backup_def
  using card_allowed
  by (simp add: run_bind run_if card_backup_def manager_storage_recover_slot_def recover_rollback_def slot1_paths [simplified] card_stat card_cut_def)

lemma card_cut_recover:
  "fst (run_state (manager_storage_recover_slot cio 1) (card_cut\<lparr>budget := 100\<rparr>)) = MANAGER_STORAGE_OK"
proof -
  let ?s = "card_cut\<lparr>budget := 97\<rparr>"
  note [simp del] = One_nat_def and [simp] = One_nat_def [symmetric]
  have in_path: "in_path (backup_name ''recovered-slot'' 1 0) = Some (backup_name ''recovered-slot'' 1 0)"
    by (simp add: manager_storage_format_def file_names decimal_digit decimal4_def MANAGER_STORAGE_PATH_CAPACITY_def)
  have f: "card_files card_cut (backup_name ''recovered-slot'' 1 0) = None"
    "card_files card_cut (target_file 1) = Some (File [1, 2])"
    "card_files card_cut (rollback_file 1) = Some (File [9])"
    "card_files card_cut (backup_temp_file 1) = None"
    "card_files card_cut (restore_temp_file 1) = None"
    "card_files card_cut MANAGER_STORAGE_BACKUP_ROOT = Some Directory"
    by (simp_all add: card_cut_def card_start_def file_names)
  have ne: "rollback_file 1 \<noteq> target_file 1" "target_file 1 \<noteq> rollback_file 1"
    "restore_temp_file 1 \<noteq> rollback_file 1" "restore_temp_file 1 \<noteq> target_file 1" 
    "backup_temp_file 1 \<noteq> rollback_file 1" "backup_temp_file 1 \<noteq> target_file 1"
    "restore_temp_file 1 \<noteq> backup_name ''recovered-slot'' 1 0" "backup_temp_file 1 \<noteq> backup_name ''recovered-slot'' 1 0"
    "rollback_file 1 \<noteq> backup_name ''recovered-slot'' 1 0" "backup_temp_file 1 \<noteq> restore_temp_file 1"
    by (simp_all add: file_names)
  have free: "run_state (manager_storage_find_free_backup cio ''recovered-slot'' 1) ?s =
      ((MANAGER_STORAGE_OK, backup_name ''recovered-slot'' 1 0, 0), card_cut\<lparr>budget := 96\<rparr>)"
    unfolding manager_storage_find_free_backup_def
    by (subst find_free_from.simps) (simp add: in_path card_runs f)
  show ?thesis
    unfolding manager_storage_recover_slot_def recover_rollback_def slot1_paths option.case prod.case
    by (simp add: card_runs f ne free manager_storage_ensure_backup_root_def manager_storage_remove_managed_file_def)
qed


definition card_listed :: memory_card where
  "card_listed = \<lparr>card_files = [MANAGER_STORAGE_BACKUP_ROOT \<mapsto> Directory], card_readers = Map.empty,
     card_writers = Map.empty, card_next = 0,
     card_folders = (\<lambda>p. if p = MANAGER_STORAGE_BACKUP_ROOT
       then [\<lparr>d_name = ''slot1-0000.dat'' @ [CHR 0x00], d_stat = node_stat (File [3])\<rparr>] else []),
     card_dirents = [],
     budget = 100\<rparr>"

lemma char_digits: "char_of (48::nat) = CHR ''0''" "char_of (49::nat) = CHR ''1''"
  by code_simp+

lemma card_dread:
  "run_state (open_directory cio p) s =
     (if budget s = 0 then (-1, s) else (0, (spent s)\<lparr>card_dirents := card_folder s p\<rparr>))"
  "run_state (close_directory cio h) s = (if budget s = 0 then (-1, s) else (0, spent s))"
  "0 < budget s \<Longrightarrow> card_dirents s = [] \<Longrightarrow> run_state (read_directory cio h) s =
     ((0, \<lparr>entry_name = [], entry_kind = MANAGER_STORAGE_NODE_OTHER, entry_size = 0\<rparr>), spent s)"
  "0 < budget s \<Longrightarrow> card_dirents s = \<lparr>d_name = n @ [CHR 0x00], d_stat = node_stat x\<rparr> # ds \<Longrightarrow>
     \<forall>c \<in> set n. c \<noteq> CHR 0x00 \<Longrightarrow> length n < 128 \<Longrightarrow> run_state (read_directory cio h) s =
     ((1, \<lparr>entry_name = n, entry_kind = node_kind x, entry_size = node_length x\<rparr>),
      (spent s)\<lparr>card_dirents := ds\<rparr>)"
  by (simp_all add: manager_storage_vita_open_directory_def manager_storage_vita_close_directory_def
      manager_storage_vita_read_directory_def card_defs Let_def takeWhile_append2
      MANAGER_STORAGE_NAME_CAPACITY_def node_stat_def card_folder_def split: node.split)

lemma card_list:
  "\<exists>t. manager_storage_list_save_backups cio 8 card_listed =
     Some ((MANAGER_STORAGE_OK, [card_backup], 0), t)"
proof -
  let ?n = "''slot1-0000.dat''"
  have p: "manager_storage_parse_local_name ?n = Some (1, 0)"
    using local_name_roundtrip [of 1 0] by (simp add: decimal_digit decimal4_def replicate_small char_digits)
  have safe: "manager_storage_safe_segment ?n"
    by (simp add: manager_storage_safe_segment_def unsafe_char_def MANAGER_STORAGE_NAME_CAPACITY_def)
  have j: "manager_storage_join MANAGER_STORAGE_BACKUP_ROOT ?n [] = Some (path card_backup)"
    by (simp add: manager_storage_join_def manager_storage_format_def file_names MANAGER_STORAGE_PATH_CAPACITY_def
        card_backup_def decimal_digit decimal4_def replicate_small char_digits)
  define n where "n = ?n"
  note facts = p [folded n_def] safe [folded n_def] j [folded n_def]
  have l: "''LOCAL S'' @ decimal 1 @ '' '' @ take 72 n = label card_backup"
    by (simp add: n_def card_backup_def decimal_digit char_digits)
  have d: "card_folder card_listed MANAGER_STORAGE_BACKUP_ROOT = [\<lparr>d_name = n @ [CHR 0x00], d_stat = node_stat (File [3])\<rparr>]"
     "\<forall>c \<in> set n. c \<noteq> CHR 0x00" "length n < 128"  by (simp_all add: n_def card_listed_def card_folder_def)
  have f: "budget card_listed = 100" "card_files card_listed MANAGER_STORAGE_BACKUP_ROOT = Some Directory"
    "card_files card_listed MANAGER_STORAGE_SAVE_ROOT = None"
    "card_files card_listed MANAGER_STORAGE_SYNC_BACKUP_ROOT = None"
    by (simp_all add: card_listed_def file_names)
  have b: "\<lparr>backup_slot = 1, origin = MANAGER_SAVE_BACKUP_LOCAL, backup_size = 1, label = label card_backup,
      path = path card_backup\<rparr> = card_backup" "length (label card_backup) < 96" "length (path card_backup) < 512"
    by (simp_all add: card_backup_def file_names decimal_digit decimal4_def)
  have "flat_loop cio 0 MANAGER_STORAGE_BACKUP_ROOT MANAGER_SAVE_BACKUP_LOCAL 8 [] 0
      (card_listed\<lparr>budget := 97, card_dirents := card_folder card_listed MANAGER_STORAGE_BACKUP_ROOT\<rparr>) =
      Some ((MANAGER_STORAGE_OK, [card_backup], 0), card_listed\<lparr>budget := 95, card_dirents := []\<rparr>)"
    using b [simplified] d f l [simplified]
    by (subst flat_loop.simps, simp add: card_dread facts flat_slot_def manager_storage_add_backup_def
       MANAGER_STORAGE_MAX_SAVE_BYTES_def MANAGER_STORAGE_LABEL_CAPACITY_def MANAGER_STORAGE_PATH_CAPACITY_def)
      (subst flat_loop.simps, simp add: card_dread)
  then show ?thesis
    unfolding manager_storage_list_save_backups_def
    by (simp add: card_runs card_dread f d manager_storage_scan_flat_backups_def manager_storage_scan_sync_backups_def
        perform_def next_scan_def worst_def manager_storage_sort_backups_def insertion_sort_def card_folder_def)
qed

end
