(* ===== verification/Manager_Storage_Claims.thy ===== *)
theory Manager_Storage_Claims imports Manager_Storage_Card begin

text \<open>
  The properties of the manager's storage.  Each holds for every device that keeps the contract
  \<open>storage_device\<close>; the witnesses apply them on the console's table over the card with a budget.
\<close>

section \<open>Helper lemmas\<close>

lemma list14:
  assumes "length n = 14"
  shows "n = take 4 n @ [n ! 4, n ! 5, n ! 6, n ! 7, n ! 8, n ! 9] @ drop 10 n"
proof -
  have "drop 4 n = [n ! 4, n ! 5, n ! 6, n ! 7, n ! 8, n ! 9] @ drop 10 n"
    using Cons_nth_drop_Suc [of 4 n] Cons_nth_drop_Suc [of 5 n] Cons_nth_drop_Suc [of 6 n]
      Cons_nth_drop_Suc [of 7 n] Cons_nth_drop_Suc [of 8 n] Cons_nth_drop_Suc [of 9 n] assms
    by simp
  then show ?thesis by (metis append_take_drop_id)
qed

lemma digit_of: "isdigit c \<Longrightarrow> \<exists>d < 10. c = digit d \<and> d = of_char c - 48"
  by (rule exI [where x = "of_char c - 48"]) (auto simp: isdigit_def digit_def)

lemma div_mod_10: "d < 10 \<Longrightarrow> (m * 10 + d) div 10 = m \<and> (m * 10 + d) mod 10 = (d::nat)"
  by simp

lemma digits_back:
  assumes "a < 10" "b < 10" "c < 10" "d < (10::nat)"
  defines "n \<equiv> a * 1000 + b * 100 + c * 10 + d"
  shows "n div 1000 = a" "n div 100 mod 10 = b" "n div 10 mod 10 = c" "n mod 10 = d" "n \<le> 9999"
proof -
  have n: "n = ((a * 10 + b) * 10 + c) * 10 + d" by (simp add: n_def)
  have 1: "n div 10 = (a * 10 + b) * 10 + c" "n mod 10 = d"
    unfolding n using div_mod_10 [OF assms(4)] by blast+
  have 2: "n div 100 = a * 10 + b" "n div 10 mod 10 = c"
    using div_mod_10 [OF assms(3), of "a * 10 + b"] 1 div_mult2_eq [of n 10 10] by simp_all
  have 3: "n div 1000 = a" "n div 100 mod 10 = b"
    using div_mod_10 [OF assms(2), of a] 2 div_mult2_eq [of n 100 10] by simp_all
  show "n div 1000 = a" "n div 100 mod 10 = b" "n div 10 mod 10 = c" "n mod 10 = d" "n \<le> 9999"
    using 1 2 3 assms(1-4) by (simp_all add: n_def)
qed

lemma card_start_current: "current (card_files card_start) 1 = Some (File [1, 2])"
  by (simp add: card_start_def current_def file_names)

section \<open>Restoring\<close>

text \<open>
  C13: A restore never loses a save.  Whatever fails and whenever, a failed restore leaves the slot's
  current save the current one, a successful one has moved it to a numbered local backup; the
  bytes of the target file exist somewhere on the device in either case; and no file other than the
  slot's managed ones and its backups changes.
\<close>

theorem restore_keeps_saves:
  assumes "storage_device io files reader writer"
    and "run_state (manager_storage_restore_backup io b) s = (r, t)"
    and "current (files s) (backup_slot b) = Some (File c)"
  shows "(failed r \<longrightarrow> current (files t) (backup_slot b) = Some (File c)) \<and>
    (\<not> failed r \<longrightarrow> (\<exists>i. files t (backup_name ''slot'' (backup_slot b) i) = Some (File c))) \<and>
    (\<forall>d. files s (target_file (backup_slot b)) = Some (File d) \<longrightarrow> (\<exists>p. files t p = Some (File d))) \<and>
    (\<forall>p. p \<notin> managed (backup_slot b) \<union> range (backup_name ''recovered-slot'' (backup_slot b)) \<union>
       range (backup_name ''slot'' (backup_slot b)) \<longrightarrow> files t p = files s p)"
  using wpD [OF storage_device.restore_backup_wp [OF assms(1)] assms(2)] assms(3) by blast

lemma restore_keeps_saves_witness:
  "\<exists>r t. run_state (manager_storage_restore_backup cio card_backup)
      card_start = (r, t) \<and>
    (failed r \<longrightarrow> current (card_files t) 1 = Some (File [1, 2])) \<and>
    (\<not> failed r \<longrightarrow> (\<exists>i. card_files t (backup_name ''slot'' 1 i) = Some (File [1, 2])))"
proof -
  obtain r t where r: "run_state (manager_storage_restore_backup
      cio card_backup) card_start = (r, t)" by (metis surj_pair)
  have "current (card_files card_start) (backup_slot card_backup) = Some (File [1, 2])"
    using card_start_current by (simp add: card_backup_def)
  from restore_keeps_saves [OF card.storage_device_axioms r this] r show ?thesis
    by (auto simp: card_backup_def)
qed

text \<open>
  C14: A restore that reports success accepted a well-formed backup path of the slot, has put a file
  with the backup's length and SHA-256 in the slot's place, and has left no rollback file.
\<close>

theorem restore_success_verified:
  assumes "storage_device io files reader writer"
    and "run_state (manager_storage_restore_backup io b) s = (r, t)"
    and "\<not> failed r"
  shows "manager_storage_backup_allowed b \<and> files t (rollback_file (backup_slot b)) = None \<and>
    (\<exists>c d. files s (path b) = Some (File c) \<and> current (files t) (backup_slot b) = Some (File d) \<and>
       sha256 d = sha256 c \<and> length d = length c)"
  using wpD [OF storage_device.restore_backup_wp [OF assms(1)] assms(2)] assms(3)
  by (auto simp: current_none)

lemma restore_success_verified_witness:
  "\<exists>d. current (card_files (snd (run_state (manager_storage_restore_backup cio card_backup) card_start))) 1 =
     Some (File d) \<and> sha256 d = sha256 [3] \<and> length d = 1"
proof -
  obtain r t where r: "run_state (manager_storage_restore_backup cio card_backup) card_start = (r, t)"
    by (metis surj_pair)
  then have "\<not> failed r" using card_restore by simp
  moreover have "card_files card_start (path card_backup) = Some (File [3])"
    by (simp add: card_start_def card_backup_def file_names)
  ultimately show ?thesis using restore_success_verified [OF card.storage_device_axioms r] r
    by (auto simp: card_backup_def)
qed

text \<open>
  C15: A failed restore is undone by the next recovery of the slot that succeeds, on any later state
  of the device with the same files: the slot then holds the save it held before the restore, in
  its own file, with no rollback or temporary file left.
\<close>

theorem failed_restore_recovered:
  assumes "storage_device io files reader writer"
    and "run_state (manager_storage_restore_backup io b) s = (r, t)" "failed r"
    and "current (files s) (backup_slot b) = Some (File c)"
    and "files u = files t" "1 \<le> backup_slot b" "backup_slot b \<le> 3"
    and "run_state (manager_storage_recover_slot io (backup_slot b)) u = (q, v)" "\<not> failed q"
  shows "files v (target_file (backup_slot b)) = Some (File c) \<and>
    files v (rollback_file (backup_slot b)) = None \<and>
    files v (restore_temp_file (backup_slot b)) = None"
proof -
  have "current (files t) (backup_slot b) = Some (File c)"
    using wpD [OF storage_device.restore_backup_wp [OF assms(1)] assms(2)] assms(3,4) by blast
  then show ?thesis
    using wpD [OF storage_device.recover_slot_wp [OF assms(1,6,7)] assms(8)] assms(5,9)
    by (auto simp: current_none)
qed

lemma failed_restore_recovered_witness:
  "card_files (snd (run_state (manager_storage_recover_slot cio 1) (card_cut\<lparr>budget := 100\<rparr>)))
     (target_file 1) = Some (File [9])"
proof -
  obtain q v where v: "run_state (manager_storage_recover_slot cio (backup_slot card_backup))
      (card_cut\<lparr>budget := 100\<rparr>) = (q, v)" by (metis surj_pair)
  have b: "backup_slot card_backup = 1" by (simp add: card_backup_def)
  have "current (card_files card_cut) (backup_slot card_backup) = Some (File [9])"
    by (simp add: current_def card_cut_def b)
  moreover have "\<not> failed q" using card_cut_recover v by (simp add: b)
  ultimately show ?thesis
    using failed_restore_recovered [OF card.storage_device_axioms card_cut_restore _ _ _ _ _ v] v b by simp
qed

section \<open>Recovering and backing up\<close>

text \<open>
  C16: Recovery, run at every start of the manager, keeps the current save of each slot whether it
  succeeds or not, and when it succeeds every slot is settled: its save, if any, is a file in its
  own place and no rollback or temporary file is left.
\<close>

theorem recover_keeps_current:
  assumes "storage_device io files reader writer"
    and "run_state (manager_storage_recover io) s = (r, t)" "k \<in> {1, 2, 3}"
  shows "current (files t) k = current (files s) k \<and> (\<not> failed r \<longrightarrow> settled (files t) k)"
  using wpD [OF storage_device.recover_wp [OF assms(1)] assms(2)] assms(3)
  unfolding slots_recovered_def by blast

lemma recover_keeps_current_witness:
  "\<exists>r t. run_state (manager_storage_recover cio) card_start = (r, t) \<and>
    current (card_files t) 1 = Some (File [1, 2])"
proof -
  obtain r t where r: "run_state (manager_storage_recover cio)
      card_start = (r, t)" by (metis surj_pair)
  from recover_keeps_current [OF card.storage_device_axioms r, of 1] r show ?thesis
    using card_start_current by simp
qed

text \<open>
  C17: A backup never touches the slot's save or an existing backup, and one that reports success
  returns a backup a restore will accept, at a path that was free, holding a file with the length
  and SHA-256 of the slot's current save.
\<close>

theorem backup_exact:
  assumes "storage_device io files reader writer"
    and "run_state (manager_storage_backup_slot io k) s = ((r, b), t)"
  shows "current (files t) k = current (files s) k \<and>
    (\<forall>i x. files s (backup_name ''slot'' k i) = Some x \<longrightarrow> files t (backup_name ''slot'' k i) = Some x) \<and>
    (\<not> failed r \<longrightarrow> (\<exists>a c d. b = Some a \<and> manager_storage_backup_allowed a \<and> backup_slot a = k \<and>
       backup_size a = length c \<and> files s (path a) = None \<and>
       current (files s) k = Some (File c) \<and> files t (path a) = Some (File d) \<and>
       sha256 d = sha256 c \<and> length d = length c))"
  using wpD [OF storage_device.backup_slot_wp [OF assms(1)] assms(2)] by simp

lemma backup_exact_witness:
  "\<exists>r b t. run_state (manager_storage_backup_slot cio 1) card_start =
      ((r, b), t) \<and> current (card_files t) 1 = Some (File [1, 2]) \<and>
    card_files t (backup_name ''slot'' 1 0) = Some (File [3])"
proof -
  obtain r b t where r: "run_state (manager_storage_backup_slot cio 1)
      card_start = ((r, b), t)" by (metis surj_pair)
  have "card_files card_start (backup_name ''slot'' 1 0) = Some (File [3])"
    by (simp add: card_start_def file_names)
  with backup_exact [OF card.storage_device_axioms r] r card_start_current show ?thesis by auto
qed

text \<open>
  C18: The console's table keeps the device contract over file services that behave as documented:
  in particular an error other than \<open>ENOENT\<close> is never taken for an absent file.
\<close>

theorem vita_keeps_contract:
  assumes "sce_device sce files reader writer"
  shows "storage_device (manager_storage_vita_io sce) files reader writer"
  by (rule sce_device.contract [OF assms])

lemma vita_keeps_contract_witness: "storage_device cio card_files card_readers card_writers"
  by (rule vita_keeps_contract [OF card.sce_device_axioms])

section \<open>Names, listings and mods\<close>

text \<open>
  C19: The local backup names are exactly those the backup function generates: a name parses to slot
  and number precisely when it is the formatted name of a slot from 1 to 3 and a number below 10000.
\<close>

theorem local_name_exact:
  "manager_storage_parse_local_name n = Some (k, i) \<longleftrightarrow>
     1 \<le> k \<and> k \<le> 3 \<and> i \<le> 9999 \<and> n = ''slot'' @ decimal k @ ''-'' @ decimal4 i @ ''.dat''"
proof
  assume p: "manager_storage_parse_local_name n = Some (k, i)"
  define e where "e j = (of_char (n ! j) :: nat) - 48" for j
  have f: "length n = 14" "take 4 n = ''slot''" "n ! 5 = CHR ''-''" "take 4 (drop 10 n) = ''.dat''"
    "49 \<le> (of_char (n ! 4) :: nat)" "(of_char (n ! 4) :: nat) \<le> 51"
    "isdigit (n ! 6)" "isdigit (n ! 7)" "isdigit (n ! 8)" "isdigit (n ! 9)"
    "k = e 4" "i = e 6 * 1000 + e 7 * 100 + e 8 * 10 + e 9"
    using p by (auto simp: manager_storage_parse_local_name_def Let_def e_def split: if_splits)
  have d: "n ! j = digit (e j) \<and> e j < 10" if "isdigit (n ! j)" for j
    using digit_of [OF that] by (auto simp: e_def)
  have k: "1 \<le> k" "k \<le> 3" "n ! 4 = digit k"
    using f(5,6) d [of 4] by (auto simp: f(11) e_def isdigit_def)
  have "drop 10 n = ''.dat''" using f(1,4) by simp
  moreover have "decimal k = [digit k]" using k decimal_digit [of k] by (simp add: digit_def)
  moreover have "decimal4 i = [n ! 6, n ! 7, n ! 8, n ! 9]" "i \<le> 9999"
    using digits_back [of "e 6" "e 7" "e 8" "e 9"] d f(7-10) decimal4_digits [of i]
    unfolding f(12) by (simp_all add: digit_def)
  ultimately show "1 \<le> k \<and> k \<le> 3 \<and> i \<le> 9999 \<and> n = ''slot'' @ decimal k @ ''-'' @ decimal4 i @ ''.dat''"
    using list14 [OF f(1)] f(2,3) k by simp
next
  assume "1 \<le> k \<and> k \<le> 3 \<and> i \<le> 9999 \<and> n = ''slot'' @ decimal k @ ''-'' @ decimal4 i @ ''.dat''"
  then show "manager_storage_parse_local_name n = Some (k, i)"
    using local_name_roundtrip by blast
qed

text \<open>
  C20: Listing the backups ends, on any device whose directory streams deliver the entries of their
  directory one by one, failing at any point or not.  Every backup offered is one a restore accepts;
  there are no more of them than the caller has room for, they come with the latest label first, and
  a failed listing is empty.  A listing that succeeds and reports nothing skipped offers every dated
  save of the save directory and every backup of the backup directory, under its path, slot and size.
\<close>

theorem listed_backups_restorable:
  assumes "storage_listing io listed stream"
  shows "\<exists>r es n t. manager_storage_list_save_backups io capacity s = Some ((r, es, n), t) \<and>
    (\<forall>e \<in> set es. manager_storage_backup_allowed e) \<and> length es \<le> capacity \<and>
    sorted_wrt (\<lambda>a b. strcmp (label a) (label b) \<ge> 0) es \<and> (failed r \<longrightarrow> es = []) \<and>
    (r = MANAGER_STORAGE_OK \<and> n = 0 \<longrightarrow>
       (\<forall>e k. e \<in> set (listed s MANAGER_STORAGE_SAVE_ROOT) \<and> entry_kind e = MANAGER_STORAGE_NODE_FILE \<and>
          manager_storage_safe_segment (entry_name e) \<and>
          manager_storage_parse_dated_name (entry_name e) = Some k \<longrightarrow>
          (\<exists>b \<in> set es. origin b = MANAGER_SAVE_BACKUP_DATED \<and> backup_slot b = k \<and>
             backup_size b = entry_size e \<and> path b = MANAGER_STORAGE_SAVE_ROOT @ ''/'' @ entry_name e)) \<and>
       (\<forall>e k i. e \<in> set (listed s MANAGER_STORAGE_BACKUP_ROOT) \<and> entry_kind e = MANAGER_STORAGE_NODE_FILE \<and>
          manager_storage_safe_segment (entry_name e) \<and>
          manager_storage_parse_local_name (entry_name e) = Some (k, i) \<longrightarrow>
          (\<exists>b \<in> set es. origin b = MANAGER_SAVE_BACKUP_LOCAL \<and> backup_slot b = k \<and>
             backup_size b = entry_size e \<and> path b = MANAGER_STORAGE_BACKUP_ROOT @ ''/'' @ entry_name e)))"
proof -
  obtain r es n t where l: "manager_storage_list_save_backups io capacity s = Some ((r, es, n), t)"
    "offered capacity es" "sorted_wrt (\<lambda>a b. strcmp (label a) (label b) \<ge> 0) es" "failed r \<longrightarrow> es = []"
    "r = MANAGER_STORAGE_OK \<longrightarrow> n = 0 \<longrightarrow>
       flat_found MANAGER_SAVE_BACKUP_DATED MANAGER_STORAGE_SAVE_ROOT
         (listed s MANAGER_STORAGE_SAVE_ROOT) es \<and>
       flat_found MANAGER_SAVE_BACKUP_LOCAL MANAGER_STORAGE_BACKUP_ROOT
         (listed s MANAGER_STORAGE_BACKUP_ROOT) es"
    using storage_listing.list_save_backups_ends [OF assms] by blast
  show ?thesis
  proof (intro exI conjI impI allI)
    show "manager_storage_list_save_backups io capacity s = Some ((r, es, n), t)" by (rule l(1))
  qed (use l in \<open>auto simp: offered_def flat_found_def flat_slot_def\<close>)
qed

lemma listed_backups_restorable_witness:
  "(\<exists>t. manager_storage_list_save_backups cio 8 card_listed =
     Some ((MANAGER_STORAGE_OK, [card_backup], 0), t)) \<and> manager_storage_backup_allowed card_backup"
  using card_list listed_backups_restorable [OF card_dirs.listing, of 8 card_listed] by auto

text \<open>
  C21: Switching a mod changes only its marker and its stash; on success the marker is absent exactly
  when the mod was enabled; and the contents of the marker and the stash are never lost.
\<close>

theorem mod_switch_exact:
  assumes "storage_device io files reader writer"
    and "run_state (manager_storage_set_mod_enabled io name enabled) s = (r, t)"
  shows "(\<forall>x. x \<notin> {mod_marker name, mod_stash name} \<longrightarrow> files t x = files s x) \<and>
    (\<not> failed r \<longrightarrow> (if enabled then files t (mod_marker name) = None
       else \<exists>c. files t (mod_marker name) = Some (File c))) \<and>
    (\<forall>x. files s (mod_marker name) = Some x \<or> files s (mod_stash name) = Some x \<longrightarrow>
       files t (mod_marker name) = Some x \<or> files t (mod_stash name) = Some x)"
  using wpD [OF storage_device.set_mod_enabled_wp [OF assms(1)] assms(2)] by simp

lemma mod_switch_exact_witness:
  "\<exists>r t. run_state (manager_storage_set_mod_enabled cio ''m'' True) card_start = (r, t) \<and>
     card_files t (target_file 1) = Some (File [1, 2])"
proof -
  obtain r t where r: "run_state (manager_storage_set_mod_enabled cio ''m'' True) card_start = (r, t)"
    by (metis surj_pair)
  have "target_file 1 \<notin> {mod_marker ''m'', mod_stash ''m''}"
    by (simp add: file_names mod_marker_def mod_stash_def MANAGER_STORAGE_MOD_ROOT_def)
  then show ?thesis using mod_switch_exact [OF card.storage_device_axioms r] r
    by (auto simp: card_start_def file_names)
qed

end
