(* ===== verification/Png_Rows.thy ===== *)
theory Png_Rows imports Prelude begin

text \<open>
  The native PNG row filter, \<open>runtime/host_vita_png_unfilter_native.c\<close>.
  A buffer handed over as pointer and capacity is its address with its bytes, \<open>None\<close> for \<open>NULL\<close>.
  The vector kernels are modelled beside the scalar loops, selected by the flag \<open>neon\<close> as by
  the build.  Row indices are natural numbers: each is below \<open>rowbytes\<close>.
\<close>

unbundle bit_operations_syntax

section \<open>Row filters\<close>

type_synonym buffer = "(u32 \<times> u8 list) option"

datatype png_filter = ISAAC_PNG_FILTER_NONE | ISAAC_PNG_FILTER_SUB | ISAAC_PNG_FILTER_UP
  | ISAAC_PNG_FILTER_AVG | ISAAC_PNG_FILTER_PAETH

definition png_filter_of :: "u32 \<Rightarrow> png_filter option" where
  "png_filter_of t =
     (if t = 0 then Some ISAAC_PNG_FILTER_NONE else if t = 1 then Some ISAAC_PNG_FILTER_SUB
      else if t = 2 then Some ISAAC_PNG_FILTER_UP else if t = 3 then Some ISAAC_PNG_FILTER_AVG
      else if t = 4 then Some ISAAC_PNG_FILTER_PAETH else None)"

definition load_u32le :: "u8 list \<Rightarrow> nat \<Rightarrow> u32" where
  "load_u32le b i = ucast (b ! i) OR push_bit 8 (ucast (b ! (i + 1))) OR
     push_bit 16 (ucast (b ! (i + 2))) OR push_bit 24 (ucast (b ! (i + 3)))"

definition equal_length_ranges_overlap :: "u32 \<Rightarrow> u32 \<Rightarrow> u32 \<Rightarrow> bool" where
  "equal_length_ranges_overlap left right len =
     (if len = 0 \<or> left = right then left = right \<and> len \<noteq> 0
      else if left < right then right - left < len else left - right < len)"

text \<open>\<open>for (index = a; index < n; ++index) row[index] += prediction\<close>.\<close>

definition row_loop :: "(u8 list \<Rightarrow> nat \<Rightarrow> u8) \<Rightarrow> nat \<Rightarrow> nat \<Rightarrow> u8 list \<Rightarrow> u8 list" where
  "row_loop prediction a n row =
     foldl (\<lambda>r index. r[index := r ! index + prediction r index]) row [a..<n]"

text \<open>One vector step adds sixteen bytes of the row above at once.\<close>

definition up_vector :: "u8 list \<Rightarrow> nat \<Rightarrow> u8 list \<Rightarrow> u8 list" where
  "up_vector previous index row =
     take index row @ map2 (+) (take 16 (drop index row)) (take 16 (drop index previous)) @
     drop (index + 16) row"

function up_vectors :: "u8 list \<Rightarrow> nat \<Rightarrow> nat \<Rightarrow> u8 list \<Rightarrow> nat \<times> u8 list" where
  "up_vectors previous n index row =
     (if n - index \<ge> 16 then up_vectors previous n (index + 16) (up_vector previous index row)
      else (index, row))"
  by pat_completeness auto
termination by (relation "measure (\<lambda>(_, n, index, _). n - index)") auto

declare up_vectors.simps [simp del]

definition filter_up_nonoverlap :: "bool \<Rightarrow> u8 list \<Rightarrow> nat \<Rightarrow> u8 list \<Rightarrow> u8 list" where
  "filter_up_nonoverlap neon previous n row =
     (case (if neon then up_vectors previous n 0 row else (0, row)) of
        (index, row) \<Rightarrow> row_loop (\<lambda>_ i. previous ! i) index n row)"

definition paeth_predictor :: "u8 \<Rightarrow> u8 \<Rightarrow> u8 \<Rightarrow> u8" where
  "paeth_predictor left abv upper_left =
     (let pa = uint abv - uint upper_left;
          pb = uint left - uint upper_left;
          pc = pa + pb;
          pa = (if pa < 0 then - pa else pa);
          pb = (if pb < 0 then - pb else pb);
          pc = (if pc < 0 then - pc else pc)
      in if pa \<le> pb \<and> pa \<le> pc then left else if pb \<le> pc then abv else upper_left)"

definition filter_sub :: "nat \<Rightarrow> nat \<Rightarrow> u8 list \<Rightarrow> u8 list" where
  "filter_sub n bpp row = row_loop (\<lambda>r i. r ! (i - bpp)) bpp n row"

text \<open>The sum of two bytes is an \<open>unsigned int\<close> and does not wrap before the shift.\<close>

definition average :: "u8 \<Rightarrow> u8 \<Rightarrow> u8" where
  "average a b = ucast (drop_bit 1 (ucast a + ucast b :: u32))"

definition filter_average :: "u8 list \<Rightarrow> nat \<Rightarrow> nat \<Rightarrow> u8 list \<Rightarrow> u8 list" where
  "filter_average previous n bpp row =
     row_loop (\<lambda>r i. average (previous ! i) (r ! (i - bpp))) bpp n
       (row_loop (\<lambda>_ i. drop_bit 1 (previous ! i)) 0 bpp row)"

definition filter_paeth :: "u8 list \<Rightarrow> nat \<Rightarrow> nat \<Rightarrow> u8 list \<Rightarrow> u8 list" where
  "filter_paeth previous n bpp row =
     row_loop (\<lambda>r i. paeth_predictor (r ! (i - bpp)) (previous ! i) (previous ! (i - bpp))) bpp n
       (row_loop (\<lambda>_ i. previous ! i) 0 bpp row)"

definition ISAAC_VITA_PNG_ROW_INFO_BYTES :: nat where "ISAAC_VITA_PNG_ROW_INFO_BYTES = 12"

text \<open>\<open>None\<close> is \<open>FALLBACK\<close>, no byte changed; \<open>Some row\<close> is \<open>HANDLED\<close> with the new row.\<close>

definition isaac_vita_png_unfilter_try ::
    "bool \<Rightarrow> u8 list option \<Rightarrow> buffer \<Rightarrow> buffer \<Rightarrow> u32 \<Rightarrow> u8 list option" where
  "isaac_vita_png_unfilter_try neon row_info row previous_row filter_type =
     (case (png_filter_of filter_type, row_info) of
        (Some f, Some info) \<Rightarrow>
          if length info < ISAAC_VITA_PNG_ROW_INFO_BYTES then None
          else
            let rowbytes = load_u32le info 4;
                bpp = drop_bit 3 (ucast (info ! 11) + 7) :: u32 in
            if rowbytes = 0 \<or> bpp = 0 \<or> bpp > 8 then None
            else (case row of None \<Rightarrow> None
            | Some (address, bytes) \<Rightarrow>
                if length bytes < unat rowbytes then None
                else if (f = ISAAC_PNG_FILTER_SUB \<or> f = ISAAC_PNG_FILTER_AVG \<or>
                         f = ISAAC_PNG_FILTER_PAETH) \<and> rowbytes < bpp then None
                else if filter_type < 2
                then Some (if f = ISAAC_PNG_FILTER_SUB
                           then filter_sub (unat rowbytes) (unat bpp) bytes else bytes)
                else (case previous_row of None \<Rightarrow> None
                | Some (previous_address, previous) \<Rightarrow>
                    if length previous < unat rowbytes then None
                    else if equal_length_ranges_overlap address previous_address rowbytes then None
                    else Some (case f of
                        ISAAC_PNG_FILTER_UP \<Rightarrow> filter_up_nonoverlap neon previous (unat rowbytes) bytes
                      | ISAAC_PNG_FILTER_AVG \<Rightarrow>
                          filter_average previous (unat rowbytes) (unat bpp) bytes
                      | ISAAC_PNG_FILTER_PAETH \<Rightarrow>
                          filter_paeth previous (unat rowbytes) (unat bpp) bytes
                      | _ \<Rightarrow> bytes)))
      | _ \<Rightarrow> None)"

section \<open>The filters of the PNG standard\<close>

text \<open>
  The predictor of a byte from the reconstructed row \<open>out\<close> so far and the row above: pixels to
  the left of the row count as zero.
\<close>

definition png_predictor :: "png_filter \<Rightarrow> nat \<Rightarrow> u8 list \<Rightarrow> u8 list \<Rightarrow> nat \<Rightarrow> u8" where
  "png_predictor f bpp prior out i =
     (let a = (if i < bpp then 0 else out ! (i - bpp));
          b = prior ! i;
          c = (if i < bpp then 0 else prior ! (i - bpp)) in
      case f of ISAAC_PNG_FILTER_NONE \<Rightarrow> 0 | ISAAC_PNG_FILTER_SUB \<Rightarrow> a | ISAAC_PNG_FILTER_UP \<Rightarrow> b
      | ISAAC_PNG_FILTER_AVG \<Rightarrow> word_of_int ((uint a + uint b) div 2)
      | ISAAC_PNG_FILTER_PAETH \<Rightarrow>
          let p = uint a + uint b - uint c in
          if \<bar>p - uint a\<bar> \<le> \<bar>p - uint b\<bar> \<and> \<bar>p - uint a\<bar> \<le> \<bar>p - uint c\<bar> then a
          else if \<bar>p - uint b\<bar> \<le> \<bar>p - uint c\<bar> then b else c)"

definition png_filter_row :: "png_filter \<Rightarrow> nat \<Rightarrow> u8 list \<Rightarrow> u8 list \<Rightarrow> u8 list" where
  "png_filter_row f bpp prior xs = map (\<lambda>i. xs ! i - png_predictor f bpp prior xs i) [0..<length xs]"

definition png_reconstruct :: "png_filter \<Rightarrow> nat \<Rightarrow> u8 list \<Rightarrow> u8 list \<Rightarrow> u8 list" where
  "png_reconstruct f bpp prior xs =
     foldl (\<lambda>out i. out @ [xs ! i + png_predictor f bpp prior out i]) [] [0..<length xs]"

section \<open>The loops against the standard\<close>

lemma length_row_loop [simp]: "length (row_loop p a n row) = length row"
proof (induction n)
  case (Suc n)
  then show ?case by (cases "a \<le> n") (simp_all add: row_loop_def)
qed (simp add: row_loop_def)

lemma row_loop_Suc:
  "a \<le> n \<Longrightarrow> row_loop p a (Suc n) row =
     (let r = row_loop p a n row in r[n := r ! n + p r n])"
  by (simp add: row_loop_def Let_def)

lemma row_loop_empty [simp]: "n \<le> a \<Longrightarrow> row_loop p a n row = row"
  by (simp add: row_loop_def)

lemma row_loop_cong:
  "(\<And>r i. a \<le> i \<Longrightarrow> i < n \<Longrightarrow> length r = length row \<Longrightarrow> p r i = q r i) \<Longrightarrow>
   row_loop p a n row = row_loop q a n row"
proof (induction n)
  case (Suc n)
  then have "row_loop p a n row = row_loop q a n row" by simp
  then show ?case using Suc.prems by (cases "a \<le> n") (simp_all add: row_loop_Suc Let_def)
qed simp

lemma row_loop_join:
  assumes "a \<le> b" "b \<le> n"
  shows "row_loop p b n (row_loop p a b row) = row_loop p a n row"
proof -
  have "[a..<n] = [a..<b] @ [b..<n]" using assms by (metis le_Suc_ex upt_add_eq_append)
  then show ?thesis by (simp add: row_loop_def)
qed

lemma row_loop_zero: "row_loop (\<lambda>_ _. 0) a n row = row"
proof (induction n)
  case (Suc n)
  then show ?case by (cases "a \<le> n") (simp_all add: row_loop_Suc Let_def)
qed simp

lemma nth_row_loop_other: "i < a \<or> n \<le> i \<Longrightarrow> row_loop p a n row ! i = row ! i"
proof (induction n)
  case (Suc n)
  then show ?case by (cases "a \<le> n") (auto simp: row_loop_Suc Let_def nth_list_update)
qed (simp add: row_loop_def)

lemma row_loop_prefix:
  "n \<le> length row \<Longrightarrow> (\<And>r i. i < n \<Longrightarrow> length r = length row \<Longrightarrow> p r i = q (take i r) i) \<Longrightarrow>
   row_loop p 0 n row =
     foldl (\<lambda>out i. out @ [row ! i + q out i]) [] [0..<n] @ drop n row"
proof (induction n)
  case 0
  then show ?case by simp
next
  case (Suc n)
  define out where "out = foldl (\<lambda>out i. out @ [row ! i + q out i]) [] [0..<n]"
  have len: "length (foldl (\<lambda>out i. out @ [row ! i + q out i]) xs ks) = length xs + length ks" for xs ks
    by (induction ks arbitrary: xs) auto
  have l: "length out = n" by (simp add: out_def len)
  have ih: "row_loop p 0 n row = out @ drop n row"
    using Suc unfolding out_def by simp
  have "p (out @ drop n row) n = q out n" using Suc.prems l by simp
  moreover have "drop n row = row ! n # drop (Suc n) row" using Suc.prems(1) by (simp add: Cons_nth_drop_Suc)
  ultimately show ?case
    using l by (simp add: row_loop_Suc ih Let_def nth_append list_update_append out_def [symmetric])
qed

lemma unat_half: "unat (drop_bit 1 (w :: 'a::len word)) = unat w div 2"
  by (subst unat_drop_bit_eq) (simp add: drop_bit_eq_div)

lemma half_spec: "drop_bit 1 (w :: u8) = word_of_int (uint w div 2)"
proof -
  have "drop_bit 1 w = of_nat (unat w div 2)" by (metis unat_half of_nat_unat ucast_id)
  also have "\<dots> = word_of_int (int (unat w div 2))" by simp
  finally show ?thesis by (simp add: zdiv_int)
qed

lemma average_spec: "average a b = word_of_int ((uint b + uint a) div 2)"
proof -
  have "unat (ucast a :: u32) = unat a" "unat (ucast b :: u32) = unat b"
    by (simp_all add: unat_ucast_up)
  then have "unat (ucast a + ucast b :: u32) = unat a + unat b"
    using unat_bound [of a] unat_bound [of b] by (subst unat_plus_small) simp_all
  then have "unat (drop_bit 1 (ucast a + ucast b :: u32)) = (unat a + unat b) div 2"
    by (simp only: unat_half)
  then have "average a b = of_nat ((unat a + unat b) div 2)"
    unfolding average_def by (metis of_nat_unat)
  also have "\<dots> = word_of_int (int ((unat a + unat b) div 2))" by simp
  also have "int ((unat a + unat b) div 2) = (uint b + uint a) div 2"
    by (simp add: zdiv_int add.commute)
  finally show ?thesis .
qed

lemma paeth_spec:
  "paeth_predictor a b c =
     (let p = uint a + uint b - uint c in
      if \<bar>p - uint a\<bar> \<le> \<bar>p - uint b\<bar> \<and> \<bar>p - uint a\<bar> \<le> \<bar>p - uint c\<bar> then a
      else if \<bar>p - uint b\<bar> \<le> \<bar>p - uint c\<bar> then b else c)"
proof -
  have "uint a + uint b - uint c - uint a = uint b - uint c"
    "uint a + uint b - uint c - uint b = uint a - uint c"
    "uint a + uint b - uint c - uint c = (uint b - uint c) + (uint a - uint c)" by simp_all
  then show ?thesis unfolding paeth_predictor_def Let_def abs_if by auto
qed

lemma row_loop_split:
  assumes "bpp \<le> n"
    and "\<And>r i. i < bpp \<Longrightarrow> length r = length row \<Longrightarrow> p r i = q (take i r) i"
    and "\<And>r i. bpp \<le> i \<Longrightarrow> i < n \<Longrightarrow> length r = length row \<Longrightarrow> p' r i = q (take i r) i"
    and "n \<le> length row"
  shows "row_loop p' bpp n (row_loop p 0 bpp row) =
    foldl (\<lambda>out i. out @ [row ! i + q out i]) [] [0..<n] @ drop n row"
proof -
  define h where "h r i = (if i < bpp then p r i else p' r i)" for r i
  have "row_loop p 0 bpp row = row_loop h 0 bpp row" by (rule row_loop_cong) (simp add: h_def)
  moreover have "row_loop p' bpp n (row_loop h 0 bpp row) = row_loop h bpp n (row_loop h 0 bpp row)"
    by (rule row_loop_cong) (simp add: h_def)
  ultimately have "row_loop p' bpp n (row_loop p 0 bpp row) = row_loop h 0 n row"
    using row_loop_join [of 0 bpp n h row] assms(1) by simp
  also have "\<dots> = foldl (\<lambda>out i. out @ [row ! i + q out i]) [] [0..<n] @ drop n row"
    by (rule row_loop_prefix) (use assms in \<open>auto simp: h_def\<close>)
  finally show ?thesis .
qed

lemma reconstruct_take:
  assumes "n \<le> length row"
  shows "png_reconstruct f bpp prior (take n row) =
    foldl (\<lambda>out i. out @ [row ! i + png_predictor f bpp prior out i]) [] [0..<n]"
  using assms by (auto simp: png_reconstruct_def intro!: foldl_cong)

lemma filter_sub_exact:
  assumes "0 < bpp" "bpp \<le> n" "n \<le> length row"
  shows "filter_sub n bpp row =
    png_reconstruct ISAAC_PNG_FILTER_SUB bpp prior (take n row) @ drop n row"
proof -
  have "filter_sub n bpp row = row_loop (\<lambda>r i. r ! (i - bpp)) bpp n (row_loop (\<lambda>_ _. 0) 0 bpp row)"
    by (simp add: filter_sub_def row_loop_zero)
  also have "\<dots> = foldl (\<lambda>out i. out @ [row ! i +
      png_predictor ISAAC_PNG_FILTER_SUB bpp prior out i]) [] [0..<n] @ drop n row"
    by (rule row_loop_split) (use assms in \<open>auto simp: png_predictor_def Let_def\<close>)
  finally show ?thesis using reconstruct_take [OF assms(3)] by simp
qed

lemma filter_average_exact:
  assumes "0 < bpp" "bpp \<le> n" "n \<le> length row"
  shows "filter_average prior n bpp row =
    png_reconstruct ISAAC_PNG_FILTER_AVG bpp prior (take n row) @ drop n row"
proof -
  have "filter_average prior n bpp row = foldl (\<lambda>out i. out @ [row ! i +
      png_predictor ISAAC_PNG_FILTER_AVG bpp prior out i]) [] [0..<n] @ drop n row"
    unfolding filter_average_def
    by (rule row_loop_split)
      (use assms in \<open>auto simp: png_predictor_def Let_def average_spec half_spec [unfolded One_nat_def]\<close>)
  then show ?thesis using reconstruct_take [OF assms(3)] by simp
qed

lemma filter_paeth_exact:
  assumes "0 < bpp" "bpp \<le> n" "n \<le> length row"
  shows "filter_paeth prior n bpp row =
    png_reconstruct ISAAC_PNG_FILTER_PAETH bpp prior (take n row) @ drop n row"
proof -
  have "filter_paeth prior n bpp row = foldl (\<lambda>out i. out @ [row ! i +
      png_predictor ISAAC_PNG_FILTER_PAETH bpp prior out i]) [] [0..<n] @ drop n row"
    unfolding filter_paeth_def
    by (rule row_loop_split)
      (use assms in \<open>simp_all add: png_predictor_def Let_def paeth_spec unsigned_eq_0_iff\<close>)
  then show ?thesis using reconstruct_take [OF assms(3)] by simp
qed

lemma up_vector_loop:
  assumes "index + 16 \<le> length row" "index + 16 \<le> length previous"
  shows "up_vector previous index row = row_loop (\<lambda>_ i. previous ! i) index (index + 16) row"
proof (rule nth_equalityI)
  have step: "j < length row \<Longrightarrow> row_loop (\<lambda>_ i. previous ! i) index (index + k) row ! j =
      (if index \<le> j \<and> j < index + k then row ! j + previous ! j else row ! j)" for j k
    by (induction k) (auto simp: row_loop_Suc Let_def nth_list_update less_Suc_eq)
  have l: "length (up_vector previous index row) = length row" using assms by (simp add: up_vector_def)
  show "length (up_vector previous index row) =
      length (row_loop (\<lambda>_ i. previous ! i) index (index + 16) row)" using l by simp
  fix j assume "j < length (up_vector previous index row)"
  then have j: "j < length row" using l by simp
  then show "up_vector previous index row ! j =
      row_loop (\<lambda>_ i. previous ! i) index (index + 16) row ! j"
    using assms by (auto simp: step up_vector_def nth_append add.commute)
qed

lemma up_vectors_loop:
  assumes "n \<le> length row" "n \<le> length previous" "index \<le> n"
  shows "case up_vectors previous n index row of (k, r) \<Rightarrow>
    index \<le> k \<and> k \<le> n \<and> r = row_loop (\<lambda>_ i. previous ! i) index k row"
  using assms
proof (induction "n - index" arbitrary: index row rule: less_induct)
  case less
  show ?case
  proof (cases "16 \<le> n - index")
    case True
    define r where "r = row_loop (\<lambda>_ i. previous ! i) index (index + 16) row"
    have v: "up_vector previous index row = r"
      unfolding r_def using True less.prems by (intro up_vector_loop) auto
    have e: "up_vectors previous n index row = up_vectors previous n (index + 16) r"
      using True by (subst up_vectors.simps) (simp add: v)
    obtain k q where kq: "up_vectors previous n (index + 16) r = (k, q)" by (cases "up_vectors previous n (index + 16) r")
    have "index + 16 \<le> k \<and> k \<le> n \<and> q = row_loop (\<lambda>_ i. previous ! i) (index + 16) k r"
      using less.hyps [of "index + 16" r] True less.prems kq by (simp add: r_def)
    then show ?thesis unfolding e kq
      using row_loop_join [of index "index + 16" k "\<lambda>_ i. previous ! i" row] by (simp add: r_def)
  next
    case False
    then show ?thesis using less.prems by (subst up_vectors.simps) simp
  qed
qed

lemma filter_up_exact:
  assumes "n \<le> length row" "n \<le> length prior"
  shows "filter_up_nonoverlap neon prior n row =
    png_reconstruct ISAAC_PNG_FILTER_UP bpp prior (take n row) @ drop n row"
proof -
  have "filter_up_nonoverlap neon prior n row = row_loop (\<lambda>_ i. prior ! i) 0 n row"
    using up_vectors_loop [of n row prior 0] row_loop_join [of 0 _ n "\<lambda>_ i. prior ! i" row] assms
    by (auto simp: filter_up_nonoverlap_def split: prod.splits)
  also have "\<dots> = foldl (\<lambda>out i. out @ [row ! i +
      png_predictor ISAAC_PNG_FILTER_UP bpp prior out i]) [] [0..<n] @ drop n row"
    by (rule row_loop_prefix) (use assms in \<open>simp_all add: png_predictor_def Let_def\<close>)
  finally show ?thesis using reconstruct_take [OF assms(1)] by simp
qed

lemma filter_none_exact: "png_reconstruct ISAAC_PNG_FILTER_NONE bpp prior xs = xs"
proof -
  have "foldl (\<lambda>out i. out @ [xs ! i + png_predictor ISAAC_PNG_FILTER_NONE bpp prior out i]) []
      [0..<k] = take k xs" if "k \<le> length xs" for k
    using that by (induction k) (simp_all add: png_predictor_def Let_def take_Suc_conv_app_nth)
  then show ?thesis by (simp add: png_reconstruct_def)
qed

text \<open>Reconstruction undoes filtering: the reconstructed prefix is the original one throughout.\<close>

lemma reconstruct_filter_row:
  assumes "0 < bpp"
  shows "png_reconstruct f bpp prior (png_filter_row f bpp prior xs) = xs"
proof -
  have p: "png_predictor f bpp prior (take k xs) k = png_predictor f bpp prior xs k" if "k < length xs" for k
    using assms that by (cases "k < bpp") (simp_all add: png_predictor_def Let_def)
  have "foldl (\<lambda>out i. out @ [png_filter_row f bpp prior xs ! i + png_predictor f bpp prior out i]) []
      [0..<k] = take k xs" if "k \<le> length xs" for k
    using that
    by (induction k) (simp_all add: png_filter_row_def p take_Suc_conv_app_nth)
  then show ?thesis by (simp add: png_reconstruct_def png_filter_row_def)
qed

lemma row_bpp: "unat (drop_bit 3 (ucast (d :: u8) + 7) :: u32) = (unat d + 7) div 8"
proof -
  have "unat (ucast d + 7 :: u32) = unat d + 7"
    using unat_bound [of d] by (subst unat_plus_small) (simp_all add: unat_ucast_up)
  then show ?thesis by (subst unat_drop_bit_eq) (simp add: drop_bit_eq_div)
qed

lemma unfilter_exact_row:
  assumes "isaac_vita_png_unfilter_try neon (Some info) (Some (a, bytes)) previous t = Some r"
    and f: "png_filter_of t = Some f"
  defines "n \<equiv> unat (load_u32le info 4)" and "bpp \<equiv> (unat (info ! 11) + 7) div 8"
    and "prior \<equiv> (case previous of None \<Rightarrow> [] | Some (_, p) \<Rightarrow> p)"
  shows "r = png_reconstruct f bpp prior (take n bytes) @ drop n bytes"
proof -
  let ?bpp = "drop_bit 3 (ucast (info ! 11) + 7) :: u32"
  have b: "unat ?bpp = bpp" by (simp add: row_bpp bpp_def)
  have n: "n \<le> length bytes" "?bpp \<noteq> 0"
    using assms(1) unfolding isaac_vita_png_unfilter_try_def f n_def
    by (auto simp: Let_def split: if_splits option.splits)
  have pos: "0 < bpp" using n(2) b by (metis unat_eq_zero bot_nat_0.not_eq_extremum)
  have none: "bytes = png_reconstruct ISAAC_PNG_FILTER_NONE bpp prior (take n bytes) @ drop n bytes"
    by (simp add: filter_none_exact)
  have le: "bpp \<le> n" if "f = ISAAC_PNG_FILTER_SUB \<or> f = ISAAC_PNG_FILTER_AVG \<or> f = ISAAC_PNG_FILTER_PAETH"
    using assms(1) that unfolding isaac_vita_png_unfilter_try_def f n_def b [symmetric]
    by (auto simp: Let_def word_less_nat_alt split: if_splits option.splits)
  have prior: "n \<le> length prior \<and> (\<exists>p. previous = Some (p, prior))" if "\<not> t < 2"
    using assms(1) that unfolding isaac_vita_png_unfilter_try_def f n_def prior_def
    by (auto simp: Let_def split: if_splits option.splits)
  have small: "t < 2 \<longleftrightarrow> f = ISAAC_PNG_FILTER_NONE \<or> f = ISAAC_PNG_FILTER_SUB"
    using f by (auto simp: png_filter_of_def split: if_splits)
  show ?thesis
  proof (cases "t < 2")
    case True
    then have "r = (if f = ISAAC_PNG_FILTER_SUB then filter_sub n bpp bytes else bytes)"
      using assms(1) unfolding isaac_vita_png_unfilter_try_def f n_def b [symmetric]
      by (auto simp: Let_def split: if_splits option.splits)
    then show ?thesis using True small le none filter_sub_exact [OF pos _ n(1)] by auto
  next
    case False
    then obtain p where p: "previous = Some (p, prior)" "n \<le> length prior" using prior by blast
    have "r = (case f of ISAAC_PNG_FILTER_UP \<Rightarrow> filter_up_nonoverlap neon prior n bytes
        | ISAAC_PNG_FILTER_AVG \<Rightarrow> filter_average prior n bpp bytes
        | ISAAC_PNG_FILTER_PAETH \<Rightarrow> filter_paeth prior n bpp bytes | _ \<Rightarrow> bytes)"
      using assms(1) False p(1) unfolding isaac_vita_png_unfilter_try_def f n_def b [symmetric]
      by (auto simp: Let_def split: if_splits option.splits)
    then show ?thesis using False small p le n pos
      by (cases f) (auto intro: filter_up_exact filter_average_exact filter_paeth_exact)
  qed
qed

text \<open>
  C22: A row the native unfilter handles is the row the PNG standard reconstructs, byte by byte in
  sequence, whatever the filter and with the vector kernel or without it; what the buffer holds
  beyond the row is unchanged.  (An unhandled call changes no byte: the model returns no row.)
\<close>

theorem unfilter_exact:
  assumes "isaac_vita_png_unfilter_try neon (Some info) (Some (a, bytes)) previous t = Some r"
  defines "n \<equiv> unat (load_u32le info 4)" and "bpp \<equiv> (unat (info ! 11) + 7) div 8"
    and "prior \<equiv> (case previous of None \<Rightarrow> [] | Some (_, p) \<Rightarrow> p)"
  shows "\<exists>f. png_filter_of t = Some f \<and>
    r = png_reconstruct f bpp prior (take n bytes) @ drop n bytes"
proof -
  obtain f where f: "png_filter_of t = Some f"
    using assms(1) by (auto simp: isaac_vita_png_unfilter_try_def split: option.splits)
  with unfilter_exact_row [OF assms(1)] show ?thesis unfolding n_def bpp_def prior_def by blast
qed

definition row_info_example :: "u8 list" where
  "row_info_example = [0, 0, 0, 0, 3, 0, 0, 0, 0, 0, 0, 8]"

lemma row_info_example: "unat (load_u32le row_info_example 4) = 3"
    "(unat (row_info_example ! 11) + 7) div 8 = 1" "png_filter_of 2 = Some ISAAC_PNG_FILTER_UP"
  by (code_simp, code_simp, code_simp)

lemma unfilter_exact_witness:
  "[11, 22, 33, 40] = png_reconstruct ISAAC_PNG_FILTER_UP 1 [1, 2, 3] [10, 20, 30] @ [40]"
proof -
  have "isaac_vita_png_unfilter_try False (Some row_info_example)
      (Some (100, [10, 20, 30, 40])) (Some (200, [1, 2, 3])) 2 = Some [11, 22, 33, 40]"
    by code_simp
  from unfilter_exact [OF this, unfolded row_info_example] show ?thesis by simp
qed

text \<open>
  C23: The native unfilter inverts the PNG encoder's filters: for every filter and pixel size from
  1 to 8 bytes, a row filtered against the row above is handled and restored exactly.
\<close>

theorem unfilter_roundtrip:
  assumes "png_filter_of t = Some f" "length info \<ge> 12"
    and "unat (load_u32le info 4) = length xs" "xs \<noteq> []"
    and "bpp = (unat (info ! 11) + 7) div 8" "1 \<le> bpp" "bpp \<le> 8" "bpp \<le> length xs"
    and "length prior = length xs" "\<not> equal_length_ranges_overlap a p (load_u32le info 4)"
  shows "isaac_vita_png_unfilter_try neon (Some info) (Some (a, png_filter_row f bpp prior xs))
    (Some (p, prior)) t = Some xs"
proof -
  let ?ys = "png_filter_row f bpp prior xs"
  let ?bpp = "drop_bit 3 (ucast (info ! 11) + 7) :: u32"
  have l: "length ?ys = length xs" by (simp add: png_filter_row_def)
  have b: "unat ?bpp = bpp" by (simp add: row_bpp assms(5))
  have ne: "load_u32le info 4 \<noteq> 0" using assms(3,4) by (metis length_0_conv unat_0)
  have b8: "?bpp \<noteq> 0 \<and> \<not> ?bpp > 8"
  proof
    show "?bpp \<noteq> 0" using b assms(6) by (metis not_one_le_zero unat_0)
    show "\<not> ?bpp > 8" using b assms(7) by (simp add: word_less_nat_alt)
  qed
  have bn: "\<not> load_u32le info 4 < ?bpp" using b assms(3,8) by (simp add: word_less_nat_alt)
  have small: "t < 2 \<longleftrightarrow> f = ISAAC_PNG_FILTER_NONE \<or> f = ISAAC_PNG_FILTER_SUB"
    using assms(1) by (auto simp: png_filter_of_def split: if_splits)
  have "\<exists>r. isaac_vita_png_unfilter_try neon (Some info) (Some (a, ?ys)) (Some (p, prior)) t = Some r"
    using assms ne b8 bn l
    by (simp add: isaac_vita_png_unfilter_try_def ISAAC_VITA_PNG_ROW_INFO_BYTES_def Let_def)
  then obtain r where r: "isaac_vita_png_unfilter_try neon (Some info) (Some (a, ?ys))
      (Some (p, prior)) t = Some r" by blast
  from unfilter_exact_row [OF r assms(1)] have "r = png_reconstruct f bpp prior ?ys"
    by (simp add: assms(3) l assms(5) [symmetric])
  then show ?thesis using r reconstruct_filter_row [of bpp f prior xs] assms(6) by simp
qed

lemma unfilter_roundtrip_witness:
  "isaac_vita_png_unfilter_try True (Some row_info_example)
     (Some (100, png_filter_row ISAAC_PNG_FILTER_UP 1 [1, 2, 3] [7, 7, 9])) (Some (200, [1, 2, 3])) 2 =
   Some [7, 7, 9]"
  by (rule unfilter_roundtrip) (simp_all add: row_info_example, (code_simp)+)

end
