(* ===== verification/Png_Checksums.thy ===== *)
theory Png_Checksums imports Prelude begin

text \<open>
  The native checksums: \<open>runtime/host_vita_png_crc32_native.c\<close> and
  \<open>runtime/host_vita_native_png_adler.c\<close>, the vector kernel of the second modelled lane by lane
  beside the scalar loop and selected by the flag \<open>neon\<close> as by the build.  A buffer is its bytes,
  \<open>None\<close> for \<open>NULL\<close>.
\<close>

unbundle bit_operations_syntax

section \<open>CRC-32\<close>

text \<open>\<open>CRC_BYTE()\<close> over the table of the guest image, a parameter.\<close>

definition CRC_BYTE :: "(u8 \<Rightarrow> u32) \<Rightarrow> u32 \<Rightarrow> u8 \<Rightarrow> u32" where
  "CRC_BYTE table crc b = table (ucast (crc XOR ucast b)) XOR drop_bit 8 crc"

function crc_loop8 :: "(u8 \<Rightarrow> u32) \<Rightarrow> u32 \<Rightarrow> u8 list \<Rightarrow> u32 \<times> u8 list" where
  "crc_loop8 table crc data =
     (if length data \<ge> 8 then
        crc_loop8 table
          (CRC_BYTE table (CRC_BYTE table (CRC_BYTE table (CRC_BYTE table
            (CRC_BYTE table (CRC_BYTE table (CRC_BYTE table (CRC_BYTE table crc
              (data ! 0)) (data ! 1)) (data ! 2)) (data ! 3)) (data ! 4)) (data ! 5))
              (data ! 6)) (data ! 7))
          (drop 8 data)
      else (crc, data))"
  by pat_completeness auto
termination by (relation "measure (\<lambda>(_, _, data). length data)") auto

declare crc_loop8.simps [simp del]

fun crc_loop1 :: "(u8 \<Rightarrow> u32) \<Rightarrow> u32 \<Rightarrow> u8 list \<Rightarrow> u32" where
  "crc_loop1 table crc [] = crc"
| "crc_loop1 table crc (b # data) = crc_loop1 table (CRC_BYTE table crc b) data"

definition isaac_vita_png_crc32_native :: "u32 \<Rightarrow> u8 list option \<Rightarrow> (u8 \<Rightarrow> u32) \<Rightarrow> u32" where
  "isaac_vita_png_crc32_native crc data table =
     (case data of None \<Rightarrow> 0
      | Some bytes \<Rightarrow> (case crc_loop8 table (NOT crc) bytes of
          (crc, rest) \<Rightarrow> NOT (crc_loop1 table crc rest)))"

section \<open>Adler-32\<close>

text \<open>The scalar recurrence over one block of at most 4096 bytes.\<close>

fun adler_bytes :: "u32 \<Rightarrow> u32 \<Rightarrow> u8 list \<Rightarrow> u32 \<times> u32" where
  "adler_bytes sum1 sum2 [] = (sum1, sum2)"
| "adler_bytes sum1 sum2 (b # bs) =
     (let sum1 = sum1 + ucast b in adler_bytes sum1 (sum2 + sum1) bs)"

function adler_scalar :: "u32 \<Rightarrow> u32 \<Rightarrow> u8 list \<Rightarrow> u32 \<times> u32" where
  "adler_scalar sum1 sum2 data =
     (if data = [] then (sum1, sum2)
      else case adler_bytes sum1 sum2 (take 4096 data) of (sum1, sum2) \<Rightarrow>
        adler_scalar (sum1 mod 65521) (sum2 mod 65521) (drop 4096 data))"
  by pat_completeness auto
termination by (relation "measure (\<lambda>(_, _, data). length data)") auto

declare adler_scalar.simps [simp del]

text \<open>
  The vector state: four running sums, four prefix sums and sixteen column sums of 16 bits.
  \<open>vpadalq_u16 (sums, vpaddlq_u8 value)\<close> adds to lane \<open>i\<close> the bytes \<open>4 i\<close> to \<open>4 i + 3\<close>.
\<close>

record adler_lanes =
  sums :: "u32 list"
  prefixes :: "u32 list"
  columns :: "u16 list"

definition adler_vector :: "adler_lanes \<Rightarrow> u8 list \<Rightarrow> adler_lanes" where
  "adler_vector v b =
     \<lparr>sums = map (\<lambda>i. sums v ! i + ucast (ucast (b ! (4 * i)) + ucast (b ! (4 * i + 1)) :: u16) +
                        ucast (ucast (b ! (4 * i + 2)) + ucast (b ! (4 * i + 3)) :: u16)) [0..<4],
      prefixes = map2 (+) (prefixes v) (sums v),
      columns = map2 (\<lambda>c x. c + ucast x) (columns v) b\<rparr>"

text \<open>Over a block of whole vectors.\<close>

fun adler_vectors :: "nat \<Rightarrow> adler_lanes \<Rightarrow> u8 list \<Rightarrow> adler_lanes" where
  "adler_vectors 0 v data = v"
| "adler_vectors (Suc k) v data = adler_vectors k (adler_vector v (take 16 data)) (drop 16 data)"

text \<open>\<open>vmull_u16\<close> and \<open>vmlal_u16\<close>: lane \<open>i\<close> of \<open>weighted\<close> gets the columns \<open>i\<close>, \<open>i + 4\<close>, \<open>i + 8\<close>, \<open>i + 12\<close>.\<close>

definition adler_weighted :: "u16 list \<Rightarrow> u32 list" where
  "adler_weighted cs = map (\<lambda>i. ucast (cs ! i) * of_nat (16 - i) + ucast (cs ! (i + 4)) * of_nat (12 - i) +
     ucast (cs ! (i + 8)) * of_nat (8 - i) + ucast (cs ! (i + 12)) * of_nat (4 - i)) [0..<4]"

definition np_adler_sum4 :: "u32 list \<Rightarrow> u32" where
  "np_adler_sum4 v = (v ! 0 + v ! 2) + (v ! 1 + v ! 3)"

definition adler_block :: "u32 \<Rightarrow> u32 \<Rightarrow> u8 list \<Rightarrow> u32 \<times> u32" where
  "adler_block sum1 sum2 data =
     (let v = adler_vectors (length data div 16)
            \<lparr>sums = replicate 4 0, prefixes = replicate 4 0, columns = replicate 16 0\<rparr> data;
          sum2 = sum2 + (of_nat (length data) * sum1 + 16 * np_adler_sum4 (prefixes v) +
                   np_adler_sum4 (adler_weighted (columns v)));
          sum1 = sum1 + np_adler_sum4 (sums v)
      in (sum1 mod 65521, sum2 mod 65521))"

function adler_neon :: "u32 \<Rightarrow> u32 \<Rightarrow> u8 list \<Rightarrow> u32 \<times> u32 \<times> u8 list" where
  "adler_neon sum1 sum2 data =
     (if length data \<ge> 16 then
        let n = (if length data < 4096 then length data div 16 * 16 else 4096)
        in case adler_block sum1 sum2 (take n data) of (sum1, sum2) \<Rightarrow>
             adler_neon sum1 sum2 (drop n data)
      else (sum1, sum2, data))"
  by pat_completeness auto
termination
  by (relation "measure (\<lambda>(_, _, data). length data)") (auto split: if_splits)

declare adler_neon.simps [simp del]

definition isaac_np_adler32_update :: "bool \<Rightarrow> u32 \<Rightarrow> u8 list \<Rightarrow> u32" where
  "isaac_np_adler32_update neon seed data =
     (if data = [] then seed
      else case (if neon then adler_neon (seed AND 0xFFFF) (drop_bit 16 seed) data
                 else (seed AND 0xFFFF, drop_bit 16 seed, data)) of
        (sum1, sum2, rest) \<Rightarrow> (case adler_scalar sum1 sum2 rest of
          (sum1, sum2) \<Rightarrow> push_bit 16 sum2 OR sum1))"


section \<open>CRC-32 against its bit-serial definition\<close>

definition crc_bit :: "u32 \<Rightarrow> u32" where
  "crc_bit c = (if bit c 0 then 0xEDB88320 XOR drop_bit 1 c else drop_bit 1 c)"

lemma crc_bit_xor: "crc_bit (a XOR b) = crc_bit a XOR crc_bit b"
  by (rule bit_word_eqI) (auto simp: crc_bit_def bit_xor_iff bit_drop_bit_eq)

lemma crc_bits_xor: "(crc_bit ^^ n) (a XOR b) = (crc_bit ^^ n) a XOR (crc_bit ^^ n) b"
  by (induction n) (simp_all add: crc_bit_xor)

lemma crc_bits_drop: "(\<And>i. i < n \<Longrightarrow> \<not> bit w i) \<Longrightarrow> (crc_bit ^^ n) w = drop_bit n w"
proof (induction n)
  case (Suc n)
  then have "(crc_bit ^^ n) w = drop_bit n w" by simp
  moreover have "\<not> bit (drop_bit n w) 0" using Suc.prems by (simp add: bit_drop_bit_eq)
  then have "crc_bit (drop_bit n w) = drop_bit 1 (drop_bit n w)" unfolding crc_bit_def by (rule if_not_P)
  ultimately show ?case by (simp add: drop_bit_drop_bit)
qed simp

lemma crc_byte_exact:
  assumes "\<And>i. table i = (crc_bit ^^ 8) (ucast i)"
  shows "CRC_BYTE table c b = (crc_bit ^^ 8) (c XOR ucast b)"
proof -
  define w where "w = (c XOR ucast b :: u32)"
  define low where "low = (ucast (ucast w :: u8) :: u32)"
  have low: "bit low i \<longleftrightarrow> i < 8 \<and> bit w i" for i
    by (auto simp: low_def bit_ucast_iff)
  have "(crc_bit ^^ 8) (w XOR low) = drop_bit 8 (w XOR low)"
    by (rule crc_bits_drop) (simp add: bit_xor_iff low)
  also have "\<dots> = drop_bit 8 c"
  proof (rule bit_word_eqI)
    fix n assume "n < LENGTH(32)"
    have "\<not> bit b (n + 8)" using bit_imp_le_length [of b "n + 8"] by auto
    then show "bit (drop_bit 8 (w XOR low)) n = bit (drop_bit 8 c) n"
      by (auto simp: w_def bit_drop_bit_eq bit_xor_iff low bit_ucast_iff add.commute)
  qed
  finally have high: "(crc_bit ^^ 8) (w XOR low) = drop_bit 8 c" .
  have "w = low XOR ((w) XOR low)" by (rule bit_word_eqI) (auto simp: bit_xor_iff)
  then have "(crc_bit ^^ 8) w = (crc_bit ^^ 8) low XOR drop_bit 8 c"
    using crc_bits_xor [of 8 low "w XOR low"] unfolding high by metis
  then show ?thesis by (simp add: CRC_BYTE_def assms low_def flip: w_def)
qed

lemma crc_loop1_append: "crc_loop1 t c (a @ b) = crc_loop1 t (crc_loop1 t c a) b"
  by (induction t c a rule: crc_loop1.induct) auto

lemma crc_loop8_loop1: "case crc_loop8 t c d of (c', r) \<Rightarrow> crc_loop1 t c' r = crc_loop1 t c d"
proof (induction t c d rule: crc_loop8.induct)
  case (1 t c d)
  show ?case
  proof (cases "8 \<le> length d")
    case True
    then have "d = [d ! 0, d ! 1, d ! 2, d ! 3, d ! 4, d ! 5, d ! 6, d ! 7] @ drop 8 d"
      by (intro nth_equalityI) (auto simp: nth_append nth_Cons eval_nat_numeral split: nat.split)
    then have "crc_loop1 t c d = crc_loop1 t (crc_loop1 t c
        [d ! 0, d ! 1, d ! 2, d ! 3, d ! 4, d ! 5, d ! 6, d ! 7]) (drop 8 d)"
      by (metis crc_loop1_append)
    then show ?thesis using "1.IH" [OF True] True by (subst crc_loop8.simps) simp
  next
    case False
    then show ?thesis by (subst crc_loop8.simps) simp
  qed
qed

lemma crc32_loop1: "isaac_vita_png_crc32_native c (Some d) t = NOT (crc_loop1 t (NOT c) d)"
  using crc_loop8_loop1 [of t "NOT c" d] by (auto simp: isaac_vita_png_crc32_native_def split: prod.split)

lemma crc_loop1_serial:
  assumes "\<And>i. table i = (crc_bit ^^ 8) (ucast i)"
  shows "crc_loop1 table c d = foldl (\<lambda>c b. (crc_bit ^^ 8) (c XOR ucast b)) c d"
  by (induction d arbitrary: c) (simp_all add: crc_byte_exact [OF assms])

text \<open>
  C24: With the reflected CRC-32 table the native routine is CRC-32: the complement of the
  bit-serial division by \<open>0xEDB88320\<close>, least significant bit first, whatever the length; and a
  stream may be cut anywhere, the checksum of the first part seeding the second.
\<close>

theorem crc32_exact:
  assumes "\<And>i. table i = (crc_bit ^^ 8) (ucast i)"
  shows "isaac_vita_png_crc32_native c (Some d) table =
      NOT (foldl (\<lambda>c b. (crc_bit ^^ 8) (c XOR ucast b)) (NOT c) d) \<and>
    isaac_vita_png_crc32_native c (Some (d @ e)) table =
      isaac_vita_png_crc32_native (isaac_vita_png_crc32_native c (Some d) table) (Some e) table"
  by (simp add: crc32_loop1 crc_loop1_append flip: crc_loop1_serial [OF assms])

text \<open>The CRC-32 of the digit 1.\<close>

lemma crc32_exact_witness:
  "isaac_vita_png_crc32_native 0 (Some [49])
     (\<lambda>i. (crc_bit ^^ 8) (ucast i)) = 0x83DCEFB7"
proof -
  have "NOT (foldl (\<lambda>c b. (crc_bit ^^ 8) (c XOR ucast b)) (NOT 0)
      [49 :: u8]) = 0x83DCEFB7"
    by code_simp
  then show ?thesis using crc32_exact [of "\<lambda>i. (crc_bit ^^ 8) (ucast i)" 0 _ "[]"] by simp
qed


section \<open>Adler-32 against RFC 1950\<close>

text \<open>The byte sum and the sum of the running byte sums of a block, as natural numbers.\<close>

definition byte_sum :: "u8 list \<Rightarrow> nat" where
  "byte_sum d = sum_list (map unat d)"

fun prefix_sum :: "u8 list \<Rightarrow> nat" where
  "prefix_sum [] = 0"
| "prefix_sum (b # bs) = (length bs + 1) * unat b + prefix_sum bs"

lemma byte_sum_simps [simp]: "byte_sum [] = 0" "byte_sum (b # bs) = unat b + byte_sum bs"
  "byte_sum (xs @ ys) = byte_sum xs + byte_sum ys"
  by (simp_all add: byte_sum_def)

lemma prefix_sum_append: "prefix_sum (a @ b) = prefix_sum a + length b * byte_sum a + prefix_sum b"
  by (induction a) (simp_all add: algebra_simps)

lemma adler_bytes_word:
  "adler_bytes s1 s2 d =
     (s1 + of_nat (byte_sum d), s2 + of_nat (length d) * s1 + of_nat (prefix_sum d))"
  by (induction s1 s2 d rule: adler_bytes.induct) (simp_all add: Let_def algebra_simps)

fun column :: "nat \<Rightarrow> u8 list \<Rightarrow> nat \<Rightarrow> nat" where
  "column 0 d i = 0"
| "column (Suc k) d i = unat (d ! i) + column k (drop 16 d) i"

fun vector_prefixes :: "nat \<Rightarrow> u8 list \<Rightarrow> nat" where
  "vector_prefixes 0 d = 0"
| "vector_prefixes (Suc k) d = k * byte_sum (take 16 d) + vector_prefixes k (drop 16 d)"

lemma column_bound: "column k d i \<le> 255 * k"
proof (induction k arbitrary: d)
  case (Suc k)
  show ?case using Suc [of "drop 16 d"] unat_bound [of "d ! i"] by simp
qed simp

lemma upt16: "[0..<16] = [0, 1, 2, 3, 4, 5, 6, 7, 8, 9, 10, 11, 12, 13, 14, 15]"
  by (simp add: upt_rec)

lemma list16: "length b = 16 \<Longrightarrow> b = [b ! 0, b ! 1, b ! 2, b ! 3, b ! 4, b ! 5, b ! 6, b ! 7,
    b ! 8, b ! 9, b ! 10, b ! 11, b ! 12, b ! 13, b ! 14, b ! 15]"
  using map_nth [of b] by (simp add: upt16)

lemma upt4: "[0..<4] = [0, 1, 2, 3]"
  by (simp add: upt_rec)

lemma pair_sum: "ucast (ucast (x :: u8) + ucast (y :: u8) :: u16) = (of_nat (unat x + unat y) :: u32)"
proof -
  have "unat (ucast x + ucast y :: u16) = unat x + unat y"
    using unat_bound [of x] unat_bound [of y]
    by (subst unat_plus_small) (simp_all add: unat_ucast_up)
  then show ?thesis by (metis of_nat_unat)
qed

lemma step_sums:
  assumes "length b = 16" "length (sums v) = 4"
  shows "np_adler_sum4 (sums (adler_vector v b)) = np_adler_sum4 (sums v) + of_nat (byte_sum b)"
    "length (sums (adler_vector v b)) = 4"
proof -
  show "length (sums (adler_vector v b)) = 4" by (simp add: adler_vector_def)
  have "byte_sum b = unat (b ! 0) + unat (b ! 1) + unat (b ! 2) + unat (b ! 3) + unat (b ! 4) + unat (b ! 5) +
      unat (b ! 6) + unat (b ! 7) + unat (b ! 8) + unat (b ! 9) + unat (b ! 10) + unat (b ! 11) +
      unat (b ! 12) + unat (b ! 13) + unat (b ! 14) + unat (b ! 15)"
    by (subst list16 [OF assms(1)]) simp
  then show "np_adler_sum4 (sums (adler_vector v b)) = np_adler_sum4 (sums v) + of_nat (byte_sum b)"
    by (simp add: adler_vector_def upt4 np_adler_sum4_def pair_sum flip: numeral_2_eq_2)
qed

lemma step_prefixes:
  assumes "length (sums v) = 4" "length (prefixes v) = 4"
  shows "np_adler_sum4 (prefixes (adler_vector v b)) = np_adler_sum4 (prefixes v) + np_adler_sum4 (sums v)"
    "length (prefixes (adler_vector v b)) = 4"
  using assms by (simp_all add: adler_vector_def np_adler_sum4_def)

lemma adler_vectors_sums:
  assumes "16 * k \<le> length d" "length (sums v) = 4" "length (prefixes v) = 4"
  shows "np_adler_sum4 (sums (adler_vectors k v d)) =
      np_adler_sum4 (sums v) + of_nat (byte_sum (take (16 * k) d)) \<and>
    np_adler_sum4 (prefixes (adler_vectors k v d)) =
      np_adler_sum4 (prefixes v) + of_nat k * np_adler_sum4 (sums v) + of_nat (vector_prefixes k d)"
  using assms
proof (induction k arbitrary: v d)
  case (Suc k)
  have b: "length (take 16 d) = 16" using Suc.prems(1) by simp
  have t: "take (16 * Suc k) d = take 16 d @ take (16 * k) (drop 16 d)"
    by (metis mult_Suc_right take_add)
  note s = step_sums [OF b Suc.prems(2)] step_prefixes [OF Suc.prems(2,3), of "take 16 d"]
  have l: "16 * k \<le> length (drop 16 d)" using Suc.prems(1) by simp
  show ?case using Suc.IH [OF l s(2,4)] unfolding t
    by (simp add: s(1,3) algebra_simps del: take_append)
qed simp

lemma adler_vectors_columns:
  assumes "16 * k \<le> length d" "length (columns v) = 16"
  shows "length (columns (adler_vectors k v d)) = 16 \<and>
    (\<forall>i < 16. columns (adler_vectors k v d) ! i = columns v ! i + of_nat (column k d i))"
  using assms
proof (induction k arbitrary: v d)
  case (Suc k)
  have l: "16 * k \<le> length (drop 16 d)" "length (take 16 d) = 16" using Suc.prems by simp_all
  have c: "length (columns (adler_vector v (take 16 d))) = 16"
    using Suc.prems l by (simp add: adler_vector_def)
  have "i < 16 \<Longrightarrow> columns (adler_vector v (take 16 d)) ! i = columns v ! i + of_nat (unat (d ! i))" for i
    using Suc.prems l by (simp add: adler_vector_def)
  then show ?case using Suc.IH [OF l(1) c] by (simp add: algebra_simps)
qed simp

lemma weighted_columns:
  assumes "length cs = 16" "\<And>i. i < 16 \<Longrightarrow> cs ! i = of_nat (c i)" "\<And>i. i < 16 \<Longrightarrow> c i < 65536"
  shows "np_adler_sum4 (adler_weighted cs) = of_nat (\<Sum>i<16. (16 - i) * c i)"
proof -
  have u: "(ucast (cs ! i) :: u32) = of_nat (c i)" if "i < 16" for i
  proof -
    have "unat (cs ! i) = c i" using assms(2,3) that by (simp add: unat_of_nat_small)
    then show ?thesis by (metis of_nat_unat)
  qed
  have "(\<Sum>i<16. (16 - i) * c i) = (\<Sum>i\<leftarrow>[0..<16]. (16 - i) * c i)"
    by (simp add: sum_list_distinct_conv_sum_set atLeast0LessThan)
  then show ?thesis
    by (simp add: upt16 adler_weighted_def upt4 np_adler_sum4_def u algebra_simps)
qed

lemma prefix_sum16:
  assumes "length b = 16"
  shows "prefix_sum b = (\<Sum>i<16. (16 - i) * unat (b ! i))"
proof -
  have "(\<Sum>i<16. (16 - i) * unat (b ! i)) = (\<Sum>i\<leftarrow>[0..<16]. (16 - i) * unat (b ! i))"
    by (simp add: sum_list_distinct_conv_sum_set atLeast0LessThan)
  then show ?thesis by (subst list16 [OF assms]) (simp add: upt16 flip: numeral_2_eq_2)
qed

lemma block_prefix_sum:
  assumes "16 * k \<le> length d"
  shows "prefix_sum (take (16 * k) d) = 16 * vector_prefixes k d + (\<Sum>i<16. (16 - i) * column k d i)"
  using assms
proof (induction k arbitrary: d)
  case (Suc k)
  have b: "length (take 16 d) = 16" using Suc.prems by simp
  have t: "take (16 * Suc k) d = take 16 d @ take (16 * k) (drop 16 d)"
    by (metis mult_Suc_right take_add)
  have l: "16 * k \<le> length (drop 16 d)" using Suc.prems by simp
  have "(\<Sum>i<16. (16 - i) * unat (take 16 d ! i)) = (\<Sum>i<16. (16 - i) * unat (d ! i))"
    by (rule sum.cong) simp_all
  moreover have "(\<Sum>i<16. (16 - i) * column (Suc k) d i) =
      (\<Sum>i<16. (16 - i) * unat (d ! i)) + (\<Sum>i<16. (16 - i) * column k (drop 16 d) i)"
    by (simp add: distrib_left sum.distrib)
  ultimately show ?case unfolding t prefix_sum_append Suc.IH [OF l] prefix_sum16 [OF b]
    using l by simp
qed simp

lemma adler_block_word:
  assumes "length d = 16 * k" "k \<le> 256"
  shows "adler_block s1 s2 d = (case adler_bytes s1 s2 d of (s1, s2) \<Rightarrow> (s1 mod 65521, s2 mod 65521))"
proof -
  define v0 :: adler_lanes where
    "v0 = \<lparr>sums = replicate 4 0, prefixes = replicate 4 0, columns = replicate 16 0\<rparr>"
  define v where "v = adler_vectors k v0 d"
  have z: "np_adler_sum4 (sums v0) = 0" "np_adler_sum4 (prefixes v0) = 0" "length (sums v0) = 4"
    "length (prefixes v0) = 4" "length (columns v0) = 16"
    by (simp_all add: v0_def np_adler_sum4_def)
  have s: "np_adler_sum4 (sums v) = of_nat (byte_sum d)"
    "np_adler_sum4 (prefixes v) = of_nat (vector_prefixes k d)"
    using adler_vectors_sums [of k d v0] assms(1) z by (simp_all add: v_def)
  have "np_adler_sum4 (adler_weighted (columns v)) = of_nat (\<Sum>i<16. (16 - i) * column k d i)"
  proof (rule weighted_columns)
    fix i :: nat assume "i < 16"
    then show "columns v ! i = of_nat (column k d i)"
      using adler_vectors_columns [of k d v0] assms(1) z by (simp add: v_def v0_def)
    show "column k d i < 65536" using column_bound [of k d i] assms(2) by simp
  qed (use adler_vectors_columns [of k d v0] assms(1) z in \<open>simp add: v_def\<close>)
  moreover have "prefix_sum d = 16 * vector_prefixes k d + (\<Sum>i<16. (16 - i) * column k d i)"
    using block_prefix_sum [of k d] assms(1) by simp
  ultimately have "16 * np_adler_sum4 (prefixes v) + np_adler_sum4 (adler_weighted (columns v)) =
      of_nat (prefix_sum d)" using s by simp
  then show ?thesis
    using s assms(1) unfolding adler_block_def Let_def v0_def [symmetric] adler_bytes_word
    by (simp add: v_def [symmetric] add.assoc)
qed

text \<open>The definition of RFC 1950: both sums reduced after every byte.\<close>

fun adler32_reference :: "nat \<Rightarrow> nat \<Rightarrow> u8 list \<Rightarrow> nat \<times> nat" where
  "adler32_reference a b [] = (a, b)"
| "adler32_reference a b (x # xs) =
     (let a = (a + unat x) mod 65521 in adler32_reference a ((b + a) mod 65521) xs)"

definition reduced :: "nat \<Rightarrow> nat \<Rightarrow> u8 list \<Rightarrow> nat \<times> nat" where
  "reduced a b d = ((a + byte_sum d) mod 65521, (b + length d * a + prefix_sum d) mod 65521)"

lemma reduced_append: "(case reduced a b p of (a, b) \<Rightarrow> reduced a b q) = reduced a b (p @ q)"
proof -
  have "((b + length p * a + prefix_sum p) mod 65521 + length q * ((a + byte_sum p) mod 65521) + prefix_sum q) mod 65521 =
      (b + length p * a + prefix_sum p + length q * (a + byte_sum p) + prefix_sum q) mod 65521"
    by (intro mod_add_cong mod_mult_cong) simp_all
  moreover have "((a + byte_sum p) mod 65521 + byte_sum q) mod 65521 = (a + byte_sum (p @ q)) mod 65521"
    by (simp add: mod_add_left_eq add.assoc)
  moreover have "b + length p * a + prefix_sum p + length q * (a + byte_sum p) + prefix_sum q =
      b + length (p @ q) * a + prefix_sum (p @ q)" by (simp add: prefix_sum_append algebra_simps)
  ultimately show ?thesis by (simp add: reduced_def)
qed

lemma reference_reduced: "d \<noteq> [] \<Longrightarrow> adler32_reference a b d = reduced a b d"
proof (induction a b d rule: adler32_reference.induct)
  case (2 a b x xs)
  define a1 where "a1 = (a + unat x) mod 65521"
  have one: "reduced a b [x] = (a1, (b + a1) mod 65521)"
    by (simp add: reduced_def a1_def mod_add_right_eq algebra_simps)
  show ?case
  proof (cases "xs = []")
    case True
    then show ?thesis using one by (simp add: Let_def a1_def)
  next
    case False
    then have "adler32_reference a b (x # xs) = reduced a1 ((b + a1) mod 65521) xs"
      using "2.IH" [OF refl] by (simp add: Let_def a1_def)
    then show ?thesis using reduced_append [where a = a and b = b and p = "[x]" and q = xs] one by simp
  qed
qed simp

lemma byte_sum_bound: "byte_sum d \<le> 255 * length d"
proof (induction d)
  case (Cons x d)
  then show ?case using unat_bound [of x] by simp
qed simp

lemma prefix_sum_bound: "2 * prefix_sum d \<le> 255 * (length d * (length d + 1))"
proof (induction d)
  case (Cons x d)
  have "(length d + 1) * unat x \<le> (length d + 1) * 255" using unat_bound [of x] by (intro mult_le_mono2) simp
  then show ?case using Cons by (simp add: algebra_simps)
qed simp

text \<open>Within one block of 4096 bytes neither sum reaches \<open>2 ^ 32\<close>, even from an unreduced seed.\<close>

lemma adler_bytes_nat:
  assumes "length d \<le> 4096" "unat s1 \<le> 65535" "unat s2 \<le> 65535"
  shows "case adler_bytes s1 s2 d of (x, y) \<Rightarrow>
    (unat (x mod 65521), unat (y mod 65521)) = reduced (unat s1) (unat s2) d"
proof -
  have A: "byte_sum d \<le> 255 * 4096" using byte_sum_bound [of d] assms(1) by linarith
  have "length d * (length d + 1) \<le> 4096 * 4097" by (rule mult_le_mono) (use assms(1) in auto)
  then have B: "prefix_sum d \<le> 2139617280" using prefix_sum_bound [of d] by linarith
  have C: "length d * unat s1 \<le> 4096 * 65535" by (rule mult_le_mono) (use assms in auto)
  have x: "unat (s1 + of_nat (byte_sum d)) = unat s1 + byte_sum d"
    using A assms(2) by (subst unat_plus_small) (simp_all add: unat_of_nat_small)
  have "of_nat (length d) * s1 = of_nat (length d * unat s1)" by simp
  then have "s2 + of_nat (length d) * s1 + of_nat (prefix_sum d) =
      s2 + (of_nat (length d * unat s1 + prefix_sum d) :: u32)" by (simp del: of_nat_mult)
  moreover have "unat (s2 + (of_nat (length d * unat s1 + prefix_sum d) :: u32)) =
      unat s2 + (length d * unat s1 + prefix_sum d)"
    using B C assms(3) by (subst unat_plus_small) (simp_all add: unat_of_nat_small del: of_nat_add of_nat_mult)
  ultimately have y: "unat (s2 + of_nat (length d) * s1 + of_nat (prefix_sum d)) =
      unat s2 + length d * unat s1 + prefix_sum d" by (simp add: add.assoc)
  show ?thesis
    unfolding adler_bytes_word prod.case reduced_def
    by (simp add: unat_mod_distrib x y [unfolded add.assoc] add.assoc)
qed

lemma reduced_bound: "fst (reduced a b d) \<le> 65535" "snd (reduced a b d) \<le> 65535"
proof -
  have "n mod 65521 \<le> 65535" for n :: nat using mod_less_divisor [of 65521 n] by linarith
  then show "fst (reduced a b d) \<le> 65535" "snd (reduced a b d) \<le> 65535"
    by (simp_all add: reduced_def)
qed

text \<open>A pair of sums after the bytes \<open>p\<close>: untouched when there were none.\<close>

definition after :: "u32 \<Rightarrow> u32 \<Rightarrow> u8 list \<Rightarrow> u32 \<times> u32 \<Rightarrow> bool" where
  "after s1 s2 p r \<longleftrightarrow> (if p = [] then r = (s1, s2)
     else (unat (fst r), unat (snd r)) = reduced (unat s1) (unat s2) p)"

lemma after_bound:
  assumes "after s1 s2 p r" "unat s1 \<le> 65535" "unat s2 \<le> 65535"
  shows "unat (fst r) \<le> 65535 \<and> unat (snd r) \<le> 65535"
  using assms reduced_bound [of "unat s1" "unat s2" p]
  by (cases "p = []") (auto simp: after_def prod_eq_iff)

lemma after_append:
  assumes "after s1 s2 p (x, y)" "after x y q r"
  shows "after s1 s2 (p @ q) r"
proof (cases "p = [] \<or> q = []")
  case True
  then show ?thesis using assms by (auto simp: after_def)
next
  case False
  then show ?thesis using assms reduced_append [where a = "unat s1" and b = "unat s2" and p = p and q = q]
    by (auto simp: after_def dest!: sym [of "(_, _)"])
qed

lemma after_block:
  assumes "length p \<le> 4096" "p \<noteq> []" "unat s1 \<le> 65535" "unat s2 \<le> 65535"
  shows "after s1 s2 p (case adler_bytes s1 s2 p of (x, y) \<Rightarrow> (x mod 65521, y mod 65521))"
  using adler_bytes_nat [OF assms(1,3,4)] assms(2)
  by (simp add: after_def split: prod.splits)

lemma adler_scalar_after:
  "unat s1 \<le> 65535 \<Longrightarrow> unat s2 \<le> 65535 \<Longrightarrow> after s1 s2 d (adler_scalar s1 s2 d)"
proof (induction "length d" arbitrary: s1 s2 d rule: less_induct)
  case less
  show ?case
  proof (cases "d = []")
    case True
    then show ?thesis by (subst adler_scalar.simps) (simp add: after_def)
  next
    case False
    obtain x y where xy: "adler_bytes s1 s2 (take 4096 d) = (x, y)" by (cases "adler_bytes s1 s2 (take 4096 d)")
    have b: "after s1 s2 (take 4096 d) (x mod 65521, y mod 65521)"
      using after_block [of "take 4096 d" s1 s2] False less.prems xy by simp
    have "after (x mod 65521) (y mod 65521) (drop 4096 d)
        (adler_scalar (x mod 65521) (y mod 65521) (drop 4096 d))"
      using after_bound [OF b less.prems] False by (intro less.hyps) auto
    from after_append [OF b this] have "after s1 s2 d (adler_scalar (x mod 65521) (y mod 65521) (drop 4096 d))"
      by simp
    then show ?thesis using False by (subst adler_scalar.simps) (simp add: xy)
  qed
qed

lemma adler_neon_after:
  "unat s1 \<le> 65535 \<Longrightarrow> unat s2 \<le> 65535 \<Longrightarrow>
   case adler_neon s1 s2 d of (x, y, r) \<Rightarrow> \<exists>p. d = p @ r \<and> after s1 s2 p (x, y)"
proof (induction "length d" arbitrary: s1 s2 d rule: less_induct)
  case less
  show ?case
  proof (cases "16 \<le> length d")
    case False
    then show ?thesis by (subst adler_neon.simps) (simp add: after_def)
  next
    case True
    define k where "k = (if length d < 4096 then length d div 16 else 256)"
    have n: "(if length d < 4096 then length d div 16 * 16 else 4096) = 16 * k" by (simp add: k_def)
    have k: "16 * k \<le> length d" "k \<le> 256" "0 < k" using True
      by (auto simp: k_def div_greater_zero_iff split: if_splits)
    define p where "p = take (16 * k) d"
    obtain x y where xy: "adler_block s1 s2 p = (x, y)" by (cases "adler_block s1 s2 p")
    have "length p = 16 * k" "p \<noteq> []" using k by (auto simp: p_def)
    then have b: "after s1 s2 p (x, y)"
      using after_block [of p s1 s2] adler_block_word [of p k s1 s2] xy less.prems k by simp
    have "case adler_neon x y (drop (16 * k) d) of (x', y', r) \<Rightarrow>
        \<exists>q. drop (16 * k) d = q @ r \<and> after x y q (x', y')"
      using after_bound [OF b less.prems] k by (intro less.hyps) auto
    then obtain x' y' r q where "adler_neon x y (drop (16 * k) d) = (x', y', r)"
      "drop (16 * k) d = q @ r" "after x y q (x', y')" by (auto split: prod.splits)
    moreover have "d = (p @ q) @ r" using calculation(2) by (metis append.assoc append_take_drop_id p_def)
    moreover have "after s1 s2 (p @ q) (x', y')" by (rule after_append [OF b calculation(3)])
    moreover have "adler_neon s1 s2 d = adler_neon x y (drop (16 * k) d)"
      using True xy by (subst adler_neon.simps) (simp only: Let_def n p_def [symmetric] if_True prod.case)
    ultimately show ?thesis by auto
  qed
qed

lemma adler_seed: "unat (seed AND 0xFFFF :: u32) = unat seed mod 65536"
  "unat (drop_bit 16 (seed :: u32)) = unat seed div 65536"
proof -
  have "seed AND 0xFFFF = take_bit 16 seed" by (simp add: take_bit_eq_mask mask_eq_exp_minus_1)
  then show "unat (seed AND 0xFFFF) = unat seed mod 65536"
    by (simp only: unsigned_take_bit_eq) (simp add: take_bit_eq_mod)
  show "unat (drop_bit 16 seed) = unat seed div 65536"
    by (subst unat_drop_bit_eq) (simp add: drop_bit_eq_div)
qed

text \<open>
  C25: The Adler-32 update, with the vector kernel and without it, is that of RFC 1950 for every
  length and every seed, canonical or not; an empty update returns the seed unchanged.
\<close>

theorem adler32_exact:
  "isaac_np_adler32_update neon seed data =
    (if data = [] then seed
     else case adler32_reference (unat seed mod 65536) (unat seed div 65536) data of
       (a, b) \<Rightarrow> of_nat (b * 65536 + a))"
proof (cases "data = []")
  case False
  let ?s1 = "seed AND 0xFFFF :: u32" and ?s2 = "drop_bit 16 seed :: u32"
  have s: "unat ?s1 \<le> 65535" "unat ?s2 \<le> 65535"
    using unat_u32 [of seed] by (simp_all add: adler_seed)
  obtain x y r where f: "(if neon then adler_neon ?s1 ?s2 data else (?s1, ?s2, data)) = (x, y, r)"
    by (cases "if neon then adler_neon ?s1 ?s2 data else (?s1, ?s2, data)")
  then obtain p where p: "data = p @ r" "after ?s1 ?s2 p (x, y)"
    using adler_neon_after [OF s, of data] by (cases neon) (auto simp: after_def)
  obtain u v where uv: "adler_scalar x y r = (u, v)" by (cases "adler_scalar x y r")
  have "after x y r (u, v)"
    using adler_scalar_after [of x y r] after_bound [OF p(2) s] uv by simp
  from after_append [OF p(2) this] have a: "after ?s1 ?s2 data (u, v)" using p(1) by simp
  then have r: "(unat u, unat v) = adler32_reference (unat seed mod 65536) (unat seed div 65536) data"
    using False by (simp add: after_def adler_seed reference_reduced)
  have b: "unat u < 65536" using after_bound [OF a s] by simp
  have "push_bit 16 v OR u = of_nat (unat v * 65536 + unat u)"
  proof -
    have "\<not> bit u n" if "16 \<le> n" for n
    proof -
      have "take_bit 16 u = u" using b
        by (intro word_unat_eq_iff [THEN iffD2]) (simp only: unsigned_take_bit_eq, simp add: take_bit_eq_mod)
      then show ?thesis using that by (metis bit_take_bit_iff not_le)
    qed
    then have "push_bit 16 v OR u = push_bit 16 v + u"
      by (intro disjunctive_add [symmetric]) (auto simp: bit_push_bit_iff)
    moreover have "push_bit 16 v = of_nat (unat v * 65536)" by (simp add: push_bit_eq_mult)
    moreover have "u = of_nat (unat u)" by simp
    ultimately show ?thesis by (metis of_nat_add)
  qed
  moreover have "isaac_np_adler32_update neon seed data = push_bit 16 v OR u"
    using False unfolding isaac_np_adler32_update_def f by (simp add: uv)
  ultimately show ?thesis using False by (simp only: r [symmetric] prod.case if_False)
qed (simp add: isaac_np_adler32_update_def)

end
