(* ===== verification/Host_Import_Id.thy ===== *)
theory Host_Import_Id imports Prelude begin

text \<open>
  The dispatch of an import by its identifier (\<open>runtime/host_vita_import_id.c\<close>): the frozen table
  of imports (\<open>host_vita_import_id_map.inc\<close>), the binding of a row to the endpoint that executes
  it, and the two users of that binding, \<open>guest_host_import_id\<close> and the direct binding that the
  generated import sites are filled from.  The endpoints themselves belong to other files; what a
  call of one answers is a parameter.  The name of a row is read by the registration check only,
  whose verdict is a parameter of the dispatcher; the row of \<open>lua_close\<close> is known by its number.
\<close>

section \<open>The frozen table\<close>

datatype isaac_vita_import_binding_kind = ISAAC_VITA_IMPORT_UNRESOLVED | ISAAC_VITA_IMPORT_BASELINE | ISAAC_VITA_IMPORT_CRT |
  ISAAC_VITA_IMPORT_MATH | ISAAC_VITA_IMPORT_LUA | ISAAC_VITA_IMPORT_RTTI |
  ISAAC_VITA_IMPORT_EXCEPTION | ISAAC_VITA_IMPORT_FILE_LOCK | ISAAC_VITA_IMPORT_FILESYSTEM |
  ISAAC_VITA_IMPORT_FIND | ISAAC_VITA_IMPORT_COM | ISAAC_VITA_IMPORT_POST_COM |
  ISAAC_VITA_IMPORT_HEAP | ISAAC_VITA_IMPORT_STEAM | ISAAC_VITA_IMPORT_AUDIO |
  ISAAC_VITA_IMPORT_GL_WGL | ISAAC_VITA_IMPORT_SYNC | ISAAC_VITA_IMPORT_MEMORY |
  ISAAC_VITA_IMPORT_CONSOLE | ISAAC_VITA_IMPORT_USER32 | ISAAC_VITA_IMPORT_STARTUP |
  ISAAC_VITA_IMPORT_FLS | ISAAC_VITA_IMPORT_FREAD | ISAAC_VITA_IMPORT_SHARED_LOADER

record isaac_vita_import_id_entry =
  row_slot_rva :: u32
  row_kind :: isaac_vita_import_binding_kind
  row_local_index :: nat

definition import_row :: "u32 \<Rightarrow> isaac_vita_import_binding_kind \<Rightarrow> nat \<Rightarrow> isaac_vita_import_id_entry" where
  "import_row slot kind local = \<lparr>row_slot_rva = slot, row_kind = kind, row_local_index = local\<rparr>"

definition s_import_ids :: "isaac_vita_import_id_entry list" where
  "s_import_ids =
   [import_row 0x00606000 ISAAC_VITA_IMPORT_UNRESOLVED 0,
    import_row 0x00606004 ISAAC_VITA_IMPORT_UNRESOLVED 0,
    import_row 0x00606008 ISAAC_VITA_IMPORT_UNRESOLVED 0,
    import_row 0x00606010 ISAAC_VITA_IMPORT_UNRESOLVED 0,
    import_row 0x00606014 ISAAC_VITA_IMPORT_UNRESOLVED 0,
    import_row 0x00606018 ISAAC_VITA_IMPORT_UNRESOLVED 0,
    import_row 0x0060601c ISAAC_VITA_IMPORT_UNRESOLVED 0,
    import_row 0x00606020 ISAAC_VITA_IMPORT_UNRESOLVED 0,
    import_row 0x00606024 ISAAC_VITA_IMPORT_UNRESOLVED 0,
    import_row 0x0060602c ISAAC_VITA_IMPORT_CRT 8,
    import_row 0x00606030 ISAAC_VITA_IMPORT_BASELINE 4,
    import_row 0x00606034 ISAAC_VITA_IMPORT_UNRESOLVED 0,
    import_row 0x00606038 ISAAC_VITA_IMPORT_UNRESOLVED 0,
    import_row 0x0060603c ISAAC_VITA_IMPORT_EXCEPTION 0,
    import_row 0x00606040 ISAAC_VITA_IMPORT_UNRESOLVED 0,
    import_row 0x00606044 ISAAC_VITA_IMPORT_UNRESOLVED 0,
    import_row 0x00606048 ISAAC_VITA_IMPORT_UNRESOLVED 0,
    import_row 0x0060604c ISAAC_VITA_IMPORT_UNRESOLVED 0,
    import_row 0x00606050 ISAAC_VITA_IMPORT_UNRESOLVED 0,
    import_row 0x00606054 ISAAC_VITA_IMPORT_UNRESOLVED 0,
    import_row 0x00606058 ISAAC_VITA_IMPORT_UNRESOLVED 0,
    import_row 0x0060605c ISAAC_VITA_IMPORT_UNRESOLVED 0,
    import_row 0x00606060 ISAAC_VITA_IMPORT_SYNC 1,
    import_row 0x00606064 ISAAC_VITA_IMPORT_SYNC 3,
    import_row 0x00606068 ISAAC_VITA_IMPORT_UNRESOLVED 0,
    import_row 0x0060606c ISAAC_VITA_IMPORT_SYNC 0,
    import_row 0x00606070 ISAAC_VITA_IMPORT_UNRESOLVED 0,
    import_row 0x00606074 ISAAC_VITA_IMPORT_UNRESOLVED 0,
    import_row 0x00606078 ISAAC_VITA_IMPORT_FLS 0,
    import_row 0x0060607c ISAAC_VITA_IMPORT_FLS 1,
    import_row 0x00606080 ISAAC_VITA_IMPORT_FLS 2,
    import_row 0x00606084 ISAAC_VITA_IMPORT_BASELINE 0,
    import_row 0x00606088 ISAAC_VITA_IMPORT_UNRESOLVED 0,
    import_row 0x0060608c ISAAC_VITA_IMPORT_UNRESOLVED 0,
    import_row 0x00606090 ISAAC_VITA_IMPORT_CONSOLE 1,
    import_row 0x00606094 ISAAC_VITA_IMPORT_STARTUP 1,
    import_row 0x00606098 ISAAC_VITA_IMPORT_CONSOLE 0,
    import_row 0x0060609c ISAAC_VITA_IMPORT_POST_COM 0,
    import_row 0x006060a0 ISAAC_VITA_IMPORT_SYNC 9,
    import_row 0x006060a4 ISAAC_VITA_IMPORT_STARTUP 3,
    import_row 0x006060a8 ISAAC_VITA_IMPORT_SYNC 8,
    import_row 0x006060ac ISAAC_VITA_IMPORT_UNRESOLVED 0,
    import_row 0x006060b0 ISAAC_VITA_IMPORT_UNRESOLVED 0,
    import_row 0x006060b4 ISAAC_VITA_IMPORT_UNRESOLVED 0,
    import_row 0x006060b8 ISAAC_VITA_IMPORT_UNRESOLVED 0,
    import_row 0x006060bc ISAAC_VITA_IMPORT_UNRESOLVED 0,
    import_row 0x006060c0 ISAAC_VITA_IMPORT_UNRESOLVED 0,
    import_row 0x006060c4 ISAAC_VITA_IMPORT_BASELINE 3,
    import_row 0x006060c8 ISAAC_VITA_IMPORT_STARTUP 9,
    import_row 0x006060cc ISAAC_VITA_IMPORT_UNRESOLVED 0,
    import_row 0x006060d0 ISAAC_VITA_IMPORT_FILE_LOCK 0,
    import_row 0x006060d4 ISAAC_VITA_IMPORT_FILE_LOCK 1,
    import_row 0x006060d8 ISAAC_VITA_IMPORT_UNRESOLVED 0,
    import_row 0x006060dc ISAAC_VITA_IMPORT_STARTUP 2,
    import_row 0x006060e0 ISAAC_VITA_IMPORT_FIND 0,
    import_row 0x006060e4 ISAAC_VITA_IMPORT_FIND 2,
    import_row 0x006060e8 ISAAC_VITA_IMPORT_STARTUP 8,
    import_row 0x006060ec ISAAC_VITA_IMPORT_FIND 1,
    import_row 0x006060f0 ISAAC_VITA_IMPORT_SYNC 7,
    import_row 0x006060f4 ISAAC_VITA_IMPORT_SYNC 4,
    import_row 0x006060f8 ISAAC_VITA_IMPORT_SYNC 6,
    import_row 0x006060fc ISAAC_VITA_IMPORT_SYNC 5,
    import_row 0x00606100 ISAAC_VITA_IMPORT_SYNC 13,
    import_row 0x00606104 ISAAC_VITA_IMPORT_SHARED_LOADER 2,
    import_row 0x00606108 ISAAC_VITA_IMPORT_STARTUP 5,
    import_row 0x0060610c ISAAC_VITA_IMPORT_STARTUP 7,
    import_row 0x00606110 ISAAC_VITA_IMPORT_SYNC 11,
    import_row 0x00606114 ISAAC_VITA_IMPORT_BASELINE 2,
    import_row 0x00606118 ISAAC_VITA_IMPORT_SHARED_LOADER 1,
    import_row 0x0060611c ISAAC_VITA_IMPORT_UNRESOLVED 0,
    import_row 0x00606120 ISAAC_VITA_IMPORT_SYNC 12,
    import_row 0x00606124 ISAAC_VITA_IMPORT_SHARED_LOADER 0,
    import_row 0x00606128 ISAAC_VITA_IMPORT_UNRESOLVED 0,
    import_row 0x0060612c ISAAC_VITA_IMPORT_BASELINE 1,
    import_row 0x00606130 ISAAC_VITA_IMPORT_UNRESOLVED 0,
    import_row 0x00606134 ISAAC_VITA_IMPORT_STARTUP 6,
    import_row 0x00606138 ISAAC_VITA_IMPORT_SYNC 10,
    import_row 0x0060613c ISAAC_VITA_IMPORT_UNRESOLVED 0,
    import_row 0x00606140 ISAAC_VITA_IMPORT_UNRESOLVED 0,
    import_row 0x00606144 ISAAC_VITA_IMPORT_UNRESOLVED 0,
    import_row 0x00606148 ISAAC_VITA_IMPORT_UNRESOLVED 0,
    import_row 0x00606150 ISAAC_VITA_IMPORT_LUA 0,
    import_row 0x00606154 ISAAC_VITA_IMPORT_LUA 1,
    import_row 0x00606158 ISAAC_VITA_IMPORT_LUA 2,
    import_row 0x0060615c ISAAC_VITA_IMPORT_LUA 3,
    import_row 0x00606160 ISAAC_VITA_IMPORT_LUA 4,
    import_row 0x00606164 ISAAC_VITA_IMPORT_LUA 5,
    import_row 0x00606168 ISAAC_VITA_IMPORT_LUA 6,
    import_row 0x0060616c ISAAC_VITA_IMPORT_LUA 7,
    import_row 0x00606170 ISAAC_VITA_IMPORT_LUA 8,
    import_row 0x00606174 ISAAC_VITA_IMPORT_LUA 9,
    import_row 0x00606178 ISAAC_VITA_IMPORT_LUA 10,
    import_row 0x0060617c ISAAC_VITA_IMPORT_LUA 11,
    import_row 0x00606180 ISAAC_VITA_IMPORT_LUA 12,
    import_row 0x00606184 ISAAC_VITA_IMPORT_LUA 13,
    import_row 0x00606188 ISAAC_VITA_IMPORT_LUA 14,
    import_row 0x0060618c ISAAC_VITA_IMPORT_LUA 15,
    import_row 0x00606190 ISAAC_VITA_IMPORT_LUA 16,
    import_row 0x00606194 ISAAC_VITA_IMPORT_LUA 17,
    import_row 0x00606198 ISAAC_VITA_IMPORT_LUA 18,
    import_row 0x0060619c ISAAC_VITA_IMPORT_LUA 19,
    import_row 0x006061a0 ISAAC_VITA_IMPORT_LUA 20,
    import_row 0x006061a4 ISAAC_VITA_IMPORT_LUA 21,
    import_row 0x006061a8 ISAAC_VITA_IMPORT_LUA 22,
    import_row 0x006061ac ISAAC_VITA_IMPORT_LUA 23,
    import_row 0x006061b0 ISAAC_VITA_IMPORT_LUA 24,
    import_row 0x006061b4 ISAAC_VITA_IMPORT_LUA 25,
    import_row 0x006061b8 ISAAC_VITA_IMPORT_LUA 26,
    import_row 0x006061bc ISAAC_VITA_IMPORT_LUA 27,
    import_row 0x006061c0 ISAAC_VITA_IMPORT_LUA 28,
    import_row 0x006061c4 ISAAC_VITA_IMPORT_LUA 29,
    import_row 0x006061c8 ISAAC_VITA_IMPORT_LUA 30,
    import_row 0x006061cc ISAAC_VITA_IMPORT_LUA 31,
    import_row 0x006061d0 ISAAC_VITA_IMPORT_LUA 32,
    import_row 0x006061d4 ISAAC_VITA_IMPORT_LUA 33,
    import_row 0x006061d8 ISAAC_VITA_IMPORT_LUA 34,
    import_row 0x006061dc ISAAC_VITA_IMPORT_LUA 35,
    import_row 0x006061e0 ISAAC_VITA_IMPORT_LUA 36,
    import_row 0x006061e4 ISAAC_VITA_IMPORT_LUA 37,
    import_row 0x006061e8 ISAAC_VITA_IMPORT_LUA 38,
    import_row 0x006061ec ISAAC_VITA_IMPORT_LUA 39,
    import_row 0x006061f0 ISAAC_VITA_IMPORT_LUA 40,
    import_row 0x006061f4 ISAAC_VITA_IMPORT_LUA 41,
    import_row 0x006061f8 ISAAC_VITA_IMPORT_LUA 42,
    import_row 0x006061fc ISAAC_VITA_IMPORT_LUA 43,
    import_row 0x00606200 ISAAC_VITA_IMPORT_LUA 44,
    import_row 0x00606204 ISAAC_VITA_IMPORT_LUA 45,
    import_row 0x00606208 ISAAC_VITA_IMPORT_LUA 46,
    import_row 0x0060620c ISAAC_VITA_IMPORT_LUA 47,
    import_row 0x00606210 ISAAC_VITA_IMPORT_LUA 48,
    import_row 0x00606214 ISAAC_VITA_IMPORT_LUA 49,
    import_row 0x00606218 ISAAC_VITA_IMPORT_LUA 50,
    import_row 0x0060621c ISAAC_VITA_IMPORT_LUA 51,
    import_row 0x00606220 ISAAC_VITA_IMPORT_LUA 52,
    import_row 0x00606224 ISAAC_VITA_IMPORT_LUA 53,
    import_row 0x00606228 ISAAC_VITA_IMPORT_LUA 54,
    import_row 0x0060622c ISAAC_VITA_IMPORT_LUA 55,
    import_row 0x00606230 ISAAC_VITA_IMPORT_LUA 56,
    import_row 0x00606234 ISAAC_VITA_IMPORT_LUA 57,
    import_row 0x00606238 ISAAC_VITA_IMPORT_LUA 58,
    import_row 0x0060623c ISAAC_VITA_IMPORT_LUA 59,
    import_row 0x00606240 ISAAC_VITA_IMPORT_LUA 60,
    import_row 0x00606244 ISAAC_VITA_IMPORT_LUA 61,
    import_row 0x00606248 ISAAC_VITA_IMPORT_LUA 62,
    import_row 0x0060624c ISAAC_VITA_IMPORT_LUA 63,
    import_row 0x00606250 ISAAC_VITA_IMPORT_LUA 64,
    import_row 0x00606254 ISAAC_VITA_IMPORT_LUA 65,
    import_row 0x00606258 ISAAC_VITA_IMPORT_LUA 66,
    import_row 0x00606260 ISAAC_VITA_IMPORT_UNRESOLVED 0,
    import_row 0x00606264 ISAAC_VITA_IMPORT_UNRESOLVED 0,
    import_row 0x00606268 ISAAC_VITA_IMPORT_UNRESOLVED 0,
    import_row 0x0060626c ISAAC_VITA_IMPORT_UNRESOLVED 0,
    import_row 0x00606270 ISAAC_VITA_IMPORT_UNRESOLVED 0,
    import_row 0x00606274 ISAAC_VITA_IMPORT_UNRESOLVED 0,
    import_row 0x00606278 ISAAC_VITA_IMPORT_UNRESOLVED 0,
    import_row 0x0060627c ISAAC_VITA_IMPORT_UNRESOLVED 0,
    import_row 0x00606280 ISAAC_VITA_IMPORT_UNRESOLVED 0,
    import_row 0x00606284 ISAAC_VITA_IMPORT_UNRESOLVED 0,
    import_row 0x00606288 ISAAC_VITA_IMPORT_UNRESOLVED 0,
    import_row 0x0060628c ISAAC_VITA_IMPORT_UNRESOLVED 0,
    import_row 0x00606290 ISAAC_VITA_IMPORT_UNRESOLVED 0,
    import_row 0x00606294 ISAAC_VITA_IMPORT_UNRESOLVED 0,
    import_row 0x00606298 ISAAC_VITA_IMPORT_UNRESOLVED 0,
    import_row 0x0060629c ISAAC_VITA_IMPORT_UNRESOLVED 0,
    import_row 0x006062a0 ISAAC_VITA_IMPORT_UNRESOLVED 0,
    import_row 0x006062a4 ISAAC_VITA_IMPORT_UNRESOLVED 0,
    import_row 0x006062a8 ISAAC_VITA_IMPORT_UNRESOLVED 0,
    import_row 0x006062ac ISAAC_VITA_IMPORT_UNRESOLVED 0,
    import_row 0x006062b0 ISAAC_VITA_IMPORT_UNRESOLVED 0,
    import_row 0x006062b4 ISAAC_VITA_IMPORT_UNRESOLVED 0,
    import_row 0x006062b8 ISAAC_VITA_IMPORT_UNRESOLVED 0,
    import_row 0x006062bc ISAAC_VITA_IMPORT_UNRESOLVED 0,
    import_row 0x006062c0 ISAAC_VITA_IMPORT_UNRESOLVED 0,
    import_row 0x006062c4 ISAAC_VITA_IMPORT_UNRESOLVED 0,
    import_row 0x006062c8 ISAAC_VITA_IMPORT_UNRESOLVED 0,
    import_row 0x006062cc ISAAC_VITA_IMPORT_UNRESOLVED 0,
    import_row 0x006062d0 ISAAC_VITA_IMPORT_UNRESOLVED 0,
    import_row 0x006062d4 ISAAC_VITA_IMPORT_UNRESOLVED 0,
    import_row 0x006062d8 ISAAC_VITA_IMPORT_UNRESOLVED 0,
    import_row 0x006062dc ISAAC_VITA_IMPORT_UNRESOLVED 0,
    import_row 0x006062e0 ISAAC_VITA_IMPORT_UNRESOLVED 0,
    import_row 0x006062e4 ISAAC_VITA_IMPORT_UNRESOLVED 0,
    import_row 0x006062e8 ISAAC_VITA_IMPORT_UNRESOLVED 0,
    import_row 0x006062f0 ISAAC_VITA_IMPORT_UNRESOLVED 0,
    import_row 0x006062f4 ISAAC_VITA_IMPORT_UNRESOLVED 0,
    import_row 0x006062f8 ISAAC_VITA_IMPORT_UNRESOLVED 0,
    import_row 0x006062fc ISAAC_VITA_IMPORT_GL_WGL 0,
    import_row 0x00606300 ISAAC_VITA_IMPORT_UNRESOLVED 0,
    import_row 0x00606308 ISAAC_VITA_IMPORT_AUDIO 0,
    import_row 0x0060630c ISAAC_VITA_IMPORT_AUDIO 1,
    import_row 0x00606310 ISAAC_VITA_IMPORT_AUDIO 2,
    import_row 0x00606314 ISAAC_VITA_IMPORT_AUDIO 3,
    import_row 0x00606318 ISAAC_VITA_IMPORT_AUDIO 4,
    import_row 0x0060631c ISAAC_VITA_IMPORT_AUDIO 5,
    import_row 0x00606320 ISAAC_VITA_IMPORT_AUDIO 6,
    import_row 0x00606324 ISAAC_VITA_IMPORT_AUDIO 7,
    import_row 0x00606328 ISAAC_VITA_IMPORT_AUDIO 8,
    import_row 0x0060632c ISAAC_VITA_IMPORT_AUDIO 9,
    import_row 0x00606330 ISAAC_VITA_IMPORT_AUDIO 10,
    import_row 0x00606334 ISAAC_VITA_IMPORT_AUDIO 11,
    import_row 0x00606338 ISAAC_VITA_IMPORT_AUDIO 12,
    import_row 0x0060633c ISAAC_VITA_IMPORT_AUDIO 13,
    import_row 0x00606340 ISAAC_VITA_IMPORT_AUDIO 14,
    import_row 0x00606344 ISAAC_VITA_IMPORT_AUDIO 15,
    import_row 0x00606348 ISAAC_VITA_IMPORT_AUDIO 16,
    import_row 0x0060634c ISAAC_VITA_IMPORT_AUDIO 17,
    import_row 0x00606350 ISAAC_VITA_IMPORT_AUDIO 18,
    import_row 0x00606354 ISAAC_VITA_IMPORT_AUDIO 19,
    import_row 0x00606358 ISAAC_VITA_IMPORT_AUDIO 20,
    import_row 0x0060635c ISAAC_VITA_IMPORT_AUDIO 21,
    import_row 0x00606360 ISAAC_VITA_IMPORT_AUDIO 22,
    import_row 0x00606364 ISAAC_VITA_IMPORT_AUDIO 23,
    import_row 0x0060636c ISAAC_VITA_IMPORT_UNRESOLVED 0,
    import_row 0x00606374 ISAAC_VITA_IMPORT_UNRESOLVED 0,
    import_row 0x00606378 ISAAC_VITA_IMPORT_UNRESOLVED 0,
    import_row 0x0060637c ISAAC_VITA_IMPORT_UNRESOLVED 0,
    import_row 0x00606380 ISAAC_VITA_IMPORT_UNRESOLVED 0,
    import_row 0x00606384 ISAAC_VITA_IMPORT_UNRESOLVED 0,
    import_row 0x00606388 ISAAC_VITA_IMPORT_UNRESOLVED 0,
    import_row 0x0060638c ISAAC_VITA_IMPORT_UNRESOLVED 0,
    import_row 0x00606390 ISAAC_VITA_IMPORT_UNRESOLVED 0,
    import_row 0x00606394 ISAAC_VITA_IMPORT_UNRESOLVED 0,
    import_row 0x00606398 ISAAC_VITA_IMPORT_UNRESOLVED 0,
    import_row 0x0060639c ISAAC_VITA_IMPORT_UNRESOLVED 0,
    import_row 0x006063a0 ISAAC_VITA_IMPORT_UNRESOLVED 0,
    import_row 0x006063a4 ISAAC_VITA_IMPORT_UNRESOLVED 0,
    import_row 0x006063a8 ISAAC_VITA_IMPORT_UNRESOLVED 0,
    import_row 0x006063ac ISAAC_VITA_IMPORT_UNRESOLVED 0,
    import_row 0x006063b0 ISAAC_VITA_IMPORT_UNRESOLVED 0,
    import_row 0x006063b4 ISAAC_VITA_IMPORT_UNRESOLVED 0,
    import_row 0x006063b8 ISAAC_VITA_IMPORT_USER32 0,
    import_row 0x006063bc ISAAC_VITA_IMPORT_USER32 1,
    import_row 0x006063c0 ISAAC_VITA_IMPORT_USER32 2,
    import_row 0x006063c4 ISAAC_VITA_IMPORT_USER32 3,
    import_row 0x006063c8 ISAAC_VITA_IMPORT_USER32 4,
    import_row 0x006063cc ISAAC_VITA_IMPORT_USER32 5,
    import_row 0x006063d0 ISAAC_VITA_IMPORT_UNRESOLVED 0,
    import_row 0x006063d4 ISAAC_VITA_IMPORT_UNRESOLVED 0,
    import_row 0x006063d8 ISAAC_VITA_IMPORT_UNRESOLVED 0,
    import_row 0x006063dc ISAAC_VITA_IMPORT_UNRESOLVED 0,
    import_row 0x006063e0 ISAAC_VITA_IMPORT_UNRESOLVED 0,
    import_row 0x006063e4 ISAAC_VITA_IMPORT_UNRESOLVED 0,
    import_row 0x006063e8 ISAAC_VITA_IMPORT_UNRESOLVED 0,
    import_row 0x006063ec ISAAC_VITA_IMPORT_UNRESOLVED 0,
    import_row 0x006063f0 ISAAC_VITA_IMPORT_UNRESOLVED 0,
    import_row 0x006063f4 ISAAC_VITA_IMPORT_UNRESOLVED 0,
    import_row 0x006063f8 ISAAC_VITA_IMPORT_UNRESOLVED 0,
    import_row 0x006063fc ISAAC_VITA_IMPORT_STARTUP 10,
    import_row 0x00606400 ISAAC_VITA_IMPORT_UNRESOLVED 0,
    import_row 0x00606404 ISAAC_VITA_IMPORT_UNRESOLVED 0,
    import_row 0x00606408 ISAAC_VITA_IMPORT_UNRESOLVED 0,
    import_row 0x0060640c ISAAC_VITA_IMPORT_UNRESOLVED 0,
    import_row 0x00606410 ISAAC_VITA_IMPORT_UNRESOLVED 0,
    import_row 0x00606414 ISAAC_VITA_IMPORT_UNRESOLVED 0,
    import_row 0x00606418 ISAAC_VITA_IMPORT_UNRESOLVED 0,
    import_row 0x0060641c ISAAC_VITA_IMPORT_UNRESOLVED 0,
    import_row 0x00606420 ISAAC_VITA_IMPORT_UNRESOLVED 0,
    import_row 0x00606424 ISAAC_VITA_IMPORT_UNRESOLVED 0,
    import_row 0x00606428 ISAAC_VITA_IMPORT_UNRESOLVED 0,
    import_row 0x0060642c ISAAC_VITA_IMPORT_UNRESOLVED 0,
    import_row 0x00606430 ISAAC_VITA_IMPORT_UNRESOLVED 0,
    import_row 0x00606434 ISAAC_VITA_IMPORT_UNRESOLVED 0,
    import_row 0x00606438 ISAAC_VITA_IMPORT_UNRESOLVED 0,
    import_row 0x0060643c ISAAC_VITA_IMPORT_UNRESOLVED 0,
    import_row 0x00606440 ISAAC_VITA_IMPORT_UNRESOLVED 0,
    import_row 0x00606444 ISAAC_VITA_IMPORT_UNRESOLVED 0,
    import_row 0x00606448 ISAAC_VITA_IMPORT_UNRESOLVED 0,
    import_row 0x0060644c ISAAC_VITA_IMPORT_UNRESOLVED 0,
    import_row 0x00606450 ISAAC_VITA_IMPORT_UNRESOLVED 0,
    import_row 0x00606454 ISAAC_VITA_IMPORT_UNRESOLVED 0,
    import_row 0x00606458 ISAAC_VITA_IMPORT_UNRESOLVED 0,
    import_row 0x0060645c ISAAC_VITA_IMPORT_UNRESOLVED 0,
    import_row 0x00606464 ISAAC_VITA_IMPORT_RTTI 0,
    import_row 0x00606468 ISAAC_VITA_IMPORT_UNRESOLVED 0,
    import_row 0x0060646c ISAAC_VITA_IMPORT_UNRESOLVED 0,
    import_row 0x00606470 ISAAC_VITA_IMPORT_MEMORY 0,
    import_row 0x00606474 ISAAC_VITA_IMPORT_UNRESOLVED 0,
    import_row 0x00606478 ISAAC_VITA_IMPORT_UNRESOLVED 0,
    import_row 0x0060647c ISAAC_VITA_IMPORT_MEMORY 1,
    import_row 0x00606480 ISAAC_VITA_IMPORT_UNRESOLVED 0,
    import_row 0x00606484 ISAAC_VITA_IMPORT_MEMORY 2,
    import_row 0x00606488 ISAAC_VITA_IMPORT_MEMORY 3,
    import_row 0x0060648c ISAAC_VITA_IMPORT_EXCEPTION 1,
    import_row 0x00606490 ISAAC_VITA_IMPORT_MEMORY 4,
    import_row 0x00606494 ISAAC_VITA_IMPORT_MEMORY 5,
    import_row 0x00606498 ISAAC_VITA_IMPORT_UNRESOLVED 0,
    import_row 0x0060649c ISAAC_VITA_IMPORT_UNRESOLVED 0,
    import_row 0x006064a0 ISAAC_VITA_IMPORT_UNRESOLVED 0,
    import_row 0x006064a4 ISAAC_VITA_IMPORT_UNRESOLVED 0,
    import_row 0x006064a8 ISAAC_VITA_IMPORT_UNRESOLVED 0,
    import_row 0x006064ac ISAAC_VITA_IMPORT_UNRESOLVED 0,
    import_row 0x006064b4 ISAAC_VITA_IMPORT_POST_COM 3,
    import_row 0x006064b8 ISAAC_VITA_IMPORT_POST_COM 1,
    import_row 0x006064bc ISAAC_VITA_IMPORT_POST_COM 2,
    import_row 0x006064c0 ISAAC_VITA_IMPORT_POST_COM 4,
    import_row 0x006064c8 ISAAC_VITA_IMPORT_CRT 53,
    import_row 0x006064cc ISAAC_VITA_IMPORT_CRT 24,
    import_row 0x006064d0 ISAAC_VITA_IMPORT_CRT 25,
    import_row 0x006064d4 ISAAC_VITA_IMPORT_CRT 54,
    import_row 0x006064d8 ISAAC_VITA_IMPORT_CRT 55,
    import_row 0x006064dc ISAAC_VITA_IMPORT_CRT 56,
    import_row 0x006064e4 ISAAC_VITA_IMPORT_CRT 16,
    import_row 0x006064ec ISAAC_VITA_IMPORT_FILESYSTEM 0,
    import_row 0x006064f0 ISAAC_VITA_IMPORT_FILESYSTEM 1,
    import_row 0x006064f8 ISAAC_VITA_IMPORT_HEAP 0,
    import_row 0x006064fc ISAAC_VITA_IMPORT_HEAP 1,
    import_row 0x00606500 ISAAC_VITA_IMPORT_HEAP 2,
    import_row 0x00606504 ISAAC_VITA_IMPORT_HEAP 3,
    import_row 0x00606508 ISAAC_VITA_IMPORT_HEAP 4,
    import_row 0x0060650c ISAAC_VITA_IMPORT_HEAP 5,
    import_row 0x00606514 ISAAC_VITA_IMPORT_CRT 10,
    import_row 0x0060651c ISAAC_VITA_IMPORT_MATH 0,
    import_row 0x00606520 ISAAC_VITA_IMPORT_MATH 1,
    import_row 0x00606524 ISAAC_VITA_IMPORT_MATH 2,
    import_row 0x00606528 ISAAC_VITA_IMPORT_MATH 3,
    import_row 0x0060652c ISAAC_VITA_IMPORT_MATH 4,
    import_row 0x00606530 ISAAC_VITA_IMPORT_MATH 5,
    import_row 0x00606534 ISAAC_VITA_IMPORT_MATH 6,
    import_row 0x00606538 ISAAC_VITA_IMPORT_MATH 7,
    import_row 0x0060653c ISAAC_VITA_IMPORT_MATH 8,
    import_row 0x00606540 ISAAC_VITA_IMPORT_MATH 9,
    import_row 0x00606544 ISAAC_VITA_IMPORT_MATH 10,
    import_row 0x00606548 ISAAC_VITA_IMPORT_MATH 11,
    import_row 0x0060654c ISAAC_VITA_IMPORT_MATH 12,
    import_row 0x00606550 ISAAC_VITA_IMPORT_MATH 13,
    import_row 0x00606554 ISAAC_VITA_IMPORT_MATH 14,
    import_row 0x00606558 ISAAC_VITA_IMPORT_MATH 15,
    import_row 0x0060655c ISAAC_VITA_IMPORT_MATH 16,
    import_row 0x00606560 ISAAC_VITA_IMPORT_MATH 17,
    import_row 0x00606564 ISAAC_VITA_IMPORT_MATH 18,
    import_row 0x00606568 ISAAC_VITA_IMPORT_MATH 19,
    import_row 0x0060656c ISAAC_VITA_IMPORT_MATH 20,
    import_row 0x00606574 ISAAC_VITA_IMPORT_CRT 13,
    import_row 0x00606578 ISAAC_VITA_IMPORT_CRT 57,
    import_row 0x0060657c ISAAC_VITA_IMPORT_CRT 9,
    import_row 0x00606580 ISAAC_VITA_IMPORT_CRT 12,
    import_row 0x00606584 ISAAC_VITA_IMPORT_CRT 2,
    import_row 0x00606588 ISAAC_VITA_IMPORT_CRT 3,
    import_row 0x0060658c ISAAC_VITA_IMPORT_UNRESOLVED 0,
    import_row 0x00606590 ISAAC_VITA_IMPORT_UNRESOLVED 0,
    import_row 0x00606594 ISAAC_VITA_IMPORT_UNRESOLVED 0,
    import_row 0x00606598 ISAAC_VITA_IMPORT_UNRESOLVED 0,
    import_row 0x0060659c ISAAC_VITA_IMPORT_CRT 58,
    import_row 0x006065a0 ISAAC_VITA_IMPORT_CRT 6,
    import_row 0x006065a4 ISAAC_VITA_IMPORT_CRT 39,
    import_row 0x006065a8 ISAAC_VITA_IMPORT_CRT 59,
    import_row 0x006065ac ISAAC_VITA_IMPORT_UNRESOLVED 0,
    import_row 0x006065b0 ISAAC_VITA_IMPORT_UNRESOLVED 0,
    import_row 0x006065b4 ISAAC_VITA_IMPORT_UNRESOLVED 0,
    import_row 0x006065b8 ISAAC_VITA_IMPORT_CRT 15,
    import_row 0x006065bc ISAAC_VITA_IMPORT_UNRESOLVED 0,
    import_row 0x006065c0 ISAAC_VITA_IMPORT_UNRESOLVED 0,
    import_row 0x006065c4 ISAAC_VITA_IMPORT_UNRESOLVED 0,
    import_row 0x006065c8 ISAAC_VITA_IMPORT_UNRESOLVED 0,
    import_row 0x006065cc ISAAC_VITA_IMPORT_CRT 11,
    import_row 0x006065d0 ISAAC_VITA_IMPORT_CRT 7,
    import_row 0x006065d4 ISAAC_VITA_IMPORT_CRT 14,
    import_row 0x006065d8 ISAAC_VITA_IMPORT_CRT 40,
    import_row 0x006065e0 ISAAC_VITA_IMPORT_CRT 47,
    import_row 0x006065e4 ISAAC_VITA_IMPORT_FREAD 0,
    import_row 0x006065e8 ISAAC_VITA_IMPORT_CRT 48,
    import_row 0x006065ec ISAAC_VITA_IMPORT_CRT 1,
    import_row 0x006065f0 ISAAC_VITA_IMPORT_CRT 49,
    import_row 0x006065f4 ISAAC_VITA_IMPORT_CRT 50,
    import_row 0x006065f8 ISAAC_VITA_IMPORT_CRT 5,
    import_row 0x006065fc ISAAC_VITA_IMPORT_CRT 19,
    import_row 0x00606600 ISAAC_VITA_IMPORT_CRT 51,
    import_row 0x00606604 ISAAC_VITA_IMPORT_CRT 52,
    import_row 0x00606608 ISAAC_VITA_IMPORT_CRT 18,
    import_row 0x0060660c ISAAC_VITA_IMPORT_CRT 4,
    import_row 0x00606610 ISAAC_VITA_IMPORT_CRT 38,
    import_row 0x00606614 ISAAC_VITA_IMPORT_CRT 17,
    import_row 0x00606618 ISAAC_VITA_IMPORT_CRT 26,
    import_row 0x0060661c ISAAC_VITA_IMPORT_CRT 20,
    import_row 0x00606624 ISAAC_VITA_IMPORT_CRT 23,
    import_row 0x00606628 ISAAC_VITA_IMPORT_CRT 28,
    import_row 0x0060662c ISAAC_VITA_IMPORT_CRT 29,
    import_row 0x00606630 ISAAC_VITA_IMPORT_CRT 30,
    import_row 0x00606634 ISAAC_VITA_IMPORT_CRT 31,
    import_row 0x00606638 ISAAC_VITA_IMPORT_CRT 21,
    import_row 0x0060663c ISAAC_VITA_IMPORT_CRT 32,
    import_row 0x00606640 ISAAC_VITA_IMPORT_CRT 27,
    import_row 0x00606644 ISAAC_VITA_IMPORT_CRT 33,
    import_row 0x00606648 ISAAC_VITA_IMPORT_CRT 22,
    import_row 0x0060664c ISAAC_VITA_IMPORT_CRT 34,
    import_row 0x00606650 ISAAC_VITA_IMPORT_CRT 35,
    import_row 0x00606654 ISAAC_VITA_IMPORT_CRT 36,
    import_row 0x00606658 ISAAC_VITA_IMPORT_CRT 37,
    import_row 0x00606660 ISAAC_VITA_IMPORT_CRT 41,
    import_row 0x00606664 ISAAC_VITA_IMPORT_CRT 42,
    import_row 0x00606668 ISAAC_VITA_IMPORT_CRT 43,
    import_row 0x0060666c ISAAC_VITA_IMPORT_CRT 44,
    import_row 0x00606670 ISAAC_VITA_IMPORT_CRT 45,
    import_row 0x00606678 ISAAC_VITA_IMPORT_CRT 46,
    import_row 0x00606680 ISAAC_VITA_IMPORT_UNRESOLVED 0,
    import_row 0x00606688 ISAAC_VITA_IMPORT_UNRESOLVED 0,
    import_row 0x0060668c ISAAC_VITA_IMPORT_UNRESOLVED 0,
    import_row 0x00606690 ISAAC_VITA_IMPORT_UNRESOLVED 0,
    import_row 0x00606694 ISAAC_VITA_IMPORT_UNRESOLVED 0,
    import_row 0x0060669c ISAAC_VITA_IMPORT_COM 1,
    import_row 0x006066a0 ISAAC_VITA_IMPORT_COM 0,
    import_row 0x006066a4 ISAAC_VITA_IMPORT_COM 2,
    import_row 0x006066ac ISAAC_VITA_IMPORT_STEAM 0,
    import_row 0x006066b0 ISAAC_VITA_IMPORT_UNRESOLVED 0,
    import_row 0x006066b4 ISAAC_VITA_IMPORT_UNRESOLVED 0,
    import_row 0x006066b8 ISAAC_VITA_IMPORT_UNRESOLVED 0,
    import_row 0x006066bc ISAAC_VITA_IMPORT_STEAM 1,
    import_row 0x006066c0 ISAAC_VITA_IMPORT_STEAM 2,
    import_row 0x006066c4 ISAAC_VITA_IMPORT_STEAM 3,
    import_row 0x006066c8 ISAAC_VITA_IMPORT_STEAM 4,
    import_row 0x006066cc ISAAC_VITA_IMPORT_STEAM 5,
    import_row 0x006066d0 ISAAC_VITA_IMPORT_POST_COM 5,
    import_row 0x006066d4 ISAAC_VITA_IMPORT_STEAM 6]"

definition ISAAC_VITA_IMPORT_ID_COUNT :: nat where "ISAAC_VITA_IMPORT_ID_COUNT = 413"
definition ISAAC_VITA_IMPORT_ID_LUA_CLOSE :: nat where "ISAAC_VITA_IMPORT_ID_LUA_CLOSE = 81"
definition ISAAC_VITA_IMPORT_ID_SYNC_LEAVE_CS :: nat where "ISAAC_VITA_IMPORT_ID_SYNC_LEAVE_CS = 60"
definition ISAAC_VITA_IMPORT_ID_SYNC_ENTER_CS :: nat where "ISAAC_VITA_IMPORT_ID_SYNC_ENTER_CS = 61"
definition ISAAC_VITA_IMPORT_LOCAL_SYNC_LEAVE_CS :: nat where "ISAAC_VITA_IMPORT_LOCAL_SYNC_LEAVE_CS = 6"
definition ISAAC_VITA_IMPORT_LOCAL_SYNC_ENTER_CS :: nat where "ISAAC_VITA_IMPORT_LOCAL_SYNC_ENTER_CS = 5"
definition ISAAC_VITA_IMPORT_SLOT_SYNC_LEAVE_CS :: u32 where "ISAAC_VITA_IMPORT_SLOT_SYNC_LEAVE_CS = 0x006060F8"
definition ISAAC_VITA_IMPORT_SLOT_SYNC_ENTER_CS :: u32 where "ISAAC_VITA_IMPORT_SLOT_SYNC_ENTER_CS = 0x006060FC"

lemmas sync_constants =
  ISAAC_VITA_IMPORT_ID_SYNC_LEAVE_CS_def ISAAC_VITA_IMPORT_ID_SYNC_ENTER_CS_def
  ISAAC_VITA_IMPORT_LOCAL_SYNC_LEAVE_CS_def ISAAC_VITA_IMPORT_LOCAL_SYNC_ENTER_CS_def
  ISAAC_VITA_IMPORT_SLOT_SYNC_LEAVE_CS_def ISAAC_VITA_IMPORT_SLOT_SYNC_ENTER_CS_def

section \<open>The endpoints\<close>

text \<open>
  The function that executes a row: the indexed entry point of its family, or the typed endpoint
  that the Lua family binds for some of its rows.
\<close>

datatype guest_import_family_fn = Family_indexed isaac_vita_import_binding_kind | Lua_typed nat

text \<open>
  The host: the image base and the families the build fixes, the typed Lua endpoints, and what an
  endpoint called with a local index returns.
\<close>

record host =
  GUEST_IMAGE_BASE :: u32
  vita_audio :: bool
  vita_lua :: bool
  lua_off_close_noop :: bool
  lua_import_fast_binding :: "nat \<Rightarrow> nat option"
  family_handles :: "guest_import_family_fn \<Rightarrow> nat \<Rightarrow> int"
  host_import_id_error :: string

definition family_indexed_fn ::
    "host \<Rightarrow> isaac_vita_import_binding_kind \<Rightarrow> guest_import_family_fn option" where
  "family_indexed_fn h kind =
     (case kind of
        ISAAC_VITA_IMPORT_UNRESOLVED \<Rightarrow> None
      | ISAAC_VITA_IMPORT_LUA \<Rightarrow> if vita_lua h then Some (Family_indexed ISAAC_VITA_IMPORT_LUA) else None
      | ISAAC_VITA_IMPORT_AUDIO \<Rightarrow>
          if vita_audio h then Some (Family_indexed ISAAC_VITA_IMPORT_AUDIO) else None
      | _ \<Rightarrow> Some (Family_indexed kind))"

definition ISAAC_VITA_LUA_FAST_BINDING ::
    "host \<Rightarrow> isaac_vita_import_binding_kind \<Rightarrow> nat \<Rightarrow> guest_import_family_fn \<Rightarrow> guest_import_family_fn" where
  "ISAAC_VITA_LUA_FAST_BINDING h kind local fn =
     (if kind = ISAAC_VITA_IMPORT_LUA
      then case lua_import_fast_binding h local of None \<Rightarrow> fn | Some fast \<Rightarrow> Lua_typed fast
      else fn)"

text \<open>
  The call by identifier: what it returns, with the endpoint that ran and its local index, if one
  did.  \<open>ready\<close> is the flag of a successful registration.
\<close>

definition guest_host_import_id ::
    "host \<Rightarrow> bool \<Rightarrow> nat \<Rightarrow> int \<times> (guest_import_family_fn \<times> nat) option" where
  "guest_host_import_id h ready import_id =
     (if \<not> ready then (-1, None)
      else if import_id \<ge> ISAAC_VITA_IMPORT_ID_COUNT then (-1, None)
      else
        let entry = s_import_ids ! import_id in
        if row_kind entry = ISAAC_VITA_IMPORT_UNRESOLVED then (0, None)
        else case family_indexed_fn h (row_kind entry) of
          None \<Rightarrow>
            (if row_kind entry = ISAAC_VITA_IMPORT_LUA
             then (if \<not> vita_lua h \<and> lua_off_close_noop h \<and> import_id = ISAAC_VITA_IMPORT_ID_LUA_CLOSE
                   then (1, None) else (0, None))
             else if row_kind entry = ISAAC_VITA_IMPORT_AUDIO then (0, None) else (-1, None))
        | Some fn \<Rightarrow>
            let fn = ISAAC_VITA_LUA_FAST_BINDING h (row_kind entry) (row_local_index entry) fn in
            (family_handles h fn (row_local_index entry), Some (fn, row_local_index entry)))"

definition guest_host_import_id_direct_binding ::
    "host \<Rightarrow> bool \<Rightarrow> nat \<Rightarrow> (guest_import_family_fn \<times> nat) option" where
  "guest_host_import_id_direct_binding h ready import_id =
     (if \<not> ready \<or> import_id \<ge> ISAAC_VITA_IMPORT_ID_COUNT then None
      else
        let entry = s_import_ids ! import_id in
        if row_kind entry = ISAAC_VITA_IMPORT_UNRESOLVED then None
        else case family_indexed_fn h (row_kind entry) of
          None \<Rightarrow> None
        | Some bound \<Rightarrow>
            Some (ISAAC_VITA_LUA_FAST_BINDING h (row_kind entry) (row_local_index entry) bound,
                  row_local_index entry))"

section \<open>One binding\<close>

text \<open>The rows of the two pinned imports are where the named constants say.\<close>

lemma import_ids_length: "length s_import_ids = ISAAC_VITA_IMPORT_ID_COUNT"
  by (simp add: s_import_ids_def ISAAC_VITA_IMPORT_ID_COUNT_def)

lemma sync_rows:
  "s_import_ids ! ISAAC_VITA_IMPORT_ID_SYNC_LEAVE_CS = \<lparr>row_slot_rva = ISAAC_VITA_IMPORT_SLOT_SYNC_LEAVE_CS,
     row_kind = ISAAC_VITA_IMPORT_SYNC, row_local_index = ISAAC_VITA_IMPORT_LOCAL_SYNC_LEAVE_CS\<rparr>"
  "s_import_ids ! ISAAC_VITA_IMPORT_ID_SYNC_ENTER_CS = \<lparr>row_slot_rva = ISAAC_VITA_IMPORT_SLOT_SYNC_ENTER_CS,
     row_kind = ISAAC_VITA_IMPORT_SYNC, row_local_index = ISAAC_VITA_IMPORT_LOCAL_SYNC_ENTER_CS\<rparr>"
  by (simp_all add: s_import_ids_def import_row_def sync_constants)

text \<open>The table is in the order of its slots, each of them taken once.\<close>

lemma import_ids_ascending: "sorted_wrt (<) (map row_slot_rva s_import_ids)"
  by (simp add: s_import_ids_def import_row_def sorted_wrt2 [OF transp_on_less] sorted_wrt1 del: sorted_wrt.simps(2))

text \<open>A direct binding is the endpoint that the call by identifier runs, with its local index.\<close>

lemma direct_binding_runs:
  "guest_host_import_id_direct_binding h ready i = Some (fn, local) \<Longrightarrow>
   guest_host_import_id h ready i = (family_handles h fn local, Some (fn, local)) \<and>
   local = row_local_index (s_import_ids ! i) \<and> i < ISAAC_VITA_IMPORT_ID_COUNT \<and> ready"
  by (auto simp: guest_host_import_id_direct_binding_def guest_host_import_id_def Let_def
      split: if_splits option.splits)

lemma sync_binding:
  "guest_host_import_id_direct_binding h True ISAAC_VITA_IMPORT_ID_SYNC_LEAVE_CS =
     Some (Family_indexed ISAAC_VITA_IMPORT_SYNC, ISAAC_VITA_IMPORT_LOCAL_SYNC_LEAVE_CS)"
  "guest_host_import_id_direct_binding h True ISAAC_VITA_IMPORT_ID_SYNC_ENTER_CS =
     Some (Family_indexed ISAAC_VITA_IMPORT_SYNC, ISAAC_VITA_IMPORT_LOCAL_SYNC_ENTER_CS)"
  by (simp_all add: guest_host_import_id_direct_binding_def sync_rows Let_def family_indexed_fn_def
      ISAAC_VITA_LUA_FAST_BINDING_def,
      simp_all add: sync_constants ISAAC_VITA_IMPORT_ID_COUNT_def)

end
