(* ===== verification/Guest_Dispatch.thy ===== *)
theory Guest_Dispatch imports Host_Import_Id begin

text \<open>
  Indirect calls of translated code, \<open>runtime/guest.c\<close>: the registered function and import
  tables, the lookup cache, the dense import table, the complete classification of an address
  and the perfect-hash dispatch table in front of it.  A native function is named by its number.
  Arrays of fixed size are maps from their index, which the code keeps in range; counts and
  indices are natural numbers where the code bounds them below the width of their cell.
\<close>

unbundle bit_operations_syntax

section \<open>State\<close>

text \<open>A function pointer of the table: translated code, the trampoline of a typed GL entry, or
  \<open>guest_dispatch_empty_slot\<close>.\<close>

datatype guest_fn = Translated nat | Gl_trampoline nat | Dispatch_empty_slot

record guest_import =
  slot_rva :: u32
  import_name :: string

text \<open>The row of a direct import; a zeroed one has slot word 0 and no function.\<close>

record guest_import_direct =
  slot_va :: u32
  direct_fn :: "guest_import_family_fn option"
  direct_local_index :: nat

record guest_lookup_cache_entry =
  entry_key :: u32
  entry_function :: "nat option"
  dispatch_function :: "nat option"

record guest_dispatch_slot =
  slot_key :: u32
  slot_function :: "guest_fn option"

record guest_dispatch_table =
  bucket_multiplier :: "nat \<Rightarrow> u16"
  multiplier :: u32
  slots :: "nat \<Rightarrow> guest_dispatch_slot"

record guest_dispatch_table_status =
  ready :: bool
  table_keys :: nat
  skipped :: nat
  max_bucket :: nat
  bucket_tries :: nat
  gl_tokens :: nat
  reason :: "string option"

text \<open>
  The static variables of the dispatcher.  \<open>gl_registry\<close> is the generated registry of typed GL
  tokens: the token of each entry and whether its trampoline is present.
\<close>

record dispatch =
  g_image_base :: u32
  g_image_size :: u32
  g_imports :: "guest_import list"
  g_addrs :: "u32 list"
  g_fns :: "nat option list"
  g_guest_lookup_cache :: "nat \<Rightarrow> guest_lookup_cache_entry"
  g_guest_import_dense :: "nat \<Rightarrow> u16"
  dense_base :: u32
  dense_span :: u32
  sync_import_fastpath_ready :: bool
  g_isaac_vita_import_ids_ready :: bool
  g_guest_import_direct :: "nat \<Rightarrow> guest_import_direct"
  g_gl_dynamic_first :: bool
  gl_registry :: "(u32 \<times> bool) list"
  g_guest_dispatch :: guest_dispatch_table
  dispatch_status :: guest_dispatch_table_status
  dispatch_order :: "nat list"

definition GUEST_LOOKUP_CACHE_COUNT :: nat where "GUEST_LOOKUP_CACHE_COUNT = 256"
definition GUEST_IMPORT_DENSE_SLOT_COUNT :: u32 where "GUEST_IMPORT_DENSE_SLOT_COUNT = 438"
definition GUEST_IMPORT_DIRECT_CAPACITY :: nat where "GUEST_IMPORT_DIRECT_CAPACITY = 512"
definition GUEST_DISPATCH_SLOT_BITS :: nat where "GUEST_DISPATCH_SLOT_BITS = 15"
definition GUEST_DISPATCH_SLOT_COUNT :: nat where "GUEST_DISPATCH_SLOT_COUNT = 32768"
definition GUEST_DISPATCH_BUCKET_BITS :: nat where "GUEST_DISPATCH_BUCKET_BITS = 10"
definition GUEST_DISPATCH_BUCKET_COUNT :: nat where "GUEST_DISPATCH_BUCKET_COUNT = 1024"
definition GUEST_DISPATCH_MAX_KEYS :: nat where "GUEST_DISPATCH_MAX_KEYS = 16384"
definition GUEST_DISPATCH_MAX_BUCKET :: nat where "GUEST_DISPATCH_MAX_BUCKET = 255"
definition GUEST_DISPATCH_EMPTY_KEY :: u32 where "GUEST_DISPATCH_EMPTY_KEY = 0"
definition GUEST_DISPATCH_MULTIPLIER :: u32 where "GUEST_DISPATCH_MULTIPLIER = 0x9E3779B1"
definition GUEST_DISPATCH_CANDIDATES :: nat where "GUEST_DISPATCH_CANDIDATES = 32768"
definition GUEST_DISPATCH_CANDIDATE :: "nat \<Rightarrow> u16" where
  "GUEST_DISPATCH_CANDIDATE t = ucast ((of_nat t * 2 + 1) * 0x9E37 :: u32)"

section \<open>Addresses, imports and registered functions\<close>

definition image_rva :: "dispatch \<Rightarrow> u32 \<Rightarrow> u32" where
  "image_rva d addr =
     (if g_image_base d \<noteq> 0 \<and> addr - g_image_base d < g_image_size d then addr - g_image_base d
      else addr)"

definition family :: "u32 \<Rightarrow> u32" where "family addr = addr AND 0xFF000000"

text \<open>The binary search of the ascending tables; the second result counts its iterations.\<close>

function rva_search :: "u32 list \<Rightarrow> u32 \<Rightarrow> nat \<Rightarrow> nat \<Rightarrow> nat \<Rightarrow> nat option \<times> nat" where
  "rva_search xs key lo hi iterations =
     (if lo < hi then
        let mid = lo + (hi - lo) div 2 in
        if xs ! mid = key then (Some mid, iterations + 1)
        else if xs ! mid < key then rva_search xs key (mid + 1) hi (iterations + 1)
        else rva_search xs key lo mid (iterations + 1)
      else (None, iterations))"
  by pat_completeness auto
termination by (relation "measure (\<lambda>(_, _, lo, hi, _). hi - lo)") auto

declare rva_search.simps [simp del]

definition guest_lookup_cache_index :: "u32 \<Rightarrow> nat" where
  "guest_lookup_cache_index key = unat (drop_bit 24 (key * 2654435761))"

definition guest_dispatch_cache_invalidate :: "dispatch \<Rightarrow> dispatch" where
  "guest_dispatch_cache_invalidate d =
     d\<lparr>g_guest_lookup_cache := \<lambda>i. (g_guest_lookup_cache d i)\<lparr>dispatch_function := None\<rparr>\<rparr>"

text \<open>Each import claims its slot; \<open>None\<close> when an address is misaligned, out of the span or taken.\<close>

fun dense_fill :: "u32 \<Rightarrow> u32 \<Rightarrow> nat \<Rightarrow> guest_import list \<Rightarrow> (nat \<Rightarrow> u16) \<Rightarrow> (nat \<Rightarrow> u16) option" where
  "dense_fill base span i [] dense = Some dense"
| "dense_fill base span i (imported # imports) dense =
     (let delta = slot_rva imported - base; slot = drop_bit 2 delta in
      if delta AND 3 \<noteq> 0 \<or> slot \<ge> span \<or> dense (unat slot) \<noteq> 0xFFFF then None
      else dense_fill base span (i + 1) imports (dense(unat slot := of_nat i)))"

definition guest_import_dense_register :: "guest_import list \<Rightarrow> dispatch \<Rightarrow> dispatch" where
  "guest_import_dense_register imports d =
     (let none = d\<lparr>g_guest_import_dense := \<lambda>_. 0xFFFF, dense_base := 0, dense_span := 0\<rparr> in
      if imports = [] \<or> length imports > 0xFFFF then none
      else
        let base = slot_rva (hd imports); last = slot_rva (List.last imports);
            span = drop_bit 2 (last - base) in
        if (last - base) AND 3 \<noteq> 0 \<or> span \<ge> GUEST_IMPORT_DENSE_SLOT_COUNT then none
        else case dense_fill base (span + 1) 0 imports (\<lambda>_. 0xFFFF) of
          None \<Rightarrow> none
        | Some dense \<Rightarrow>
            d\<lparr>g_guest_import_dense := dense, dense_base := base, dense_span := span + 1\<rparr>)"

text \<open>The dense table only proposes an import: its slot is compared before it is returned.\<close>

definition dense_candidate :: "dispatch \<Rightarrow> u32 \<Rightarrow> nat option" where
  "dense_candidate d key =
     (let delta = key - dense_base d; slot = drop_bit 2 delta;
          index = g_guest_import_dense d (unat slot) in
      if dense_span d \<noteq> 0 \<and> delta AND 3 = 0 \<and> slot < dense_span d \<and> index \<noteq> 0xFFFF \<and>
         unat index < length (g_imports d) \<and> slot_rva (g_imports d ! unat index) = key
      then Some (unat index) else None)"

definition guest_import_lookup :: "dispatch \<Rightarrow> u32 \<Rightarrow> nat option" where
  "guest_import_lookup d slot_addr =
     (let key = image_rva d slot_addr; imports = g_imports d in
      if imports = [] \<or> key < slot_rva (hd imports) \<or> key > slot_rva (last imports) then None
      else case dense_candidate d key of
        Some i \<Rightarrow> Some i
      | None \<Rightarrow> fst (rva_search (map slot_rva imports) key 0 (length imports) 0))"

definition guest_lookup :: "dispatch \<Rightarrow> u32 \<Rightarrow> nat option \<times> dispatch" where
  "guest_lookup d addr =
     (let key = image_rva d addr;
          index = guest_lookup_cache_index key;
          cached = g_guest_lookup_cache d index in
      if entry_function cached \<noteq> None \<and> entry_key cached = key then (entry_function cached, d)
      else case fst (rva_search (g_addrs d) key 0 (length (g_addrs d)) 0) of
        None \<Rightarrow> (None, d)
      | Some mid \<Rightarrow> (g_fns d ! mid,
          d\<lparr>g_guest_lookup_cache := (g_guest_lookup_cache d)
              (index := \<lparr>entry_key = key, entry_function = g_fns d ! mid, dispatch_function = None\<rparr>)\<rparr>))"

definition guest_dispatch_cache_probe :: "dispatch \<Rightarrow> u32 \<Rightarrow> nat option" where
  "guest_dispatch_cache_probe d addr =
     (if family addr = 0x7D000000 \<or> family addr = 0x7E000000 then None
      else
        let key = image_rva d addr; cached = g_guest_lookup_cache d (guest_lookup_cache_index key) in
        if entry_key cached \<noteq> key \<or> entry_function cached = None \<or>
           dispatch_function cached \<noteq> entry_function cached
        then None else dispatch_function cached)"

definition guest_dispatch_cache_authorize :: "u32 \<Rightarrow> nat \<Rightarrow> dispatch \<Rightarrow> dispatch" where
  "guest_dispatch_cache_authorize addr function d =
     (if family addr = 0x7D000000 \<or> family addr = 0x7E000000 then d
      else
        let key = image_rva d addr; index = guest_lookup_cache_index key;
            cached = g_guest_lookup_cache d index in
        if entry_key cached = key \<and> entry_function cached = Some function
        then d\<lparr>g_guest_lookup_cache := (g_guest_lookup_cache d)
                 (index := cached\<lparr>dispatch_function := Some function\<rparr>)\<rparr>
        else d)"

definition guest_gl_dynamic_first_refresh :: "dispatch \<Rightarrow> dispatch" where
  "guest_gl_dynamic_first_refresh d =
     (let imports_clear = (g_imports d = [] \<or> slot_rva (last (g_imports d)) < 0x7E000000);
          image_clear = (g_image_base d = 0 \<or> g_image_size d = 0 \<or> g_image_base d > 0x7EFFFFFF \<or>
            unat (g_image_base d) + unat (g_image_size d) \<le> 0x7E000000)
      in d\<lparr>g_gl_dynamic_first := imports_clear \<and> image_clear\<rparr>)"

section \<open>The complete classification\<close>

text \<open>
  Where an indirect call goes.  \<open>Imported\<close> is an import completed: its identifier, as the coverage
  notes it, and the endpoint that ran with its local index, if one did.
\<close>

datatype route = Run nat | Gl_entry nat | Dynamic u32
  | Imported nat "(guest_import_family_fn \<times> nat) option" | Fault u32 string

definition ISAAC_VITA_GL_WGL_GET_PROC_TOKEN :: u32 where
  "ISAAC_VITA_GL_WGL_GET_PROC_TOKEN = 0x7D100001"

text \<open>
  The generated hash index of the registry maps each of its tokens to its own entry, and the entry's
  token is compared; that is the search of the registry for the token.
\<close>

definition guest_gl_entry_for_token :: "dispatch \<Rightarrow> u32 \<Rightarrow> nat option" where
  "guest_gl_entry_for_token d token =
     List.find (\<lambda>i. fst (gl_registry d ! i) = token) [0..<length (gl_registry d)]"

definition vita_gl_dynamic_dispatch :: "dispatch \<Rightarrow> u32 \<Rightarrow> route option" where
  "vita_gl_dynamic_dispatch d token =
     (if token = ISAAC_VITA_GL_WGL_GET_PROC_TOKEN then Some (Dynamic token)
      else if family token \<noteq> 0x7E000000 then None
      else map_option Gl_entry (guest_gl_entry_for_token d token))"

definition vita_xinput_dynamic_dispatch :: "u32 \<Rightarrow> route option" where
  "vita_xinput_dynamic_dispatch token =
     (if token \<noteq> 0x7D200001 \<and> token \<noteq> 0x7D200002 \<and> token \<noteq> 0x7D200003 then None
      else Some (Dynamic token))"

definition guest_host_dynamic :: "dispatch \<Rightarrow> u32 \<Rightarrow> route option" where
  "guest_host_dynamic d token =
     (if family token \<noteq> 0x7D000000 \<and> family token \<noteq> 0x7E000000 then None
      else case vita_xinput_dynamic_dispatch token of
        Some r \<Rightarrow> Some r
      | None \<Rightarrow> vita_gl_dynamic_dispatch d token)"

text \<open>The import branch: the synchronisation fast path, then the dispatch by identifier.\<close>

definition sync_route :: "host \<Rightarrow> u32 \<Rightarrow> nat \<Rightarrow> nat \<Rightarrow> route" where
  "sync_route h addr import_id sync_index =
     (if family_handles h (Family_indexed ISAAC_VITA_IMPORT_SYNC) sync_index \<noteq> 0
      then Imported import_id (Some (Family_indexed ISAAC_VITA_IMPORT_SYNC, sync_index))
      else Fault addr ''validated Vita sync import rejected its local ID'')"

definition import_route :: "host \<Rightarrow> dispatch \<Rightarrow> u32 \<Rightarrow> nat \<Rightarrow> route" where
  "import_route h d addr import_id =
     (if sync_import_fastpath_ready d \<and> import_id = ISAAC_VITA_IMPORT_ID_SYNC_LEAVE_CS
      then sync_route h addr import_id ISAAC_VITA_IMPORT_LOCAL_SYNC_LEAVE_CS
      else if sync_import_fastpath_ready d \<and> import_id = ISAAC_VITA_IMPORT_ID_SYNC_ENTER_CS
      then sync_route h addr import_id ISAAC_VITA_IMPORT_LOCAL_SYNC_ENTER_CS
      else case guest_host_import_id h (g_isaac_vita_import_ids_ready d) import_id of
        (handled, endpoint) \<Rightarrow>
          if handled > 0 then Imported import_id endpoint
          else if handled < 0 then Fault addr (host_import_id_error h)
          else Fault addr (import_name (g_imports d ! import_id)))"

definition guest_call_slow :: "host \<Rightarrow> dispatch \<Rightarrow> u32 \<Rightarrow> route \<times> dispatch" where
  "guest_call_slow h d addr =
     (let gl = (if family addr = 0x7E000000 \<and> g_gl_dynamic_first d
                then vita_gl_dynamic_dispatch d addr else None) in
      case gl of Some r \<Rightarrow> (r, d)
      | None \<Rightarrow> case guest_dispatch_cache_probe d addr of
        Some fn \<Rightarrow> (Run fn, d)
      | None \<Rightarrow> case guest_import_lookup d addr of
        Some import_id \<Rightarrow> (import_route h d addr import_id, d)
      | None \<Rightarrow> case guest_host_dynamic d addr of
        Some r \<Rightarrow> (r, d)
      | None \<Rightarrow> case guest_lookup d addr of
        (None, d) \<Rightarrow> (Fault addr ''indirect call to untranslated address'', d)
      | (Some fn, d) \<Rightarrow> (Run fn, guest_dispatch_cache_authorize addr fn d))"

section \<open>Binary search\<close>

lemma rva_search_sound:
  "fst (rva_search xs key lo hi n) = Some i \<Longrightarrow> lo \<le> i \<and> i < hi \<and> xs ! i = key"
proof (induction xs key lo hi n rule: rva_search.induct)
  case (1 xs key lo hi n)
  define mid where "mid = lo + (hi - lo) div 2"
  have m: "lo < hi \<Longrightarrow> lo \<le> mid \<and> mid < hi" by (auto simp: mid_def)
  show ?case using "1.prems" "1.IH" [OF _ mid_def] m
    by (subst (asm) rva_search.simps) (auto simp: Let_def mid_def [symmetric] split: if_splits)
qed

lemma rva_search_complete:
  assumes "sorted_wrt (<) xs" "hi \<le> length xs" "lo \<le> i" "i < hi" "xs ! i = key"
  shows "fst (rva_search xs key lo hi n) = Some i"
  using assms
proof (induction xs key lo hi n rule: rva_search.induct)
  case (1 xs key lo hi n)
  define mid where "mid = lo + (hi - lo) div 2"
  have m: "lo < hi" "mid < hi" using "1.prems" by (auto simp: mid_def)
  have less: "j < k \<Longrightarrow> k < length xs \<Longrightarrow> xs ! j < xs ! k" for j k
    using "1.prems"(1) by (simp add: sorted_wrt_nth_less)
  consider "i = mid" | "i < mid" | "mid < i" by linarith
  then show ?case
  proof cases
    case 1
    then show ?thesis using m "1.prems" by (subst rva_search.simps) (simp add: mid_def [symmetric])
  next
    case 2
    then have "key < xs ! mid" using less [of i mid] m "1.prems" by simp
    then have "\<not> xs ! mid < key" "xs ! mid \<noteq> key" by auto
    then show ?thesis using "1.IH"(2) [OF m(1) mid_def] "1.prems" 2 m
      by (subst rva_search.simps) (simp add: mid_def [symmetric] Let_def)
  next
    case 3
    then have "xs ! mid < key" using less [of mid i] "1.prems" by simp
    then show ?thesis using "1.IH"(1) [OF m(1) mid_def] "1.prems" 3 m
      by (subst rva_search.simps) (auto simp: mid_def [symmetric] Let_def)
  qed
qed

lemma rva_search_iterations: "hi - lo < 2 ^ k \<Longrightarrow> snd (rva_search xs key lo hi n) \<le> n + k"
proof (induction k arbitrary: lo hi n)
  case 0
  then show ?case by (subst rva_search.simps) simp
next
  case (Suc k)
  define mid where "mid = lo + (hi - lo) div 2"
  have "hi - (mid + 1) < 2 ^ k" "mid - lo < 2 ^ k" using Suc.prems by (auto simp: mid_def)
  from Suc.IH [OF this(1), of "n + 1"] Suc.IH [OF this(2), of "n + 1"] show ?case
    by (subst rva_search.simps) (auto simp: mid_def [symmetric] Let_def)
qed

text \<open>The first index holding a key, by linear search.\<close>

definition index_of :: "'a list \<Rightarrow> 'a \<Rightarrow> nat option" where
  "index_of xs x = List.find (\<lambda>i. xs ! i = x) [0..<length xs]"

lemma index_of_Some: "index_of xs x = Some i \<longleftrightarrow> i < length xs \<and> xs ! i = x \<and> (\<forall>j<i. xs ! j \<noteq> x)"
  by (auto simp: index_of_def find_Some_iff)

lemma index_of_None: "index_of xs x = None \<longleftrightarrow> x \<notin> set xs"
  by (auto simp: index_of_def find_None_iff in_set_conv_nth)

lemma index_of_distinct: "distinct xs \<Longrightarrow> index_of xs x = Some i \<longleftrightarrow> i < length xs \<and> xs ! i = x"
  by (auto simp: index_of_Some nth_eq_iff_index_eq)

lemma index_of_empty [simp]: "index_of [] x = None"
  by (simp add: index_of_def)

lemma sorted_wrt_less_distinct: "sorted_wrt (<) (xs :: 'a::preorder list) \<Longrightarrow> distinct xs"
  by (metis distinct_conv_nth less_irrefl linorder_neqE_nat sorted_wrt_nth_less)

lemma rva_search_index: 
  assumes "sorted_wrt (<) xs"
  shows "fst (rva_search xs key 0 (length xs) n) = index_of xs key"
proof (cases "fst (rva_search xs key 0 (length xs) n)")
  case None
  then have "key \<notin> set xs"
    using rva_search_complete [OF assms le_refl, of 0 _ key n] by (auto simp: in_set_conv_nth)
  then show ?thesis using None by (simp add: index_of_None [THEN iffD2])
next
  case (Some i)
  then show ?thesis using rva_search_sound [OF Some] index_of_distinct [OF sorted_wrt_less_distinct [OF assms]]
    by (metis)
qed

lemma sorted_hd_last: "sorted (xs :: 'a::linorder list) \<Longrightarrow> x \<in> set xs \<Longrightarrow> hd xs \<le> x \<and> x \<le> last xs"
  by (induction xs) (auto split: if_splits)

section \<open>Imports\<close>

text \<open>The import tables are generated in the order of their slots.\<close>

lemma import_lookup_index:
  assumes "sorted_wrt (<) (map slot_rva (g_imports d))"
  shows "guest_import_lookup d a = index_of (map slot_rva (g_imports d)) (image_rva d a)"
proof -
  let ?xs = "map slot_rva (g_imports d)" and ?key = "image_rva d a"
  have dist: "distinct ?xs" using assms by (rule sorted_wrt_less_distinct)
  show ?thesis
  proof (cases "g_imports d = [] \<or> ?key < slot_rva (hd (g_imports d)) \<or> ?key > slot_rva (last (g_imports d))")
    case True
    have le: "x \<in> set ?xs \<Longrightarrow> hd ?xs \<le> x \<and> x \<le> last ?xs" for x
      using sorted_hd_last [OF strict_sorted_imp_sorted [OF assms]] by blast
    have "?key \<notin> set ?xs"
      using True le [of ?key] by (cases "g_imports d = []") (auto simp: hd_map last_map)
    then show ?thesis using True
      by (auto simp: guest_import_lookup_def index_of_None [THEN iffD2] Let_def)
  next
    case False
    have "dense_candidate d ?key = Some i \<Longrightarrow> index_of ?xs ?key = Some i" for i
      by (auto simp: dense_candidate_def Let_def index_of_distinct [OF dist] split: if_splits)
    then show ?thesis using False rva_search_index [OF assms]
      by (auto simp: guest_import_lookup_def Let_def split: option.splits)
  qed
qed

section \<open>The complete path against linear search\<close>

text \<open>
  What an indirect call means: an import slot of the address wins, then a native token, then the
  translated function registered at the address; anything else is a fault.
\<close>

definition classify :: "host \<Rightarrow> dispatch \<Rightarrow> u32 \<Rightarrow> route" where
  "classify h d addr =
     (case index_of (map slot_rva (g_imports d)) (image_rva d addr) of
        Some import_id \<Rightarrow> import_route h d addr import_id
      | None \<Rightarrow> case guest_host_dynamic d addr of
        Some r \<Rightarrow> r
      | None \<Rightarrow> case Option.bind (index_of (g_addrs d) (image_rva d addr)) (\<lambda>m. g_fns d ! m) of
        None \<Rightarrow> Fault addr ''indirect call to untranslated address''
      | Some fn \<Rightarrow> Run fn)"

definition tables_ok :: "dispatch \<Rightarrow> bool" where
  "tables_ok d \<longleftrightarrow> sorted_wrt (<) (g_addrs d) \<and> length (g_fns d) = length (g_addrs d) \<and>
     sorted_wrt (<) (map slot_rva (g_imports d))"

definition entry_ok :: "dispatch \<Rightarrow> guest_lookup_cache_entry \<Rightarrow> bool" where
  "entry_ok d e \<longleftrightarrow>
     (\<forall>fn. entry_function e = Some fn \<longrightarrow>
        Option.bind (index_of (g_addrs d) (entry_key e)) (\<lambda>m. g_fns d ! m) = Some fn) \<and>
     (dispatch_function e \<noteq> None \<and> dispatch_function e = entry_function e \<longrightarrow>
        entry_key e \<notin> slot_rva ` set (g_imports d))"

definition cache_ok :: "dispatch \<Rightarrow> bool" where
  "cache_ok d \<longleftrightarrow> (\<forall>i. entry_ok d (g_guest_lookup_cache d i))"

definition gl_flag_ok :: "dispatch \<Rightarrow> bool" where
  "gl_flag_ok d \<longleftrightarrow> unat (g_image_base d) + unat (g_image_size d) \<le> 2 ^ 32 \<and>
     (g_gl_dynamic_first d \<longrightarrow>
       (g_imports d = [] \<or> slot_rva (last (g_imports d)) < 0x7E000000) \<and>
       (g_image_base d = 0 \<or> g_image_size d = 0 \<or> g_image_base d > 0x7EFFFFFF \<or>
        unat (g_image_base d) + unat (g_image_size d) \<le> 0x7E000000))"

lemma family_window:
  assumes "family a = 0x7E000000"
  shows "0x7E000000 \<le> unat a \<and> unat a \<le> 0x7EFFFFFF"
proof -
  have m: "(0xFF000000 :: u32) = push_bit 24 (mask 8)"
    by (simp add: mask_eq_exp_minus_1 push_bit_eq_mult)
  have "drop_bit 24 a = drop_bit 24 (family a)" unfolding family_def m
    by (rule bit_word_eqI)
      (auto simp: bit_drop_bit_eq bit_and_iff bit_push_bit_iff bit_mask_iff dest: bit_imp_le_length)
  then have "unat (drop_bit 24 a) = 0x7E" using assms by simp
  then have "unat a div 2 ^ 24 = 0x7E" by (subst (asm) unat_drop_bit_eq) (simp add: drop_bit_eq_div)
  then show ?thesis by auto
qed

lemma below_image:
  assumes "a < base" "unat base + unat extent \<le> 2 ^ 32"
  shows "\<not> a - base < (extent :: u32)"
proof -
  have "a \<noteq> base" "a \<le> base" using assms(1) by auto
  then have "unat (a - base) = 2 ^ 32 + unat a - unat base"
    using unat_diff_swap [of a base] unat_sub [of a base] by (auto simp: word_le_nat_alt)
  then show ?thesis using assms(2) by (simp add: word_less_nat_alt)
qed

lemma gl_family_clear:
  assumes "gl_flag_ok d" "tables_ok d" "g_gl_dynamic_first d" "family a = 0x7E000000"
  shows "image_rva d a = a" "index_of (map slot_rva (g_imports d)) a = None"
proof -
  note w = family_window [OF assms(4)]
  show "image_rva d a = a"
  proof (rule ccontr)
    assume "image_rva d a \<noteq> a"
    then have b: "g_image_base d \<noteq> 0" "a - g_image_base d < g_image_size d"
      by (auto simp: image_rva_def split: if_splits)
    have n: "unat (a - g_image_base d) < unat (g_image_size d)" using b(2) by (simp add: word_less_nat_alt)
    have "\<not> a < g_image_base d"
      using b(2) below_image [of a "g_image_base d" "g_image_size d"] assms(1) by (auto simp: gl_flag_ok_def)
    then have "g_image_base d \<le> a" by simp
    moreover from this have "unat (a - g_image_base d) = unat a - unat (g_image_base d)" by (rule unat_sub)
    ultimately show False using n w b(1) assms(1,3)
      by (auto simp: gl_flag_ok_def word_le_nat_alt word_less_nat_alt)
  qed
  have "a \<notin> set (map slot_rva (g_imports d))"
  proof
    assume a: "a \<in> set (map slot_rva (g_imports d))"
    have "a \<le> last (map slot_rva (g_imports d))"
      using sorted_hd_last [OF strict_sorted_imp_sorted a] assms(2) by (simp add: tables_ok_def)
    moreover have "g_imports d \<noteq> []" using a by auto
    ultimately show False using assms(1,3) w
      by (auto simp: gl_flag_ok_def last_map word_le_nat_alt word_less_nat_alt)
  qed
  then show "index_of (map slot_rva (g_imports d)) a = None" by (simp add: index_of_None)
qed

lemma host_dynamic_family: "guest_host_dynamic d a = Some r \<Longrightarrow> family a = 0x7D000000 \<or> family a = 0x7E000000"
  by (auto simp: guest_host_dynamic_def split: if_splits)

lemma cache_simps [simp]:
  "image_rva (g_guest_lookup_cache_update f d) = image_rva d"
  "classify h (g_guest_lookup_cache_update f d) = classify h d"
  "tables_ok (g_guest_lookup_cache_update f d) = tables_ok d"
  "gl_flag_ok (g_guest_lookup_cache_update f d) = gl_flag_ok d"
  "entry_ok (g_guest_lookup_cache_update f d) = entry_ok d"
  "guest_import_lookup (g_guest_lookup_cache_update f d) = guest_import_lookup d"
  by (auto simp: image_rva_def classify_def guest_host_dynamic_def vita_gl_dynamic_dispatch_def
      guest_gl_entry_for_token_def import_route_def tables_ok_def gl_flag_ok_def entry_ok_def Let_def
      guest_import_lookup_def dense_candidate_def fun_eq_iff cong: option.case_cong if_cong)

text \<open>A lookup finds what is registered and keeps the cache coherent.\<close>

lemma guest_lookup_exact:
  assumes "tables_ok d" "cache_ok d"
  shows "\<exists>c. guest_lookup d a =
      (Option.bind (index_of (g_addrs d) (image_rva d a)) (\<lambda>m. g_fns d ! m), d\<lparr>g_guest_lookup_cache := c\<rparr>) \<and>
    cache_ok (d\<lparr>g_guest_lookup_cache := c\<rparr>)"
proof -
  let ?e = "g_guest_lookup_cache d (guest_lookup_cache_index (image_rva d a))"
  have e: "entry_ok d ?e" using assms(2) by (simp add: cache_ok_def)
  have s: "fst (rva_search (g_addrs d) (image_rva d a) 0 (length (g_addrs d)) 0) =
      index_of (g_addrs d) (image_rva d a)"
    using assms(1) by (intro rva_search_index) (simp add: tables_ok_def)
  show ?thesis
  proof (cases "(entry_function ?e \<noteq> None \<and> entry_key ?e = image_rva d a) \<or>
      index_of (g_addrs d) (image_rva d a) = None")
    case True
    then have "guest_lookup d a =
      (Option.bind (index_of (g_addrs d) (image_rva d a)) (\<lambda>m. g_fns d ! m), d)"
      using e s by (auto simp: guest_lookup_def Let_def entry_ok_def)
    then show ?thesis using assms(2) by (intro exI [of _ "g_guest_lookup_cache d"]) simp
  next
    case False
    then obtain m where m: "index_of (g_addrs d) (image_rva d a) = Some m" by blast
    let ?c = "(g_guest_lookup_cache d)(guest_lookup_cache_index (image_rva d a) :=
      \<lparr>entry_key = image_rva d a, entry_function = g_fns d ! m, dispatch_function = None\<rparr>)"
    have "guest_lookup d a = (g_fns d ! m, d\<lparr>g_guest_lookup_cache := ?c\<rparr>)"
      using False m s by (auto simp: guest_lookup_def Let_def)
    moreover have "cache_ok (d\<lparr>g_guest_lookup_cache := ?c\<rparr>)"
      using assms(2) m by (auto simp: cache_ok_def entry_ok_def)
    ultimately show ?thesis using m by auto
  qed
qed

lemma authorize_ok:
  assumes "cache_ok d" "image_rva d a \<notin> slot_rva ` set (g_imports d)"
  shows "\<exists>c. guest_dispatch_cache_authorize a fn d = d\<lparr>g_guest_lookup_cache := c\<rparr> \<and>
    cache_ok (d\<lparr>g_guest_lookup_cache := c\<rparr>)"
proof -
  let ?i = "guest_lookup_cache_index (image_rva d a)"
  let ?e = "g_guest_lookup_cache d ?i"
  show ?thesis
  proof (cases "entry_key ?e = image_rva d a \<and> entry_function ?e = Some fn \<and>
      family a \<noteq> 0x7D000000 \<and> family a \<noteq> 0x7E000000")
    case True
    have "entry_ok d ?e" using assms(1) by (simp add: cache_ok_def)
    then have "entry_ok d (?e\<lparr>dispatch_function := Some fn\<rparr>)" using True assms(2) by (simp add: entry_ok_def)
    then have "cache_ok (d\<lparr>g_guest_lookup_cache := (g_guest_lookup_cache d)
        (?i := ?e\<lparr>dispatch_function := Some fn\<rparr>)\<rparr>)" using assms(1) by (simp add: cache_ok_def)
    then show ?thesis using True
      by (intro exI conjI) (auto simp: guest_dispatch_cache_authorize_def Let_def)
  next
    case False
    then show ?thesis using assms(1)
      by (intro exI [of _ "g_guest_lookup_cache d"]) (auto simp: guest_dispatch_cache_authorize_def Let_def)
  qed
qed

lemma cache_probe_exact:
  assumes "cache_ok d" "guest_dispatch_cache_probe d a = Some fn"
  shows "classify h d a = Run fn"
proof -
  let ?e = "g_guest_lookup_cache d (guest_lookup_cache_index (image_rva d a))"
  have f: "family a \<noteq> 0x7D000000" "family a \<noteq> 0x7E000000" and
    e: "entry_key ?e = image_rva d a" "entry_function ?e = Some fn" "dispatch_function ?e = Some fn"
    using assms(2) by (auto simp: guest_dispatch_cache_probe_def Let_def split: if_splits)
  have "entry_ok d ?e" using assms(1) by (simp add: cache_ok_def)
  then have "Option.bind (index_of (g_addrs d) (image_rva d a)) (\<lambda>m. g_fns d ! m) = Some fn"
    "index_of (map slot_rva (g_imports d)) (image_rva d a) = None"
    using e by (auto simp: entry_ok_def index_of_None)
  moreover have "guest_host_dynamic d a = None"
    using f host_dynamic_family by (cases "guest_host_dynamic d a") auto
  ultimately show ?thesis by (simp add: classify_def)
qed

lemma gl_first_exact:
  assumes "gl_flag_ok d" "tables_ok d" "family a = 0x7E000000" "g_gl_dynamic_first d"
    "vita_gl_dynamic_dispatch d a = Some r"
  shows "classify h d a = r"
proof -
  have "vita_xinput_dynamic_dispatch a = None"
    using assms(3) by (auto simp: vita_xinput_dynamic_dispatch_def family_def)
  then have "guest_host_dynamic d a = Some r" using assms(3,5) by (simp add: guest_host_dynamic_def)
  then show ?thesis using gl_family_clear [OF assms(1,2,4,3)] by (simp add: classify_def)
qed

lemma guest_call_slow_exact:
  assumes "tables_ok d" "cache_ok d" "gl_flag_ok d"
  shows "\<exists>c. guest_call_slow h d a = (classify h d a, d\<lparr>g_guest_lookup_cache := c\<rparr>) \<and>
    cache_ok (d\<lparr>g_guest_lookup_cache := c\<rparr>)"
proof -
  have same: "guest_call_slow h d a = (classify h d a, d) \<Longrightarrow> ?thesis"
    using assms(2) by (intro exI [of _ "g_guest_lookup_cache d"]) simp
  define gl where "gl = (if family a = 0x7E000000 \<and> g_gl_dynamic_first d
      then vita_gl_dynamic_dispatch d a else None)"
  show ?thesis
  proof (cases gl)
    case (Some r)
    then show ?thesis using gl_first_exact [OF assms(3,1)]
      by (intro same) (auto simp: guest_call_slow_def gl_def split: if_splits)
  next
    case None
    note slow = None [unfolded gl_def] guest_call_slow_def
    have imp: "guest_import_lookup d a = index_of (map slot_rva (g_imports d)) (image_rva d a)"
      using assms(1) by (intro import_lookup_index) (simp add: tables_ok_def)
    show ?thesis
    proof (cases "guest_dispatch_cache_probe d a")
      case (Some fn)
      then show ?thesis using cache_probe_exact [OF assms(2) Some] None
        by (intro same) (simp add: slow)
    next
      case p: None
      show ?thesis
      proof (cases "guest_import_lookup d a = None \<and> guest_host_dynamic d a = None")
        case False
        then show ?thesis using p by (intro same) (auto simp: slow classify_def imp split: option.splits)
      next
        case True
        obtain c where c: "guest_lookup d a =
            (Option.bind (index_of (g_addrs d) (image_rva d a)) (\<lambda>m. g_fns d ! m), d\<lparr>g_guest_lookup_cache := c\<rparr>)"
          "cache_ok (d\<lparr>g_guest_lookup_cache := c\<rparr>)" using guest_lookup_exact [OF assms(1,2)] by blast
        show ?thesis
        proof (cases "Option.bind (index_of (g_addrs d) (image_rva d a)) (\<lambda>m. g_fns d ! m)")
          case None
          then show ?thesis using True p c by (auto simp: slow classify_def imp)
        next
          case (Some fn)
          let ?d = "d\<lparr>g_guest_lookup_cache := c\<rparr>"
          have i: "image_rva d a \<notin> slot_rva ` set (g_imports d)"
            using True imp by (auto simp: index_of_None)
          obtain c' where "guest_dispatch_cache_authorize a fn ?d = d\<lparr>g_guest_lookup_cache := c'\<rparr>"
            "cache_ok (d\<lparr>g_guest_lookup_cache := c'\<rparr>)"
            using authorize_ok [OF c(2), of a fn] i by auto
          then show ?thesis using True p c Some by (auto simp: slow classify_def imp)
        qed
      qed
    qed
  qed
qed

end
