(* ===== verification/Guest_Dispatch_Table.thy ===== *)
theory Guest_Dispatch_Table imports Guest_Dispatch begin

text \<open>
  The dispatch table of \<open>runtime/guest.c\<close>: its build (grouping the keys by first-level bucket,
  largest bucket first, a multiplier per bucket), its verification, the probe in front of the
  complete classification, and every operation that changes the inputs of the table.
\<close>

unbundle bit_operations_syntax

section \<open>Hash and probe\<close>

definition guest_dispatch_bucket_of :: "u32 \<Rightarrow> nat" where
  "guest_dispatch_bucket_of key =
     unat (drop_bit (32 - GUEST_DISPATCH_BUCKET_BITS) (key * GUEST_DISPATCH_MULTIPLIER))"

definition guest_dispatch_index_of :: "u32 \<Rightarrow> u32 \<Rightarrow> nat" where
  "guest_dispatch_index_of key m = unat (drop_bit (32 - GUEST_DISPATCH_SLOT_BITS) (key * m))"

text \<open>The slot a key probes, by its number.\<close>

definition guest_dispatch_probe :: "guest_dispatch_table \<Rightarrow> u32 \<Rightarrow> nat" where
  "guest_dispatch_probe table key =
     (let bucket = unat (drop_bit (32 - GUEST_DISPATCH_BUCKET_BITS) (key * multiplier table))
      in guest_dispatch_index_of key (ucast (bucket_multiplier table bucket)))"

definition empty_slot :: guest_dispatch_slot where
  "empty_slot = \<lparr>slot_key = GUEST_DISPATCH_EMPTY_KEY, slot_function = Some Dispatch_empty_slot\<rparr>"

definition guest_dispatch_table_clear :: guest_dispatch_table where
  "guest_dispatch_table_clear =
     \<lparr>bucket_multiplier = \<lambda>_. 0, multiplier = GUEST_DISPATCH_MULTIPLIER, slots = \<lambda>_. empty_slot\<rparr>"

section \<open>The two key sources\<close>

definition guest_dispatch_find_rva :: "dispatch \<Rightarrow> u32 \<Rightarrow> nat option" where
  "guest_dispatch_find_rva d rva = fst (rva_search (g_addrs d) rva 0 (length (g_addrs d)) 0)"

definition guest_dispatch_key_of :: "dispatch \<Rightarrow> nat \<Rightarrow> u32 option" where
  "guest_dispatch_key_of d index =
     (let rva = g_addrs d ! index; key = g_image_base d + rva in
      if g_image_base d = 0 \<or> rva \<ge> g_image_size d \<or> g_fns d ! index = None then None
      else if key = GUEST_DISPATCH_EMPTY_KEY \<or> family key = 0x7D000000 \<or> family key = 0x7E000000
      then None
      else if guest_import_lookup d key \<noteq> None then None else Some key)"

definition guest_dispatch_gl_token_count :: "dispatch \<Rightarrow> nat" where
  "guest_dispatch_gl_token_count d = (if g_gl_dynamic_first d then length (gl_registry d) else 0)"

definition guest_dispatch_gl_token_of :: "dispatch \<Rightarrow> nat \<Rightarrow> (u32 \<times> guest_fn) option" where
  "guest_dispatch_gl_token_of d index =
     (if \<not> g_gl_dynamic_first d \<or> index \<ge> length (gl_registry d) then None
      else case gl_registry d ! index of (token, present) \<Rightarrow>
        if \<not> present \<or> family token \<noteq> 0x7E000000 \<or> token = GUEST_DISPATCH_EMPTY_KEY then None
        else Some (token, Gl_trampoline index))"

definition guest_dispatch_item_key :: "dispatch \<Rightarrow> nat \<Rightarrow> u32" where
  "guest_dispatch_item_key d item =
     (if item < length (g_addrs d) then g_image_base d + g_addrs d ! item
      else case guest_dispatch_gl_token_of d (item - length (g_addrs d)) of
        None \<Rightarrow> GUEST_DISPATCH_EMPTY_KEY | Some (key, _) \<Rightarrow> key)"

definition guest_dispatch_item_function :: "dispatch \<Rightarrow> nat \<Rightarrow> guest_fn option" where
  "guest_dispatch_item_function d item =
     (if item < length (g_addrs d) then map_option Translated (g_fns d ! item)
      else map_option snd (guest_dispatch_gl_token_of d (item - length (g_addrs d))))"

definition guest_dispatch_gl_token_slot_ok :: "dispatch \<Rightarrow> guest_dispatch_table \<Rightarrow> nat \<Rightarrow> bool" where
  "guest_dispatch_gl_token_slot_ok d table n =
     (let slot = slots table n in
      if family (slot_key slot) \<noteq> 0x7E000000 \<or> \<not> g_gl_dynamic_first d then False
      else case guest_gl_entry_for_token d (slot_key slot) of
        None \<Rightarrow> False
      | Some i \<Rightarrow> snd (gl_registry d ! i) \<and> slot_function slot = Some (Gl_trampoline i) \<and>
          guest_dispatch_probe table (slot_key slot) = n)"

section \<open>Build\<close>

text \<open>
  The occupancy bitmap, one bit per slot.  The second loop of \<open>guest_dispatch_try_bucket\<close> stops
  at a twin and returns how many keys it marked; the third unmarks them again.
\<close>

fun mark_keys :: "u32 \<Rightarrow> u32 list \<Rightarrow> (nat \<Rightarrow> bool) \<Rightarrow> nat \<times> (nat \<Rightarrow> bool)" where
  "mark_keys m [] used = (0, used)"
| "mark_keys m (key # keys) used =
     (if used (guest_dispatch_index_of key m) then (0, used)
      else case mark_keys m keys (used(guest_dispatch_index_of key m := True)) of
        (a, used) \<Rightarrow> (a + 1, used))"

definition guest_dispatch_try_bucket :: "u32 list \<Rightarrow> u32 \<Rightarrow> (nat \<Rightarrow> bool) \<Rightarrow> bool \<times> (nat \<Rightarrow> bool)" where
  "guest_dispatch_try_bucket keys m used =
     (if list_ex (\<lambda>key. used (guest_dispatch_index_of key m)) keys then (False, used)
      else case mark_keys m keys used of (a, marked) \<Rightarrow>
        if a = length keys then (True, marked)
        else (False, foldl (\<lambda>u key. u(guest_dispatch_index_of key m := False)) marked
                       (rev (take a keys))))"

text \<open>The first candidate, from the \<open>t\<close>-th on, under which the bucket fits.\<close>

function first_candidate :: "u32 list \<Rightarrow> nat \<Rightarrow> (nat \<Rightarrow> bool) \<Rightarrow> nat \<times> (nat \<Rightarrow> bool)" where
  "first_candidate keys t used =
     (if t < GUEST_DISPATCH_CANDIDATES then
        case guest_dispatch_try_bucket keys (ucast (GUEST_DISPATCH_CANDIDATE t)) used of
          (True, used) \<Rightarrow> (t, used)
        | (False, used) \<Rightarrow> first_candidate keys (t + 1) used
      else (t, used))"
  by pat_completeness auto
termination by (relation "measure (\<lambda>(_, t, _). GUEST_DISPATCH_CANDIDATES - t)") auto

declare first_candidate.simps [simp del]

text \<open>The items of the table with their keys, as both passes over the two sources visit them.\<close>

definition eligible_items :: "dispatch \<Rightarrow> (nat \<times> u32) list" where
  "eligible_items d =
     List.map_filter (\<lambda>i. map_option (Pair i) (guest_dispatch_key_of d i)) [0..<length (g_addrs d)] @
     List.map_filter (\<lambda>i. map_option (\<lambda>(key, _). (length (g_addrs d) + i, key))
         (guest_dispatch_gl_token_of d i)) [0..<guest_dispatch_gl_token_count d]"

definition bucket_counts :: "(nat \<times> u32) list \<Rightarrow> nat list" where
  "bucket_counts items =
     foldl (\<lambda>start (_, key). let b = guest_dispatch_bucket_of key + 1 in start[b := start ! b + 1])
       (replicate (GUEST_DISPATCH_BUCKET_COUNT + 1) 0) items"

definition bucket_starts :: "nat list \<Rightarrow> nat list \<times> nat" where
  "bucket_starts counts =
     foldl (\<lambda>(start, largest) b. (start[b + 1 := start ! (b + 1) + start ! b],
           if start ! (b + 1) > largest then start ! (b + 1) else largest))
       (counts, 0) [0..<GUEST_DISPATCH_BUCKET_COUNT]"

text \<open>
  \<open>order[fill[class (x)]++] = value (x)\<close> over a list: the distribution pass of both sorts.
\<close>

definition scatter :: "('a \<Rightarrow> nat) \<Rightarrow> ('a \<Rightarrow> nat) \<Rightarrow> 'a list \<Rightarrow> nat list \<Rightarrow> nat list \<Rightarrow> nat list \<times> nat list" where
  "scatter class value xs fill order =
     foldl (\<lambda>(fill, order) x. (fill[class x := fill ! class x + 1], order[fill ! class x := value x]))
       (fill, order) xs"

definition size_starts :: "(nat \<Rightarrow> nat) \<Rightarrow> nat list" where
  "size_starts size_of =
     fst (foldl (\<lambda>(start, acc) s. (start[s := acc], acc + start ! s))
       (foldl (\<lambda>start b. start[size_of b := start ! size_of b + 1])
          (replicate (GUEST_DISPATCH_MAX_BUCKET + 1) 0) [0..<GUEST_DISPATCH_BUCKET_COUNT], 0)
       (rev [0..<GUEST_DISPATCH_MAX_BUCKET + 1]))"

record build =
  building :: guest_dispatch_table
  used :: "nat \<Rightarrow> bool"
  tries :: nat
  placed :: nat
  tokens_placed :: nat

text \<open>The slots of one bucket are written under its multiplier.\<close>

definition write_slots :: "dispatch \<Rightarrow> u32 \<Rightarrow> nat list \<Rightarrow> guest_dispatch_table \<Rightarrow> guest_dispatch_table" where
  "write_slots d m items table =
     foldl (\<lambda>t item. t\<lparr>slots := (slots t)(guest_dispatch_index_of (guest_dispatch_item_key d item) m :=
           \<lparr>slot_key = guest_dispatch_item_key d item,
            slot_function = guest_dispatch_item_function d item\<rparr>)\<rparr>) table items"

text \<open>The buckets in order, until an empty one; \<open>Inl\<close> is a bucket without a multiplier, with the
  tries so far and the table as it stands.\<close>

fun place_buckets ::
    "dispatch \<Rightarrow> nat list \<Rightarrow> nat list \<Rightarrow> nat list \<Rightarrow> build \<Rightarrow> (nat \<times> guest_dispatch_table) + build" where
  "place_buckets d start order [] b = Inr b"
| "place_buckets d start order (bucket # buckets) b =
     (let lo = start ! bucket; hi = start ! (bucket + 1) in
      if lo = hi then Inr b
      else
        let items = take (hi - lo) (drop lo order);
            keys = map (guest_dispatch_item_key d) items in
        case first_candidate keys 0 (used b) of (t, marked) \<Rightarrow>
          if t = GUEST_DISPATCH_CANDIDATES then Inl (tries b + t, building b)
          else
            let m = GUEST_DISPATCH_CANDIDATE t; table = building b in
            place_buckets d start order buckets
              \<lparr>building = write_slots d (ucast m) items
                 (table\<lparr>bucket_multiplier := (bucket_multiplier table)(bucket := m)\<rparr>),
               used = marked, tries = tries b + t + 1, placed = placed b + (hi - lo),
               tokens_placed = tokens_placed b + length (filter (\<lambda>i. i \<ge> length (g_addrs d)) items)\<rparr>)"

definition build_start :: build where
  "build_start = \<lparr>building = guest_dispatch_table_clear, used = \<lambda>_. False, tries = 0, placed = 0,
     tokens_placed = 0\<rparr>"

definition guest_dispatch_table_build ::
    "dispatch \<Rightarrow> guest_dispatch_table_status \<Rightarrow> bool \<times> guest_dispatch_table_status \<times> dispatch" where
  "guest_dispatch_table_build d status =
     (let items = eligible_items d;
          d = d\<lparr>g_guest_dispatch := guest_dispatch_table_clear\<rparr> in
      case bucket_starts (bucket_counts items) of (start, largest) \<Rightarrow>
        let status = status\<lparr>max_bucket := largest\<rparr> in
        if largest > GUEST_DISPATCH_MAX_BUCKET
        then (False, status\<lparr>reason := Some ''a first-level hash bucket is too large''\<rparr>, d)
        else
          case scatter (guest_dispatch_bucket_of \<circ> snd) (take_bit 16 \<circ> fst) items
              (take GUEST_DISPATCH_BUCKET_COUNT start) (dispatch_order d) of (fill, order) \<Rightarrow>
          let d = d\<lparr>dispatch_order := order\<rparr>;
              size_of = (\<lambda>b. start ! (b + 1) - start ! b);
              buckets = snd (scatter size_of (\<lambda>b. b) [0..<GUEST_DISPATCH_BUCKET_COUNT]
                (size_starts size_of) fill) in
          case place_buckets d start order buckets build_start of
            Inl (n, table) \<Rightarrow> (False, status\<lparr>reason := Some ''no multiplier left for a bucket'',
              bucket_tries := n\<rparr>, d\<lparr>g_guest_dispatch := table\<rparr>)
          | Inr b \<Rightarrow> (True, status\<lparr>bucket_tries := tries b, table_keys := placed b - tokens_placed b,
              gl_tokens := tokens_placed b\<rparr>, d\<lparr>g_guest_dispatch := building b\<rparr>))"

section \<open>Verification\<close>

fun first_reason :: "('a \<Rightarrow> string option) \<Rightarrow> 'a list \<Rightarrow> string option" where
  "first_reason f [] = None"
| "first_reason f (x # xs) = (case f x of Some r \<Rightarrow> Some r | None \<Rightarrow> first_reason f xs)"

definition hits :: "guest_dispatch_table \<Rightarrow> u32 \<Rightarrow> bool" where
  "hits table key = (slot_key (slots table (guest_dispatch_probe table key)) = key)"

definition verify_function :: "dispatch \<Rightarrow> guest_dispatch_table \<Rightarrow> nat \<Rightarrow> string option" where
  "verify_function d table i =
     (case guest_dispatch_key_of d i of
        Some key \<Rightarrow>
          if \<not> hits table key \<or> slot_function (slots table (guest_dispatch_probe table key)) \<noteq>
               map_option Translated (g_fns d ! i)
          then Some ''a registered function does not resolve'' else None
      | None \<Rightarrow>
          let rva = g_addrs d ! i;
              stray = (\<lambda>key. key \<noteq> GUEST_DISPATCH_EMPTY_KEY \<and> hits table key \<and>
                \<not> guest_dispatch_gl_token_slot_ok d table (guest_dispatch_probe table key)) in
          if stray (g_image_base d + rva) \<or> stray rva
          then Some ''a skipped function resolves'' else None)"

definition verify_token :: "dispatch \<Rightarrow> guest_dispatch_table \<Rightarrow> nat \<Rightarrow> string option" where
  "verify_token d table i =
     (let token = fst (gl_registry d ! i) in
      case guest_dispatch_gl_token_of d i of
        Some (key, fn) \<Rightarrow>
          if slot_key (slots table (guest_dispatch_probe table token)) \<noteq> key \<or>
             slot_function (slots table (guest_dispatch_probe table token)) \<noteq> Some fn
          then Some ''a GL token does not resolve'' else None
      | None \<Rightarrow>
          if token \<noteq> GUEST_DISPATCH_EMPTY_KEY \<and> hits table token
          then Some ''an ineligible GL token resolves'' else None)"

definition verify_import :: "dispatch \<Rightarrow> guest_dispatch_table \<Rightarrow> nat \<Rightarrow> string option" where
  "verify_import d table i =
     (let rva = slot_rva (g_imports d ! i); va = g_image_base d + rva in
      if (rva \<noteq> GUEST_DISPATCH_EMPTY_KEY \<and> hits table rva) \<or>
         (va \<noteq> GUEST_DISPATCH_EMPTY_KEY \<and> hits table va)
      then Some ''an IAT slot resolves as translated code'' else None)"

definition verify_slot :: "dispatch \<Rightarrow> guest_dispatch_table \<Rightarrow> nat \<Rightarrow> string option" where
  "verify_slot d table n =
     (let slot = slots table n; key = slot_key slot in
      if key = GUEST_DISPATCH_EMPTY_KEY
      then if slot_function slot \<noteq> Some Dispatch_empty_slot
           then Some ''an empty slot lost its trampoline'' else None
      else if guest_dispatch_gl_token_slot_ok d table n then None
      else if slot_function slot = None \<or> family key = 0x7D000000 \<or> family key = 0x7E000000 \<or>
              guest_import_lookup d key \<noteq> None \<or>
              (case guest_dispatch_find_rva d (image_rva d key) of None \<Rightarrow> True
               | Some index \<Rightarrow> map_option Translated (g_fns d ! index) \<noteq> slot_function slot) \<or>
              guest_dispatch_probe table key \<noteq> n
      then Some ''a slot disagrees with the complete path'' else None)"

definition guest_dispatch_table_verify :: "dispatch \<Rightarrow> guest_dispatch_table_status \<Rightarrow> string option" where
  "guest_dispatch_table_verify d status =
     (let table = g_guest_dispatch d; n = length (g_addrs d) in
      case first_reason (verify_function d table) [0..<n] of Some r \<Rightarrow> Some r | None \<Rightarrow>
      if length (filter (\<lambda>i. guest_dispatch_key_of d i \<noteq> None) [0..<n]) \<noteq> table_keys status
      then Some ''key census mismatch'' else
      case first_reason (verify_token d table) [0..<length (gl_registry d)] of Some r \<Rightarrow> Some r | None \<Rightarrow>
      if length (filter (\<lambda>i. guest_dispatch_gl_token_of d i \<noteq> None) [0..<length (gl_registry d)]) \<noteq>
           gl_tokens status
      then Some ''GL token census mismatch'' else
      case first_reason (verify_import d table) [0..<length (g_imports d)] of Some r \<Rightarrow> Some r | None \<Rightarrow>
      first_reason (verify_slot d table) [0..<GUEST_DISPATCH_SLOT_COUNT])"

section \<open>Rebuild\<close>

definition status_start :: guest_dispatch_table_status where
  "status_start = \<lparr>ready = False, table_keys = 0, skipped = 0, max_bucket = 0, bucket_tries = 0,
     gl_tokens = 0, reason = None\<rparr>"

fun scan_functions ::
    "dispatch \<Rightarrow> nat list \<Rightarrow> nat \<Rightarrow> guest_dispatch_table_status \<Rightarrow> nat \<times> guest_dispatch_table_status" where
  "scan_functions d [] key_count status = (key_count, status)"
| "scan_functions d (i # is) key_count status =
     (if i \<noteq> 0 \<and> g_addrs d ! i \<le> g_addrs d ! (i - 1)
      then (key_count, status\<lparr>reason := Some ''function table is not strictly ascending''\<rparr>)
      else if guest_dispatch_key_of d i \<noteq> None then scan_functions d is (key_count + 1) status
      else scan_functions d is key_count (status\<lparr>skipped := skipped status + 1\<rparr>))"

definition build_and_verify ::
    "dispatch \<Rightarrow> guest_dispatch_table_status \<Rightarrow> bool \<times> guest_dispatch_table_status \<times> dispatch" where
  "build_and_verify d status =
     (if reason status \<noteq> None then (False, status, d)
      else case guest_dispatch_table_build d status of (built, status, d) \<Rightarrow>
        if \<not> built then (False, status, d)
        else case guest_dispatch_table_verify d status of
          None \<Rightarrow> (True, status\<lparr>ready := True\<rparr>, d)
        | Some r \<Rightarrow> (False, status\<lparr>reason := Some r\<rparr>, d))"

text \<open>The verdict of the scan, and what a failure leaves.\<close>

definition scan_verdict :: "dispatch \<Rightarrow> nat \<Rightarrow> guest_dispatch_table_status \<Rightarrow> guest_dispatch_table_status" where
  "scan_verdict d key_count status =
     (let key_count = (if key_count \<noteq> 0 then key_count + guest_dispatch_gl_token_count d else 0) in
      if reason status \<noteq> None then status
      else if key_count = 0 then status\<lparr>reason := Some ''no eligible functions''\<rparr>
      else if key_count > GUEST_DISPATCH_MAX_KEYS
      then status\<lparr>reason := Some ''too many functions for the table''\<rparr> else status)"

definition finish_rebuild :: "bool \<Rightarrow> guest_dispatch_table_status \<Rightarrow> dispatch \<Rightarrow> dispatch" where
  "finish_rebuild ok status d =
     (if ok then d\<lparr>dispatch_status := status\<rparr>
      else d\<lparr>g_guest_dispatch := guest_dispatch_table_clear,
             dispatch_status := status\<lparr>table_keys := 0, gl_tokens := 0,
               reason := Some (case reason status of None \<Rightarrow> ''the table did not build'' | Some r \<Rightarrow> r)\<rparr>\<rparr>)"

definition guest_dispatch_table_rebuild :: "dispatch \<Rightarrow> dispatch" where
  "guest_dispatch_table_rebuild d =
     (case scan_functions d [0..<length (g_addrs d)] 0 status_start of (key_count, status) \<Rightarrow>
      case build_and_verify d (scan_verdict d key_count status) of (ok, status, d) \<Rightarrow>
      finish_rebuild ok status d)"

section \<open>Calls and registration\<close>

text \<open>A call through a slot whose function is \<open>NULL\<close> has no route.\<close>

definition guest_call :: "host \<Rightarrow> dispatch \<Rightarrow> u32 \<Rightarrow> (route \<times> dispatch) option" where
  "guest_call h d addr =
     (let table = g_guest_dispatch d; slot = slots table (guest_dispatch_probe table addr) in
      if slot_key slot = addr
      then (case slot_function slot of
              None \<Rightarrow> None
            | Some (Translated fn) \<Rightarrow> Some (Run fn, d)
            | Some (Gl_trampoline i) \<Rightarrow> Some (Gl_entry i, d)
            | Some Dispatch_empty_slot \<Rightarrow> Some (guest_call_slow h d GUEST_DISPATCH_EMPTY_KEY))
      else Some (guest_call_slow h d addr))"

definition guest_register :: "u32 list \<Rightarrow> nat option list \<Rightarrow> dispatch \<Rightarrow> dispatch" where
  "guest_register addrs fns d =
     guest_dispatch_table_rebuild (d\<lparr>g_addrs := addrs, g_fns := fns, g_guest_lookup_cache :=
       \<lambda>_. \<lparr>entry_key = 0, entry_function = None, dispatch_function = None\<rparr>\<rparr>)"

definition guest_import_direct_zero :: guest_import_direct where
  "guest_import_direct_zero = \<lparr>slot_va = 0, direct_fn = None, direct_local_index = 0\<rparr>"

definition guest_import_direct_rebuild :: "host \<Rightarrow> bool \<Rightarrow> dispatch \<Rightarrow> dispatch" where
  "guest_import_direct_rebuild h registration_ok d =
     d\<lparr>g_guest_import_direct := \<lambda>i.
        if \<not> registration_ok \<or> g_imports d = [] \<or> length (g_imports d) > GUEST_IMPORT_DIRECT_CAPACITY \<or>
           i \<ge> length (g_imports d)
        then guest_import_direct_zero
        else case guest_host_import_id_direct_binding h (g_isaac_vita_import_ids_ready d) i of
          None \<Rightarrow> guest_import_direct_zero
        | Some (fn, local_index) \<Rightarrow>
            \<lparr>slot_va = GUEST_IMAGE_BASE h + slot_rva (g_imports d ! i), direct_fn = Some fn,
             direct_local_index = local_index\<rparr>\<rparr>"

text \<open>
  \<open>registered\<close> is the verdict of \<open>guest_host_import_ids_register\<close> on the table, which it leaves in
  its ready flag.
\<close>

definition guest_register_imports :: "host \<Rightarrow> guest_import list \<Rightarrow> bool \<Rightarrow> dispatch \<Rightarrow> dispatch" where
  "guest_register_imports h imports registered d =
     guest_dispatch_table_rebuild
       (guest_import_direct_rebuild h registered
         ((guest_import_dense_register imports
           (guest_dispatch_cache_invalidate
             (guest_gl_dynamic_first_refresh (d\<lparr>g_imports := imports\<rparr>))))
          \<lparr>g_isaac_vita_import_ids_ready := registered, sync_import_fastpath_ready := registered\<rparr>))"

text \<open>The check of \<open>tag_imports\<close>; what it stores is the slot's own address.\<close>

definition tag_imports :: "dispatch \<Rightarrow> bool" where
  "tag_imports d = list_all (\<lambda>i. \<not> (i \<noteq> 0 \<and> slot_rva (g_imports d ! i) \<le> slot_rva (g_imports d ! (i - 1)) \<or>
     g_image_size d < 4 \<or> slot_rva (g_imports d ! i) > g_image_size d - 4)) [0..<length (g_imports d)]"

definition guest_image_free :: "dispatch \<Rightarrow> dispatch" where
  "guest_image_free d =
     guest_gl_dynamic_first_refresh
       (guest_dispatch_table_rebuild (d\<lparr>g_image_base := 0, g_image_size := 0\<rparr>))"

text \<open>
  The image the loader has mapped at \<open>base\<close>; \<open>tls\<close> is the success of \<open>setup_static_tls\<close>.
\<close>

definition guest_image_load :: "u32 \<Rightarrow> u32 \<Rightarrow> bool \<Rightarrow> dispatch \<Rightarrow> bool \<times> dispatch" where
  "guest_image_load base extent tls d =
     (if g_image_base d \<noteq> 0 \<or> g_image_size d \<noteq> 0 then (False, d)
      else
        let d = guest_gl_dynamic_first_refresh (d\<lparr>g_image_base := base, g_image_size := extent\<rparr>) in
        if \<not> tls \<or> \<not> tag_imports d then (False, guest_image_free d)
        else (True, guest_dispatch_table_rebuild d))"

definition guest_note_authenticated_translated_call :: "u32 \<Rightarrow> dispatch \<Rightarrow> bool \<times> dispatch" where
  "guest_note_authenticated_translated_call addr d =
     (case guest_lookup d addr of
        (None, d) \<Rightarrow> (False, d)
      | (Some fn, d) \<Rightarrow> (True, guest_dispatch_cache_authorize addr fn d))"

definition guest_import_call :: "host \<Rightarrow> dispatch \<Rightarrow> u32 \<Rightarrow> nat \<Rightarrow> (route \<times> dispatch) option" where
  "guest_import_call h d target import_id =
     (if import_id \<ge> GUEST_IMPORT_DIRECT_CAPACITY then guest_call h d target
      else
        let entry = g_guest_import_direct d import_id in
        if target \<noteq> slot_va entry then guest_call h d target
        else case direct_fn entry of
          None \<Rightarrow> guest_call h d target
        | Some fn \<Rightarrow>
            if family_handles h fn (direct_local_index entry) \<noteq> 0
            then Some (Imported import_id (Some (fn, direct_local_index entry)), d)
            else Some (Fault target (import_name (g_imports d ! import_id)), d))"

text \<open>
  The pinned synchronisation sites; \<open>None\<close> is the return of 0, no call made.  The inline states
  of \<open>ISAAC_VITA_SYNC_INLINE_FASTPATH\<close>, an option of the build, stand before the endpoint and are
  left out.
\<close>

definition guest_try_direct_sync_import_call :: "host \<Rightarrow> dispatch \<Rightarrow> u32 \<Rightarrow> u32 \<Rightarrow> route option" where
  "guest_try_direct_sync_import_call h d target exact_slot_rva =
     (case (if exact_slot_rva = ISAAC_VITA_IMPORT_SLOT_SYNC_LEAVE_CS
            then Some (ISAAC_VITA_IMPORT_ID_SYNC_LEAVE_CS, ISAAC_VITA_IMPORT_LOCAL_SYNC_LEAVE_CS)
            else if exact_slot_rva = ISAAC_VITA_IMPORT_SLOT_SYNC_ENTER_CS
            then Some (ISAAC_VITA_IMPORT_ID_SYNC_ENTER_CS, ISAAC_VITA_IMPORT_LOCAL_SYNC_ENTER_CS)
            else None) of
        None \<Rightarrow> None
      | Some (import_id, sync_index) \<Rightarrow>
          if \<not> sync_import_fastpath_ready d \<or>
             \<not> (target = exact_slot_rva \<or> target = GUEST_IMAGE_BASE h + exact_slot_rva) \<or>
             import_id \<ge> length (g_imports d) \<or> slot_rva (g_imports d ! import_id) \<noteq> exact_slot_rva
          then None
          else Some (sync_route h target import_id sync_index))"

section \<open>What a verified table promises\<close>

lemma first_reason_None [simp]: "first_reason f xs = None \<longleftrightarrow> (\<forall>x\<in>set xs. f x = None)"
  by (induction xs) (auto split: option.splits)

lemma index_of_bound: "guest_dispatch_index_of key m < GUEST_DISPATCH_SLOT_COUNT"
proof -
  have "unat (key * m) div 2 ^ 17 < 2 ^ 15" using unat_u32 [of "key * m"] by (simp add: less_mult_imp_div_less)
  then show ?thesis
    by (simp add: guest_dispatch_index_of_def GUEST_DISPATCH_SLOT_BITS_def GUEST_DISPATCH_SLOT_COUNT_def
        unat_drop_bit)
qed

lemma probe_bound: "guest_dispatch_probe table key < GUEST_DISPATCH_SLOT_COUNT"
  by (simp add: guest_dispatch_probe_def index_of_bound)

definition table_ok :: "dispatch \<Rightarrow> bool" where
  "table_ok d \<longleftrightarrow> (\<forall>n<GUEST_DISPATCH_SLOT_COUNT. verify_slot d (g_guest_dispatch d) n = None)"

definition dispatch_ok :: "dispatch \<Rightarrow> bool" where
  "dispatch_ok d \<longleftrightarrow> tables_ok d \<and> cache_ok d \<and> gl_flag_ok d \<and> table_ok d"

lemma dispatch_okD:
  "dispatch_ok d \<Longrightarrow> tables_ok d" "dispatch_ok d \<Longrightarrow> cache_ok d" "dispatch_ok d \<Longrightarrow> gl_flag_ok d"
  by (simp_all add: dispatch_ok_def)

lemma verify_clear [simp]: "verify_slot d guest_dispatch_table_clear n = None"
  by (simp add: verify_slot_def guest_dispatch_table_clear_def empty_slot_def)

text \<open>The verdict on a slot does not read the cache or the table's own variables.\<close>

lemmas verify_reads = verify_slot_def guest_dispatch_gl_token_slot_ok_def guest_gl_entry_for_token_def
  guest_dispatch_find_rva_def image_rva_def guest_import_lookup_def dense_candidate_def Let_def

lemma verify_simps [simp]:
  "verify_slot (g_guest_lookup_cache_update f d) = verify_slot d"
  "verify_slot (g_guest_dispatch_update g d) = verify_slot d"
  "verify_slot (dispatch_status_update s d) = verify_slot d"
  "verify_slot (dispatch_order_update t d) = verify_slot d"
  by (simp_all add: verify_reads fun_eq_iff cong: option.case_cong if_cong)

lemma table_simps [simp]:
  "tables_ok (g_guest_dispatch_update g d) = tables_ok d"
  "tables_ok (dispatch_status_update s d) = tables_ok d"
  "tables_ok (dispatch_order_update t d) = tables_ok d"
  "gl_flag_ok (g_guest_dispatch_update g d) = gl_flag_ok d"
  "gl_flag_ok (dispatch_status_update s d) = gl_flag_ok d"
  "gl_flag_ok (dispatch_order_update t d) = gl_flag_ok d"
  "cache_ok (g_guest_dispatch_update g d) = cache_ok d"
  "cache_ok (dispatch_status_update s d) = cache_ok d"
  "cache_ok (dispatch_order_update t d) = cache_ok d"
  by (simp_all add: tables_ok_def gl_flag_ok_def cache_ok_def entry_ok_def)

lemma table_ok_cache [simp]: "table_ok (g_guest_lookup_cache_update f d) = table_ok d"
  by (simp add: table_ok_def)

text \<open>A slot that answers answers as the complete path does.\<close>

lemma verified_slot_exact:
  assumes "tables_ok d" "gl_flag_ok d" "verify_slot d table n = None"
    and "slot_key (slots table n) = a" "a \<noteq> GUEST_DISPATCH_EMPTY_KEY"
  shows "(\<exists>fn. slot_function (slots table n) = Some (Translated fn) \<and> classify h d a = Run fn) \<or>
    (\<exists>i. slot_function (slots table n) = Some (Gl_trampoline i) \<and> classify h d a = Gl_entry i)"
proof (cases "guest_dispatch_gl_token_slot_ok d table n")
  case True
  then obtain i where i: "family a = 0x7E000000" "g_gl_dynamic_first d" "guest_gl_entry_for_token d a = Some i"
    "slot_function (slots table n) = Some (Gl_trampoline i)"
    using assms(4) by (auto simp: guest_dispatch_gl_token_slot_ok_def Let_def split: if_splits option.splits)
  have "a \<noteq> ISAAC_VITA_GL_WGL_GET_PROC_TOKEN"
    using i(1) by (auto simp: ISAAC_VITA_GL_WGL_GET_PROC_TOKEN_def family_def)
  then have "vita_gl_dynamic_dispatch d a = Some (Gl_entry i)"
    using i by (simp add: vita_gl_dynamic_dispatch_def)
  then show ?thesis using gl_first_exact [OF assms(2,1) i(1,2)] i(4) by auto
next
  case False
  then obtain fn index where f: "slot_function (slots table n) = Some fn"
    "family a \<noteq> 0x7D000000" "family a \<noteq> 0x7E000000" "guest_import_lookup d a = None"
    "guest_dispatch_find_rva d (image_rva d a) = Some index" "map_option Translated (g_fns d ! index) = Some fn"
    using assms(3-5) by (auto simp: verify_slot_def Let_def split: if_splits option.splits)
  have "guest_host_dynamic d a = None" using f host_dynamic_family by (cases "guest_host_dynamic d a") auto
  moreover have "index_of (map slot_rva (g_imports d)) (image_rva d a) = None"
    using f(4) import_lookup_index [of d a] assms(1) by (simp add: tables_ok_def)
  moreover have "index_of (g_addrs d) (image_rva d a) = Some index"
    using f(5) rva_search_index [of "g_addrs d"] assms(1) by (simp add: tables_ok_def guest_dispatch_find_rva_def)
  ultimately show ?thesis using f by (auto simp: classify_def)
qed

lemma guest_call_exact:
  assumes "dispatch_ok d"
  shows "\<exists>c. guest_call h d a = Some (classify h d a, d\<lparr>g_guest_lookup_cache := c\<rparr>) \<and>
    cache_ok (d\<lparr>g_guest_lookup_cache := c\<rparr>)"
proof -
  let ?t = "g_guest_dispatch d"
  let ?n = "guest_dispatch_probe ?t a"
  have ok: "tables_ok d" "cache_ok d" "gl_flag_ok d" "verify_slot d ?t ?n = None"
    using assms probe_bound [of ?t a] by (auto simp: dispatch_ok_def table_ok_def)
  obtain c where c: "guest_call_slow h d a = (classify h d a, d\<lparr>g_guest_lookup_cache := c\<rparr>)"
    "cache_ok (d\<lparr>g_guest_lookup_cache := c\<rparr>)" using guest_call_slow_exact [OF ok(1-3)] by blast
  consider "slot_key (slots ?t ?n) \<noteq> a" | "slot_key (slots ?t ?n) = a" "a = GUEST_DISPATCH_EMPTY_KEY"
    | "slot_key (slots ?t ?n) = a" "a \<noteq> GUEST_DISPATCH_EMPTY_KEY" by blast
  then show ?thesis
  proof cases
    case 1
    then show ?thesis using c by (auto simp: guest_call_def Let_def)
  next
    case 2
    then have "slot_function (slots ?t ?n) = Some Dispatch_empty_slot"
      using ok(4) by (auto simp: verify_slot_def Let_def split: if_splits)
    then show ?thesis using c 2 by (auto simp: guest_call_def Let_def)
  next
    case 3
    have "guest_call h d a = Some (classify h d a, d)"
      using verified_slot_exact [OF ok(1,3,4) 3, of h] 3(1) by (auto simp: guest_call_def Let_def)
    then show ?thesis using ok(2) by (intro exI [of _ "g_guest_lookup_cache d"]) simp
  qed
qed

section \<open>Every change of its inputs rebuilds the table\<close>

text \<open>The inputs of the table: the state without the table's own variables.\<close>

definition inputs :: "dispatch \<Rightarrow> dispatch" where
  "inputs d = d\<lparr>g_guest_dispatch := guest_dispatch_table_clear, dispatch_order := [],
     dispatch_status := status_start\<rparr>"

lemma inputs_simps [simp]:
  "inputs (g_guest_dispatch_update g d) = inputs d"
  "inputs (dispatch_order_update u d) = inputs d"
  "inputs (dispatch_status_update s d) = inputs d"
  by (simp_all add: inputs_def)

lemma inputs_keep:
  assumes "inputs e = inputs d"
  shows "tables_ok e = tables_ok d" "gl_flag_ok e = gl_flag_ok d" "cache_ok e = cache_ok d"
    "verify_slot e = verify_slot d" "g_image_base e = g_image_base d"
    "g_image_size e = g_image_size d"
    "g_imports e = g_imports d" "g_addrs e = g_addrs d" "g_fns e = g_fns d" "gl_registry e = gl_registry d"
proof -
  have "tables_ok (inputs x) = tables_ok x" "gl_flag_ok (inputs x) = gl_flag_ok x"
    "cache_ok (inputs x) = cache_ok x" "verify_slot (inputs x) = verify_slot x"
    "g_image_base (inputs x) = g_image_base x" "g_image_size (inputs x) = g_image_size x"
    "g_imports (inputs x) = g_imports x" "g_addrs (inputs x) = g_addrs x" "g_fns (inputs x) = g_fns x"
    "gl_registry (inputs x) = gl_registry x" for x
    by (simp_all add: inputs_def)
  then show "tables_ok e = tables_ok d" "gl_flag_ok e = gl_flag_ok d" "cache_ok e = cache_ok d"
    "verify_slot e = verify_slot d" "g_image_base e = g_image_base d"
    "g_image_size e = g_image_size d"
    "g_imports e = g_imports d" "g_addrs e = g_addrs d" "g_fns e = g_fns d" "gl_registry e = gl_registry d"
    using assms by metis+
qed

lemma build_frame: "guest_dispatch_table_build d s = (b, s', e) \<Longrightarrow> inputs e = inputs d"
  by (auto simp: guest_dispatch_table_build_def Let_def split: prod.splits sum.splits if_splits)

lemma verified_table_ok: "guest_dispatch_table_verify e s = None \<Longrightarrow> table_ok e"
  by (simp add: table_ok_def guest_dispatch_table_verify_def Let_def split: option.splits if_splits)

lemma build_and_verify_ok:
  assumes "build_and_verify d s = (ok, s', e)"
  shows "inputs e = inputs d \<and> (ok \<longrightarrow> table_ok e)"
proof (cases "reason s = None")
  case True
  obtain b t f where b: "guest_dispatch_table_build d s = (b, t, f)" by (cases "guest_dispatch_table_build d s")
  show ?thesis
    using assms True build_frame [OF b] verified_table_ok [of f t]
    by (auto simp: build_and_verify_def b split: if_splits option.splits)
qed (use assms in \<open>auto simp: build_and_verify_def\<close>)

text \<open>The table is empty or verified, and nothing else changes.\<close>

lemma finish_ok:
  "(ok \<longrightarrow> table_ok e) \<Longrightarrow> inputs (finish_rebuild ok s e) = inputs e \<and> table_ok (finish_rebuild ok s e)"
  by (auto simp: finish_rebuild_def table_ok_def)

lemma rebuild_table:
  "inputs (guest_dispatch_table_rebuild d) = inputs d \<and> table_ok (guest_dispatch_table_rebuild d)"
  using build_and_verify_ok finish_ok
  by (auto simp: guest_dispatch_table_rebuild_def split: prod.split)

text \<open>Without an image no function is eligible and the table is empty.\<close>

lemma rebuild_no_image:
  assumes "g_image_base d = 0"
  shows "g_guest_dispatch (guest_dispatch_table_rebuild d) = guest_dispatch_table_clear"
proof -
  have "guest_dispatch_key_of d i = None" for i using assms by (simp add: guest_dispatch_key_of_def Let_def)
  then have "fst (scan_functions d is k s) = k" for "is" k s
    by (induction "is" arbitrary: k s) auto
  then obtain s where s: "scan_functions d [0..<length (g_addrs d)] 0 status_start = (0, s)"
    by (metis prod.collapse)
  have "reason (scan_verdict d 0 s) \<noteq> None" by (simp add: scan_verdict_def)
  then show ?thesis
    by (simp add: guest_dispatch_table_rebuild_def s build_and_verify_def finish_rebuild_def)
qed

section \<open>Reachable states\<close>

text \<open>
  The static variables at start, and what the program does to them: registering tables generated
  in ascending order, mapping an image inside the address space, freeing it, and calling.  Guest
  code runs only after the first registration.  The native owners that report a call of their own
  (\<open>guest_note_authenticated_translated_call\<close>) do so for an address that is no import slot.
\<close>

definition dispatch_zero :: "(u32 \<times> bool) list \<Rightarrow> dispatch" where
  "dispatch_zero registry =
     \<lparr>g_image_base = 0, g_image_size = 0, g_imports = [], g_addrs = [], g_fns = [],
      g_guest_lookup_cache = \<lambda>_. \<lparr>entry_key = 0, entry_function = None, dispatch_function = None\<rparr>,
      g_guest_import_dense = \<lambda>_. 0, dense_base = 0, dense_span = 0, sync_import_fastpath_ready = False,
      g_isaac_vita_import_ids_ready = False, g_guest_import_direct = \<lambda>_. guest_import_direct_zero, g_gl_dynamic_first = False, gl_registry = registry,
      g_guest_dispatch = \<lparr>bucket_multiplier = \<lambda>_. 0, multiplier = 0,
        slots = \<lambda>_. \<lparr>slot_key = 0, slot_function = None\<rparr>\<rparr>,
      dispatch_status = status_start, dispatch_order = replicate GUEST_DISPATCH_MAX_KEYS 0\<rparr>"

inductive dispatch_reach :: "host \<Rightarrow> (u32 \<times> bool) list \<Rightarrow> dispatch \<Rightarrow> bool" for h registry where
  start: "sorted_wrt (<) addrs \<Longrightarrow> length fns = length addrs \<Longrightarrow>
    dispatch_reach h registry (guest_register addrs fns (dispatch_zero registry))"
| register: "dispatch_reach h registry d \<Longrightarrow> sorted_wrt (<) addrs \<Longrightarrow> length fns = length addrs \<Longrightarrow>
    dispatch_reach h registry (guest_register addrs fns d)"
| import_table: "dispatch_reach h registry d \<Longrightarrow> sorted_wrt (<) (map slot_rva imports) \<Longrightarrow>
    dispatch_reach h registry (guest_register_imports h imports registered d)"
| load: "dispatch_reach h registry d \<Longrightarrow> unat base + unat extent \<le> 2 ^ 32 \<Longrightarrow>
    dispatch_reach h registry (snd (guest_image_load base extent tls d))"
| free: "dispatch_reach h registry d \<Longrightarrow> dispatch_reach h registry (guest_image_free d)"
| call: "dispatch_reach h registry d \<Longrightarrow> guest_call h d addr = Some (r, e) \<Longrightarrow> dispatch_reach h registry e"
| note_call: "dispatch_reach h registry d \<Longrightarrow> guest_import_lookup d addr = None \<Longrightarrow>
    dispatch_reach h registry (snd (guest_note_authenticated_translated_call addr d))"

lemma rebuild_ok:
  "tables_ok d \<Longrightarrow> cache_ok d \<Longrightarrow> gl_flag_ok d \<Longrightarrow> dispatch_ok (guest_dispatch_table_rebuild d)"
  using rebuild_table [of d] inputs_keep [of "guest_dispatch_table_rebuild d" d] by (simp add: dispatch_ok_def)

lemma refresh_fields:
  "gl_flag_ok (guest_gl_dynamic_first_refresh d) \<longleftrightarrow> unat (g_image_base d) + unat (g_image_size d) \<le> 2 ^ 32"
  "tables_ok (guest_gl_dynamic_first_refresh d) = tables_ok d"
  "cache_ok (guest_gl_dynamic_first_refresh d) = cache_ok d"
  "g_guest_dispatch (guest_gl_dynamic_first_refresh d) = g_guest_dispatch d"
  by (auto simp: guest_gl_dynamic_first_refresh_def Let_def gl_flag_ok_def tables_ok_def cache_ok_def
      entry_ok_def)

lemma image_fields [simp]:
  "tables_ok (d\<lparr>g_image_base := b, g_image_size := n\<rparr>) = tables_ok d"
  "cache_ok (d\<lparr>g_image_base := b, g_image_size := n\<rparr>) = cache_ok d"
  by (auto simp: tables_ok_def cache_ok_def entry_ok_def)

lemma image_free_ok:
  assumes "tables_ok d" "cache_ok d"
  shows "dispatch_ok (guest_image_free d)"
proof -
  let ?d = "d\<lparr>g_image_base := 0, g_image_size := 0\<rparr>"
  let ?e = "guest_dispatch_table_rebuild ?d"
  have k: "tables_ok ?e = tables_ok ?d" "cache_ok ?e = cache_ok ?d" "g_image_base ?e = 0" "g_image_size ?e = 0"
    using rebuild_table [of ?d] inputs_keep [of ?e ?d] by simp_all
  show ?thesis
    using assms rebuild_no_image [of ?d] k
    by (simp add: dispatch_ok_def guest_image_free_def refresh_fields table_ok_def)
qed

lemma guest_register_ok:
  assumes "sorted_wrt (<) addrs" "length fns = length addrs" "tables_ok d" "gl_flag_ok d"
  shows "dispatch_ok (guest_register addrs fns d)"
  unfolding guest_register_def
  by (rule rebuild_ok) (use assms in \<open>auto simp: tables_ok_def cache_ok_def entry_ok_def gl_flag_ok_def\<close>)

lemma dense_register_fields [simp]:
  "tables_ok (guest_import_dense_register imports d) = tables_ok d"
  "cache_ok (guest_import_dense_register imports d) = cache_ok d"
  "gl_flag_ok (guest_import_dense_register imports d) = gl_flag_ok d"
  by (auto simp: guest_import_dense_register_def Let_def tables_ok_def cache_ok_def entry_ok_def
      gl_flag_ok_def split: option.split)

lemma direct_fields [simp]:
  "tables_ok (guest_import_direct_rebuild h r d) = tables_ok d"
  "cache_ok (guest_import_direct_rebuild h r d) = cache_ok d"
  "gl_flag_ok (guest_import_direct_rebuild h r d) = gl_flag_ok d"
  "tables_ok (d\<lparr>g_isaac_vita_import_ids_ready := c, sync_import_fastpath_ready := b\<rparr>) = tables_ok d"
  "cache_ok (d\<lparr>g_isaac_vita_import_ids_ready := c, sync_import_fastpath_ready := b\<rparr>) = cache_ok d"
  "gl_flag_ok (d\<lparr>g_isaac_vita_import_ids_ready := c, sync_import_fastpath_ready := b\<rparr>) = gl_flag_ok d"
  by (auto simp: guest_import_direct_rebuild_def tables_ok_def cache_ok_def entry_ok_def gl_flag_ok_def)

lemma invalidate_fields [simp]:
  "tables_ok (guest_dispatch_cache_invalidate d) = tables_ok d"
  "gl_flag_ok (guest_dispatch_cache_invalidate d) = gl_flag_ok d"
  by (auto simp: guest_dispatch_cache_invalidate_def tables_ok_def gl_flag_ok_def)

lemma guest_register_imports_ok:
  assumes "sorted_wrt (<) (map slot_rva imports)" "tables_ok d" "cache_ok d" "gl_flag_ok d"
  shows "dispatch_ok (guest_register_imports h imports registered d)"
proof -
  let ?d = "guest_gl_dynamic_first_refresh (d\<lparr>g_imports := imports\<rparr>)"
  have "tables_ok ?d" "gl_flag_ok ?d"
    using assms by (simp_all add: refresh_fields) (simp_all add: tables_ok_def gl_flag_ok_def)
  moreover have "cache_ok (guest_dispatch_cache_invalidate ?d)"
    using assms(3) by (simp add: cache_ok_def entry_ok_def guest_dispatch_cache_invalidate_def
        guest_gl_dynamic_first_refresh_def Let_def)
  ultimately show ?thesis unfolding guest_register_imports_def by (intro rebuild_ok) simp_all
qed

lemma guest_image_load_ok:
  assumes "unat base + unat extent \<le> 2 ^ 32" "dispatch_ok d"
  shows "dispatch_ok (snd (guest_image_load base extent tls d))"
proof -
  let ?d = "guest_gl_dynamic_first_refresh (d\<lparr>g_image_base := base, g_image_size := extent\<rparr>)"
  have "tables_ok ?d" "cache_ok ?d" "gl_flag_ok ?d"
    using assms by (simp_all add: refresh_fields dispatch_ok_def)
  then show ?thesis using assms(2) image_free_ok [of ?d] rebuild_ok [of ?d]
    by (simp add: guest_image_load_def Let_def)
qed

lemma note_call_ok:
  assumes "dispatch_ok d" "guest_import_lookup d addr = None"
  shows "dispatch_ok (snd (guest_note_authenticated_translated_call addr d))"
proof -
  obtain c where c: "guest_lookup d addr = (Option.bind (index_of (g_addrs d) (image_rva d addr)) (\<lambda>m. g_fns d ! m),
      d\<lparr>g_guest_lookup_cache := c\<rparr>)" "cache_ok (d\<lparr>g_guest_lookup_cache := c\<rparr>)"
    using guest_lookup_exact [of d addr] assms by (auto simp: dispatch_ok_def)
  have i: "image_rva d addr \<notin> slot_rva ` set (g_imports d)"
    using assms import_lookup_index [of d addr] by (auto simp: dispatch_ok_def tables_ok_def index_of_None)
  have "\<exists>c'. guest_dispatch_cache_authorize addr fn (d\<lparr>g_guest_lookup_cache := c\<rparr>) =
      d\<lparr>g_guest_lookup_cache := c'\<rparr> \<and> cache_ok (d\<lparr>g_guest_lookup_cache := c'\<rparr>)" for fn
    using authorize_ok [OF c(2), of addr fn] i by auto
  then have "\<exists>c'. snd (guest_note_authenticated_translated_call addr d) = d\<lparr>g_guest_lookup_cache := c'\<rparr> \<and>
      cache_ok (d\<lparr>g_guest_lookup_cache := c'\<rparr>)"
    using c by (auto simp: guest_note_authenticated_translated_call_def split: option.split)
  then show ?thesis using assms(1) by (auto simp: dispatch_ok_def)
qed

lemma reach_ok: "dispatch_reach h registry d \<Longrightarrow> dispatch_ok d"
proof (induction rule: dispatch_reach.induct)
  case (start addrs fns)
  have "tables_ok (dispatch_zero registry)" "gl_flag_ok (dispatch_zero registry)"
    by (simp_all add: dispatch_zero_def tables_ok_def gl_flag_ok_def)
  then show ?case using start guest_register_ok by blast
next
  case (call d addr r e)
  then show ?case using guest_call_exact [of d h addr] by (auto simp: dispatch_ok_def)
qed (blast intro: guest_register_ok guest_register_imports_ok guest_image_load_ok image_free_ok note_call_ok
      dest: dispatch_okD)+

section \<open>Properties\<close>

text \<open>
  C26: In every state the program can reach, an indirect call through the dispatch table goes
  exactly where the complete path sends it, which is where the linear search of imports, native
  tokens and registered functions says: the hash table, the lookup cache, the dense import table
  and the early GL test never change a destination, and no call lands on a missing function.
\<close>

theorem dispatch_refines_classification:
  assumes "dispatch_reach h registry d"
  shows "map_option fst (guest_call h d addr) = Some (classify h d addr) \<and>
    fst (guest_call_slow h d addr) = classify h d addr"
proof -
  have "dispatch_ok d" using assms by (rule reach_ok)
  then show ?thesis using guest_call_exact [of d h addr] guest_call_slow_exact [of d h addr]
    by (auto simp: dispatch_ok_def)
qed

lemmas rebuild_inputs = inputs_keep [OF rebuild_table [THEN conjunct1]]

definition example_host :: host where
  "example_host = \<lparr>GUEST_IMAGE_BASE = 0x98000000, vita_audio = True, vita_lua = True,
     lua_off_close_noop = False, lua_import_fast_binding = \<lambda>_. None, family_handles = \<lambda>_ _. 1,
     host_import_id_error = []\<rparr>"

text \<open>One function registered, the image mapped: its address runs it, another one faults.\<close>

lemma dispatch_refines_classification_witness:
  "\<exists>d. dispatch_reach example_host [] d \<and>
     map_option fst (guest_call example_host d 0x98001000) = Some (Run 7) \<and>
     map_option fst (guest_call example_host d 0x98001004) =
       Some (Fault 0x98001004 ''indirect call to untranslated address'')"
proof -
  define e where "e = guest_register [0x1000] [Some 7] (dispatch_zero [])"
  define d where "d = snd (guest_image_load 0x98000000 0x10000 True e)"
  have "dispatch_reach example_host [] e" unfolding e_def by (rule start) simp_all
  then have r: "dispatch_reach example_host [] d" unfolding d_def by (rule load) simp
  have e: "g_image_base e = 0" "g_image_size e = 0" "g_imports e = []" "g_addrs e = [0x1000]"
    "g_fns e = [Some 7]" "gl_registry e = []"
    by (simp_all add: e_def guest_register_def rebuild_inputs dispatch_zero_def)
  have "g_image_base d = 0x98000000" "g_image_size d = 0x10000" "g_imports d = []" "g_addrs d = [0x1000]"
    "g_fns d = [Some 7]" "gl_registry d = []"
    by (simp_all add: d_def guest_image_load_def e tag_imports_def rebuild_inputs
        guest_gl_dynamic_first_refresh_def Let_def)
  then have "classify example_host d 0x98001000 = Run 7"
    "classify example_host d 0x98001004 = Fault 0x98001004 ''indirect call to untranslated address''"
    by (simp_all add: classify_def image_rva_def guest_host_dynamic_def family_def index_of_def)
  then show ?thesis
    using r dispatch_refines_classification [OF r, of "0x98001000"] dispatch_refines_classification [OF r, of "0x98001004"]
    by auto
qed

text \<open>
  C27: A search of an ascending table of fewer than \<open>2 ^ 32\<close> entries ends after at most 32
  iterations with the index of the key, or with none when the key is absent.
\<close>

theorem search_exact_bounded:
  assumes "sorted_wrt (<) xs" "length xs < 2 ^ 32"
  shows "fst (rva_search xs key 0 (length xs) 0) = index_of xs key \<and>
    snd (rva_search xs key 0 (length xs) 0) \<le> 32"
  using rva_search_index [OF assms(1)] rva_search_iterations [of "length xs" 0 32 xs key 0] assms(2) by simp

lemma search_exact_bounded_witness:
  "fst (rva_search [3, 5, 8] 8 0 3 0) = Some 2 \<and> snd (rva_search [3, 5, 8] 8 0 3 0) \<le> 32"
proof -
  have "index_of [3, 5, 8 :: u32] 8 = Some 2" by (simp add: index_of_def upt_rec)
  moreover have s: "sorted_wrt (<) [3, 5, 8 :: u32]" and l: "length [3, 5, 8 :: u32] = 3" by simp_all
  ultimately show ?thesis using search_exact_bounded [OF s, of 8, unfolded l] by simp
qed

end
