(* ===== verification/Guest_Dispatch_Direct.thy ===== *)
theory Guest_Dispatch_Direct imports Guest_Dispatch_Table begin

text \<open>
  The generated import sites and the pinned synchronisation sites of \<open>runtime/guest.c\<close>, which skip
  \<open>guest_call\<close>, against the call they replace: the same endpoint runs with the same local index.
\<close>

section \<open>The rows of the direct table\<close>

lemma rebuild_direct [simp]:
  "g_guest_import_direct (guest_dispatch_table_rebuild d) = g_guest_import_direct d"
  "sync_import_fastpath_ready (guest_dispatch_table_rebuild d) = sync_import_fastpath_ready d"
  "g_isaac_vita_import_ids_ready (guest_dispatch_table_rebuild d) = g_isaac_vita_import_ids_ready d"
proof -
  have "g_guest_import_direct (inputs x) = g_guest_import_direct x"
    "sync_import_fastpath_ready (inputs x) = sync_import_fastpath_ready x"
    "g_isaac_vita_import_ids_ready (inputs x) = g_isaac_vita_import_ids_ready x" for x
    by (simp_all add: inputs_def)
  then show "g_guest_import_direct (guest_dispatch_table_rebuild d) = g_guest_import_direct d"
    "sync_import_fastpath_ready (guest_dispatch_table_rebuild d) = sync_import_fastpath_ready d"
    "g_isaac_vita_import_ids_ready (guest_dispatch_table_rebuild d) = g_isaac_vita_import_ids_ready d"
    using rebuild_table [of d] by metis+
qed

text \<open>
  A row with a function is the token of its slot with the binding of its identifier, and is there
  only after a registration that validated both flags.
\<close>

definition direct_ok :: "host \<Rightarrow> dispatch \<Rightarrow> bool" where
  "direct_ok h d \<longleftrightarrow> sync_import_fastpath_ready d = g_isaac_vita_import_ids_ready d \<and>
     (\<forall>i fn. direct_fn (g_guest_import_direct d i) = Some fn \<longrightarrow>
        g_isaac_vita_import_ids_ready d \<and> i < length (g_imports d) \<and> i < GUEST_IMPORT_DIRECT_CAPACITY \<and>
        slot_va (g_guest_import_direct d i) = GUEST_IMAGE_BASE h + slot_rva (g_imports d ! i) \<and>
        guest_host_import_id_direct_binding h True i =
          Some (fn, direct_local_index (g_guest_import_direct d i)))"

lemma direct_okD:
  assumes "direct_ok h d" "direct_fn (g_guest_import_direct d i) = Some fn"
  shows "g_isaac_vita_import_ids_ready d" "sync_import_fastpath_ready d" "i < length (g_imports d)"
    "i < GUEST_IMPORT_DIRECT_CAPACITY"
    "slot_va (g_guest_import_direct d i) = GUEST_IMAGE_BASE h + slot_rva (g_imports d ! i)"
    "guest_host_import_id_direct_binding h True i =
       Some (fn, direct_local_index (g_guest_import_direct d i))"
  using assms by (simp_all add: direct_ok_def)

lemma guest_call_direct:
  assumes "dispatch_ok d" "guest_call h d addr = Some (r, e)"
  shows "direct_ok h' e = direct_ok h' d"
  using guest_call_exact [OF assms(1), of h addr] assms(2) by (auto simp: direct_ok_def)

lemma note_call_direct:
  "direct_ok h (snd (guest_note_authenticated_translated_call addr d)) = direct_ok h d"
  by (auto simp: guest_note_authenticated_translated_call_def guest_lookup_def
      guest_dispatch_cache_authorize_def Let_def direct_ok_def split: option.split)

lemma rebuilt_direct:
  assumes "g_isaac_vita_import_ids_ready d = registered" "sync_import_fastpath_ready d = registered"
  shows "direct_ok h (guest_import_direct_rebuild h registered d)"
  using assms
  by (auto simp: direct_ok_def guest_import_direct_rebuild_def guest_import_direct_zero_def
      split: option.splits if_splits)

lemma reach_direct: "dispatch_reach h registry d \<Longrightarrow> direct_ok h d"
proof (induction rule: dispatch_reach.induct)
  case (import_table d iat registered)
  have "direct_ok h (guest_dispatch_table_rebuild e) = direct_ok h e" for e
    by (simp add: direct_ok_def rebuild_inputs)
  then show ?case by (simp add: guest_register_imports_def rebuilt_direct)
next
  case (call d addr r e)
  then show ?case using guest_call_direct reach_ok by blast
next
  case (note_call d addr)
  then show ?case by (simp add: note_call_direct)
qed (simp_all add: direct_ok_def guest_register_def rebuild_inputs dispatch_zero_def guest_image_load_def
    guest_image_free_def guest_gl_dynamic_first_refresh_def guest_import_direct_zero_def Let_def)

section \<open>Direct import calls\<close>

text \<open>The token of a slot is classified as its import.\<close>

lemma classify_import:
  assumes "tables_ok d" "i < length (g_imports d)" "image_rva d va = slot_rva (g_imports d ! i)"
  shows "classify h d va = import_route h d va i"
proof -
  have "distinct (map slot_rva (g_imports d))"
    using assms(1) by (intro sorted_wrt_less_distinct) (simp add: tables_ok_def)
  then have "index_of (map slot_rva (g_imports d)) (image_rva d va) = Some i"
    using assms(2,3) by (simp add: index_of_distinct)
  then show ?thesis by (simp add: classify_def)
qed

text \<open>What the import branch does of an identifier that has a direct row.\<close>

lemma import_route_bound:
  assumes "direct_ok h d" "direct_fn (g_guest_import_direct d i) = Some fn"
    and "direct_local_index (g_guest_import_direct d i) = local"
  shows "0 < family_handles h fn local \<Longrightarrow> import_route h d va i = Imported i (Some (fn, local))"
    "family_handles h fn local = 0 \<Longrightarrow> import_route h d va i =
       Fault va (if i = ISAAC_VITA_IMPORT_ID_SYNC_LEAVE_CS \<or> i = ISAAC_VITA_IMPORT_ID_SYNC_ENTER_CS
         then ''validated Vita sync import rejected its local ID'' else import_name (g_imports d ! i))"
proof -
  have b: "guest_host_import_id_direct_binding h True i = Some (fn, local)"
    "g_isaac_vita_import_ids_ready d" "sync_import_fastpath_ready d"
    using direct_okD [OF assms(1,2)] assms(3) by simp_all
  note run = direct_binding_runs [OF b(1), THEN conjunct1]
  show "0 < family_handles h fn local \<Longrightarrow> import_route h d va i = Imported i (Some (fn, local))"
    "family_handles h fn local = 0 \<Longrightarrow> import_route h d va i =
       Fault va (if i = ISAAC_VITA_IMPORT_ID_SYNC_LEAVE_CS \<or> i = ISAAC_VITA_IMPORT_ID_SYNC_ENTER_CS
         then ''validated Vita sync import rejected its local ID'' else import_name (g_imports d ! i))"
    using b sync_binding [of h] run by (auto simp: import_route_def sync_route_def)
qed

text \<open>
  C28: The two shortcuts that skip \<open>guest_call\<close> do what it does.  The image is at its base with the
  import slots inside it.  At a generated import site whose word is the token stored for its
  identifier, and whose row has a function, that function is called with the local index of the
  frozen table; when it handles the call, a call of the word runs the same function with the same
  local index for the same import; when it returns 0, both fault at the word, with the import's name,
  except that the two synchronisation imports have a text of their own in \<open>guest_call\<close>.  Any other word or
  identifier is handed to \<open>guest_call\<close> unchanged.  A pinned synchronisation site that takes its fast
  path does exactly what a call of its word does: the site of the leave slot runs the endpoint of
  import 60 with local index 6, the site of the enter slot that of import 61 with local index 5.
\<close>

theorem direct_routes_agree:
  assumes "dispatch_reach h registry d"
    and "g_image_base d = GUEST_IMAGE_BASE h" "0x01000000 \<le> GUEST_IMAGE_BASE h"
    and "list_all (\<lambda>i. slot_rva i < g_image_size d) (g_imports d)"
  shows "(\<forall>va fn local. g_guest_import_direct d i = \<lparr>slot_va = va, direct_fn = Some fn, direct_local_index = local\<rparr> \<longrightarrow>
      local = row_local_index (s_import_ids ! i) \<and>
      (0 < family_handles h fn local \<longrightarrow>
         map_option fst (guest_import_call h d va i) = Some (Imported i (Some (fn, local))) \<and>
         map_option fst (guest_call h d va) = Some (Imported i (Some (fn, local)))) \<and>
      (family_handles h fn local = 0 \<longrightarrow>
         map_option fst (guest_import_call h d va i) = Some (Fault va (import_name (g_imports d ! i))) \<and>
         map_option fst (guest_call h d va) = Some (Fault va
           (if i = 60 \<or> i = 61 then ''validated Vita sync import rejected its local ID''
            else import_name (g_imports d ! i))))) \<and>
    (\<forall>target. direct_fn (g_guest_import_direct d i) = None \<or> target \<noteq> slot_va (g_guest_import_direct d i) \<longrightarrow>
      guest_import_call h d target i = guest_call h d target) \<and>
    (\<forall>target slot r. guest_try_direct_sync_import_call h d target slot = Some r \<longrightarrow>
      map_option fst (guest_call h d target) = Some r \<and>
      (\<exists>import_id local. (slot, import_id, local) \<in> {(0x006060F8, 60, 6), (0x006060FC, 61, 5)} \<and>
         r = (if family_handles h (Family_indexed ISAAC_VITA_IMPORT_SYNC) local \<noteq> 0
              then Imported import_id (Some (Family_indexed ISAAC_VITA_IMPORT_SYNC, local))
              else Fault target ''validated Vita sync import rejected its local ID'')))"
proof -
  have ok: "tables_ok d" "gl_flag_ok d" using reach_ok [OF assms(1)] by (simp_all add: dispatch_ok_def)
  note direct = reach_direct [OF assms(1)]
  have call: "map_option fst (guest_call h d a) = Some (classify h d a)" for a
    using guest_call_exact [OF reach_ok [OF assms(1)], of h a] by auto
  have rva: "image_rva d (g_image_base d + slot_rva (g_imports d ! j)) = slot_rva (g_imports d ! j)"
    if "j < length (g_imports d)" for j
    using that assms(2-4) by (auto simp: image_rva_def list_all_length)
  show ?thesis
  proof (intro conjI allI impI)
    fix va fn local
    assume row: "g_guest_import_direct d i = \<lparr>slot_va = va, direct_fn = Some fn, direct_local_index = local\<rparr>"
    then have f: "direct_fn (g_guest_import_direct d i) = Some fn"
      "direct_local_index (g_guest_import_direct d i) = local" by simp_all
    have i: "i < length (g_imports d)" "i < GUEST_IMPORT_DIRECT_CAPACITY"
      "va = g_image_base d + slot_rva (g_imports d ! i)"
      "guest_host_import_id_direct_binding h True i = Some (fn, local)"
      using direct_okD [OF direct f(1)] row assms(2) by simp_all
    show "local = row_local_index (s_import_ids ! i)" using direct_binding_runs [OF i(4)] by simp
    have "classify h d va = import_route h d va i"
      using classify_import [OF ok(1) i(1)] rva [OF i(1)] i(3) by simp
    then have c: "map_option fst (guest_call h d va) = Some (import_route h d va i)" by (simp add: call)
    have d: "map_option fst (guest_import_call h d va i) = Some
        (if family_handles h fn local \<noteq> 0 then Imported i (Some (fn, local))
         else Fault va (import_name (g_imports d ! i)))"
      using i(2) by (simp add: guest_import_call_def row)
    note r = import_route_bound [OF direct f, of va]
    show "map_option fst (guest_import_call h d va i) = Some (Imported i (Some (fn, local)))"
      "map_option fst (guest_call h d va) = Some (Imported i (Some (fn, local)))"
      if "0 < family_handles h fn local" using that by (simp_all add: d c r(1))
    show "map_option fst (guest_import_call h d va i) = Some (Fault va (import_name (g_imports d ! i)))"
      "map_option fst (guest_call h d va) = Some (Fault va
         (if i = 60 \<or> i = 61 then ''validated Vita sync import rejected its local ID''
          else import_name (g_imports d ! i)))"
      if "family_handles h fn local = 0"
      using that by (simp_all only: d c r(2)) (simp_all add: sync_constants)
  next
    show "guest_import_call h d target i = guest_call h d target"
      if "direct_fn (g_guest_import_direct d i) = None \<or> target \<noteq> slot_va (g_guest_import_direct d i)" for target
      using that by (auto simp: guest_import_call_def Let_def split: option.split)
  next
    fix target slot r assume a: "guest_try_direct_sync_import_call h d target slot = Some r"
    obtain j l where j: "j < length (g_imports d)" "slot_rva (g_imports d ! j) = slot"
        "r = sync_route h target j l" "(slot, j, l) \<in> {(0x006060F8, 60, 6), (0x006060FC, 61, 5)}"
      and t: "target = slot \<or> target = g_image_base d + slot" "sync_import_fastpath_ready d"
      using a assms(2)
      by (auto simp: guest_try_direct_sync_import_call_def sync_constants split: if_splits)
    have "image_rva d target = slot"
    proof (cases "target = slot")
      case True
      have "slot \<le> 0x006060FC" using j(4) by auto
      then have "\<not> slot - g_image_base d < g_image_size d"
        using assms(2,3) ok(2) by (intro below_image) (auto simp: gl_flag_ok_def word_less_nat_alt word_le_nat_alt)
      then show ?thesis using True by (simp add: image_rva_def)
    next
      case False
      then show ?thesis using t rva [OF j(1)] j(2) by simp
    qed
    moreover have "import_route h d target j = r"
      using j(3,4) t(2) by (auto simp: import_route_def sync_constants)
    ultimately show "map_option fst (guest_call h d target) = Some r"
      using classify_import [OF ok(1) j(1)] j(2) by (simp add: call)
    show "\<exists>import_id local. (slot, import_id, local) \<in> {(0x006060F8, 60, 6), (0x006060FC, 61, 5)} \<and>
         r = (if family_handles h (Family_indexed ISAAC_VITA_IMPORT_SYNC) local \<noteq> 0
              then Imported import_id (Some (Family_indexed ISAAC_VITA_IMPORT_SYNC, local))
              else Fault target ''validated Vita sync import rejected its local ID'')"
      using j(3,4) by (auto simp: sync_route_def)
  qed
qed

text \<open>
  The frozen table registered and the image mapped: the generated site of \<open>LeaveCriticalSection\<close>, its
  pinned site and a call of its token all run the synchronisation endpoint with local index 6.
\<close>

definition frozen_imports :: "guest_import list" where
  "frozen_imports = map (\<lambda>row. \<lparr>slot_rva = row_slot_rva row, import_name = []\<rparr>) s_import_ids"

lemma frozen_imports:
  "length frozen_imports = 413" "i < 413 \<Longrightarrow> slot_rva (frozen_imports ! i) = row_slot_rva (s_import_ids ! i)"
  "map slot_rva frozen_imports = map row_slot_rva s_import_ids"
  by (simp_all add: frozen_imports_def import_ids_length ISAAC_VITA_IMPORT_ID_COUNT_def)

lemma frozen_bound: "i < 413 \<Longrightarrow> row_slot_rva (s_import_ids ! i) \<le> 0x006066D4"
proof -
  assume i: "i < 413"
  let ?xs = "map row_slot_rva s_import_ids"
  have "?xs ! i \<le> last ?xs"
    using sorted_hd_last [OF strict_sorted_imp_sorted [OF import_ids_ascending], of "?xs ! i"] i
    by (simp add: import_ids_length ISAAC_VITA_IMPORT_ID_COUNT_def)
  moreover have "last ?xs = 0x006066D4" by (simp add: s_import_ids_def import_row_def)
  ultimately show ?thesis using i by (simp add: import_ids_length ISAAC_VITA_IMPORT_ID_COUNT_def)
qed

lemma frozen_tags:
  assumes "g_imports d = frozen_imports" "g_image_size d = 0x700000"
  shows "tag_imports d"
proof -
  have "slot_rva (frozen_imports ! (i - 1)) < slot_rva (frozen_imports ! i)" if "i < 413" "i \<noteq> 0" for i
    using sorted_wrt_nth_less [OF import_ids_ascending, of "i - 1" i] that
    by (simp add: frozen_imports(2) import_ids_length ISAAC_VITA_IMPORT_ID_COUNT_def)
  moreover have "slot_rva (frozen_imports ! i) \<le> 0x006FFFFC" if "i < 413" for i
    using frozen_bound [OF that] that by (simp add: frozen_imports(2) word_le_nat_alt)
  ultimately have "\<not> (i \<noteq> 0 \<and> slot_rva (frozen_imports ! i) \<le> slot_rva (frozen_imports ! (i - 1)) \<or>
      slot_rva (frozen_imports ! i) > 0x006FFFFC)" if "i < 413" for i
    using that by (meson not_le)
  then show ?thesis
    using assms by (simp add: tag_imports_def list_all_iff frozen_imports(1))
qed

lemma direct_routes_agree_witness:
  "\<exists>d. dispatch_reach example_host [] d \<and>
     map_option fst (guest_import_call example_host d 0x986060F8 60) =
       Some (Imported 60 (Some (Family_indexed ISAAC_VITA_IMPORT_SYNC, 6))) \<and>
     guest_try_direct_sync_import_call example_host d 0x986060F8 0x006060F8 =
       Some (Imported 60 (Some (Family_indexed ISAAC_VITA_IMPORT_SYNC, 6))) \<and>
     map_option fst (guest_call example_host d 0x986060F8) =
       Some (Imported 60 (Some (Family_indexed ISAAC_VITA_IMPORT_SYNC, 6)))"
proof -
  define e where "e = guest_register [] [] (dispatch_zero [])"
  define f where "f = guest_register_imports example_host frozen_imports True e"
  define d where "d = snd (guest_image_load 0x98000000 0x700000 True f)"
  have "dispatch_reach example_host [] e" unfolding e_def by (rule start) simp_all
  then have "dispatch_reach example_host [] f"
    unfolding f_def by (rule import_table) (simp add: frozen_imports import_ids_ascending)
  then have r: "dispatch_reach example_host [] d" unfolding d_def by (rule load) simp
  have "g_image_base e = 0" "g_image_size e = 0"
    by (simp_all add: e_def guest_register_def rebuild_inputs dispatch_zero_def)
  moreover have i: "frozen_imports \<noteq> []" "slot_rva (frozen_imports ! 60) = 0x006060F8"
    "guest_host_import_id_direct_binding example_host True 60 = Some (Family_indexed ISAAC_VITA_IMPORT_SYNC, 6)"
    using sync_rows(1) frozen_imports(1) frozen_imports(2) [of 60] sync_binding(1) [of example_host]
    by (auto simp: sync_constants)
  ultimately have f: "g_image_base f = 0" "g_image_size f = 0" "g_imports f = frozen_imports"
    "sync_import_fastpath_ready f" "g_guest_import_direct f 60 =
       \<lparr>slot_va = 0x986060F8, direct_fn = Some (Family_indexed ISAAC_VITA_IMPORT_SYNC), direct_local_index = 6\<rparr>"
    by (simp_all add: f_def guest_register_imports_def rebuild_inputs guest_import_direct_rebuild_def example_host_def
        frozen_imports(1) guest_import_dense_register_def guest_dispatch_cache_invalidate_def
        guest_gl_dynamic_first_refresh_def Let_def GUEST_IMPORT_DIRECT_CAPACITY_def split: option.split)
  let ?f = "guest_gl_dynamic_first_refresh (f\<lparr>g_image_base := 0x98000000, g_image_size := 0x700000\<rparr>)"
  have "tag_imports ?f"
    by (rule frozen_tags) (simp_all add: guest_gl_dynamic_first_refresh_def Let_def f)
  then have "d = guest_dispatch_table_rebuild ?f" by (simp add: d_def guest_image_load_def f Let_def)
  then have d: "g_image_base d = GUEST_IMAGE_BASE example_host" "g_image_size d = 0x700000"
    "g_imports d = frozen_imports" "sync_import_fastpath_ready d" "g_guest_import_direct d 60 =
       \<lparr>slot_va = 0x986060F8, direct_fn = Some (Family_indexed ISAAC_VITA_IMPORT_SYNC), direct_local_index = 6\<rparr>"
    by (simp_all add: rebuild_inputs example_host_def guest_gl_dynamic_first_refresh_def Let_def f)
  have "slot_rva (frozen_imports ! i) < 0x700000" if "i < 413" for i
    using frozen_bound [OF that] that by (simp add: frozen_imports(2) word_le_nat_alt word_less_nat_alt)
  then have a: "0x01000000 \<le> GUEST_IMAGE_BASE example_host"
    "list_all (\<lambda>i. slot_rva i < g_image_size d) (g_imports d)"
    by (simp_all add: d example_host_def list_all_length frozen_imports(1))
  have "guest_try_direct_sync_import_call example_host d 0x986060F8 0x006060F8 =
       Some (Imported 60 (Some (Family_indexed ISAAC_VITA_IMPORT_SYNC, 6)))"
    by (simp add: guest_try_direct_sync_import_call_def sync_constants d i frozen_imports(1) sync_route_def example_host_def)
  with r direct_routes_agree [OF r d(1) a, of 60] d(5) show ?thesis by (auto simp: example_host_def)
qed

end
