(* ===== verification/Guest_Setjmp.thy ===== *)
theory Guest_Setjmp
  imports Guest_Stack "HOL-Library.Sublist"
begin

text \<open>
  The bridge between the guest's \<open>_setjmp3\<close> and \<open>longjmp\<close> and native control flow (\<open>guest.c\<close>),
  and the thread information block behind \<open>fs\<close>.  The generated owner of a \<open>_setjmp3\<close> call keeps one
  \<open>guest_jump_site\<close> record in its native frame; the live records form a list through
  \<open>previous\<close>, headed by \<open>jump_sites\<close> of the context.
\<close>

section \<open>The thread information block\<close>

record tib_globals = stack_globals +
  g_tib :: "u32 option"
  g_tls_block :: u32
  g_tls_index :: u32
  g_fs_touches :: u32

text \<open>What the host answers: the result of \<open>calloc\<close> (zero for \<open>NULL\<close>) and the two identities.\<close>

record tib_host =
  tib_calloc :: u32
  process_id :: u32
  thread_id :: u32

definition GUEST_TLS_SLOTS :: u32 where "GUEST_TLS_SLOTS = 64"

definition tib_create :: "tib_host \<Rightarrow> mem \<Rightarrow> mem" where
  "tib_create h m =
     (let self = tib_calloc h;
          m = st_bytes m self (replicate 4096 0);
          m = st32 m self 0xFFFFFFFF;
          m = st32 m (self + 0x18) self;
          m = st32 m (self + 0x20) (process_id h);
          m = st32 m (self + 0x24) (thread_id h)
      in st32 m (self + 0x2C) (self + 0x100))"

definition tib_refresh :: "tib_globals \<Rightarrow> u32 \<Rightarrow> mem \<Rightarrow> mem" where
  "tib_refresh g tib m =
     (let m = st32 m (tib + 0x04) (g_stack_top g);
          m = st32 m (tib + 0x08) (g_stack_base g) in
      if g_tls_block g \<noteq> 0 \<and> g_tls_index g < GUEST_TLS_SLOTS
      then st32 m (ld32 m (tib + 0x2C) + g_tls_index g * 4) (g_tls_block g) else m)"

text \<open>The result 0 is the failed allocation.\<close>

definition guest_fs_base :: "tib_host \<Rightarrow> machine \<Rightarrow> tib_globals \<Rightarrow> u32 \<times> machine \<times> tib_globals" where
  "guest_fs_base h s g =
     (let g = g\<lparr>g_fs_touches := g_fs_touches g + 1\<rparr> in
      if g_tib g = None \<and> tib_calloc h = 0 then (0, s, g)
      else
        let m = if g_tib g = None then tib_create h (mem s) else mem s;
            tib = (case g_tib g of None \<Rightarrow> tib_calloc h | Some tib \<Rightarrow> tib)
        in (tib, s\<lparr>mem := tib_refresh g tib m\<rparr>, g\<lparr>g_tib := Some tib, g_guest_fs_base_cached := tib\<rparr>))"

section \<open>Setting a jump\<close>

definition GUEST_JB_EBP :: u32 where "GUEST_JB_EBP = 0x00"
definition GUEST_JB_EBX :: u32 where "GUEST_JB_EBX = 0x04"
definition GUEST_JB_EDI :: u32 where "GUEST_JB_EDI = 0x08"
definition GUEST_JB_ESI :: u32 where "GUEST_JB_ESI = 0x0C"
definition GUEST_JB_ESP :: u32 where "GUEST_JB_ESP = 0x10"
definition GUEST_JB_EIP :: u32 where "GUEST_JB_EIP = 0x14"
definition GUEST_JB_REGISTRATION :: u32 where "GUEST_JB_REGISTRATION = 0x18"
definition GUEST_JB_TRYLEVEL :: u32 where "GUEST_JB_TRYLEVEL = 0x1C"
definition GUEST_JB_COOKIE :: u32 where "GUEST_JB_COOKIE = 0x20"
definition GUEST_JB_UNWINDFUNC :: u32 where "GUEST_JB_UNWINDFUNC = 0x24"
definition GUEST_JB_COOKIE_VALUE :: u32 where "GUEST_JB_COOKIE_VALUE = 0x56433230"

lemmas jump_buffer_offsets = GUEST_JB_EBP_def GUEST_JB_EBX_def GUEST_JB_EDI_def GUEST_JB_ESI_def
  GUEST_JB_ESP_def GUEST_JB_EIP_def GUEST_JB_REGISTRATION_def GUEST_JB_TRYLEVEL_def
  GUEST_JB_COOKIE_def GUEST_JB_UNWINDFUNC_def

text \<open>The arguments and the return address on the guest stack.\<close>

definition setjmp_arguments :: "machine \<Rightarrow> (u32 \<times> u32 \<times> u32) outcome" where
  "setjmp_arguments s =
     and_then (guest_stack_address s (esp (cpu s) + 4) 4 0) (\<lambda>a s.
     let guest_env = ld32 (mem s) a in
     and_then (guest_stack_address s (esp (cpu s) + 8) 4 0) (\<lambda>a s.
     let count = ld32 (mem s) a in
     and_then (guest_stack_address s (esp (cpu s)) 4 0) (\<lambda>a s.
     Returned (guest_env, count, ld32 (mem s) a) s)))"

definition jump_buffer_fill :: "mem \<Rightarrow> CPU \<Rightarrow> u32 \<Rightarrow> u32 \<Rightarrow> u32 \<Rightarrow> u32 \<Rightarrow> mem" where
  "jump_buffer_fill m c guest_env guest_eip registration try_level =
     foldl (\<lambda>m (offset, v). st32 m (guest_env + offset) v) m
       [(GUEST_JB_EBP, ebp c), (GUEST_JB_EBX, ebx c), (GUEST_JB_EDI, edi c), (GUEST_JB_ESI, esi c),
        (GUEST_JB_ESP, esp c), (GUEST_JB_EIP, guest_eip), (GUEST_JB_REGISTRATION, registration),
        (GUEST_JB_TRYLEVEL, try_level), (GUEST_JB_COOKIE, GUEST_JB_COOKIE_VALUE), (GUEST_JB_UNWINDFUNC, 0)]"

text \<open>A site is identified by a number, as its address in the native frame.\<close>

definition setjmp_publish :: "machine \<Rightarrow> nat \<Rightarrow> u32 \<Rightarrow> u32 \<Rightarrow> u32 \<Rightarrow> machine" where
  "setjmp_publish s site guest_env guest_eip registration =
     (let new = (sites s site)\<lparr>site_env := guest_env, site_esp := esp (cpu s), site_eip := guest_eip,
                   site_registration := registration\<rparr> in
      if jump_sites (cpu s) \<noteq> Some site
      then s\<lparr>sites := (sites s)(site := new\<lparr>previous := jump_sites (cpu s)\<rparr>),
             cpu := (cpu s)\<lparr>jump_sites := Some site\<rparr>\<rparr>
      else s\<lparr>sites := (sites s)(site := new)\<rparr>)"

definition guest_setjmp_prepare ::
    "tib_host \<Rightarrow> machine \<Rightarrow> nat \<Rightarrow> tib_globals \<Rightarrow> unit outcome \<times> tib_globals" where
  "guest_setjmp_prepare h s site g =
     (case setjmp_arguments s of
        Unwound s \<Rightarrow> (Unwound s, g)
      | Aborted s \<Rightarrow> (Aborted s, g)
      | Returned (guest_env, count, guest_eip) s \<Rightarrow>
          if guest_env = 0 then (guest_fault s 0 ''_setjmp3 received a null jump buffer'', g)
          else if count \<noteq> 0 then (guest_fault s count ''_setjmp3 unwind arguments are unsupported'', g)
          else case guest_fs_base h s g of
            (fs, s, g) \<Rightarrow>
              if fs = 0 then (guest_fault s 0 ''_setjmp3 could not obtain the guest TIB'', g)
              else
                let registration = ld32 (mem s) fs;
                    try_level = if registration = 0xFFFFFFFF then 0xFFFFFFFF
                                else ld32 (mem s) (registration + 0x0C);
                    s = s\<lparr>mem := jump_buffer_fill (mem s) (cpu s) guest_env guest_eip registration try_level\<rparr>
                in (Returned () (setjmp_publish s site guest_env guest_eip registration), g))"

definition guest_setjmp_finish :: "machine \<Rightarrow> nat \<Rightarrow> bool \<Rightarrow> unit outcome" where
  "guest_setjmp_finish s site resumed =
     (if jump_sites (cpu s) \<noteq> Some site then guest_fault s 0 ''_setjmp3 native site is not active''
      else if resumed then
        and_then (guest_stack_adjust s 4 (site_eip (sites s site))) (\<lambda>_ s.
        Returned () (upd_cpu (\<lambda>c. c\<lparr>eax := jump_value c, jump_value := 0\<rparr>) s))
      else
        and_then (gpop_at s (site_eip (sites s site))) (\<lambda>guest_eip s.
        if guest_eip \<noteq> site_eip (sites s site)
        then guest_fault s guest_eip ''_setjmp3 guest return address changed''
        else Returned () (upd_cpu (\<lambda>c. c\<lparr>eax := 0\<rparr>) s)))"

text \<open>The walk over the list behind the head; it does not end when the records form a cycle.\<close>

partial_function (option) site_linked :: "(nat \<Rightarrow> guest_jump_site) \<Rightarrow> nat \<Rightarrow> nat option \<Rightarrow> bool option" where
  "site_linked records site p =
     (case p of None \<Rightarrow> Some False
      | Some i \<Rightarrow> if i = site then Some True else site_linked records site (previous (records i)))"

definition guest_setjmp_leave :: "machine \<Rightarrow> nat \<Rightarrow> unit outcome option" where
  "guest_setjmp_leave s site =
     (if jump_sites (cpu s) = Some site
      then Some (Returned () (upd_cpu (\<lambda>c. c\<lparr>jump_sites := previous (sites s site)\<rparr>) s))
      else Option.bind (site_linked (sites s) site (jump_sites (cpu s))) (\<lambda>linked.
        Some (if linked then guest_fault s (site_eip (sites s site)) ''_setjmp3 owner left out of order''
              else Returned () s)))"

section \<open>Jumping\<close>

partial_function (option) find_site :: "(nat \<Rightarrow> guest_jump_site) \<Rightarrow> u32 \<Rightarrow> nat option \<Rightarrow> nat option option" where
  "find_site records guest_env p =
     (case p of None \<Rightarrow> Some None
      | Some i \<Rightarrow> if site_env (records i) = guest_env then Some (Some i)
                  else find_site records guest_env (previous (records i)))"

definition jump_buffer_corrupt :: "mem \<Rightarrow> u32 \<Rightarrow> guest_jump_site \<Rightarrow> bool" where
  "jump_buffer_corrupt m guest_env site \<longleftrightarrow>
     ld32 m (guest_env + GUEST_JB_ESP) \<noteq> site_esp site \<or>
     ld32 m (guest_env + GUEST_JB_EIP) \<noteq> site_eip site \<or>
     ld32 m (guest_env + GUEST_JB_REGISTRATION) \<noteq> site_registration site \<or>
     ld32 m (guest_env + GUEST_JB_COOKIE) \<noteq> GUEST_JB_COOKIE_VALUE \<or>
     ld32 m (guest_env + GUEST_JB_UNWINDFUNC) \<noteq> 0"

text \<open>
  \<open>Returned i\<close> is the native \<open>longjmp\<close> to the frame that owns the site \<open>i\<close>; \<open>None\<close> is a
  search that does not end.  The \<open>abort()\<close> behind each \<open>guest_fault\<close> is not reached.
\<close>

definition guest_longjmp ::
    "tib_host \<Rightarrow> machine \<Rightarrow> u32 \<Rightarrow> u32 \<Rightarrow> tib_globals \<Rightarrow> (nat outcome \<times> tib_globals) option" where
  "guest_longjmp h s guest_env v g =
     Option.bind (find_site (sites s) guest_env (jump_sites (cpu s))) (\<lambda>found. Some
       (case found of
          None \<Rightarrow> (guest_fault s guest_env ''longjmp has no active guest setjmp'', g)
        | Some i \<Rightarrow>
            let site = sites s i in
            if jump_buffer_corrupt (mem s) guest_env site
            then (guest_fault s guest_env ''longjmp received a corrupt guest jump buffer'', g)
            else case guest_fs_base h s g of
              (fs, s, g) \<Rightarrow>
                let registration = if fs \<noteq> 0 then ld32 (mem s) fs else 0 in
                if fs = 0 \<or> registration \<noteq> site_registration site
                then (guest_fault s registration ''longjmp guest SEH unwind is unsupported'', g)
                else
                  let m = mem s;
                      s = upd_cpu (\<lambda>c. c\<lparr>ebp := ld32 m (guest_env + GUEST_JB_EBP),
                            ebx := ld32 m (guest_env + GUEST_JB_EBX), edi := ld32 m (guest_env + GUEST_JB_EDI),
                            esi := ld32 m (guest_env + GUEST_JB_ESI)\<rparr>) s
                  in (and_then (guest_stack_set s (site_esp site) (site_eip site)) (\<lambda>_ s.
                      Returned i (upd_cpu (\<lambda>c. c\<lparr>jump_value := if v \<noteq> 0 then v else 1,
                                               jump_sites := Some i\<rparr>) s)), g)))"

section \<open>The list of live sites\<close>

primrec site_chain :: "(nat \<Rightarrow> guest_jump_site) \<Rightarrow> nat option \<Rightarrow> nat list \<Rightarrow> bool" where
  "site_chain records p [] \<longleftrightarrow> p = None"
| "site_chain records p (i # is) \<longleftrightarrow> p = Some i \<and> site_chain records (previous (records i)) is"

lemma site_chain_cong:
  "(\<And>i. i \<in> set is \<Longrightarrow> previous (r i) = previous (r' i)) \<Longrightarrow> site_chain r p is = site_chain r' p is"
  by (induction "is" arbitrary: p) auto

lemma site_linked_chain: "site_chain r p is \<Longrightarrow> site_linked r j p = Some (j \<in> set is)"
  by (induction "is" arbitrary: p) (simp_all add: site_linked.simps)

lemma find_site_chain:
  "site_chain r p is \<Longrightarrow> find_site r e p = Some (List.find (\<lambda>i. site_env (r i) = e) is)"
  by (induction "is" arbitrary: p) (simp_all add: find_site.simps)

lemma site_chain_append:
  "site_chain r p (xs @ i # ys) \<Longrightarrow> site_chain r (Some i) (i # ys)"
  by (induction xs arbitrary: p) auto

section \<open>Executions\<close>

text \<open>
  The generated owners live on the native stack, innermost first; each has one record, declared
  zero.  An owner calls prepare and finish, leaves, or some callee of the innermost owner jumps:
  the frames above the target disappear and the target's second finish runs.  All other guest
  code may do anything but touch the records.
\<close>

record jump_state =
  owners :: "nat list"
  jmach :: machine
  jglob :: tib_globals

definition site_zero :: guest_jump_site where
  "site_zero = \<lparr>previous = None, site_env = 0, site_esp = 0, site_eip = 0, site_registration = 0\<rparr>"

inductive jump_step :: "tib_host \<Rightarrow> jump_state \<Rightarrow> jump_state \<Rightarrow> bool" for h where
  step_enter: "i \<notin> set (owners c) \<Longrightarrow> jump_step h c
     (c\<lparr>owners := i # owners c, jmach := (jmach c)\<lparr>sites := (sites (jmach c))(i := site_zero)\<rparr>\<rparr>)"
| step_setjmp: "owners c = i # is \<Longrightarrow> guest_setjmp_prepare h (jmach c) i (jglob c) = (Returned () s, g) \<Longrightarrow>
     guest_setjmp_finish s i False = Returned () t \<Longrightarrow> jump_step h c (c\<lparr>jmach := t, jglob := g\<rparr>)"
| step_leave: "owners c = i # is \<Longrightarrow> guest_setjmp_leave (jmach c) i = Some (Returned () t) \<Longrightarrow>
     jump_step h c (c\<lparr>owners := is, jmach := t\<rparr>)"
| step_longjmp: "guest_longjmp h (jmach c) guest_env v (jglob c) = Some (Returned i s, g) \<Longrightarrow>
     guest_setjmp_finish s i True = Returned () t \<Longrightarrow>
     jump_step h c (c\<lparr>owners := dropWhile (\<lambda>j. j \<noteq> i) (owners c), jmach := t, jglob := g\<rparr>)"
| step_guest: "sites t = sites (jmach c) \<Longrightarrow> jump_sites (cpu t) = jump_sites (cpu (jmach c)) \<Longrightarrow>
     jump_step h c (c\<lparr>jmach := t, jglob := g\<rparr>)"

inductive jump_reach :: "tib_host \<Rightarrow> jump_state \<Rightarrow> bool" for h where
  reach_start: "jump_sites (cpu (jmach c)) = None \<Longrightarrow> owners c = [] \<Longrightarrow> jump_reach h c"
| reach_step: "jump_reach h c \<Longrightarrow> jump_step h c d \<Longrightarrow> jump_reach h d"

definition sites_live :: "jump_state \<Rightarrow> nat list \<Rightarrow> bool" where
  "sites_live c live \<longleftrightarrow> site_chain (sites (jmach c)) (jump_sites (cpu (jmach c))) live \<and>
     subseq live (owners c) \<and> distinct (owners c)"

lemma fs_base_frame:
  "guest_fs_base h s g = (fs, t, g') \<Longrightarrow> cpu t = cpu s \<and> sites t = sites s"
  by (auto simp: guest_fs_base_def Let_def split: if_splits option.splits)

lemma address_frame:
  "guest_stack_address s a n pc = Returned v t \<Longrightarrow>
     v = a \<and> (\<exists>l. t = s\<lparr>cpu := (cpu s)\<lparr>stack_low_water := l\<rparr>\<rparr>)"
proof -
  have "guest_stack_note_low (cpu s) a =
      (cpu s)\<lparr>stack_low_water := if a < stack_low_water (cpu s) then a else stack_low_water (cpu s)\<rparr>"
    by (simp add: guest_stack_note_low_def)
  then have "\<exists>l. guest_stack_note_low (cpu s) a = (cpu s)\<lparr>stack_low_water := l\<rparr>" ..
  then show "guest_stack_address s a n pc = Returned v t \<Longrightarrow> ?thesis"
    by (auto simp: guest_stack_address_def Let_def split: if_splits)
qed

lemma setjmp_arguments_returned:
  assumes "setjmp_arguments s = Returned r t"
  shows "r = (ld32 (mem s) (esp (cpu s) + 4), ld32 (mem s) (esp (cpu s) + 8), ld32 (mem s) (esp (cpu s)))"
    "\<exists>l. t = s\<lparr>cpu := (cpu s)\<lparr>stack_low_water := l\<rparr>\<rparr>"
  using assms by (auto simp: setjmp_arguments_def and_then_Returned_iff Let_def dest!: address_frame)

lemma prepare_returned:
  assumes "guest_setjmp_prepare h s i g = (Returned () t, g')"
  obtains l fs u try_level where
    "guest_fs_base h (s\<lparr>cpu := (cpu s)\<lparr>stack_low_water := l\<rparr>\<rparr>) g = (fs, u, g')" "fs \<noteq> 0"
    "ld32 (mem s) (esp (cpu s) + 4) \<noteq> 0"
    "t = setjmp_publish (u\<lparr>mem := jump_buffer_fill (mem u) (cpu u) (ld32 (mem s) (esp (cpu s) + 4))
        (ld32 (mem s) (esp (cpu s))) (ld32 (mem u) fs) try_level\<rparr>) i
      (ld32 (mem s) (esp (cpu s) + 4)) (ld32 (mem s) (esp (cpu s))) (ld32 (mem u) fs)"
proof (cases "setjmp_arguments s")
  case (Returned r u)
  then show ?thesis using assms setjmp_arguments_returned [OF Returned] that
    by (auto simp: guest_setjmp_prepare_def Let_def split: prod.splits if_splits)
qed (use assms in \<open>simp_all add: guest_setjmp_prepare_def\<close>)

lemma prepare_sites:
  assumes "guest_setjmp_prepare h s i g = (Returned () t, g')"
  shows "jump_sites (cpu t) = Some i" "j \<noteq> i \<Longrightarrow> sites t j = sites s j"
    "previous (sites t i) = (if jump_sites (cpu s) = Some i then previous (sites s i) else jump_sites (cpu s))"
  using assms by (auto elim!: prepare_returned dest!: fs_base_frame simp: setjmp_publish_def Let_def)

lemma finish_frame:
  "guest_setjmp_finish s i r = Returned () t \<Longrightarrow> jump_sites (cpu s) = Some i \<and> sites t = sites s \<and>
     jump_sites (cpu t) = jump_sites (cpu s)"
  by (auto simp: guest_setjmp_finish_def and_then_Returned_iff guest_stack_adjust_def gpop_at_def Let_def
      split: if_splits)

lemma set_frame: "guest_stack_set s v pc = Returned u t \<Longrightarrow> sites t = sites s"
  by (auto simp: guest_stack_set_def Let_def split: if_splits)

lemma longjmp_returned:
  assumes "guest_longjmp h s e v g = Some (Returned i t, g')"
  obtains fs u w where "find_site (sites s) e (jump_sites (cpu s)) = Some (Some i)"
    "\<not> jump_buffer_corrupt (mem s) e (sites s i)"
    "guest_fs_base h s g = (fs, u, g')" "fs \<noteq> 0" "ld32 (mem u) fs = site_registration (sites s i)"
    "guest_stack_set (upd_cpu (\<lambda>c. c\<lparr>ebp := ld32 (mem u) (e + GUEST_JB_EBP), ebx := ld32 (mem u) (e + GUEST_JB_EBX),
       edi := ld32 (mem u) (e + GUEST_JB_EDI), esi := ld32 (mem u) (e + GUEST_JB_ESI)\<rparr>) u)
       (site_esp (sites s i)) (site_eip (sites s i)) = Returned () w"
    "t = upd_cpu (\<lambda>c. c\<lparr>jump_value := if v \<noteq> 0 then v else 1, jump_sites := Some i\<rparr>) w"
proof (cases "find_site (sites s) e (jump_sites (cpu s))")
  case (Some found)
  then show ?thesis
  proof (cases found)
    case (Some j)
    obtain fs u w where "guest_fs_base h s g = (fs, u, w)" by (cases "guest_fs_base h s g")
    then show ?thesis using that assms \<open>find_site _ _ _ = Some found\<close> Some
      by (auto simp: guest_longjmp_def Let_def and_then_Returned_iff split: if_splits)
  qed (use assms in \<open>simp add: guest_longjmp_def guest_fault_def Let_def split: if_splits\<close>)
qed (use assms in \<open>simp add: guest_longjmp_def\<close>)

lemma longjmp_sites:
  assumes "guest_longjmp h s e v g = Some (Returned i t, g')"
  shows "find_site (sites s) e (jump_sites (cpu s)) = Some (Some i)" "sites t = sites s"
    "jump_sites (cpu t) = Some i"
  using assms by (auto elim!: longjmp_returned dest!: set_frame fs_base_frame)

section \<open>Records stay in live frames\<close>

lemma subseq_set: "subseq xs ys \<Longrightarrow> set xs \<subseteq> set ys"
  by (induction rule: list_emb.induct) auto

lemma drop_subseq:
  "subseq (ys @ j # zs) fs \<Longrightarrow> distinct fs \<Longrightarrow> subseq (j # zs) (dropWhile (\<lambda>k. k \<noteq> j) fs)"
proof (induction fs arbitrary: ys)
  case (Cons f fs)
  show ?case
  proof (cases "f = j")
    case True
    then have "j \<notin> set fs" using Cons.prems(2) by simp
    then have "ys = []" using Cons.prems(1) True
      by (cases ys) (auto split: if_splits dest!: subseq_set)
    then show ?thesis using Cons.prems True by simp
  next
    case False
    then have "\<exists>ys. subseq (ys @ j # zs) fs"
      using Cons.prems by (cases ys) (auto split: if_splits intro: exI [of _ "[]"] exI [of _ "_ # _"])
    then show ?thesis using False Cons by auto
  qed
qed simp

lemma chain_top:
  assumes "site_chain r p live" "subseq live (i # is)" "distinct (i # is)"
  shows "if p = Some i then \<exists>rest. live = i # rest \<and> subseq rest is \<and> site_chain r (previous (r i)) rest
    else i \<notin> set live \<and> subseq live is"
  using assms subseq_set [of live "is"] by (cases live) (auto split: if_splits)

lemma sites_live_step:
  assumes "jump_step h c d" "sites_live c live"
  shows "\<exists>live. sites_live d live"
  using assms
proof (induction rule: jump_step.induct)
  case (step_enter i c)
  then have "i \<notin> set live" by (auto simp: sites_live_def dest: subseq_set)
  then have "site_chain ((sites (jmach c))(i := site_zero)) p live = site_chain (sites (jmach c)) p live" for p
    by (intro site_chain_cong) auto
  then have "sites_live (c\<lparr>owners := i # owners c, jmach := (jmach c)\<lparr>sites := (sites (jmach c))(i := site_zero)\<rparr>\<rparr>) live"
    using step_enter by (simp add: sites_live_def list_emb_Cons)
  then show ?case by blast
next
  case (step_setjmp c i "is" s g t)
  note p = prepare_sites [OF step_setjmp(2)]
  have t: "sites t = sites s" "jump_sites (cpu t) = Some i" using finish_frame [OF step_setjmp(3)] p(1) by simp_all
  have top: "if jump_sites (cpu (jmach c)) = Some i
    then \<exists>rest. live = i # rest \<and> subseq rest is \<and> site_chain (sites (jmach c)) (previous (sites (jmach c) i)) rest
    else i \<notin> set live \<and> subseq live is"
    using step_setjmp(1,4) by (intro chain_top) (simp_all add: sites_live_def)
  have other: "site_chain (sites t) q xs = site_chain (sites (jmach c)) q xs" if "i \<notin> set xs" for q xs
    using that p(2) t(1) by (intro site_chain_cong) (metis (no_types))
  show ?case
  proof (cases "jump_sites (cpu (jmach c)) = Some i")
    case True
    then obtain rest where r: "live = i # rest" "subseq rest is" 
      "site_chain (sites (jmach c)) (previous (sites (jmach c) i)) rest" using top by auto
    moreover have "i \<notin> set rest" using r(2) step_setjmp(1,4) by (auto simp: sites_live_def dest: subseq_set)
    ultimately have "sites_live (c\<lparr>jmach := t, jglob := g\<rparr>) (i # rest)"
      using True step_setjmp(1,4) t p(3) other [of rest] by (simp add: sites_live_def)
    then show ?thesis by blast
  next
    case False
    then have "sites_live (c\<lparr>jmach := t, jglob := g\<rparr>) (i # live)"
      using top step_setjmp(1,4) t p(3) other [of live] by (simp add: sites_live_def)
    then show ?thesis by blast
  qed
next
  case (step_leave c i "is" t)
  have top: "if jump_sites (cpu (jmach c)) = Some i
    then \<exists>rest. live = i # rest \<and> subseq rest is \<and> site_chain (sites (jmach c)) (previous (sites (jmach c) i)) rest
    else i \<notin> set live \<and> subseq live is"
    using step_leave(1,3) by (intro chain_top) (simp_all add: sites_live_def)
  then show ?case using step_leave
    by (cases "jump_sites (cpu (jmach c)) = Some i")
      (auto simp: sites_live_def guest_setjmp_leave_def site_linked_chain split: if_splits)
next
  case (step_longjmp c guest_env v i s g t)
  note l = longjmp_sites [OF step_longjmp(1)]
  have "List.find (\<lambda>i. site_env (sites (jmach c) i) = guest_env) live = Some i"
    using l(1) step_longjmp(3) find_site_chain [of "sites (jmach c)" _ live guest_env]
    by (auto simp: sites_live_def)
  then obtain ys zs where live: "live = ys @ i # zs"
    by (metis find_Some_iff in_set_conv_nth split_list)
  then have "sites_live (c\<lparr>owners := dropWhile (\<lambda>j. j \<noteq> i) (owners c), jmach := t, jglob := g\<rparr>) (i # zs)"
    using step_longjmp(3) l(2,3) finish_frame [OF step_longjmp(2)] drop_subseq [of ys i zs "owners c"]
      site_chain_append [of _ _ ys i zs] by (auto simp: sites_live_def)
  then show ?case by blast
next
  case (step_guest t c g)
  then show ?case by (auto simp: sites_live_def)
qed

lemma sites_live_reach: "jump_reach h c \<Longrightarrow> \<exists>live. sites_live c live"
proof (induction rule: jump_reach.induct)
  case (reach_start c)
  then have "sites_live c []" by (simp add: sites_live_def)
  then show ?case ..
qed (blast dest: sites_live_step)

text \<open>
  C30: in every execution the records linked from the context belong to live owners, innermost
  first and each once.  So both walks over the list end; the innermost owner can always leave,
  and is then no longer linked; and a native jump always lands in a live frame.  After a prepare
  the site is the head, so the \<open>not active\<close> fault of the finish behind it does not occur.
\<close>

theorem jump_sites_live:
  assumes "jump_reach h c"
  shows "\<exists>live. site_chain (sites (jmach c)) (jump_sites (cpu (jmach c))) live \<and>
    subseq live (owners c) \<and> distinct (owners c) \<and>
    (\<forall>i is. owners c = i # is \<longrightarrow> (\<exists>t. guest_setjmp_leave (jmach c) i = Some (Returned () t) \<and>
       site_chain (sites t) (jump_sites (cpu t)) (remove1 i live) \<and> i \<notin> set (remove1 i live))) \<and>
    (\<forall>i s g. guest_setjmp_prepare h (jmach c) i (jglob c) = (Returned () s, g) \<longrightarrow> jump_sites (cpu s) = Some i) \<and>
    (\<forall>e v. \<exists>r g. guest_longjmp h (jmach c) e v (jglob c) = Some (r, g) \<and>
       (\<forall>i t. r = Returned i t \<longrightarrow> i \<in> set (owners c)))"
proof -
  obtain live where l: "sites_live c live" using sites_live_reach [OF assms] ..
  have leave: "\<exists>t. guest_setjmp_leave (jmach c) i = Some (Returned () t) \<and>
      site_chain (sites t) (jump_sites (cpu t)) (remove1 i live) \<and> i \<notin> set (remove1 i live)" if "owners c = i # is" for i "is"
  proof -
    have "if jump_sites (cpu (jmach c)) = Some i
      then \<exists>rest. live = i # rest \<and> subseq rest is \<and> site_chain (sites (jmach c)) (previous (sites (jmach c) i)) rest
      else i \<notin> set live \<and> subseq live is"
      using l that by (intro chain_top) (simp_all add: sites_live_def)
    moreover have "i \<notin> set is" using l that by (simp add: sites_live_def)
    ultimately show ?thesis using l subseq_set
      by (cases "jump_sites (cpu (jmach c)) = Some i")
        (fastforce simp: sites_live_def guest_setjmp_leave_def site_linked_chain remove1_idem)+
  qed
  have jump: "\<exists>r g. guest_longjmp h (jmach c) e v (jglob c) = Some (r, g) \<and>
      (\<forall>i t. r = Returned i t \<longrightarrow> i \<in> set (owners c))" for e v
  proof -
    have f: "find_site (sites (jmach c)) e (jump_sites (cpu (jmach c))) =
        Some (List.find (\<lambda>i. site_env (sites (jmach c) i) = e) live)"
      using l by (simp add: sites_live_def find_site_chain)
    then have "guest_longjmp h (jmach c) e v (jglob c) \<noteq> None" by (simp add: guest_longjmp_def)
    then obtain r g where "guest_longjmp h (jmach c) e v (jglob c) = Some (r, g)"
      by (cases "guest_longjmp h (jmach c) e v (jglob c)") auto
    moreover have "i \<in> set (owners c)" if "guest_longjmp h (jmach c) e v (jglob c) = Some (Returned i t, g)" for i t g
      using longjmp_sites(1) [OF that] f l subseq_set by (fastforce simp: sites_live_def find_Some_iff)
    ultimately show ?thesis by blast
  qed
  show ?thesis using l leave jump prepare_sites(1) unfolding sites_live_def by blast
qed

section \<open>Returning a second time\<close>

lemma jump_buffer_read:
  assumes "(offset, v) \<in> set [(GUEST_JB_EBP, ebp c), (GUEST_JB_EBX, ebx c), (GUEST_JB_EDI, edi c),
      (GUEST_JB_ESI, esi c), (GUEST_JB_ESP, esp c), (GUEST_JB_EIP, eip),
      (GUEST_JB_REGISTRATION, registration), (GUEST_JB_TRYLEVEL, try_level),
      (GUEST_JB_COOKIE, GUEST_JB_COOKIE_VALUE), (GUEST_JB_UNWINDFUNC, 0)]" (is "_ \<in> set ?cells")
  shows "ld32 (jump_buffer_fill m c env eip registration try_level) (env + offset) = v"
proof -
  have "foldl (\<lambda>m (offset, v). st32 m (env + offset) v) m xs =
      cell32.st_table m (map (\<lambda>(offset, v). (env + offset, v)) xs)" for xs
    by (induction xs arbitrary: m) auto
  then have "jump_buffer_fill m c env eip registration try_level =
      cell32.st_table m (map (\<lambda>(offset, v). (env + offset, v)) ?cells)" by (simp only: jump_buffer_fill_def)
  moreover have "ld32 (cell32.st_table m (map (\<lambda>(offset, v). (env + offset, v)) ?cells)) (env + offset) = v"
  proof (rule cell32.ld_st_table)
    show "(env + offset, v) \<in> set (map (\<lambda>(offset, v). (env + offset, v)) ?cells)" using assms by force
    show "distinct (map fst (map (\<lambda>(offset, v). (env + offset, v)) ?cells))"
      by (simp add: jump_buffer_offsets)
  next
    fix b c' assume "b \<in> fst ` set (map (\<lambda>(offset, v). (env + offset, v)) ?cells)"
      "c' \<in> fst ` set (map (\<lambda>(offset, v). (env + offset, v)) ?cells)" "b \<noteq> c'"
    then show "apart b 4 c' 4" by (auto simp: jump_buffer_offsets apart_def)
  qed
  ultimately show ?thesis by simp
qed

lemma jump_buffer_cong:
  assumes "\<And>x. unat (x - env) < 40 \<Longrightarrow> m x = m' x" "unat offset \<le> 36"
  shows "ld32 m (env + offset) = ld32 m' (env + offset)"
  by (rule ld32_cong) (use offset_inside [of _ env offset 4] assms in force)

text \<open>A completed first return: what the buffer and the record hold, and where the stack is.\<close>

lemma setjmp_done:
  assumes "guest_setjmp_prepare h s i g = (Returned () u, g')" "guest_setjmp_finish u i False = Returned () t"
    "stack_ok (cpu s)"
  defines "env \<equiv> ld32 (mem s) (esp (cpu s) + 4)"
  obtains m reg try_level where
    "mem t = jump_buffer_fill m (cpu s) env (site_eip (sites t i)) reg try_level"
    "site_env (sites t i) = env" "site_esp (sites t i) = esp (cpu s)"
    "site_registration (sites t i) = reg" "esp (cpu t) = esp (cpu s) + 4"
    "unat (esp (cpu s)) + 4 \<le> unat (stack_ceiling (cpu s))"
    "same_stack (cpu s) ((cpu t)\<lparr>stack_low_water := stack_low_water (cpu s)\<rparr>)"
    "ebp (cpu t) = ebp (cpu s)" "ebx (cpu t) = ebx (cpu s)" "edi (cpu t) = edi (cpu s)" "esi (cpu t) = esi (cpu s)"
proof -
  obtain l fs v try_level where p: 
    "guest_fs_base h (s\<lparr>cpu := (cpu s)\<lparr>stack_low_water := l\<rparr>\<rparr>) g = (fs, v, g')"
    "u = setjmp_publish (v\<lparr>mem := jump_buffer_fill (mem v) (cpu v) env
        (ld32 (mem s) (esp (cpu s))) (ld32 (mem v) fs) try_level\<rparr>) i
      env (ld32 (mem s) (esp (cpu s))) (ld32 (mem v) fs)"
    using assms(1) unfolding env_def by (rule prepare_returned)
  have v: "cpu v = (cpu s)\<lparr>stack_low_water := l\<rparr>" using fs_base_frame [OF p(1)] by simp
  have u: "mem u = jump_buffer_fill (mem v) (cpu s) env (site_eip (sites u i)) (ld32 (mem v) fs) try_level"
    "site_env (sites u i) = env" "site_esp (sites u i) = esp (cpu s)" "site_registration (sites u i) = ld32 (mem v) fs"
    "cpu u = (cpu s)\<lparr>stack_low_water := l, jump_sites := Some i\<rparr>"
    unfolding p(2) by (simp_all add: setjmp_publish_def Let_def v jump_buffer_fill_def)
  have "stack_floor (cpu u) < stack_ceiling (cpu u)" using stack_ok_less [OF assms(3)] u(5) by simp
  then have t: "t = upd_cpu (\<lambda>c. c\<lparr>esp := esp c + 4, eax := 0\<rparr>) u"
    "unat (esp (cpu u)) + 4 \<le> unat (stack_ceiling (cpu u))"
    using assms(2) u(5) by (auto simp: guest_setjmp_finish_def and_then_Returned_iff gpop_at_returned split: if_splits)
  show ?thesis
    by (rule that [of "mem v" "ld32 (mem v) fs" try_level]) (use t u in \<open>simp_all add: same_stack_def\<close>)
qed

text \<open>
  C31: a jump to a buffer set up by a live owner resumes that owner as its first return left it.
  The innermost record with that buffer is taken; if the buffer's forty bytes and the exception
  list are as they were, control goes to the owner, whose second finish leaves the four saved
  registers and the stack pointer of the first return, the value of the call (one for zero) in
  \<open>eax\<close>, the owner's record as the head of the list, and memory otherwise untouched.
\<close>

theorem longjmp_restores:
  assumes set: "guest_setjmp_prepare h s i g = (Returned () u, g1)" "guest_setjmp_finish u i False = Returned () r"
    and env: "env = ld32 (mem s) (esp (cpu s) + 4)"
    and live: "site_chain (sites t) (jump_sites (cpu t)) (inner @ i # outer)"
      "\<forall>j\<in>set inner. site_env (sites t j) \<noteq> env" "sites t i = sites r i"
    and stack: "stack_ok (cpu s)" "stack_ok (cpu t)" "same_stack (cpu s) (cpu t)"
    and buffer: "\<forall>x. unat (x - env) < 40 \<longrightarrow> mem t x = mem r x"
    and tib: "guest_fs_base h t g2 = (fs, w, g3)" "fs \<noteq> 0" "\<forall>x. unat (x - env) < 40 \<longrightarrow> mem w x = mem t x"
      "ld32 (mem w) fs = site_registration (sites r i)"
  shows "\<exists>y z. guest_longjmp h t env v g2 = Some (Returned i y, g3) \<and> guest_setjmp_finish y i True = Returned () z \<and>
    ebp (cpu z) = ebp (cpu r) \<and> ebx (cpu z) = ebx (cpu r) \<and> edi (cpu z) = edi (cpu r) \<and> esi (cpu z) = esi (cpu r) \<and>
    esp (cpu z) = esp (cpu r) \<and> eax (cpu z) = (if v = 0 then 1 else v) \<and> jump_sites (cpu z) = Some i \<and>
    mem z = mem w \<and> sites z = sites t"
proof -
  obtain m reg try_level where d:
    "mem r = jump_buffer_fill m (cpu s) env (site_eip (sites r i)) reg try_level"
    "site_env (sites r i) = env" "site_esp (sites r i) = esp (cpu s)"
    "site_registration (sites r i) = reg" "esp (cpu r) = esp (cpu s) + 4"
    "unat (esp (cpu s)) + 4 \<le> unat (stack_ceiling (cpu s))"
    "ebp (cpu r) = ebp (cpu s)" "ebx (cpu r) = ebx (cpu s)" "edi (cpu r) = edi (cpu s)" "esi (cpu r) = esi (cpu s)"
    using setjmp_done [OF set stack(1)] env by metis
  have "List.find (\<lambda>j. site_env (sites t j) = env) (inner @ i # outer) = Some i"
    using live(2,3) d(2) by (induction inner) auto
  then have find: "find_site (sites t) env (jump_sites (cpu t)) = Some (Some i)"
    using find_site_chain [OF live(1)] by simp
  have rd: "ld32 (mem t) (env + offset) = ld32 (mem r) (env + offset)"
    "ld32 (mem w) (env + offset) = ld32 (mem r) (env + offset)" if "unat offset \<le> 36" for offset
    using that buffer tib(3) by (auto intro!: jump_buffer_cong)
  have sound: "\<not> jump_buffer_corrupt (mem t) env (sites t i)"
    using d(1,3,4) live(3) jump_buffer_read [of _ _ "cpu s" "site_eip (sites r i)" reg try_level m env] rd(1)
    by (simp add: jump_buffer_corrupt_def jump_buffer_offsets)
  have regs: "ld32 (mem w) (env + GUEST_JB_EBP) = ebp (cpu s)" "ld32 (mem w) (env + GUEST_JB_EBX) = ebx (cpu s)"
    "ld32 (mem w) (env + GUEST_JB_EDI) = edi (cpu s)" "ld32 (mem w) (env + GUEST_JB_ESI) = esi (cpu s)"
    using d(1) jump_buffer_read [of _ _ "cpu s" "site_eip (sites r i)" reg try_level m env] rd(2)
      rd(2) [of 0] jump_buffer_read [of 0 "ebp (cpu s)" "cpu s" "site_eip (sites r i)" reg try_level m env]
    by (simp_all add: jump_buffer_offsets)
  have w: "cpu w = cpu t" "sites w = sites t" using fs_base_frame [OF tib(1)] by simp_all
  define c where "c = (cpu t)\<lparr>ebp := ebp (cpu s), ebx := ebx (cpu s), edi := edi (cpu s), esi := esi (cpu s)\<rparr>"
  define y where "y = w\<lparr>cpu := (guest_stack_note_low (c\<lparr>esp := esp (cpu s)\<rparr>) (esp (cpu s)))
    \<lparr>jump_value := if v \<noteq> 0 then v else 1, jump_sites := Some i\<rparr>\<rparr>"
  have bounds: "stack_floor (cpu t) = stack_floor (cpu s)" "stack_ceiling (cpu t) = stack_ceiling (cpu s)"
    "stack_floor (cpu s) \<le> esp (cpu s)" "esp (cpu s) \<le> stack_ceiling (cpu s)"
    "stack_floor (cpu t) < stack_ceiling (cpu t)" "guest_stack_fast_bound (cpu t)"
    using stack stack_ok_floor stack_ok_ceiling stack_ok_less stack_ok_fast by (auto simp: same_stack_def)
  have fast: "guest_stack_fast_bound (c\<lparr>esp := e\<rparr>)" "guest_stack_fast_bound c" for e
    using bounds(6) by (simp_all add: c_def guest_stack_fast_bound_def)
  have jump: "guest_longjmp h t env v g2 = Some (Returned i y, g3)"
    using find sound tib(1,2,4) live(3) d(3,4) regs w bounds set_test [of "cpu s" "esp (cpu s)"]
    by (simp add: guest_longjmp_def Let_def guest_stack_set_def y_def c_def
        guest_stack_fast_bound_def guest_stack_note_low_def)
  have "guest_setjmp_finish y i True =
      Returned () (upd_cpu (\<lambda>c. c\<lparr>esp := esp (cpu s) + 4, eax := if v = 0 then 1 else v, jump_value := 0\<rparr>) y)"
    using adjust_test [of "stack_floor (cpu s)" "esp (cpu s)" "stack_ceiling (cpu s)" 4] bounds d(6) fast
    by (auto simp: guest_setjmp_finish_def guest_stack_adjust_def Let_def y_def c_def guest_stack_fast_bound_def
        guest_stack_note_low_def)
  then show ?thesis using jump d(5,7-10) w by (auto simp: y_def c_def guest_stack_note_low_def)
qed

section \<open>Examples\<close>

text \<open>A call \<open>_setjmp3(0x3000, 0)\<close> with the return address \<open>0x401000\<close>, and a block at \<open>0x5000\<close>.\<close>

definition example_setjmp :: machine where
  "example_setjmp = example_machine\<lparr>
     cpu := (cpu example_machine)\<lparr>esp := 0x1010, stack_low_water := 0x1010, ebx := 9\<rparr>,
     mem := (\<lambda>_. 0)(0x1011 := 0x10, 0x1012 := 0x40, 0x1015 := 0x30,
       0x5000 := 0xFF, 0x5001 := 0xFF, 0x5002 := 0xFF, 0x5003 := 0xFF)\<rparr>"

definition example_tib :: tib_globals where
  "example_tib = \<lparr>g_stack_mem = None, g_stack_owner = None, g_stack_base = 0x1000, g_stack_top = 0x1020,
     g_guest_fs_base_cached = 0, g_tib = Some 0x5000, g_tls_block = 0, g_tls_index = 0, g_fs_touches = 0\<rparr>"

definition example_tib_host :: tib_host where
  "example_tib_host = \<lparr>tib_calloc = 0, process_id = 1, thread_id = 2\<rparr>"

definition example_filled :: mem where
  "example_filled = jump_buffer_fill (tib_refresh example_tib 0x5000 (mem example_setjmp)) (cpu example_setjmp)
     0x3000 0x401000 0xFFFFFFFF 0xFFFFFFFF"

definition example_returned :: machine where
  "example_returned = example_setjmp\<lparr>mem := example_filled,
     cpu := (cpu example_setjmp)\<lparr>jump_sites := Some 0, esp := 0x1014, eax := 0\<rparr>,
     sites := (sites example_setjmp)(0 := \<lparr>previous = None, site_env = 0x3000, site_esp = 0x1010,
       site_eip = 0x401000, site_registration = 0xFFFFFFFF\<rparr>)\<rparr>"

lemma example_setjmp_sel [simp]:
  "esp (cpu example_setjmp) = 0x1010" "stack_floor (cpu example_setjmp) = 0x1000"
  "stack_ceiling (cpu example_setjmp) = 0x1020" "stack_low_water (cpu example_setjmp) = 0x1010"
  "stack_owner (cpu example_setjmp) = Some (cpu_id (cpu example_setjmp))" "jump_sites (cpu example_setjmp) = None"
  "ebx (cpu example_setjmp) = 9"
  "sites example_setjmp 0 = site_zero" "ld32 (mem example_setjmp) 0x1010 = 0x401000"
  "ld32 (mem example_setjmp) 0x1014 = 0x3000" "ld32 (mem example_setjmp) 0x1018 = 0"
  by (simp_all add: example_setjmp_def example_machine_def guest_stack_bind_def guest_cpu_init_def site_zero_def
      ld32_def ld_bytes_4)

lemma example_fs_base:
  "guest_fs_base example_tib_host example_setjmp example_tib =
     (0x5000, example_setjmp\<lparr>mem := tib_refresh example_tib 0x5000 (mem example_setjmp)\<rparr>,
      example_tib\<lparr>g_fs_touches := 1, g_guest_fs_base_cached := 0x5000\<rparr>)"
  by (simp add: guest_fs_base_def example_tib_def tib_refresh_def)

lemma example_arguments: "setjmp_arguments example_setjmp = Returned (0x3000, 0, 0x401000) example_setjmp"
proof -
  have "guest_stack_address example_setjmp a 4 0 = Returned a example_setjmp" if "a \<in> {0x1010, 0x1014, 0x1018}" for a
    using that by (auto simp: guest_stack_address_def guest_stack_fast_bound_def guest_stack_note_low_def)
  then show ?thesis by (simp add: setjmp_arguments_def)
qed

lemma example_registration: "ld32 (tib_refresh example_tib 0x5000 (mem example_setjmp)) 0x5000 = 0xFFFFFFFF"
proof -
  have "ld32 (mem example_setjmp) 0x5000 = 0xFFFFFFFF"
    by (simp add: example_setjmp_def ld32_def ld_bytes_4)
  then show ?thesis by (simp add: tib_refresh_def example_tib_def cell32.ld_st_apart apart_def)
qed

lemma example_prepare:
  "guest_setjmp_prepare example_tib_host example_setjmp 0 example_tib =
     (Returned () (example_returned\<lparr>cpu := (cpu example_setjmp)\<lparr>jump_sites := Some 0\<rparr>\<rparr>),
      example_tib\<lparr>g_fs_touches := 1, g_guest_fs_base_cached := 0x5000\<rparr>)"
  by (simp add: guest_setjmp_prepare_def example_arguments example_fs_base Let_def example_registration
      setjmp_publish_def example_returned_def example_filled_def site_zero_def)

lemma example_finish:
  "guest_setjmp_finish (example_returned\<lparr>cpu := (cpu example_setjmp)\<lparr>jump_sites := Some 0\<rparr>\<rparr>) 0 False =
     Returned () example_returned"
proof -
  have "ld32 example_filled 0x1010 = ld32 (mem example_setjmp) 0x1010"
    by (simp add: example_filled_def jump_buffer_fill_def jump_buffer_offsets tib_refresh_def example_tib_def
        cell32.ld_st_apart apart_def)
  then show ?thesis
    by (simp add: guest_setjmp_finish_def gpop_at_def Let_def guest_stack_fast_bound_def example_returned_def)
qed

lemma example_again:
  "guest_fs_base example_tib_host example_returned example_tib =
     (0x5000, example_returned\<lparr>mem := tib_refresh example_tib 0x5000 example_filled\<rparr>,
      example_tib\<lparr>g_fs_touches := 1, g_guest_fs_base_cached := 0x5000\<rparr>)"
  by (simp add: guest_fs_base_def example_tib_def tib_refresh_def example_returned_def)

lemma example_refresh_outside:
  assumes "unat (x - 0x3000) < 40"
  shows "tib_refresh example_tib 0x5000 m x = m x"
proof -
  have "x - 0x5004 = (x - 0x3000) - 0x2004" "x - 0x5008 = (x - 0x3000) - 0x2008" by simp_all
  then have "4 \<le> unat (x - 0x5004)" "4 \<le> unat (x - 0x5008)"
    using assms unat_sub_if_size [of "x - 0x3000" "0x2004"] unat_sub_if_size [of "x - 0x3000" "0x2008"]
    by (simp_all only:) (simp_all add: word_size)
  then show ?thesis by (simp add: tib_refresh_def example_tib_def st32_outside)
qed

lemma example_head: "ld32 (tib_refresh example_tib 0x5000 example_filled) 0x5000 = 0xFFFFFFFF"
  using example_registration by (simp add: example_filled_def jump_buffer_fill_def jump_buffer_offsets
      tib_refresh_def example_tib_def cell32.ld_st_apart apart_def)

theorem jump_sites_live_witness:
  "\<exists>c. jump_reach example_tib_host c \<and> owners c = [0] \<and> jmach c = example_returned \<and>
     (\<exists>t. guest_setjmp_leave (jmach c) 0 = Some (Returned () t) \<and> jump_sites (cpu t) = None)"
proof -
  let ?a = "\<lparr>owners = [], jmach = example_setjmp, jglob = example_tib\<rparr>"
  have "example_setjmp = example_setjmp\<lparr>sites := (sites example_setjmp)(0 := site_zero)\<rparr>"
    using example_setjmp_sel(8) by (metis fun_upd_triv machine.surjective machine.update_convs(3))
  then have "jump_step example_tib_host ?a (?a\<lparr>owners := [0]\<rparr>)"
    using step_enter [of 0 ?a] by simp
  moreover have "jump_step example_tib_host (?a\<lparr>owners := [0]\<rparr>)
      (?a\<lparr>owners := [0], jmach := example_returned,
        jglob := example_tib\<lparr>g_fs_touches := 1, g_guest_fs_base_cached := 0x5000\<rparr>\<rparr>)"
    using step_setjmp [where c = "?a\<lparr>owners := [0]\<rparr>", OF _ _ example_finish] example_prepare by simp
  ultimately have reach: "jump_reach example_tib_host (?a\<lparr>owners := [0], jmach := example_returned,
        jglob := example_tib\<lparr>g_fs_touches := 1, g_guest_fs_base_cached := 0x5000\<rparr>\<rparr>)" (is "jump_reach _ ?c")
    using reach_start [of ?a] by (auto intro: reach_step)
  obtain live t where t: "subseq live [0]" "guest_setjmp_leave example_returned 0 = Some (Returned () t)"
      "site_chain (sites t) (jump_sites (cpu t)) (remove1 0 live)" "0 \<notin> set (remove1 0 live)"
    using jump_sites_live [OF reach] by auto
  then have "jump_sites (cpu t) = None"
    using subseq_set [OF t(1)] by (cases live) (auto split: if_splits dest!: list_emb_Nil2)
  then have "jump_reach example_tib_host ?c \<and> owners ?c = [0] \<and> jmach ?c = example_returned \<and>
     (\<exists>t. guest_setjmp_leave (jmach ?c) 0 = Some (Returned () t) \<and> jump_sites (cpu t) = None)"
    using reach t(2) by simp
  then show ?thesis ..
qed

theorem longjmp_restores_witness:
  "\<exists>y z g. guest_longjmp example_tib_host example_returned 0x3000 0 example_tib = Some (Returned 0 y, g) \<and>
     guest_setjmp_finish y 0 True = Returned () z \<and> eax (cpu z) = 1 \<and> ebx (cpu z) = 9 \<and> esp (cpu z) = 0x1014"
proof -
  have r: "cpu example_returned = (cpu example_setjmp)\<lparr>jump_sites := Some 0, esp := 0x1014, eax := 0\<rparr>"
    "sites example_returned 0 = \<lparr>previous = None, site_env = 0x3000, site_esp = 0x1010,
       site_eip = 0x401000, site_registration = 0xFFFFFFFF\<rparr>" by (simp_all add: example_returned_def)
  have ok: "stack_ok (cpu example_setjmp)" "stack_ok (cpu example_returned)"
    "same_stack (cpu example_setjmp) (cpu example_returned)"
    by (simp_all add: r stack_ok_def guest_stack_is_bound_def same_stack_def)
  show ?thesis
    using longjmp_restores [OF example_prepare example_finish, where env = "0x3000" and t = example_returned and
        inner = "[]" and outer = "[]", OF _ _ _ _ ok _ example_again, where v = 0] r example_head example_refresh_outside
    by (auto simp: example_returned_def)
qed

end
