(* ===== verification/Save_Checksum.thy ===== *)
theory Save_Checksum
  imports Guest_Stack
begin

text \<open>
  The save checksum: \<open>runtime/host_vita_save_checksum_native.c\<close>, which updates the sixteen-byte
  state of the guest in place, and the shim of \<open>runtime/host_vita_save_checksum_guest.c\<close> that
  decides whether a guest call may run it.  Pointers are guest addresses, buffers are guest memory.
\<close>

unbundle bit_operations_syntax

section \<open>The native routine\<close>

definition checksum_load_u32le :: "mem \<Rightarrow> u32 \<Rightarrow> u32" where
  "checksum_load_u32le m bytes =
     ucast (m bytes) OR push_bit 8 (ucast (m (bytes + 1))) OR push_bit 16 (ucast (m (bytes + 2))) OR
     push_bit 24 (ucast (m (bytes + 3)))"

definition checksum_store_u32le :: "mem \<Rightarrow> u32 \<Rightarrow> u32 \<Rightarrow> mem" where
  "checksum_store_u32le m bytes v =
     m(bytes := ucast v, bytes + 1 := ucast (drop_bit 8 v), bytes + 2 := ucast (drop_bit 16 v),
       bytes + 3 := ucast (drop_bit 24 v))"

definition checksum_arithmetic_shift_right_one :: "u32 \<Rightarrow> u32" where
  "checksum_arithmetic_shift_right_one v = drop_bit 1 v OR (v AND 0x80000000)"

definition checksum_table_word :: "u32 \<Rightarrow> u32" where
  "checksum_table_word index =
     (let polynomial = 0xEDB88320;
          v = drop_bit 1 index XOR ((0 - (index AND 1)) AND polynomial)
      in ((\<lambda>v. checksum_arithmetic_shift_right_one v XOR ((0 - (v AND 1)) AND polynomial)) ^^ 7) v)"

definition checksum_prepare_table :: "mem \<Rightarrow> u32 \<Rightarrow> mem" where
  "checksum_prepare_table m table =
     (if checksum_load_u32le m (table + 4) \<noteq> 0 then m
      else foldl (\<lambda>m index. checksum_store_u32le m (table + of_nat index * 4) (checksum_table_word (of_nat index)))
             m [0..<256])"

text \<open>One byte of the word mode.\<close>

definition checksum_word_byte :: "u32 \<Rightarrow> mem \<Rightarrow> u8 \<Rightarrow> mem" where
  "checksum_word_byte state m b =
     (let fill = m (state + 4);
          m = m(state + ucast fill := b);
          fill = fill + 1;
          m = m(state + 4 := fill) in
      if fill \<ge> 4 then
        let v = checksum_load_u32le m (state + 8);
            v = drop_bit 1 v + push_bit 31 v;
            v = v + checksum_load_u32le m state
        in checksum_store_u32le (m(state + 4 := 0)) (state + 8) v
      else m)"

definition checksum_feed_word_mode :: "mem \<Rightarrow> u32 \<Rightarrow> u32 \<Rightarrow> nat \<Rightarrow> mem" where
  "checksum_feed_word_mode m state data len =
     foldl (\<lambda>m index. checksum_word_byte state m (m (data + of_nat index))) m [0..<len]"

definition checksum_feed_crc_mode :: "mem \<Rightarrow> u32 \<Rightarrow> u32 \<Rightarrow> nat \<Rightarrow> u32 \<Rightarrow> mem" where
  "checksum_feed_crc_mode m state data len table =
     (let m = checksum_prepare_table m table;
          v = NOT (checksum_load_u32le m (state + 8));
          m = checksum_store_u32le m (state + 8) v in
      case foldl (\<lambda>(m, v) index.
          let table_index = (ucast (m (data + of_nat index)) XOR (v AND 0xFF)) AND 0xFF;
              v = drop_bit 8 v XOR checksum_load_u32le m (table + table_index * 4)
          in (checksum_store_u32le m (state + 8) v, v)) (m, v) [0..<len] of
        (m, v) \<Rightarrow> checksum_store_u32le m (state + 8) (NOT v))"

definition isaac_vita_save_checksum_native_feed :: "mem \<Rightarrow> u32 \<Rightarrow> u32 \<Rightarrow> nat \<Rightarrow> u32 \<Rightarrow> mem" where
  "isaac_vita_save_checksum_native_feed m state data len table =
     (if checksum_load_u32le m (state + 12) = 0 then checksum_feed_word_mode m state data len
      else checksum_feed_crc_mode m state data len table)"

section \<open>The guest shim\<close>

definition ISAAC_SAVE_CHECKSUM_TABLE_RVA :: u32 where "ISAAC_SAVE_CHECKSUM_TABLE_RVA = 0x008034F0"
definition ISAAC_SAVE_CHECKSUM_STACK_BYTES :: u32 where "ISAAC_SAVE_CHECKSUM_STACK_BYTES = 12"
definition ISAAC_SAVE_CHECKSUM_FRAME_BYTES :: u32 where "ISAAC_SAVE_CHECKSUM_FRAME_BYTES = 16"
definition ISAAC_SAVE_CHECKSUM_STACK_TOUCH_BYTES :: u32 where
  "ISAAC_SAVE_CHECKSUM_STACK_TOUCH_BYTES = ISAAC_SAVE_CHECKSUM_FRAME_BYTES + ISAAC_SAVE_CHECKSUM_STACK_BYTES"
definition ISAAC_VITA_SAVE_CHECKSUM_STATE_BYTES :: u32 where "ISAAC_VITA_SAVE_CHECKSUM_STATE_BYTES = 16"
definition ISAAC_VITA_SAVE_CHECKSUM_TABLE_BYTES :: u32 where "ISAAC_VITA_SAVE_CHECKSUM_TABLE_BYTES = 1024"

definition checksum_range_nonwrapping :: "u32 \<Rightarrow> u32 \<Rightarrow> bool" where
  "checksum_range_nonwrapping address len \<longleftrightarrow>
     len = 0 \<or> (address \<noteq> 0 \<and> address \<le> 0xFFFFFFFF - (len - 1))"

definition checksum_ranges_overlap :: "u32 \<Rightarrow> u32 \<Rightarrow> u32 \<Rightarrow> u32 \<Rightarrow> bool" where
  "checksum_ranges_overlap first first_size second second_size \<longleftrightarrow>
     (let first_end = ucast first + ucast first_size :: u64;
          second_end = ucast second + ucast second_size :: u64 in
      first_size \<noteq> 0 \<and> second_size \<noteq> 0 \<and> ucast first < second_end \<and> ucast second < first_end)"

text \<open>
  \<open>base\<close> is the image base of the build.  False is the result 0, nothing done.  The native sites
  recorded by a rejection of the last two stack operations are immaterial.
\<close>

definition isaac_vita_save_checksum_guest_try :: "u32 \<Rightarrow> machine \<Rightarrow> bool outcome" where
  "isaac_vita_save_checksum_guest_try base s =
     (let c = cpu s in
      if esp c < ISAAC_SAVE_CHECKSUM_FRAME_BYTES \<or>
         \<not> guest_stack_contains c (esp c) ISAAC_SAVE_CHECKSUM_STACK_BYTES \<or>
         \<not> guest_stack_contains c (esp c - ISAAC_SAVE_CHECKSUM_FRAME_BYTES) ISAAC_SAVE_CHECKSUM_FRAME_BYTES
      then Returned False s
      else
        let stack_touch_address = esp c - ISAAC_SAVE_CHECKSUM_FRAME_BYTES;
            state_address = ecx c;
            data_address = ld32 (mem s) (esp c + 4);
            len = ld32 (mem s) (esp c + 8);
            table_address = base + ISAAC_SAVE_CHECKSUM_TABLE_RVA in
        if \<not> checksum_range_nonwrapping state_address ISAAC_VITA_SAVE_CHECKSUM_STATE_BYTES \<or>
           \<not> checksum_range_nonwrapping data_address len
        then Returned False s
        else if \<not> checksum_range_nonwrapping table_address ISAAC_VITA_SAVE_CHECKSUM_TABLE_BYTES \<or>
           checksum_ranges_overlap stack_touch_address ISAAC_SAVE_CHECKSUM_STACK_TOUCH_BYTES
             state_address ISAAC_VITA_SAVE_CHECKSUM_STATE_BYTES \<or>
           checksum_ranges_overlap stack_touch_address ISAAC_SAVE_CHECKSUM_STACK_TOUCH_BYTES
             data_address len \<or>
           checksum_ranges_overlap stack_touch_address ISAAC_SAVE_CHECKSUM_STACK_TOUCH_BYTES
             table_address ISAAC_VITA_SAVE_CHECKSUM_TABLE_BYTES \<or>
           checksum_ranges_overlap state_address ISAAC_VITA_SAVE_CHECKSUM_STATE_BYTES data_address len \<or>
           checksum_ranges_overlap state_address ISAAC_VITA_SAVE_CHECKSUM_STATE_BYTES
             table_address ISAAC_VITA_SAVE_CHECKSUM_TABLE_BYTES \<or>
           checksum_ranges_overlap data_address len table_address ISAAC_VITA_SAVE_CHECKSUM_TABLE_BYTES
        then Returned False s
        else
          let mode = checksum_load_u32le (mem s) (state_address + 12) in
          if mode > 1 \<or> (mode = 0 \<and> len \<noteq> 0 \<and> mem s (state_address + 4) > 3)
          then Returned False s
          else
            let m = st32 (mem s) (esp c - 4) (ebp c);
                m = st32 m (esp c - 8) (ebx c);
                m = st32 m (esp c - 12) (esi c);
                m = st32 m (esp c - 16) (edi c);
                s = s\<lparr>cpu := guest_stack_note_low c stack_touch_address,
                      mem := isaac_vita_save_checksum_native_feed m state_address data_address
                        (unat len) table_address\<rparr>
            in and_then (gpop_generated s 0) (\<lambda>_ s.
                 and_then (guest_stack_adjust_generated s 8 0) (\<lambda>_ s. Returned True s)))"

section \<open>The reference\<close>

text \<open>
  Word mode: the stream is cut into little-endian words, each added to the rotated checksum; the
  last one to three bytes wait.  CRC mode: the complement of the table recurrence over the bytes.
\<close>

fun checksum_words :: "u8 list \<Rightarrow> u32 \<Rightarrow> u32 \<times> u8 list" where
  "checksum_words (a # b # c # d # s) v = checksum_words s (word_rotr 1 v + le_of_bytes [a, b, c, d])"
| "checksum_words s v = (v, s)"

definition checksum_crc :: "u32 \<Rightarrow> u8 list \<Rightarrow> u32" where
  "checksum_crc v d =
     NOT (foldl (\<lambda>v b. drop_bit 8 v XOR checksum_table_word (ucast (b XOR ucast v))) (NOT v) d)"

text \<open>A checksum object holding \<open>v\<close> with the bytes \<open>p\<close> waiting.\<close>

definition word_state :: "mem \<Rightarrow> u32 \<Rightarrow> u8 list \<Rightarrow> u32 \<Rightarrow> bool" where
  "word_state m state p v \<longleftrightarrow> length p < 4 \<and> m (state + 4) = of_nat (length p) \<and>
     ld_bytes m state (length p) = p \<and> ld32 m (state + 8) = v"

definition table_ready :: "mem \<Rightarrow> u32 \<Rightarrow> bool" where
  "table_ready m table \<longleftrightarrow> (\<forall>i<256. ld32 m (table + of_nat i * 4) = checksum_table_word (of_nat i))"

section \<open>Word mode\<close>

lemma checksum_load_ld32: "checksum_load_u32le m a = ld32 m a"
  by (simp add: checksum_load_u32le_def ld32_def ld_bytes_4 push_bit_or or.assoc)

lemma checksum_store_st32: "checksum_store_u32le m a v = st32 m a v"
  by (simp add: checksum_store_u32le_def st32_def le_to_bytes_4 add.commute)

lemma rotate_one: "drop_bit 1 v + push_bit 31 v = word_rotr 1 (v :: u32)"
proof -
  have "drop_bit 1 v + push_bit 31 v = drop_bit 1 v OR push_bit 31 v"
    by (rule disjunctive_add) (auto simp: bit_drop_bit_eq bit_push_bit_iff dest: bit_imp_le_length)
  also have "\<dots> = word_rotr 1 v"
  proof (rule bit_word_eqI)
    fix n assume "n < LENGTH(32)"
    then show "bit (drop_bit 1 v OR push_bit 31 v) n = bit (word_rotr 1 v) n"
      by (cases "n = 31")
        (auto simp: bit_or_iff bit_drop_bit_eq bit_push_bit_iff bit_word_rotr_iff dest: bit_imp_le_length)
  qed
  finally show ?thesis .
qed

lemma checksum_words_snoc:
  "checksum_words (s @ [b]) v = (case checksum_words s v of (w, p) \<Rightarrow>
     if length p = 3 then (word_rotr 1 w + le_of_bytes (p @ [b]), []) else (w, p @ [b]))"
  by (induction s v rule: checksum_words.induct) auto

lemma checksum_words_short: "length p < 4 \<Longrightarrow> checksum_words p v = (v, p)"
  by (cases "(p, v)" rule: checksum_words.cases) auto

lemma word_byte_outside:
  assumes "m (state + 4) < 4" "12 \<le> unat (x - state)"
  shows "checksum_word_byte state m b x = m x"
proof -
  have ne: "x \<noteq> state + k" if "unat k < 12" for k using that assms(2) by auto
  have "unat (ucast (m (state + 4)) :: u32) < 12" using assms(1)
    by (simp add: unat_ucast_up word_less_nat_alt)
  then have "x \<noteq> state + ucast (m (state + 4))" by (rule ne)
  moreover have "x \<noteq> state + 4" by (rule ne) simp
  moreover have "st32 n (state + 8) v x = n x" for n v
  proof (rule st32_outside)
    have "unat (x - state - 8) = unat (x - state) - 8"
      using assms(2) unat_sub [of 8 "x - state"] by (simp add: word_le_nat_alt)
    then show "4 \<le> unat (x - (state + 8))" using assms(2) by (simp add: algebra_simps)
  qed
  ultimately show ?thesis by (simp add: checksum_word_byte_def Let_def checksum_store_st32)
qed

lemma word_byte_fill:
  assumes "m (state + 4) = k" "k < 3"
  shows "checksum_word_byte state m b = m(state + ucast k := b, state + 4 := k + 1)"
proof -
  have "unat k = 0 \<or> unat k = 1 \<or> unat k = 2" using assms(2) by (auto simp: word_less_nat_alt)
  then have "k = 0 \<or> k = 1 \<or> k = 2" by (simp add: word_unat_eq_iff)
  then show ?thesis using assms(1) by (auto simp: checksum_word_byte_def Let_def word_le_nat_alt)
qed

lemma word_byte_full:
  assumes "m (state + 4) = 3"
  shows "checksum_word_byte state m b = st32 (m(state + 3 := b, state + 4 := 0)) (state + 8)
    (word_rotr 1 (ld32 m (state + 8)) + le_of_bytes [m state, m (state + 1), m (state + 2), b])"
proof -
  let ?n = "m(state + 3 := b, state + 4 := 4)"
  have "ld32 ?n (state + 8) = ld32 m (state + 8)" "ld32 ?n state =
      le_of_bytes [m state, m (state + 1), m (state + 2), b]"
    by (simp_all add: ld32_def ld_bytes_4)
  then show ?thesis using assms
    by (simp add: checksum_word_byte_def Let_def checksum_load_ld32 checksum_store_st32 rotate_one [unfolded One_nat_def])
qed

lemma word_byte_step:
  assumes "word_state m state p v"
  shows "word_state (checksum_word_byte state m b) state
    (if length p = 3 then [] else p @ [b])
    (if length p = 3 then word_rotr 1 v + le_of_bytes (p @ [b]) else v)"
proof -
  have p: "length p < 4" "m (state + 4) = of_nat (length p)" "ld_bytes m state (length p) = p"
    "ld32 m (state + 8) = v" using assms by (simp_all add: word_state_def)
  have [simp]: "(2 :: u8) + 1 = 3" "(1 :: u8) + 1 = 2" by simp_all
  consider "p = []" | a where "p = [a]" | a c where "p = [a, c]" | a c e where "p = [a, c, e]"
    using p(1) by (auto simp: numeral_eq_Suc less_Suc_eq length_Suc_conv)
  then show ?thesis
  proof cases
    case 1
    then show ?thesis using p word_byte_fill [of m state 0]
      by (simp add: word_state_def ld32_def ld_bytes_4)
  next
    case 2
    then show ?thesis using p word_byte_fill [of m state 1]
      by (simp add: word_state_def ld32_def ld_bytes_4)
  next
    case 3
    then show ?thesis using p word_byte_fill [of m state 2]
      by (simp add: word_state_def ld32_def ld_bytes_4)
  next
    case 4
    have "st32 n (state + 8) w (state + 4) = n (state + 4)" for n w
      by (rule st32_outside) simp
    then show ?thesis using 4 p word_byte_full [of m state b]
      by (simp add: word_state_def cell32.ld_st_same add.assoc)
  qed
qed

lemma feed_words:
  assumes "word_state m state p v" "\<And>i. i < n \<Longrightarrow> 12 \<le> unat (data + of_nat i - state)"
  shows "(case checksum_words (p @ ld_bytes m data n) v of (w, q) \<Rightarrow>
      word_state (checksum_feed_word_mode m state data n) state q w) \<and>
    (\<forall>x. 12 \<le> unat (x - state) \<longrightarrow> checksum_feed_word_mode m state data n x = m x)"
  using assms(2)
proof (induction n)
  case 0
  have "length p < 4" using assms(1) by (simp add: word_state_def)
  then show ?case using assms(1) by (simp add: checksum_feed_word_mode_def checksum_words_short)
next
  case (Suc n)
  let ?m = "checksum_feed_word_mode m state data n" and ?a = "data + of_nat n"
  obtain w q where wq: "checksum_words (p @ ld_bytes m data n) v = (w, q)" by (cases "checksum_words (p @ ld_bytes m data n) v")
  then have s: "word_state ?m state q w" and f: "\<And>x. 12 \<le> unat (x - state) \<Longrightarrow> ?m x = m x"
    using Suc by auto
  have b: "?m ?a = m ?a" using f Suc.prems [of n] by simp
  have d: "ld_bytes m data (Suc n) = ld_bytes m data n @ [m ?a]"
    by (rule nth_equalityI) (auto simp: nth_ld_bytes nth_append less_Suc_eq simp del: ld_bytes.simps)
  have step: "checksum_feed_word_mode m state data (Suc n) = checksum_word_byte state ?m (m ?a)"
    using b by (simp add: checksum_feed_word_mode_def)
  have "?m (state + 4) < 4" using s by (auto simp: word_state_def word_less_nat_alt unat_of_nat_small)
  then have "12 \<le> unat (x - state) \<Longrightarrow> checksum_word_byte state ?m (m ?a) x = m x" for x
    using word_byte_outside [of ?m state x] f by simp
  then show ?case unfolding step d append_assoc [symmetric] checksum_words_snoc
    using word_byte_step [OF s, of "m ?a"] wq by (simp split: if_splits)
qed

section \<open>CRC mode\<close>

lemma foldl_st_table:
  "foldl (\<lambda>m i. st32 m (a i) (v i)) m xs = cell32.st_table m (map (\<lambda>i. (a i, v i)) xs)"
  by (induction xs arbitrary: m) simp_all

lemma unat_table_offset: "i < 256 \<Longrightarrow> unat (of_nat i * 4 :: u32) = 4 * i"
proof -
  assume "i < 256"
  moreover have "of_nat i * 4 = (of_nat (4 * i) :: u32)" by simp
  ultimately show ?thesis using unat_of_nat_small [where 'a = 32, of "4 * i"] by (simp only:) simp
qed

lemma table_cells_apart:
  assumes "i < 256" "j < 256" "i \<noteq> j"
  shows "apart (table + of_nat i * 4) 4 (table + of_nat j * 4) 4"
proof -
  have less: "apart (table + of_nat i * 4) 4 (table + of_nat j * 4) 4" if "i < j" "j < 256" for i j
  proof -
    let ?d = "of_nat j * 4 - of_nat i * 4 :: u32"
    have "unat ?d = 4 * j - 4 * i"
      using that unat_table_offset [of i] unat_table_offset [of j] by (subst unat_sub) (simp_all add: word_le_nat_alt)
    moreover have "?d \<noteq> 0" using calculation that by auto
    moreover have "4 \<le> 4 * j - 4 * i" "4 * j - 4 * i \<le> 1020" using that by auto
    ultimately show ?thesis using unat_diff_swap [of "of_nat j * 4 :: u32" "of_nat i * 4"]
      by (simp add: apart_def)
  qed
  show ?thesis using assms less [of i j] less [of j i] by (auto simp: apart_sym not_less_iff_gr_or_eq nat_neq_iff)
qed

lemma prepare_table:
  shows "(table_ready m table \<or> ld32 m (table + 4) = 0 \<longrightarrow> table_ready (checksum_prepare_table m table) table) \<and>
    (\<forall>x. 1024 \<le> unat (x - table) \<longrightarrow> checksum_prepare_table m table x = m x)"
proof (cases "ld32 m (table + 4) = 0")
  case True
  define cells where "cells = map (\<lambda>i. (table + of_nat i * 4, checksum_table_word (of_nat i))) [0..<256]"
  have p: "checksum_prepare_table m table = cell32.st_table m cells"
    using True by (simp add: checksum_prepare_table_def checksum_load_ld32 checksum_store_st32
        foldl_st_table cells_def del: upt_rec_numeral)
  have inj: "i = j" if "table + of_nat i * 4 = table + of_nat j * 4" "i < 256" "j < 256" for i j
  proof -
    have "of_nat i * 4 = (of_nat j * 4 :: u32)" using that(1) by simp
    then have "unat (of_nat i * 4 :: u32) = unat (of_nat j * 4 :: u32)" by (simp only:)
    then show ?thesis using that by (simp add: unat_table_offset)
  qed
  have "ld32 (cell32.st_table m cells) (table + of_nat i * 4) = checksum_table_word (of_nat i)" if "i < 256" for i
  proof (rule cell32.ld_st_table)
    show "(table + of_nat i * 4, checksum_table_word (of_nat i)) \<in> set cells" using that by (auto simp: cells_def)
    show "distinct (map fst cells)"
      using inj by (auto simp: cells_def comp_def distinct_map inj_on_def)
    show "apart b 4 c 4" if "b \<in> fst ` set cells" "c \<in> fst ` set cells" "b \<noteq> c" for b c
      using that by (auto simp: cells_def intro!: table_cells_apart)
  qed
  moreover have "cell32.st_table m (map (\<lambda>i. (table + of_nat i * 4, v i)) xs) x = m x"
    if "1024 \<le> unat (x - table)" "set xs \<subseteq> {0..<256}" for x v xs and m :: mem
    using that(2)
  proof (induction xs arbitrary: m)
    case (Cons i xs)
    have i: "i < 256" using Cons.prems by simp
    have "unat (x - table - of_nat i * 4) = unat (x - table) - 4 * i"
      using i that(1) unat_table_offset [OF i] by (subst unat_sub) (simp_all add: word_le_nat_alt)
    then have "4 \<le> unat (x - (table + of_nat i * 4))" using i that(1) by (simp add: algebra_simps)
    then show ?case using Cons by (simp add: st32_outside)
  qed simp
  ultimately show ?thesis unfolding p table_ready_def cells_def by (simp del: upt_rec_numeral)
next
  case False
  then show ?thesis by (simp add: checksum_prepare_table_def checksum_load_ld32)
qed

lemma crc_index: "(ucast (b :: u8) XOR (v AND 0xFF)) AND 0xFF = (ucast (b XOR ucast v) :: u32)"
proof -
  have m: "(0xFF :: u32) = mask 8" by (simp add: mask_eq_exp_minus_1)
  show ?thesis unfolding m
    by (rule bit_word_eqI)
      (auto simp: bit_and_iff bit_xor_iff bit_ucast_iff bit_mask_iff dest: bit_imp_le_length)
qed

lemma table_lookup:
  assumes "table_ready m table"
  shows "ld32 m (table + ucast (b :: u8) * 4) = checksum_table_word (ucast b)"
proof -
  have "ucast b = (of_nat (unat b) :: u32)" by simp
  moreover have "unat b < 256" using unat_bound [of b] by simp
  ultimately show ?thesis using assms by (metis table_ready_def)
qed

lemma table_ready_cong:
  assumes "\<And>x. unat (x - table) < 1024 \<Longrightarrow> m' x = m x"
  shows "table_ready m' table = table_ready m table"
proof -
  have "ld32 m' (table + of_nat i * 4) = ld32 m (table + of_nat i * 4)" if "i < 256" for i
  proof (rule ld32_cong)
    fix x assume x: "unat (x - (table + of_nat i * 4)) < 4"
    have "unat (of_nat i * 4 + (x - (table + of_nat i * 4))) = 4 * i + unat (x - (table + of_nat i * 4))"
      using that x unat_table_offset [OF that] by (subst unat_plus_small) simp_all
    then have "unat (x - table) < 1024" using that x by (simp add: algebra_simps)
    then show "m' x = m x" by (rule assms)
  qed
  then show ?thesis by (simp add: table_ready_def)
qed

lemma crc_loop:
  assumes "table_ready m table" "\<And>x. unat (x - table) < 1024 \<Longrightarrow> 4 \<le> unat (x - (state + 8))"
    and "\<And>i. i < n \<Longrightarrow> 4 \<le> unat (data + of_nat i - (state + 8))"
  shows "\<exists>m'. foldl (\<lambda>(m, v) index.
          let table_index = (ucast (m (data + of_nat index)) XOR (v AND 0xFF)) AND 0xFF;
              v = drop_bit 8 v XOR checksum_load_u32le m (table + table_index * 4)
          in (checksum_store_u32le m (state + 8) v, v)) (m, v) [0..<n] =
      (m', foldl (\<lambda>v b. drop_bit 8 v XOR checksum_table_word (ucast (b XOR ucast v))) v (ld_bytes m data n)) \<and>
    (\<forall>x. 4 \<le> unat (x - (state + 8)) \<longrightarrow> m' x = m x)"
  using assms(3)
proof (induction n)
  case (Suc n)
  let ?a = "data + of_nat n"
  obtain m' where ih: "foldl (\<lambda>(m, v) index.
          let table_index = (ucast (m (data + of_nat index)) XOR (v AND 0xFF)) AND 0xFF;
              v = drop_bit 8 v XOR checksum_load_u32le m (table + table_index * 4)
          in (checksum_store_u32le m (state + 8) v, v)) (m, v) [0..<n] =
      (m', foldl (\<lambda>v b. drop_bit 8 v XOR checksum_table_word (ucast (b XOR ucast v))) v (ld_bytes m data n))"
    "\<And>x. 4 \<le> unat (x - (state + 8)) \<Longrightarrow> m' x = m x" using Suc by auto
  have "m' ?a = m ?a" using ih(2) Suc.prems [of n] by simp
  moreover have "table_ready m' table"
    using assms(1) table_ready_cong [of table m' m] ih(2) assms(2) by blast
  moreover have "ld_bytes m data (Suc n) = ld_bytes m data n @ [m ?a]"
    by (rule nth_equalityI) (auto simp: nth_ld_bytes nth_append less_Suc_eq simp del: ld_bytes.simps)
  ultimately show ?case
    using ih by (simp add: Let_def crc_index checksum_load_ld32 table_lookup checksum_store_st32 st32_outside
        del: ld_bytes.simps)
qed simp

lemma feed_crc:
  assumes "table_ready m table \<or> ld32 m (table + 4) = 0"
    and "\<And>x. unat (x - table) < 1024 \<Longrightarrow> 4 \<le> unat (x - (state + 8))"
    and "\<And>x. unat (x - (state + 8)) < 4 \<Longrightarrow> 1024 \<le> unat (x - table)"
    and "\<And>i. i < n \<Longrightarrow> 4 \<le> unat (data + of_nat i - (state + 8)) \<and> 1024 \<le> unat (data + of_nat i - table)"
  shows "ld32 (checksum_feed_crc_mode m state data n table) (state + 8) =
      checksum_crc (ld32 m (state + 8)) (ld_bytes m data n) \<and>
    table_ready (checksum_feed_crc_mode m state data n table) table \<and>
    (\<forall>x. 4 \<le> unat (x - (state + 8)) \<and> 1024 \<le> unat (x - table) \<longrightarrow>
      checksum_feed_crc_mode m state data n table x = m x)"
proof -
  let ?p = "checksum_prepare_table m table"
  have p: "table_ready ?p table" "\<And>x. 1024 \<le> unat (x - table) \<Longrightarrow> ?p x = m x"
    using prepare_table [of m table] assms(1) by auto
  have v: "ld32 ?p (state + 8) = ld32 m (state + 8)" using p(2) assms(3) by (intro ld32_cong) auto
  define q where "q = st32 ?p (state + 8) (NOT (ld32 m (state + 8)))"
  have q: "4 \<le> unat (x - (state + 8)) \<Longrightarrow> q x = ?p x" for x by (simp add: q_def st32_outside)
  have tq: "table_ready q table" using p(1) table_ready_cong [of table q ?p] q assms(2) by blast
  have d: "ld_bytes q data n = ld_bytes m data n"
    using q p(2) assms(4) by (intro nth_equalityI) (simp_all add: nth_ld_bytes)
  obtain m' where l: "foldl (\<lambda>(m, v) index.
          let table_index = (ucast (m (data + of_nat index)) XOR (v AND 0xFF)) AND 0xFF;
              v = drop_bit 8 v XOR checksum_load_u32le m (table + table_index * 4)
          in (checksum_store_u32le m (state + 8) v, v)) (q, NOT (ld32 m (state + 8))) [0..<n] =
      (m', foldl (\<lambda>v b. drop_bit 8 v XOR checksum_table_word (ucast (b XOR ucast v)))
        (NOT (ld32 m (state + 8))) (ld_bytes m data n))"
    "\<And>x. 4 \<le> unat (x - (state + 8)) \<Longrightarrow> m' x = q x"
    using crc_loop [OF tq, where state = state and n = n and data = data and v = "NOT (ld32 m (state + 8))"]
      assms(2,4) d by auto
  have e: "checksum_feed_crc_mode m state data n table =
      st32 m' (state + 8) (checksum_crc (ld32 m (state + 8)) (ld_bytes m data n))"
    using l(1) v by (simp add: checksum_feed_crc_mode_def checksum_load_ld32 checksum_store_st32
        q_def Let_def checksum_crc_def)
  have "table_ready (st32 m' (state + 8) w) table" for w
    using tq table_ready_cong [of table "st32 m' (state + 8) w" q] l(2) assms(2) by (auto simp: st32_outside)
  then show ?thesis unfolding e using l(2) q p(2) by (simp add: cell32.ld_st_same st32_outside)
qed

lemma crc_outside:
  assumes "4 \<le> unat (x - (state + 8))" "1024 \<le> unat (x - table)"
  shows "checksum_feed_crc_mode m state data n table x = m x"
proof -
  have "fst (foldl (\<lambda>(m, v) index.
          let table_index = (ucast (m (data + of_nat index)) XOR (v AND 0xFF)) AND 0xFF;
              v = drop_bit 8 v XOR checksum_load_u32le m (table + table_index * 4)
          in (checksum_store_u32le m (state + 8) v, v)) (m, v) [0..<n]) x = m x" for m v
    using assms(1) by (induction n)
      (auto simp: Let_def checksum_store_st32 st32_outside split: prod.splits)
  then have l: "case foldl (\<lambda>(m, v) index.
          let table_index = (ucast (m (data + of_nat index)) XOR (v AND 0xFF)) AND 0xFF;
              v = drop_bit 8 v XOR checksum_load_u32le m (table + table_index * 4)
          in (checksum_store_u32le m (state + 8) v, v)) (m, v) [0..<n] of
        (m', v) \<Rightarrow> checksum_store_u32le m' (state + 8) (NOT v) x = m x" for m v
    using assms(1) by (simp add: checksum_store_st32 st32_outside split_def)
  show ?thesis unfolding checksum_feed_crc_mode_def Let_def [of "checksum_prepare_table m table"]
    using l prepare_table [of m table] assms
    by (simp add: Let_def split_def checksum_store_st32 st32_outside)
qed

section \<open>The shim\<close>

lemma overlap_nat:
  "checksum_ranges_overlap a n b k \<longleftrightarrow> n \<noteq> 0 \<and> k \<noteq> 0 \<and>
     unat a < unat b + unat k \<and> unat b < unat a + unat n"
proof -
  have s: "unat (ucast x + ucast y :: u64) = unat x + unat y" for x y :: u32
    using unat_u32 [of x] unat_u32 [of y] by (subst unat_plus_small) (simp_all add: unat_ucast_up)
  show ?thesis
    by (auto simp: checksum_ranges_overlap_def Let_def word_less_nat_alt s unat_ucast_up)
qed

lemma overlap_sym: "\<not> checksum_ranges_overlap a n b k \<Longrightarrow> \<not> checksum_ranges_overlap b k a n"
  by (auto simp: overlap_nat)

lemma nonwrapping_nat: "checksum_range_nonwrapping a n \<Longrightarrow> n \<noteq> 0 \<Longrightarrow> unat a + unat n \<le> 2 ^ 32"
proof -
  assume a: "checksum_range_nonwrapping a n" "n \<noteq> 0"
  have "unat (n - 1) = unat n - 1" using a(2) by (simp add: unat_minus_one)
  moreover have "unat (0xFFFFFFFF - (n - 1)) = 0xFFFFFFFF - unat (n - 1)"
    by (subst unat_sub) (simp_all add: word_le_nat_alt, use unat_u32 [of "n - 1"] in simp)
  moreover have "a \<le> 0xFFFFFFFF - (n - 1)" using a by (simp add: checksum_range_nonwrapping_def)
  ultimately show ?thesis using a(2) unat_gt_0 [of n] unat_u32 [of n] by (simp add: word_le_nat_alt)
qed

text \<open>An address inside one of two ranges that do not overlap is outside the other.\<close>

lemma ranges_apart:
  assumes "\<not> checksum_ranges_overlap a n b k" "n \<noteq> 0 \<longrightarrow> unat a + unat n \<le> 2 ^ 32" "k \<noteq> 0 \<longrightarrow> unat b + unat k \<le> 2 ^ 32"
    and "unat (x - a) < unat n"
  shows "unat k \<le> unat (x - b)"
proof (cases "k = 0")
  case False
  have n: "n \<noteq> 0" using assms(4) by auto
  have sub: "unat (x - y) = (if unat y \<le> unat x then unat x - unat y else 2 ^ 32 + unat x - unat y)" for y
    using unat_diff_swap [of x y] unat_sub [of y x] unat_sub [of x y]
    by (cases "x = y") (auto simp: word_le_nat_alt)
  show ?thesis
    using assms n False unat_u32 [of x] unfolding overlap_nat sub by (auto split: if_splits)
qed simp

lemma contains_end:
  assumes "guest_stack_contains c a n"
  shows "unat a + unat n \<le> 2 ^ 32"
proof -
  have h: "n \<le> stack_ceiling c - stack_floor c" "a \<le> stack_ceiling c - n" "stack_floor c < stack_ceiling c"
    using assms by (auto simp: guest_stack_contains_def guest_stack_is_bound_def Let_def split: if_splits)
  then have "unat n \<le> unat (stack_ceiling c) - unat (stack_floor c)"
    by (simp add: word_le_nat_alt unat_sub word_less_nat_alt)
  then have "n \<le> stack_ceiling c" by (simp add: word_le_nat_alt)
  then have "unat a + unat n \<le> unat (stack_ceiling c)"
    using h(2) by (simp add: word_le_nat_alt unat_sub)
  then show ?thesis using unat_u32 [of "stack_ceiling c"] by simp
qed

lemma guest_try_returned:
  assumes "isaac_vita_save_checksum_guest_try base s = Returned True t"
  defines "c \<equiv> cpu s" and "state \<equiv> ecx (cpu s)" and "data \<equiv> ld32 (mem s) (esp (cpu s) + 4)"
    and "len \<equiv> ld32 (mem s) (esp (cpu s) + 8)" and "table \<equiv> base + ISAAC_SAVE_CHECKSUM_TABLE_RVA"
  shows "cpu t = (guest_stack_note_low c (esp c - 16))\<lparr>esp := esp c + 12\<rparr>"
    and "mem t = isaac_vita_save_checksum_native_feed (st32 (st32 (st32 (st32 (mem s) (esp c - 4) (ebp c))
      (esp c - 8) (ebx c)) (esp c - 12) (esi c)) (esp c - 16) (edi c)) state data (unat len) table"
    and "16 \<le> unat (esp c)" "unat (esp c) + 12 \<le> 2 ^ 32"
    and "checksum_range_nonwrapping state 16" "checksum_range_nonwrapping data len"
      "checksum_range_nonwrapping table 1024"
    and "\<not> checksum_ranges_overlap (esp c - 16) 28 state 16" "\<not> checksum_ranges_overlap (esp c - 16) 28 data len"
      "\<not> checksum_ranges_overlap (esp c - 16) 28 table 1024" "\<not> checksum_ranges_overlap state 16 data len"
      "\<not> checksum_ranges_overlap state 16 table 1024" "\<not> checksum_ranges_overlap data len table 1024"
    and "ld32 (mem s) (state + 12) \<le> 1" "ld32 (mem s) (state + 12) = 0 \<and> len \<noteq> 0 \<longrightarrow> mem s (state + 4) \<le> 3"
proof -
  note defs = isaac_vita_save_checksum_guest_try_def Let_def ISAAC_SAVE_CHECKSUM_FRAME_BYTES_def
    ISAAC_SAVE_CHECKSUM_STACK_BYTES_def ISAAC_SAVE_CHECKSUM_STACK_TOUCH_BYTES_def
    ISAAC_VITA_SAVE_CHECKSUM_STATE_BYTES_def ISAAC_VITA_SAVE_CHECKSUM_TABLE_BYTES_def
    and_then_Returned_iff gpop_generated_def guest_stack_adjust_generated_def
    guest_stack_native_violation_def guest_stack_native_owner_violation_def
  note r = assms(1) [unfolded defs c_def [symmetric]] 
  show "cpu t = (guest_stack_note_low c (esp c - 16))\<lparr>esp := esp c + 12\<rparr>"
    using r by (auto split: if_splits simp: guest_stack_note_low_def)
  show "mem t = isaac_vita_save_checksum_native_feed (st32 (st32 (st32 (st32 (mem s) (esp c - 4) (ebp c))
      (esp c - 8) (ebx c)) (esp c - 12) (esi c)) (esp c - 16) (edi c)) state data (unat len) table"
    using r by (auto split: if_splits simp: c_def state_def data_def len_def table_def)
  show "checksum_range_nonwrapping state 16" "checksum_range_nonwrapping data len"
      "checksum_range_nonwrapping table 1024"
    "\<not> checksum_ranges_overlap (esp c - 16) 28 state 16" "\<not> checksum_ranges_overlap (esp c - 16) 28 data len"
      "\<not> checksum_ranges_overlap (esp c - 16) 28 table 1024" "\<not> checksum_ranges_overlap state 16 data len"
      "\<not> checksum_ranges_overlap state 16 table 1024" "\<not> checksum_ranges_overlap data len table 1024"
    "ld32 (mem s) (state + 12) \<le> 1" "ld32 (mem s) (state + 12) = 0 \<and> len \<noteq> 0 \<longrightarrow> mem s (state + 4) \<le> 3"
    using r by (auto split: if_splits simp: c_def state_def data_def len_def table_def checksum_load_ld32 not_less)
  have "\<not> esp c < 16" "guest_stack_contains c (esp c) 12" using r by (auto split: if_splits)
  then show "16 \<le> unat (esp c)" "unat (esp c) + 12 \<le> 2 ^ 32"
    using contains_end [of c "esp c" 12] by (simp_all add: word_less_nat_alt)
qed


text \<open>The four saved registers touch the sixteen bytes below the stack pointer only.\<close>

lemma frame_outside:
  assumes "16 \<le> unat (x - (e - 16))"
  shows "st32 (st32 (st32 (st32 m (e - 4) a) (e - 8) b) (e - 12) c) (e - 16) d x = m x"
proof -
  have *: "4 \<le> unat (x - (e - k))" if "k \<in> {4, 8, 12, 16}" for k
  proof -
    have "unat (x - (e - 16) - (16 - k)) = unat (x - (e - 16)) - unat (16 - k)"
      using assms that by (subst unat_sub) (auto simp: word_le_nat_alt)
    moreover have "unat (16 - k) \<le> 12" using that by auto
    ultimately show ?thesis using assms by (simp add: algebra_simps)
  qed
  then show ?thesis by (simp add: st32_outside)
qed

lemma frame_bytes:
  "ld_bytes (st32 (st32 (st32 (st32 m (e - 4) a) (e - 8) b) (e - 12) c) (e - 16) d) (e - 16) 16 =
     concat (map (le_to_bytes 4) [d, c, b, a])"
proof -
  define f where "f = e - 16"
  have e: "e - 16 = f" "e - 12 = f + 4" "e - 8 = f + 8" "e - 4 = f + 12" by (simp_all add: f_def)
  have "ld_bytes n f 16 = concat (map (\<lambda>i. ld_bytes n (f + i) 4) [0, 4, 8, 12])" for n
    by (simp add: ld_bytes_4) (simp add: eval_nat_numeral add.assoc add.commute)
  then show ?thesis unfolding e by (simp add: ld_bytes_4 st32_def le_to_bytes_4 add.assoc)
qed

lemma feed_outside:
  assumes "ld32 m (state + 12) = 0 \<and> n \<noteq> 0 \<longrightarrow> m (state + 4) \<le> 3"
    and "\<And>i. i < n \<Longrightarrow> 16 \<le> unat (data + of_nat i - state)"
    and "16 \<le> unat (x - state)" "1024 \<le> unat (x - table)"
  shows "isaac_vita_save_checksum_native_feed m state data n table x = m x"
proof -
  have "4 \<le> unat (x - (state + 8))"
  proof -
    have "unat (x - state - 8) = unat (x - state) - 8" using assms(3) by (subst unat_sub) (simp_all add: word_le_nat_alt)
    then show ?thesis using assms(3) by (simp add: algebra_simps)
  qed
  then have "checksum_feed_crc_mode m state data n table x = m x"
    using crc_outside assms(4) by simp
  moreover have "checksum_feed_word_mode m state data n x = m x" if "ld32 m (state + 12) = 0" "n \<noteq> 0"
  proof -
    define p where "p = ld_bytes m state (unat (m (state + 4)))"
    have "m (state + 4) \<le> 3" using assms(1) that by simp
    then have "word_state m state p (ld32 m (state + 8))"
      by (simp add: p_def word_state_def word_le_nat_alt)
    then show ?thesis using feed_words [of m state p _ n data] assms(2,3) by fastforce
  qed
  moreover have "checksum_feed_word_mode m state data 0 x = m x" by (simp add: checksum_feed_word_mode_def)
  ultimately show ?thesis by (cases "n = 0") (simp_all add: isaac_vita_save_checksum_native_feed_def checksum_load_ld32)
qed

text \<open>
  C29: a guest call that the shim takes over returns as \<open>RET 8\<close> does, with the words the frozen
  prologue pushes left below the stack pointer in memory and counted in the low-water mark.
  Nothing else changes but the object's sixteen bytes and the table's 1024.  In mode 0 an object
  holding \<open>v\<close> with \<open>p\<close> waiting ends holding the checksum of \<open>p\<close> and the argument bytes
  together, however the stream was cut; in mode 1 the value is the table recurrence over the
  argument bytes, whether the table had been prepared before or is prepared now.
\<close>

theorem save_checksum_exact:
  assumes "isaac_vita_save_checksum_guest_try base s = Returned True t"
  defines "c \<equiv> cpu s" and "state \<equiv> ecx (cpu s)" and "table \<equiv> base + ISAAC_SAVE_CHECKSUM_TABLE_RVA"
    and "d \<equiv> ld_bytes (mem s) (ld32 (mem s) (esp (cpu s) + 4)) (unat (ld32 (mem s) (esp (cpu s) + 8)))"
  shows "cpu t = (guest_stack_note_low c (esp c - 16))\<lparr>esp := esp c + 12\<rparr> \<and>
    ld_bytes (mem t) (esp c - 16) 16 = concat (map (le_to_bytes 4) [edi c, esi c, ebx c, ebp c]) \<and>
    (\<forall>x. 16 \<le> unat (x - (esp c - 16)) \<and> 16 \<le> unat (x - state) \<and> 1024 \<le> unat (x - table) \<longrightarrow>
      mem t x = mem s x) \<and>
    (ld32 (mem s) (state + 12) = 0 \<longrightarrow> (\<forall>p v. word_state (mem s) state p v \<longrightarrow>
      (case checksum_words (p @ d) v of (w, q) \<Rightarrow> word_state (mem t) state q w))) \<and>
    (ld32 (mem s) (state + 12) = 1 \<and> (table_ready (mem s) table \<or> ld32 (mem s) (table + 4) = 0) \<longrightarrow>
      ld32 (mem t) (state + 8) = checksum_crc (ld32 (mem s) (state + 8)) d \<and> table_ready (mem t) table)"
proof -
  define data where "data = ld32 (mem s) (esp c + 4)"
  define len where "len = ld32 (mem s) (esp c + 8)"
  define m where "m = st32 (st32 (st32 (st32 (mem s) (esp c - 4) (ebp c)) (esp c - 8) (ebx c))
    (esp c - 12) (esi c)) (esp c - 16) (edi c)"
  note r = guest_try_returned [OF assms(1), folded c_def state_def table_def, folded data_def len_def]
  have top: "unat (esp c - 16) + 28 \<le> 2 ^ 32"
    using r(3,4) by (simp add: unat_sub word_le_nat_alt)
  have S: "unat state + 16 \<le> 2 ^ 32" "unat table + 1024 \<le> 2 ^ 32" "len \<noteq> 0 \<longrightarrow> unat data + unat len \<le> 2 ^ 32"
    using nonwrapping_nat [OF r(5)] nonwrapping_nat [OF r(7)] nonwrapping_nat [OF r(6)] by simp_all
  have m: "16 \<le> unat (x - (esp c - 16)) \<Longrightarrow> m x = mem s x" for x
    unfolding m_def by (rule frame_outside)
  have in_state: "28 \<le> unat (x - (esp c - 16))" "1024 \<le> unat (x - table)" "unat len \<le> unat (x - data)"
    if "unat (x - state) < 16" for x
    using that ranges_apart [of state 16 "esp c - 16" 28 x] ranges_apart [of state 16 table 1024 x] ranges_apart [of state 16 data len x]
      r(8,11,12) r(8) [THEN overlap_sym] top S by simp_all
  have in_table: "28 \<le> unat (x - (esp c - 16))" "16 \<le> unat (x - state)" "unat len \<le> unat (x - data)"
    if "unat (x - table) < 1024" for x
    using that ranges_apart [of table 1024 "esp c - 16" 28 x] ranges_apart [of table 1024 state 16 x] ranges_apart [of table 1024 data len x]
      r(10,12,13) [THEN overlap_sym] top S by simp_all
  have in_frame: "16 \<le> unat (x - state)" "1024 \<le> unat (x - table)"
    if "unat (x - (esp c - 16)) < 28" for x
    using that ranges_apart [of "esp c - 16" 28 state 16 x] ranges_apart [of "esp c - 16" 28 table 1024 x] r(8,10) top S by simp_all
  have in_data: "28 \<le> unat (x - (esp c - 16))" "16 \<le> unat (x - state)" "1024 \<le> unat (x - table)"
    if "unat (x - data) < unat len" for x
    using that ranges_apart [of data len "esp c - 16" 28 x] ranges_apart [of data len state 16 x] ranges_apart [of data len table 1024 x]
      r(9,11) [THEN overlap_sym] r(13) top S by auto
  have data: "unat (data + of_nat i - data) < unat len" if "i < unat len" for i
    using that unat_u32 [of len] by (simp add: unat_of_nat_small)
  have d: "ld_bytes m data (unat len) = d"
    unfolding d_def c_def [symmetric] data_def [symmetric] len_def [symmetric]
    using m in_data(1) [OF data] by (intro nth_equalityI) (fastforce simp: nth_ld_bytes)+
  have ms: "m x = mem s x" if "unat (x - state) < 16" for x using m in_state(1) [OF that] by simp
  have state12: "ld32 m (state + 12) = ld32 (mem s) (state + 12)" "ld32 m (state + 8) = ld32 (mem s) (state + 8)"
    using ms offset_inside [of _ state 12 4] offset_inside [of _ state 8 4] by (fastforce intro!: ld32_cong)+
  have fill: "ld32 m (state + 12) = 0 \<and> unat len \<noteq> 0 \<longrightarrow> m (state + 4) \<le> 3"
    using r(15) state12 ms [of "state + 4"] by (auto simp: unat_eq_0)
  have mt: "mem t = isaac_vita_save_checksum_native_feed m state data (unat len) table" using r(2) m_def by simp
  have out: "mem t x = m x" if "16 \<le> unat (x - state)" "1024 \<le> unat (x - table)" for x
    unfolding mt using that in_data(2) [OF data] fill by (intro feed_outside) auto
  have saved: "ld_bytes (mem t) (esp c - 16) 16 = concat (map (le_to_bytes 4) [edi c, esi c, ebx c, ebp c])"
    unfolding frame_bytes [of "mem s" "esp c" "ebp c" "ebx c" "esi c" "edi c", folded m_def, symmetric]
    using out in_frame by (intro nth_equalityI) (simp_all add: nth_ld_bytes unat_of_nat_small del: ld_bytes.simps)
  have words: "case checksum_words (p @ d) v of (w, q) \<Rightarrow> word_state (mem t) state q w"
    if "ld32 (mem s) (state + 12) = 0" "word_state (mem s) state p v" for p v
  proof -
    have "ld_bytes m state (length p) = ld_bytes (mem s) state (length p)"
      using conjunct1 [OF that(2) [unfolded word_state_def]] ms
      by (intro nth_equalityI) (simp_all add: nth_ld_bytes unat_of_nat_small)
    then have "word_state m state p v" using that(2) state12 ms [of "state + 4"] by (simp add: word_state_def)
    from feed_words [OF this, of "unat len" data] in_data(2) [OF data] show ?thesis
      using that(1) state12 d mt by (fastforce simp: isaac_vita_save_checksum_native_feed_def checksum_load_ld32)
  qed
  have crc: "ld32 (mem t) (state + 8) = checksum_crc (ld32 (mem s) (state + 8)) d \<and> table_ready (mem t) table"
    if "ld32 (mem s) (state + 12) = 1" "table_ready (mem s) table \<or> ld32 (mem s) (table + 4) = 0"
  proof -
    have tm: "m x = mem s x" if "unat (x - table) < 1024" for x using m in_table(1) [OF that] by simp
    then have "table_ready m table = table_ready (mem s) table" "ld32 m (table + 4) = ld32 (mem s) (table + 4)"
      using offset_inside [of _ table 4 4] by (fastforce intro!: ld32_cong table_ready_cong)+
    moreover have "4 \<le> unat (x - (state + 8))" if "16 \<le> unat (x - state)" for x
      using that offset_inside [of x state 8 4] by fastforce
    moreover have "1024 \<le> unat (x - table)" if "unat (x - (state + 8)) < 4" for x
      using offset_inside [OF that] in_state(2) [of x] by simp
    ultimately show ?thesis
      using that feed_crc [of m table state "unat len" data] state12 d mt in_table(2) in_data(2,3) [OF data]
      by (simp add: isaac_vita_save_checksum_native_feed_def checksum_load_ld32)
  qed
  show ?thesis using r(1) saved out m words crc by auto
qed

text \<open>A call with five bytes at \<open>0x3000\<close> for the object at \<open>0x2000\<close>, which is in its initial state.\<close>

definition example_call :: machine where
  "example_call = example_machine\<lparr>
     cpu := (cpu example_machine)\<lparr>esp := 0x1010, ecx := 0x2000\<rparr>,
     mem := (\<lambda>_. 0)(0x1015 := 0x30, 0x1018 := 5, 0x3000 := 1)\<rparr>"

lemma example_call_sel [simp]:
  "esp (cpu example_call) = 0x1010" "ecx (cpu example_call) = 0x2000"
  "ld32 (mem example_call) 0x1014 = 0x3000" "ld32 (mem example_call) 0x1018 = 5"
  "ld32 (mem example_call) 0x200C = 0" "ld32 (mem example_call) 0x2008 = 0" "mem example_call 0x2004 = 0"
  by (simp_all add: example_call_def ld32_def ld_bytes_4)

lemma example_call_data: "ld_bytes (mem example_call) 0x3000 5 = [1, 0, 0, 0, 0]"
proof -
  have "ld_bytes m a 5 = ld_bytes m a 4 @ [m (a + 4)]" for m a
    by (rule nth_equalityI) (auto simp: nth_ld_bytes nth_append less_Suc_eq eval_nat_numeral add.commute)
  then show ?thesis by (simp add: example_call_def ld_bytes_4)
qed

lemma example_call_fast: "stack_owner (cpu example_call) = Some (cpu_id (cpu example_call))"
  "guest_stack_contains (cpu example_call) 0x1010 12" "guest_stack_contains (cpu example_call) 0x1000 16"
  "stack_floor (cpu example_call) = 0x1000" "stack_ceiling (cpu example_call) = 0x1020"
  "stack_low_water (cpu example_call) = 0x1020"
  using stack_ok_fast [OF example_machine_ok]
  by (simp_all add: example_call_def guest_stack_fast_bound_def guest_stack_contains_def guest_stack_is_bound_def
      example_machine_def guest_stack_bind_def guest_cpu_init_def)

lemma example_call_taken: "\<exists>t. isaac_vita_save_checksum_guest_try 0 example_call = Returned True t"
  using example_call_fast
  by (simp add: isaac_vita_save_checksum_guest_try_def Let_def checksum_range_nonwrapping_def overlap_nat
      ISAAC_SAVE_CHECKSUM_FRAME_BYTES_def ISAAC_SAVE_CHECKSUM_TABLE_RVA_def
      ISAAC_SAVE_CHECKSUM_STACK_BYTES_def ISAAC_SAVE_CHECKSUM_STACK_TOUCH_BYTES_def
      ISAAC_VITA_SAVE_CHECKSUM_STATE_BYTES_def ISAAC_VITA_SAVE_CHECKSUM_TABLE_BYTES_def
      checksum_load_ld32 guest_stack_note_low_def gpop_generated_def guest_stack_adjust_generated_def
      guest_stack_fast_bound_def)

theorem save_checksum_exact_witness:
  "\<exists>t. isaac_vita_save_checksum_guest_try 0 example_call = Returned True t \<and>
     esp (cpu t) = 0x101C \<and> word_state (mem t) 0x2000 [0] 1"
proof -
  obtain t where t: "isaac_vita_save_checksum_guest_try 0 example_call = Returned True t"
    using example_call_taken ..
  have "word_state (mem example_call) 0x2000 [] 0" by (simp add: word_state_def)
  then have "word_state (mem t) 0x2000 [0] 1" "esp (cpu t) = 0x101C"
    using save_checksum_exact [OF t] example_call_data by (auto simp: dest!: spec [of _ "[]"])
  then show ?thesis using t by blast
qed

end
