(* ===== verification/Guest_Pe_Hash.thy ===== *)
theory Guest_Pe_Hash
  imports Manager_Sha256
begin

text \<open>
  The hash of the executable loader (\<open>guest_pe.h\<close>): a second SHA-256, which keeps the total size
  and derives the fill of its block from it.  It is proved to be the function the manager computes.
\<close>

unbundle bit_operations_syntax

section \<open>The implementation\<close>

definition guest_pe_rotr32 :: "u32 \<Rightarrow> nat \<Rightarrow> u32" where
  "guest_pe_rotr32 value count = drop_bit count value OR push_bit (32 - count) value"

record guest_pe_sha256_context =
  pe_state :: "u32 list"
  total_size :: u64
  pe_block :: "u8 list"

text \<open>The first sixteen words are loads; the constant table is the standard's, as in the manager.\<close>

definition guest_pe_words :: "u8 list \<Rightarrow> u32 list" where
  "guest_pe_words blk =
     fold (\<lambda>i words.
         let s0 = guest_pe_rotr32 (words ! (i - 15)) 7 XOR guest_pe_rotr32 (words ! (i - 15)) 18 XOR
               drop_bit 3 (words ! (i - 15));
             s1 = guest_pe_rotr32 (words ! (i - 2)) 17 XOR guest_pe_rotr32 (words ! (i - 2)) 19 XOR
               drop_bit 10 (words ! (i - 2))
         in words @ [words ! (i - 16) + s0 + words ! (i - 7) + s1]) [16..<64]
       (map (\<lambda>i. let offset = i * 4 in
           push_bit 24 (ucast (blk ! offset)) OR push_bit 16 (ucast (blk ! (offset + 1))) OR
           push_bit 8 (ucast (blk ! (offset + 2))) OR ucast (blk ! (offset + 3))) [0..<16])"

definition guest_pe_sha256_transform :: "u32 list \<Rightarrow> u8 list \<Rightarrow> u32 list" where
  "guest_pe_sha256_transform state blk =
     (let words = guest_pe_words blk in
      case fold (\<lambda>i (a, b, c, d, e, f, g, h).
          let s1 = guest_pe_rotr32 e 6 XOR guest_pe_rotr32 e 11 XOR guest_pe_rotr32 e 25;
              choice = (e AND f) XOR (NOT e AND g);
              temp1 = h + s1 + choice + constants ! i + words ! i;
              s0 = guest_pe_rotr32 a 2 XOR guest_pe_rotr32 a 13 XOR guest_pe_rotr32 a 22;
              majority = (a AND b) XOR (a AND c) XOR (b AND c);
              temp2 = s0 + majority
          in (temp1 + temp2, a, b, c, d + temp1, e, f, g)) [0..<64]
        (state ! 0, state ! 1, state ! 2, state ! 3, state ! 4, state ! 5, state ! 6, state ! 7) of
      (a, b, c, d, e, f, g, h) \<Rightarrow>
        [state ! 0 + a, state ! 1 + b, state ! 2 + c, state ! 3 + d,
         state ! 4 + e, state ! 5 + f, state ! 6 + g, state ! 7 + h])"

definition guest_pe_sha256_init :: guest_pe_sha256_context where
  "guest_pe_sha256_init = \<lparr>pe_state = initial, total_size = 0, pe_block = replicate 64 0\<rparr>"

text \<open>The whole blocks, straight from the data; what is left of it.\<close>

function whole_blocks :: "u32 list \<Rightarrow> u8 list \<Rightarrow> u32 list \<times> u8 list" where
  "whole_blocks state data =
     (if length data \<ge> 64 then whole_blocks (guest_pe_sha256_transform state (take 64 data)) (drop 64 data)
      else (state, data))"
  by pat_completeness auto
termination by (relation "measure (\<lambda>(state, data). length data)") auto

declare whole_blocks.simps [simp del]

definition guest_pe_sha256_update :: "guest_pe_sha256_context \<Rightarrow> u8 list \<Rightarrow> guest_pe_sha256_context" where
  "guest_pe_sha256_update c data =
     (let used = unat (total_size c AND 63);
          c = c\<lparr>total_size := total_size c + of_nat (length data)\<rparr>;
          (c, data) = (if used \<noteq> 0 then
              let amount = min (length data) (64 - used);
                  blk = take used (pe_block c) @ take amount data @ drop (used + amount) (pe_block c);
                  c = c\<lparr>pe_block := blk\<rparr>
              in (if used + amount = 64 then c\<lparr>pe_state := guest_pe_sha256_transform (pe_state c) blk\<rparr> else c,
                  drop amount data)
            else (c, data));
          (state, data) = whole_blocks (pe_state c) data
      in c\<lparr>pe_state := state, pe_block := data @ drop (length data) (pe_block c)\<rparr>)"

definition guest_pe_sha256_final :: "guest_pe_sha256_context \<Rightarrow> u8 list" where
  "guest_pe_sha256_final c =
     (let bit_size = total_size c * 8;
          used = unat (total_size c AND 63);
          padding_size = if used < 56 then 56 - used else 120 - used;
          padding = 0x80 # replicate 127 0;
          length_bytes = rev (map (\<lambda>i. ucast (drop_bit (i * 8) bit_size)) [0..<8]);
          c = guest_pe_sha256_update c (take padding_size padding);
          c = guest_pe_sha256_update c length_bytes
      in concat (map (\<lambda>i. [ucast (drop_bit 24 (pe_state c ! i)), ucast (drop_bit 16 (pe_state c ! i)),
           ucast (drop_bit 8 (pe_state c ! i)), ucast (pe_state c ! i)]) [0..<8]))"

definition guest_pe_sha256 :: "u8 list \<Rightarrow> u8 list" where
  "guest_pe_sha256 data = guest_pe_sha256_final (guest_pe_sha256_update guest_pe_sha256_init data)"

section \<open>The two implementations agree\<close>

lemma rotr_same: "guest_pe_rotr32 = manager_sha256_rotr"
  by (intro ext) (simp add: guest_pe_rotr32_def manager_sha256_rotr_def)

lemma words_same: "length blk = 64 \<Longrightarrow> guest_pe_words blk = schedule blk"
  unfolding guest_pe_words_def schedule_def schedule_word_def rotr_same
  by (rule arg_cong2 [where f = "\<lambda>g. fold g [16..<64]"])
    (auto simp: Let_def manager_sha256_load_be32_def fun_eq_iff)

lemma transform_same:
  "length blk = 64 \<Longrightarrow> guest_pe_sha256_transform state blk = manager_sha256_transform state blk"
proof -
  assume "length blk = 64"
  then have w: "guest_pe_words blk = schedule blk" by (rule words_same)
  have r: "(\<lambda>i (a, b, c, d, e, f, g, h).
          let s1 = guest_pe_rotr32 e 6 XOR guest_pe_rotr32 e 11 XOR guest_pe_rotr32 e 25;
              choice = (e AND f) XOR (NOT e AND g);
              temp1 = h + s1 + choice + constants ! i + schedule blk ! i;
              s0 = guest_pe_rotr32 a 2 XOR guest_pe_rotr32 a 13 XOR guest_pe_rotr32 a 22;
              majority = (a AND b) XOR (a AND c) XOR (b AND c);
              temp2 = s0 + majority
          in (temp1 + temp2, a, b, c, d + temp1, e, f, g)) =
      (\<lambda>i. sha_round (constants ! i) (schedule blk ! i))"
    by (intro ext) (auto simp: rotr_same Let_def)
  show ?thesis unfolding guest_pe_sha256_transform_def manager_sha256_transform_def Let_def w
      r [unfolded Let_def] load_work_def [symmetric]
    by (simp split: prod.split)
qed

text \<open>The context has taken in the message \<open>m\<close>.\<close>

definition taken :: "guest_pe_sha256_context \<Rightarrow> u8 list \<Rightarrow> bool" where
  "taken c m \<longleftrightarrow> pe_state c = compress_all m \<and> total_size c = of_nat (length m) \<and> length (pe_block c) = 64 \<and>
     take (length m mod 64) (pe_block c) = drop (64 * (length m div 64)) m"

lemma used_mod: "unat ((of_nat n :: u64) AND 63) = n mod 64"
proof -
  have "(63 :: u64) = mask 6" by (simp add: mask_eq_exp_minus_1)
  then have "unat ((of_nat n :: u64) AND 63) = unat (of_nat n :: u64) mod 64"
    by (simp only: take_bit_eq_mask [symmetric] unsigned_take_bit_eq) (simp add: take_bit_eq_mod)
  also have "\<dots> = n mod 2 ^ 64 mod 64" by (simp add: unat_of_nat)
  also have "\<dots> = n mod 64" by (simp add: mod_mod_cancel)
  finally show ?thesis .
qed

lemma whole_blocks_taken:
  "length a mod 64 = 0 \<Longrightarrow> whole_blocks (compress_all a) data =
     (compress_all (a @ data), drop (64 * (length data div 64)) data)"
proof (induction "compress_all a" data arbitrary: a rule: whole_blocks.induct)
  case (1 data)
  show ?case
  proof (cases "length data \<ge> 64")
    case True
    have "whole_blocks (compress_all (a @ take 64 data)) (drop 64 data) =
        (compress_all (a @ data), drop (64 * (length (drop 64 data) div 64)) (drop 64 data))"
      using 1(1) [of "a @ take 64 data"] True 1(2) 
      by (simp add: compress_all_block transform_same)
    moreover have "64 * (length (drop 64 data) div 64) + 64 = 64 * (length data div 64)"
      using True by (simp add: le_div_geq)
    ultimately show ?thesis using True 1(2)
      by (subst whole_blocks.simps) (simp add: compress_all_block transform_same)
  next
    case False
    then show ?thesis using 1(2)
      by (subst whole_blocks.simps) (simp add: compress_all_partial)
  qed
qed

text \<open>A message that ends inside a block, completed by \<open>d\<close>.\<close>

lemma compress_all_fill:
  assumes "length d = 64 - length m mod 64"
  shows "compress_all (m @ d) =
    guest_pe_sha256_transform (compress_all m) (drop (64 * (length m div 64)) m @ d)"
proof -
  let ?a = "take (64 * (length m div 64)) m" and ?b = "drop (64 * (length m div 64)) m"
  have l: "length (?b @ d) = 64" using assms by (simp add: minus_mult_div_eq_mod)
  have "length ?a = 64 * (length m div 64)" by (simp add: min.absorb2 times_div_less_eq_dividend)
  then have a: "length ?a mod 64 = 0" by simp
  have "compress_all (?a @ (?b @ d)) = manager_sha256_transform (compress_all ?a) (?b @ d)"
    using l a by (rule compress_all_block)
  then show ?thesis using l compress_all_floor [of m] transform_same [OF l]
    unfolding append_assoc [symmetric] append_take_drop_id by simp
qed

lemma taken_blocks:
  assumes "length a mod 64 = 0" "length blk = 64" "whole_blocks (compress_all a) data = (state, rest)"
    and "pe_state c = state" "total_size c = of_nat (length (a @ data))" "pe_block c = rest @ drop (length rest) blk"
  shows "taken c (a @ data)"
proof -
  have r: "length (a @ data) mod 64 = length data mod 64"
    using assms(1) by (simp add: mod_add_eq [symmetric])
  obtain n where n: "length a = 64 * n" using assms(1) by auto
  then have d: "64 * (length (a @ data) div 64) = length a + 64 * (length data div 64)" by simp
  have w: "state = compress_all (a @ data)" "rest = drop (64 * (length data div 64)) data"
    using assms(3) by (simp_all add: whole_blocks_taken [OF assms(1)])
  then have "length rest = length data mod 64" by (simp add: minus_mult_div_eq_mod)
  moreover from this have "length rest < 64" by simp
  ultimately show ?thesis unfolding taken_def
    using assms(2,4-) r d w by simp
qed

lemma taken_update: "taken c m \<Longrightarrow> taken (guest_pe_sha256_update c data) (m @ data)"
proof -
  assume c: "taken c m"
  let ?r = "length m mod 64"
  have u: "unat (total_size c AND 63) = ?r" using c by (simp add: taken_def used_mod)
  have s: "pe_state c = compress_all m" "total_size c = of_nat (length m)" "length (pe_block c) = 64"
    "take ?r (pe_block c) = drop (64 * (length m div 64)) m" using c by (simp_all add: taken_def)
  consider "?r = 0" | "?r \<noteq> 0" "length data < 64 - ?r" | "?r \<noteq> 0" "64 - ?r \<le> length data" by linarith
  then show ?thesis
  proof cases
    case 1
    then show ?thesis using u s
      by (intro taken_blocks [OF 1 s(3), of data]) (auto simp: guest_pe_sha256_update_def Let_def split_def)
  next
    case 2
    have e: "whole_blocks state [] = (state, [])" for state by (simp add: whole_blocks.simps)
    have l: "length (m @ data) mod 64 = ?r + length data" "length (m @ data) div 64 = length m div 64"
    proof -
      have e: "length (m @ data) = 64 * (length m div 64) + (?r + length data)" by simp
      have "(64 * q + k) mod 64 = k \<and> (64 * q + k) div 64 = q" if "k < 64" for q k :: nat using that by simp
      from this [of "?r + length data" "length m div 64"]
      show "length (m @ data) mod 64 = ?r + length data" "length (m @ data) div 64 = length m div 64"
        using 2(2) unfolding e by linarith+
    qed
    have k: "compress_all (m @ data) = compress_all m"
      using compress_all_floor [of "m @ data"] compress_all_floor [of m] l(2) by simp
    have a: "min (length data) (64 - ?r) = length data" "?r + length data \<noteq> 64" using 2 by auto
    have p: "guest_pe_sha256_update c data = c\<lparr>total_size := total_size c + of_nat (length data),
        pe_block := take ?r (pe_block c) @ data @ drop (?r + length data) (pe_block c)\<rparr>"
      using 2(1) a(2) unfolding guest_pe_sha256_update_def u Let_def a(1) by (simp add: e)
    have "length (take ?r (pe_block c)) = ?r" "?r + length data \<le> 64" using 2(2) s(3) by (simp_all add: min_def)
    then show ?thesis using s(1,2,3) l k unfolding taken_def p by (simp add: s(4))
  next
    case 3
    let ?d = "take (64 - ?r) data" and ?e = "drop (64 - ?r) data"
    let ?blk = "take ?r (pe_block c) @ ?d"
    have l: "length ?d = 64 - ?r" using 3 by simp
    have "length (m @ ?d) = 64 * (length m div 64) + (?r + (64 - ?r))"
      using l mult_div_mod_eq [of 64 "length m"] by (simp only: length_append)
    then have a: "length (m @ ?d) mod 64 = 0" using mod_less_divisor [of 64 "length m"] by simp
    obtain state rest where w: "whole_blocks (compress_all (m @ ?d)) ?e = (state, rest)" by fastforce
    have m: "min (length data) (64 - ?r) = 64 - ?r" "?r + (64 - ?r) = 64" 
      using 3 mod_less_divisor [of 64 "length m"] by (simp_all add: min_def)
    have b: "length ?blk = 64" using l s(3) m(2) by simp
    have "guest_pe_sha256_update c data = c\<lparr>total_size := total_size c + of_nat (length data),
        pe_state := state, pe_block := rest @ drop (length rest) ?blk\<rparr>"
      using 3 w compress_all_fill [OF l] unfolding s(4) [symmetric] guest_pe_sha256_update_def u Let_def m
      by (simp add: s(1,3))
    then have "taken (guest_pe_sha256_update c data) ((m @ ?d) @ ?e)"
      using s(2) by (intro taken_blocks [OF a b w]) simp_all
    then show ?thesis by simp
  qed
qed

lemma taken_init: "taken guest_pe_sha256_init []"
  by (simp add: taken_def guest_pe_sha256_init_def compress_all_def)

lemma taken_final:
  assumes "taken c m"
  shows "guest_pe_sha256_final c = sha256 m"
proof -
  let ?r = "length m mod 64"
  let ?p = "if ?r < 56 then 56 - ?r else 120 - ?r"
  have u: "unat (total_size c AND 63) = ?r" "total_size c * 8 = of_nat (8 * length m)"
    using assms by (simp_all add: taken_def used_mod mult.commute)
  have b: "rev (map (\<lambda>i. ucast (drop_bit (i * 8) w)) [0..<8]) = be64_bytes w" for w :: u64
    by (simp add: be64_bytes_def upt_rec)
  have "?p \<le> 120" "0 < ?p" by auto
  then have "take ?p (0x80 # replicate 127 0) = [0x80] @ replicate (?p - 1) (0 :: u8)"
    by (cases ?p) (simp_all add: min_def)
  moreover have "?p - 1 = (119 - ?r) mod 64" by (rule padding_length) simp
  ultimately have p: "take ?p (0x80 # replicate 127 0) = [0x80] @ replicate ((119 - ?r) mod 64) (0 :: u8)"
    by simp
  have "taken (guest_pe_sha256_update (guest_pe_sha256_update c ([0x80] @ replicate ((119 - ?r) mod 64) 0))
      (be64_bytes (of_nat (8 * length m)))) (sha256_pad m)"
    using taken_update [OF taken_update [OF assms, of "[0x80] @ replicate ((119 - ?r) mod 64) 0"]]
    unfolding sha256_pad_def append_assoc .
  then show ?thesis unfolding guest_pe_sha256_final_def Let_def u p b
    by (simp add: taken_def sha256_def be32_bytes_def)
qed

lemma guest_pe_sha256_exact: "guest_pe_sha256 data = sha256 data"
  unfolding guest_pe_sha256_def using taken_final [OF taken_update [OF taken_init]] by simp

end
