(* ===== verification/Guest_Pe.thy ===== *)
theory Guest_Pe
  imports Guest_Pe_Hash
begin

text \<open>
  The executable loader (\<open>guest_pe.h\<close>): parsing the file into a plan, with every offset checked
  before it is read.  A file and an image are byte lists; \<open>size_t\<close> offsets are naturals, because
  the spans checked before each access keep every sum below the file size.

  The loader accepts one frozen executable.  Its numbers and digests are fields of a contract
  here, so that what is proved does not depend on them; \<open>frozen_contract\<close> has the values of the
  source.
\<close>

unbundle bit_operations_syntax

section \<open>The contract and the plan\<close>

record pe_contract =
  expected_file_size :: nat
  expected_original_base :: u32
  expected_image_size :: u32
  expected_entry_rva :: u32
  expected_header_size :: u32
  expected_section_count :: u16
  expected_reloc_rva :: u32
  expected_reloc_size :: u32
  expected_tls_rva :: u32
  expected_tls_size :: u32
  expected_reloc_blocks :: u32
  expected_highlow_count :: u32
  expected_absolute_count :: u32
  expected_file_sha256 :: "u8 list"
  expected_map_sha256 :: "u8 list"
  expected_pc_map_sha256 :: "u8 list"

definition GUEST_PE_PC_TARGET_BASE :: u32 where "GUEST_PE_PC_TARGET_BASE = 0x30000000"
definition GUEST_PE_VITA_TARGET_BASE :: u32 where "GUEST_PE_VITA_TARGET_BASE = 0x98000000"
definition GUEST_PE_MAX_SECTIONS :: u16 where "GUEST_PE_MAX_SECTIONS = 16"
definition GUEST_PE_DIRECTORY_COUNT :: nat where "GUEST_PE_DIRECTORY_COUNT = 16"

definition frozen_contract :: pe_contract where
  "frozen_contract = \<lparr>expected_file_size = 8650240, expected_original_base = 0x00400000,
     expected_image_size = 0x0085F000, expected_entry_rva = 0x005EB83E, expected_header_size = 0x400,
     expected_section_count = 5, expected_reloc_rva = 0x0080F000, expected_reloc_size = 0x0004F3D8,
     expected_tls_rva = 0x0076CC40, expected_tls_size = 0x18, expected_reloc_blocks = 1632,
     expected_highlow_count = 154959, expected_absolute_count = 797,
     expected_file_sha256 = concat [
       [0x31, 0x84, 0x64, 0x86, 0x97, 0x9C, 0xFA, 0x07], [0xC8, 0xC9, 0x68, 0x22, 0x15, 0x53, 0x05, 0x2C],
       [0x3F, 0xF6, 0x03, 0x51, 0x86, 0x81, 0xCA, 0x11], [0x91, 0x2D, 0x44, 0x5F, 0x96, 0xCA, 0x94, 0x04]],
     expected_map_sha256 = concat [
       [0x0C, 0xD8, 0x9A, 0x59, 0x56, 0x20, 0x94, 0xED], [0xB5, 0xCC, 0x19, 0x01, 0x66, 0xF0, 0x15, 0xE6],
       [0x11, 0x85, 0xBF, 0x38, 0xAE, 0x66, 0xB7, 0x37], [0x45, 0xB0, 0xE4, 0xE8, 0xB0, 0xF3, 0x88, 0x37]],
     expected_pc_map_sha256 = concat [
       [0x8C, 0x7B, 0xCA, 0xF3, 0x2E, 0xD9, 0x96, 0xDE], [0xCB, 0x67, 0x7B, 0x21, 0xE3, 0x7D, 0x1B, 0x1D],
       [0x4D, 0x0E, 0x13, 0x8F, 0x4F, 0xF4, 0xB0, 0x8B], [0x34, 0x85, 0x80, 0x5D, 0xAF, 0x20, 0x8B, 0xCB]]\<rparr>"

datatype guest_pe_error = GUEST_PE_OK | GUEST_PE_ERR_ARGUMENT | GUEST_PE_ERR_OPEN | GUEST_PE_ERR_SIZE_IO
  | GUEST_PE_ERR_FILE_SIZE | GUEST_PE_ERR_REWIND | GUEST_PE_ERR_RAW_ALLOC | GUEST_PE_ERR_READ
  | GUEST_PE_ERR_CLOSE | GUEST_PE_ERR_FILE_HASH | GUEST_PE_ERR_DOS_HEADER | GUEST_PE_ERR_PE_OFFSET
  | GUEST_PE_ERR_PE_SIGNATURE | GUEST_PE_ERR_COFF_HEADER | GUEST_PE_ERR_OPTIONAL_HEADER
  | GUEST_PE_ERR_CONTRACT | GUEST_PE_ERR_SECTION_TABLE | GUEST_PE_ERR_SECTION_SOURCE
  | GUEST_PE_ERR_SECTION_DESTINATION | GUEST_PE_ERR_SECTION_OVERLAP | GUEST_PE_ERR_DIRECTORY
  | GUEST_PE_ERR_DIRECTORY_RAW | GUEST_PE_ERR_ENTRY_POINT | GUEST_PE_ERR_RELOC_DIRECTORY
  | GUEST_PE_ERR_RELOC_BLOCK | GUEST_PE_ERR_RELOC_TYPE | GUEST_PE_ERR_RELOC_TARGET
  | GUEST_PE_ERR_RELOC_COUNT | GUEST_PE_ERR_IMAGE_ALLOC | GUEST_PE_ERR_MAP_HASH

record guest_pe_section_plan =
  section_name :: "u8 list"
  virtual_address :: u32
  virtual_size :: u32
  raw_offset :: u32
  raw_size :: u32
  copy_size :: u32
  mapped_size :: u32
  characteristics :: u32

record guest_pe_directory_plan =
  dir_rva :: u32
  dir_size :: u32

record guest_pe_plan =
  original_base :: u32
  target_base :: u32
  image_size :: u32
  entry_rva :: u32
  header_size :: u32
  section_alignment :: u32
  file_alignment :: u32
  relocation_blocks :: u32
  highlow_count :: u32
  absolute_count :: u32
  section_count :: u16
  sections :: "guest_pe_section_plan list"
  directories :: "guest_pe_directory_plan list"

type_synonym 'a pe_result = "guest_pe_error + 'a"

fun pe_bind :: "'a pe_result \<Rightarrow> ('a \<Rightarrow> 'b pe_result) \<Rightarrow> 'b pe_result" where
  "pe_bind (Inl e) f = Inl e"
| "pe_bind (Inr x) f = f x"

lemma pe_bind_Inr_iff: "pe_bind r f = Inr y \<longleftrightarrow> (\<exists>x. r = Inr x \<and> f x = Inr y)"
  by (cases r) auto

section \<open>Bounded access\<close>

definition guest_pe_target_supported :: "u32 \<Rightarrow> bool" where
  "guest_pe_target_supported base \<longleftrightarrow> base = GUEST_PE_PC_TARGET_BASE \<or> base = GUEST_PE_VITA_TARGET_BASE"

definition guest_pe_span_size :: "nat \<Rightarrow> nat \<Rightarrow> nat \<Rightarrow> bool" where
  "guest_pe_span_size capacity offset len \<longleftrightarrow> offset \<le> capacity \<and> len \<le> capacity - offset"

definition guest_pe_span_u32 :: "u32 \<Rightarrow> u32 \<Rightarrow> u32 \<Rightarrow> bool" where
  "guest_pe_span_u32 capacity offset len \<longleftrightarrow> offset \<le> capacity \<and> len \<le> capacity - offset"

definition guest_pe_read_u16 :: "u8 list \<Rightarrow> nat \<Rightarrow> nat \<Rightarrow> u16 option" where
  "guest_pe_read_u16 data len offset =
     (if \<not> guest_pe_span_size len offset 2 then None
      else Some (ucast (data ! offset) OR push_bit 8 (ucast (data ! (offset + 1)))))"

definition guest_pe_read_u32 :: "u8 list \<Rightarrow> nat \<Rightarrow> nat \<Rightarrow> u32 option" where
  "guest_pe_read_u32 data len offset =
     (if \<not> guest_pe_span_size len offset 4 then None
      else Some (ucast (data ! offset) OR push_bit 8 (ucast (data ! (offset + 1))) OR
             push_bit 16 (ucast (data ! (offset + 2))) OR push_bit 24 (ucast (data ! (offset + 3)))))"

definition guest_pe_write_u32 :: "u8 list \<Rightarrow> nat \<Rightarrow> nat \<Rightarrow> u32 \<Rightarrow> u8 list option" where
  "guest_pe_write_u32 data len offset v =
     (if \<not> guest_pe_span_size len offset 4 then None
      else Some (data[offset := ucast v, offset + 1 := ucast (drop_bit 8 v),
             offset + 2 := ucast (drop_bit 16 v), offset + 3 := ucast (drop_bit 24 v)]))"

definition guest_pe_authenticate :: "pe_contract \<Rightarrow> u8 list \<Rightarrow> guest_pe_error" where
  "guest_pe_authenticate k raw =
     (if length raw \<noteq> expected_file_size k then GUEST_PE_ERR_FILE_SIZE
      else if guest_pe_sha256 raw = expected_file_sha256 k then GUEST_PE_OK else GUEST_PE_ERR_FILE_HASH)"

fun rva_in_sections :: "guest_pe_section_plan list \<Rightarrow> u32 \<Rightarrow> u32 \<Rightarrow> u32 option" where
  "rva_in_sections [] rva len = None"
| "rva_in_sections (s # ss) rva len =
     (if rva < virtual_address s then rva_in_sections ss rva len
      else
        let within = rva - virtual_address s in
        if within \<le> copy_size s \<and> len \<le> copy_size s - within \<and> raw_offset s \<le> 0xFFFFFFFF - within
        then Some (raw_offset s + within) else rva_in_sections ss rva len)"

definition guest_pe_rva_to_raw :: "guest_pe_plan \<Rightarrow> u32 \<Rightarrow> u32 \<Rightarrow> u32 option" where
  "guest_pe_rva_to_raw plan rva len =
     (if rva < header_size plan \<and> guest_pe_span_u32 (header_size plan) rva len then Some rva
      else rva_in_sections (sections plan) rva len)"

section \<open>The relocation table of the file\<close>

function validate_entries ::
    "u8 list \<Rightarrow> u32 \<Rightarrow> u32 \<Rightarrow> nat \<Rightarrow> nat \<Rightarrow> nat \<Rightarrow> u32 \<Rightarrow> u32 \<Rightarrow> (u32 \<times> u32) pe_result" where
  "validate_entries raw isize page blk block_len entry_offset highlow absolute =
     (if entry_offset < block_len then
        case guest_pe_read_u16 raw (length raw) (blk + entry_offset) of
          None \<Rightarrow> Inl GUEST_PE_ERR_RELOC_BLOCK
        | Some entry \<Rightarrow>
            let type = drop_bit 12 (ucast entry :: u32); within = ucast entry AND 0xFFF in
            if type = 0 then validate_entries raw isize page blk block_len (entry_offset + 2) highlow (absolute + 1)
            else if type \<noteq> 3 then Inl GUEST_PE_ERR_RELOC_TYPE
            else if page > 0xFFFFFFFF - within then Inl GUEST_PE_ERR_RELOC_TARGET
            else if \<not> guest_pe_span_u32 isize (page + within) 4 then Inl GUEST_PE_ERR_RELOC_TARGET
            else validate_entries raw isize page blk block_len (entry_offset + 2) (highlow + 1) absolute
      else Inr (highlow, absolute))"
  by pat_completeness auto
termination by (relation "measure (\<lambda>(raw, isize, page, blk, n, i, h, a). n - i)") auto

declare validate_entries.simps [simp del]

function validate_blocks ::
    "u8 list \<Rightarrow> u32 \<Rightarrow> nat \<Rightarrow> nat \<Rightarrow> nat \<Rightarrow> u32 \<Rightarrow> u32 \<Rightarrow> u32 \<Rightarrow> (nat \<times> u32 \<times> u32 \<times> u32) pe_result" where
  "validate_blocks raw isize base len offset blocks highlow absolute =
     (if offset < len then
        let remaining = len - offset in
        case (guest_pe_read_u32 raw (length raw) (base + offset),
              guest_pe_read_u32 raw (length raw) (base + offset + 4)) of
          (Some page, Some block_len) \<Rightarrow>
            if remaining < 8 then Inl GUEST_PE_ERR_RELOC_BLOCK
            else if unat block_len < 8 \<or> block_len AND 1 \<noteq> 0 \<or> remaining < unat block_len \<or>
               page AND 0xFFF \<noteq> 0 \<or> page \<ge> isize
            then Inl GUEST_PE_ERR_RELOC_BLOCK
            else (case validate_entries raw isize page (base + offset) (unat block_len) 8 highlow absolute of
                Inl e \<Rightarrow> Inl e
              | Inr (highlow, absolute) \<Rightarrow>
                  validate_blocks raw isize base len (offset + unat block_len) (blocks + 1) highlow absolute)
        | _ \<Rightarrow> Inl GUEST_PE_ERR_RELOC_BLOCK
      else Inr (offset, blocks, highlow, absolute))"
  by pat_completeness auto
termination by (relation "measure (\<lambda>(raw, isize, base, n, i, b, h, a). n - i)") auto

declare validate_blocks.simps [simp del]

definition guest_pe_validate_relocations_raw :: "pe_contract \<Rightarrow> u8 list \<Rightarrow> guest_pe_plan \<Rightarrow> guest_pe_plan pe_result" where
  "guest_pe_validate_relocations_raw k raw plan =
     (let directory = directories plan ! 5 in
      if dir_rva directory = 0 \<or> dir_size directory = 0 then Inl GUEST_PE_ERR_RELOC_DIRECTORY
      else case guest_pe_rva_to_raw plan (dir_rva directory) (dir_size directory) of
        None \<Rightarrow> Inl GUEST_PE_ERR_RELOC_DIRECTORY
      | Some raw_off \<Rightarrow>
          if \<not> guest_pe_span_size (length raw) (unat raw_off) (unat (dir_size directory))
          then Inl GUEST_PE_ERR_RELOC_DIRECTORY
          else pe_bind (validate_blocks raw (image_size plan) (unat raw_off) (unat (dir_size directory)) 0 0 0 0)
            (\<lambda>(offset, blocks, highlow, absolute).
             if offset \<noteq> unat (dir_size directory) then Inl GUEST_PE_ERR_RELOC_BLOCK
             else if blocks \<noteq> expected_reloc_blocks k \<or> highlow \<noteq> expected_highlow_count k \<or>
               absolute \<noteq> expected_absolute_count k
             then Inl GUEST_PE_ERR_RELOC_COUNT
             else Inr (plan\<lparr>relocation_blocks := blocks, highlow_count := highlow,
                             absolute_count := absolute\<rparr>)))"

section \<open>Headers\<close>

definition parse_coff :: "pe_contract \<Rightarrow> u8 list \<Rightarrow> (u32 \<times> u16 \<times> u16) pe_result" where
  "parse_coff k raw =
     (if length raw < 64 \<or> raw ! 0 \<noteq> 0x4D \<or> raw ! 1 \<noteq> 0x5A then Inl GUEST_PE_ERR_DOS_HEADER
      else case guest_pe_read_u32 raw (length raw) 0x3C of
        None \<Rightarrow> Inl GUEST_PE_ERR_PE_OFFSET
      | Some pe_offset \<Rightarrow>
          if \<not> guest_pe_span_size (length raw) (unat pe_offset) 24 then Inl GUEST_PE_ERR_PE_OFFSET
          else if guest_pe_read_u32 raw (length raw) (unat pe_offset) \<noteq> Some 0x00004550
          then Inl GUEST_PE_ERR_PE_SIGNATURE
          else case (guest_pe_read_u16 raw (length raw) (unat pe_offset + 4),
              guest_pe_read_u16 raw (length raw) (unat pe_offset + 6),
              guest_pe_read_u16 raw (length raw) (unat pe_offset + 20)) of
            (Some machine, Some count, Some optional_size) \<Rightarrow>
              if machine \<noteq> 0x014C \<or> count \<noteq> expected_section_count k \<or>
                 count > GUEST_PE_MAX_SECTIONS \<or> optional_size \<noteq> 0x00E0
              then Inl GUEST_PE_ERR_COFF_HEADER
              else Inr (pe_offset, count, optional_size)
          | _ \<Rightarrow> Inl GUEST_PE_ERR_COFF_HEADER)"

text \<open>The optional header; the plan without sections and directories, and where their tables are.\<close>

definition parse_optional ::
    "pe_contract \<Rightarrow> u8 list \<Rightarrow> u32 \<Rightarrow> u32 \<Rightarrow> u16 \<Rightarrow> u16 \<Rightarrow> (guest_pe_plan \<times> u32 \<times> u32) pe_result" where
  "parse_optional k raw base pe_offset count optional_size =
     (let optional_offset = pe_offset + 24;
          field = (\<lambda>n. guest_pe_read_u32 raw (length raw) (unat (optional_offset + n))) in
      if optional_offset < pe_offset \<or>
         \<not> guest_pe_span_size (length raw) (unat optional_offset) (unat optional_size)
      then Inl GUEST_PE_ERR_OPTIONAL_HEADER
      else case guest_pe_read_u16 raw (length raw) (unat optional_offset) of
        None \<Rightarrow> Inl GUEST_PE_ERR_OPTIONAL_HEADER
      | Some optional_magic \<Rightarrow>
        case those [field 16, field 28, field 32, field 36, field 56, field 60, field 92] of
        Some [entry, ibase, salign, falign, isize, hsize, directory_count] \<Rightarrow>
          if optional_magic \<noteq> 0x010B \<or> directory_count \<noteq> 16 \<or> ibase \<noteq> expected_original_base k \<or>
             isize \<noteq> expected_image_size k \<or> entry \<noteq> expected_entry_rva k \<or>
             hsize \<noteq> expected_header_size k \<or> salign \<noteq> 0x1000 \<or> falign \<noteq> 0x200 \<or>
             \<not> guest_pe_span_size (length raw) 0 (unat hsize)
          then Inl GUEST_PE_ERR_CONTRACT
          else
            let section_table = optional_offset + ucast optional_size in
            if section_table < optional_offset \<or>
               \<not> guest_pe_span_size (length raw) (unat section_table) (unat count * 40) \<or>
               section_table > hsize \<or> unat count * 40 > unat (hsize - section_table)
            then Inl GUEST_PE_ERR_SECTION_TABLE
            else Inr (\<lparr>original_base = ibase, target_base = base, image_size = isize, entry_rva = entry,
                header_size = hsize, section_alignment = salign, file_alignment = falign,
                relocation_blocks = 0, highlow_count = 0, absolute_count = 0, section_count = count,
                sections = [], directories = []\<rparr>, optional_offset, section_table)
      | _ \<Rightarrow> Inl GUEST_PE_ERR_OPTIONAL_HEADER)"

section \<open>Sections\<close>

definition read_section :: "u8 list \<Rightarrow> nat \<Rightarrow> guest_pe_section_plan option" where
  "read_section raw offset =
     (case those (map (\<lambda>n. guest_pe_read_u32 raw (length raw) (offset + n)) [8, 12, 16, 20, 36]) of
        Some [vsize, va, rsize, roff, ch] \<Rightarrow>
          Some \<lparr>section_name = take 8 (drop offset raw) @ [0], virtual_address = va, virtual_size = vsize,
             raw_offset = roff, raw_size = rsize,
             copy_size = if vsize \<noteq> 0 \<and> rsize > vsize then vsize else rsize,
             mapped_size = if vsize \<noteq> 0 then vsize else rsize, characteristics = ch\<rparr>
      | _ \<Rightarrow> None)"

definition sections_overlap :: "guest_pe_section_plan \<Rightarrow> guest_pe_section_plan \<Rightarrow> bool" where
  "sections_overlap s previous \<longleftrightarrow>
     (let section_end = virtual_address s + mapped_size s;
          previous_end = virtual_address previous + mapped_size previous in
      mapped_size s \<noteq> 0 \<and> mapped_size previous \<noteq> 0 \<and> virtual_address s < previous_end \<and>
      virtual_address previous < section_end) \<or>
     (raw_size s \<noteq> 0 \<and> raw_size previous \<noteq> 0 \<and>
      (let raw_end = raw_offset s + raw_size s; previous_raw_end = raw_offset previous + raw_size previous in
       raw_offset s < previous_raw_end \<and> raw_offset previous < raw_end))"

definition check_section :: "u8 list \<Rightarrow> guest_pe_plan \<Rightarrow> guest_pe_section_plan \<Rightarrow> guest_pe_section_plan pe_result" where
  "check_section raw plan s =
     (if virtual_address s AND (section_alignment plan - 1) \<noteq> 0 \<or> virtual_address s < header_size plan \<or>
         \<not> guest_pe_span_u32 (image_size plan) (virtual_address s) (mapped_size s) \<or>
         \<not> guest_pe_span_u32 (image_size plan) (virtual_address s) (copy_size s)
      then Inl GUEST_PE_ERR_SECTION_DESTINATION
      else if raw_size s \<noteq> 0 \<and> (raw_offset s AND (file_alignment plan - 1) \<noteq> 0 \<or>
         raw_offset s < header_size plan \<or>
         \<not> guest_pe_span_size (length raw) (unat (raw_offset s)) (unat (raw_size s)))
      then Inl GUEST_PE_ERR_SECTION_SOURCE
      else if list_ex (sections_overlap s) (sections plan) then Inl GUEST_PE_ERR_SECTION_OVERLAP
      else Inr s)"

fun parse_sections :: "u8 list \<Rightarrow> nat \<Rightarrow> guest_pe_plan \<Rightarrow> nat \<Rightarrow> guest_pe_plan pe_result" where
  "parse_sections raw offset plan 0 = Inr plan"
| "parse_sections raw offset plan (Suc n) =
     (case read_section raw offset of
        None \<Rightarrow> Inl GUEST_PE_ERR_SECTION_TABLE
      | Some s \<Rightarrow> pe_bind (check_section raw plan s) (\<lambda>s.
          parse_sections raw (offset + 40) (plan\<lparr>sections := sections plan @ [s]\<rparr>) n))"

section \<open>Directories and the entry point\<close>

definition parse_directory :: "u8 list \<Rightarrow> guest_pe_plan \<Rightarrow> nat \<Rightarrow> nat \<Rightarrow> guest_pe_directory_plan pe_result" where
  "parse_directory raw plan offset i =
     (case (guest_pe_read_u32 raw (length raw) offset, guest_pe_read_u32 raw (length raw) (offset + 4)) of
        (Some rva, Some len) \<Rightarrow>
          if rva = 0 \<and> len = 0 then Inr \<lparr>dir_rva = rva, dir_size = len\<rparr>
          else if rva = 0 \<or> len = 0 \<or> i = 4 \<or> \<not> guest_pe_span_u32 (image_size plan) rva len
          then Inl GUEST_PE_ERR_DIRECTORY
          else (case guest_pe_rva_to_raw plan rva len of
              None \<Rightarrow> Inl GUEST_PE_ERR_DIRECTORY_RAW
            | Some raw_off \<Rightarrow> if \<not> guest_pe_span_size (length raw) (unat raw_off) (unat len)
                then Inl GUEST_PE_ERR_DIRECTORY_RAW else Inr \<lparr>dir_rva = rva, dir_size = len\<rparr>)
      | _ \<Rightarrow> Inl GUEST_PE_ERR_DIRECTORY)"

fun parse_directories :: "u8 list \<Rightarrow> nat \<Rightarrow> guest_pe_plan \<Rightarrow> nat list \<Rightarrow> guest_pe_plan pe_result" where
  "parse_directories raw optional plan [] = Inr plan"
| "parse_directories raw optional plan (i # is) =
     pe_bind (parse_directory raw plan (optional + 96 + i * 8) i) (\<lambda>d.
       parse_directories raw optional (plan\<lparr>directories := directories plan @ [d]\<rparr>) is)"

definition entry_section :: "u32 \<Rightarrow> guest_pe_section_plan \<Rightarrow> bool" where
  "entry_section entry s \<longleftrightarrow> characteristics s AND 0x20000000 \<noteq> 0 \<and> entry \<ge> virtual_address s \<and>
     entry - virtual_address s < mapped_size s"

definition guest_pe_parse_bounded :: "pe_contract \<Rightarrow> u8 list \<Rightarrow> u32 \<Rightarrow> guest_pe_plan pe_result" where
  "guest_pe_parse_bounded k raw base =
     (if \<not> guest_pe_target_supported base \<or> base > 0xFFFFFFFF - expected_image_size k
      then Inl GUEST_PE_ERR_CONTRACT
      else if length raw > 0xFFFFFFFF then Inl GUEST_PE_ERR_FILE_SIZE
      else
        pe_bind (parse_coff k raw) (\<lambda>(pe_offset, count, optional_size).
        pe_bind (parse_optional k raw base pe_offset count optional_size) (\<lambda>(plan, optional_offset, table).
        pe_bind (parse_sections raw (unat table) plan (unat count)) (\<lambda>plan.
        pe_bind (parse_directories raw (unat optional_offset) plan [0..<GUEST_PE_DIRECTORY_COUNT]) (\<lambda>plan.
        if dir_rva (directories plan ! 5) \<noteq> expected_reloc_rva k \<or>
           dir_size (directories plan ! 5) \<noteq> expected_reloc_size k \<or>
           dir_rva (directories plan ! 9) \<noteq> expected_tls_rva k \<or>
           dir_size (directories plan ! 9) \<noteq> expected_tls_size k
        then Inl GUEST_PE_ERR_CONTRACT
        else if \<not> list_ex (entry_section (entry_rva plan)) (sections plan) then Inl GUEST_PE_ERR_ENTRY_POINT
        else guest_pe_validate_relocations_raw k raw plan)))))"

section \<open>Mapping\<close>

fun copy_sections :: "u8 list \<Rightarrow> u32 \<Rightarrow> u8 list \<Rightarrow> guest_pe_section_plan list \<Rightarrow> u8 list pe_result" where
  "copy_sections raw isize img [] = Inr img"
| "copy_sections raw isize img (s # ss) =
     (if \<not> guest_pe_span_size (length raw) (unat (raw_offset s)) (unat (copy_size s))
      then Inl GUEST_PE_ERR_SECTION_SOURCE
      else if \<not> guest_pe_span_u32 isize (virtual_address s) (copy_size s)
      then Inl GUEST_PE_ERR_SECTION_DESTINATION
      else
        let at = unat (virtual_address s); n = unat (copy_size s) in
        copy_sections raw isize
          (if n \<noteq> 0 then take at img @ take n (drop (unat (raw_offset s)) raw) @ drop (at + n) img else img) ss)"

text \<open>The second reading of the relocation table, from the image that is being relocated.\<close>

function relocate_entries ::
    "u8 list \<Rightarrow> u32 \<Rightarrow> u32 \<Rightarrow> u32 \<Rightarrow> nat \<Rightarrow> nat \<Rightarrow> nat \<Rightarrow> u32 \<Rightarrow> u32 \<Rightarrow> (u8 list \<times> u32 \<times> u32) pe_result" where
  "relocate_entries img isize delta page blk block_len entry_offset highlow absolute =
     (if entry_offset < block_len then
        case guest_pe_read_u16 img (unat isize) (blk + entry_offset) of
          None \<Rightarrow> Inl GUEST_PE_ERR_RELOC_BLOCK
        | Some entry \<Rightarrow>
            let type = drop_bit 12 (ucast entry :: u32); within = ucast entry AND 0xFFF in
            if type = 0
            then relocate_entries img isize delta page blk block_len (entry_offset + 2) highlow (absolute + 1)
            else if type \<noteq> 3 then Inl GUEST_PE_ERR_RELOC_TYPE
            else if page > 0xFFFFFFFF - within then Inl GUEST_PE_ERR_RELOC_TARGET
            else if \<not> guest_pe_span_u32 isize (page + within) 4 then Inl GUEST_PE_ERR_RELOC_TARGET
            else (case guest_pe_read_u32 img (unat isize) (unat (page + within)) of
                None \<Rightarrow> Inl GUEST_PE_ERR_RELOC_TARGET
              | Some v \<Rightarrow> (case guest_pe_write_u32 img (unat isize) (unat (page + within)) (v + delta) of
                    None \<Rightarrow> Inl GUEST_PE_ERR_RELOC_TARGET
                  | Some img \<Rightarrow>
                      relocate_entries img isize delta page blk block_len (entry_offset + 2) (highlow + 1) absolute))
      else Inr (img, highlow, absolute))"
  by pat_completeness auto
termination by (relation "measure (\<lambda>(img, isize, delta, page, blk, n, i, h, a). n - i)") auto

declare relocate_entries.simps [simp del]

function relocate_blocks ::
    "u8 list \<Rightarrow> u32 \<Rightarrow> u32 \<Rightarrow> nat \<Rightarrow> nat \<Rightarrow> nat \<Rightarrow> u32 \<Rightarrow> u32 \<Rightarrow> u32 \<Rightarrow>
       (u8 list \<times> nat \<times> u32 \<times> u32 \<times> u32) pe_result" where
  "relocate_blocks img isize delta rva len offset blocks highlow absolute =
     (if offset < len then
        let remaining = len - offset; blk = rva + offset in
        case (guest_pe_read_u32 img (unat isize) blk, guest_pe_read_u32 img (unat isize) (blk + 4)) of
          (Some page, Some block_len) \<Rightarrow>
            if remaining < 8 \<or> unat block_len < 8 \<or> block_len AND 1 \<noteq> 0 \<or> remaining < unat block_len \<or>
               page AND 0xFFF \<noteq> 0 \<or> page \<ge> isize
            then Inl GUEST_PE_ERR_RELOC_BLOCK
            else (case relocate_entries img isize delta page blk (unat block_len) 8 highlow absolute of
                Inl e \<Rightarrow> Inl e
              | Inr (img, highlow, absolute) \<Rightarrow>
                  relocate_blocks img isize delta rva len (offset + unat block_len) (blocks + 1) highlow absolute)
        | _ \<Rightarrow> Inl GUEST_PE_ERR_RELOC_BLOCK
      else Inr (img, offset, blocks, highlow, absolute))"
  by pat_completeness auto
termination by (relation "measure (\<lambda>(img, isize, delta, rva, n, i, b, h, a). n - i)") auto

declare relocate_blocks.simps [simp del]

text \<open>The result is the first \<open>image_size\<close> bytes of the buffer, which has room for \<open>capacity\<close>.\<close>

definition guest_pe_map_image :: "pe_contract \<Rightarrow> u8 list \<Rightarrow> guest_pe_plan \<Rightarrow> nat \<Rightarrow> u8 list pe_result" where
  "guest_pe_map_image k raw plan capacity =
     (if \<not> guest_pe_target_supported (target_base plan) \<or> original_base plan \<noteq> expected_original_base k \<or>
         image_size plan \<noteq> expected_image_size k \<or> header_size plan \<noteq> expected_header_size k \<or>
         section_count plan \<noteq> expected_section_count k \<or> capacity < unat (image_size plan) \<or>
         \<not> guest_pe_span_size (length raw) 0 (unat (header_size plan))
      then Inl GUEST_PE_ERR_CONTRACT
      else
        let img = take (unat (header_size plan)) raw @
              drop (unat (header_size plan)) (replicate (unat (image_size plan)) 0) in
        pe_bind (copy_sections raw (image_size plan) img (sections plan)) (\<lambda>img.
        let directory = directories plan ! 5 in
        if dir_rva directory \<noteq> expected_reloc_rva k \<or> dir_size directory \<noteq> expected_reloc_size k \<or>
           \<not> guest_pe_span_u32 (image_size plan) (dir_rva directory) (dir_size directory)
        then Inl GUEST_PE_ERR_RELOC_DIRECTORY
        else
          let delta = target_base plan - original_base plan in
          pe_bind (relocate_blocks img (image_size plan) delta (unat (dir_rva directory))
              (unat (dir_size directory)) 0 0 0 0) (\<lambda>(img, offset, blocks, highlow, absolute).
          if offset \<noteq> unat (dir_size directory) then Inl GUEST_PE_ERR_RELOC_BLOCK
          else if blocks \<noteq> relocation_blocks plan \<or> highlow \<noteq> highlow_count plan \<or>
             absolute \<noteq> absolute_count plan \<or> blocks \<noteq> expected_reloc_blocks k \<or>
             highlow \<noteq> expected_highlow_count k \<or> absolute \<noteq> expected_absolute_count k
          then Inl GUEST_PE_ERR_RELOC_COUNT
          else if guest_pe_sha256 img \<noteq> (if target_base plan = GUEST_PE_VITA_TARGET_BASE
               then expected_map_sha256 k else expected_pc_map_sha256 k)
          then Inl GUEST_PE_ERR_MAP_HASH
          else Inr img)))"

end
