(* ===== verification/Guest_Pe_Load.thy ===== *)
theory Guest_Pe_Load
  imports Guest_Pe
begin

text \<open>
  Loading the executable from a file (\<open>guest_pe_load_file\<close>, \<open>guest_pe_release_loaded\<close>).  The
  loader reaches the file and the two allocators only through the table \<open>guest_pe_loader_ops\<close>.
  Here each entry of the table is a function on the state behind its \<open>context\<close> pointer, so
  an entry may fail at any call, and \<open>None\<close> is a null entry.  The raw buffer is memory behind the
  same state: \<open>read_file\<close> fills it and returns a count, and the loader's own reads of the buffer,
  to authenticate, parse and map the file, are the parameter \<open>raw_bytes\<close>.
\<close>

section \<open>The loader\<close>

record ('w, 'f, 'r, 'i) guest_pe_loader_ops =
  open_file :: "('w \<Rightarrow> string \<Rightarrow> 'f option \<times> 'w) option"
  file_size :: "('w \<Rightarrow> 'f \<Rightarrow> u64 option \<times> 'w) option"
  rewind_file :: "('w \<Rightarrow> 'f \<Rightarrow> int \<times> 'w) option"
  read_file :: "('w \<Rightarrow> 'f \<Rightarrow> 'r \<Rightarrow> nat \<Rightarrow> nat \<times> 'w) option"
  close_file :: "('w \<Rightarrow> 'f \<Rightarrow> int \<times> 'w) option"
  raw_alloc :: "('w \<Rightarrow> nat \<Rightarrow> 'r option \<times> 'w) option"
  raw_free :: "('w \<Rightarrow> 'r \<Rightarrow> 'w) option"
  image_alloc :: "('w \<Rightarrow> u32 \<Rightarrow> u32 \<Rightarrow> 'i option \<times> 'w) option"
  image_free :: "('w \<Rightarrow> 'i \<Rightarrow> 'w) option"

text \<open>What the buffer holds when it is read.\<close>

type_synonym ('w, 'r) raw_memory = "'w \<Rightarrow> 'r \<Rightarrow> u8 list \<times> 'w"

text \<open>A loaded image is its allocation with the bytes in it.\<close>

record 'i guest_pe_loaded_image =
  loaded_image :: "('i \<times> u8 list) option"
  loaded_plan :: guest_pe_plan

definition empty_plan :: guest_pe_plan where
  "empty_plan = \<lparr>original_base = 0, target_base = 0, image_size = 0, entry_rva = 0, header_size = 0,
     section_alignment = 0, file_alignment = 0, relocation_blocks = 0, highlow_count = 0, absolute_count = 0,
     section_count = 0, sections = [], directories = []\<rparr>"

definition empty_loaded :: "'i guest_pe_loaded_image" where
  "empty_loaded = \<lparr>loaded_image = None, loaded_plan = empty_plan\<rparr>"

definition ops_missing :: "('w, 'f, 'r, 'i) guest_pe_loader_ops \<Rightarrow> bool" where
  "ops_missing ops \<longleftrightarrow> open_file ops = None \<or> file_size ops = None \<or> rewind_file ops = None \<or>
     read_file ops = None \<or> close_file ops = None \<or> raw_alloc ops = None \<or> raw_free ops = None \<or>
     image_alloc ops = None \<or> image_free ops = None"

text \<open>The label \<open>cleanup\<close>: what is still held is released.\<close>

definition load_cleanup ::
    "('w, 'f, 'r, 'i) guest_pe_loader_ops \<Rightarrow> 'w \<Rightarrow> 'f option \<Rightarrow> 'r option \<Rightarrow> 'i option \<Rightarrow> guest_pe_error \<Rightarrow>
       'i guest_pe_loaded_image \<Rightarrow> guest_pe_error \<times> 'i guest_pe_loaded_image \<times> 'w" where
  "load_cleanup ops w file raw img error loaded =
     (let (error, w) = (case file of None \<Rightarrow> (error, w)
            | Some f \<Rightarrow> (let (close_error, w) = the (close_file ops) w f in
                (if error = GUEST_PE_OK \<and> close_error \<noteq> 0 then GUEST_PE_ERR_CLOSE else error, w)));
          w = (case raw of None \<Rightarrow> w | Some r \<Rightarrow> the (raw_free ops) w r);
          w = (case img of None \<Rightarrow> w | Some i \<Rightarrow> the (image_free ops) w i) in
      (error, if error \<noteq> GUEST_PE_OK then empty_loaded else loaded, w))"

text \<open>From the closed file on: authenticate, parse, allocate, map, each on the bytes in the buffer.\<close>

definition load_image ::
    "pe_contract \<Rightarrow> ('w, 'f, 'r, 'i) guest_pe_loader_ops \<Rightarrow> ('w, 'r) raw_memory \<Rightarrow> u32 \<Rightarrow> 'w \<Rightarrow> 'r \<Rightarrow>
       guest_pe_error \<times> 'i guest_pe_loaded_image \<times> 'w" where
  "load_image k ops raw_bytes base w r =
     (let (data, w) = raw_bytes w r; error = guest_pe_authenticate k data in
      if error \<noteq> GUEST_PE_OK then load_cleanup ops w None (Some r) None error empty_loaded
      else let (data, w) = raw_bytes w r in
        case guest_pe_parse_bounded k data base of
          Inl error \<Rightarrow> load_cleanup ops w None (Some r) None error empty_loaded
        | Inr plan \<Rightarrow>
            (case the (image_alloc ops) w (target_base plan) (image_size plan) of
              (None, w) \<Rightarrow> load_cleanup ops w None (Some r) None GUEST_PE_ERR_IMAGE_ALLOC empty_loaded
            | (Some i, w) \<Rightarrow>
                let (data, w) = raw_bytes w r in
                case guest_pe_map_image k data plan (unat (image_size plan)) of
                  Inl error \<Rightarrow> load_cleanup ops w None (Some r) (Some i) error empty_loaded
                | Inr bytes \<Rightarrow> load_cleanup ops w None (Some r) None GUEST_PE_OK
                    \<lparr>loaded_image = Some (i, bytes), loaded_plan = plan\<rparr>))"

text \<open>With the file open: measure, rewind, read all of it, close.\<close>

definition load_opened ::
    "pe_contract \<Rightarrow> ('w, 'f, 'r, 'i) guest_pe_loader_ops \<Rightarrow> ('w, 'r) raw_memory \<Rightarrow> u32 \<Rightarrow> 'w \<Rightarrow> 'f \<Rightarrow>
       guest_pe_error \<times> 'i guest_pe_loaded_image \<times> 'w" where
  "load_opened k ops raw_bytes base w f =
     (case the (file_size ops) w f of
       (None, w) \<Rightarrow> load_cleanup ops w (Some f) None None GUEST_PE_ERR_SIZE_IO empty_loaded
     | (Some n, w) \<Rightarrow>
         if unat n \<noteq> expected_file_size k
         then load_cleanup ops w (Some f) None None GUEST_PE_ERR_FILE_SIZE empty_loaded
         else let (rewound, w) = the (rewind_file ops) w f in
           if rewound \<noteq> 0 then load_cleanup ops w (Some f) None None GUEST_PE_ERR_REWIND empty_loaded
           else case the (raw_alloc ops) w (expected_file_size k) of
             (None, w) \<Rightarrow> load_cleanup ops w (Some f) None None GUEST_PE_ERR_RAW_ALLOC empty_loaded
           | (Some r, w) \<Rightarrow>
               let (amount, w) = the (read_file ops) w f r (expected_file_size k) in
               if amount \<noteq> expected_file_size k
               then load_cleanup ops w (Some f) (Some r) None GUEST_PE_ERR_READ empty_loaded
               else let (closed, w) = the (close_file ops) w f in
                 if closed \<noteq> 0 then load_cleanup ops w None (Some r) None GUEST_PE_ERR_CLOSE empty_loaded
                 else load_image k ops raw_bytes base w r)"

text \<open>\<open>out\<close> says whether the caller gave a place for the result.\<close>

definition guest_pe_load_file ::
    "pe_contract \<Rightarrow> ('w, 'f, 'r, 'i) guest_pe_loader_ops option \<Rightarrow> ('w, 'r) raw_memory \<Rightarrow>
       string option \<Rightarrow> u32 \<Rightarrow> bool \<Rightarrow> 'w \<Rightarrow>
       guest_pe_error \<times> 'i guest_pe_loaded_image option \<times> 'w" where
  "guest_pe_load_file k ops_ptr raw_bytes path_ptr base out w =
     (if \<not> out then (GUEST_PE_ERR_ARGUMENT, None, w)
      else case (ops_ptr, path_ptr) of
        (Some ops, Some path) \<Rightarrow>
          if ops_missing ops then (GUEST_PE_ERR_ARGUMENT, Some empty_loaded, w)
          else (case the (open_file ops) w path of
              (None, w) \<Rightarrow> (GUEST_PE_ERR_OPEN, Some empty_loaded, w)
            | (Some f, w) \<Rightarrow> (let (error, loaded, w) = load_opened k ops raw_bytes base w f in (error, Some loaded, w)))
      | _ \<Rightarrow> (GUEST_PE_ERR_ARGUMENT, Some empty_loaded, w))"

definition guest_pe_release_loaded ::
    "('w, 'f, 'r, 'i) guest_pe_loader_ops option \<Rightarrow> 'i guest_pe_loaded_image option \<Rightarrow> 'w \<Rightarrow>
       'i guest_pe_loaded_image option \<times> 'w" where
  "guest_pe_release_loaded ops_ptr loaded w =
     (case (ops_ptr, loaded) of
        (Some ops, Some l) \<Rightarrow>
          (Some empty_loaded,
           case (loaded_image l, image_free ops) of (Some (i, bytes), Some free) \<Rightarrow> free w i | _ \<Rightarrow> w)
      | _ \<Rightarrow> (loaded, w))"

text \<open>The text of an error, which the caller prints.\<close>

fun guest_pe_error_string :: "guest_pe_error \<Rightarrow> string" where
  "guest_pe_error_string GUEST_PE_OK = ''success''"
| "guest_pe_error_string GUEST_PE_ERR_ARGUMENT = ''invalid loader argument''"
| "guest_pe_error_string GUEST_PE_ERR_OPEN = ''cannot open PE''"
| "guest_pe_error_string GUEST_PE_ERR_SIZE_IO = ''cannot measure PE''"
| "guest_pe_error_string GUEST_PE_ERR_FILE_SIZE = ''unsupported PE file size''"
| "guest_pe_error_string GUEST_PE_ERR_REWIND = ''cannot rewind PE''"
| "guest_pe_error_string GUEST_PE_ERR_RAW_ALLOC = ''cannot allocate PE input buffer''"
| "guest_pe_error_string GUEST_PE_ERR_READ = ''short PE read''"
| "guest_pe_error_string GUEST_PE_ERR_CLOSE = ''cannot close PE''"
| "guest_pe_error_string GUEST_PE_ERR_FILE_HASH = ''unsupported PE SHA-256''"
| "guest_pe_error_string GUEST_PE_ERR_DOS_HEADER = ''invalid DOS header''"
| "guest_pe_error_string GUEST_PE_ERR_PE_OFFSET = ''invalid PE header offset''"
| "guest_pe_error_string GUEST_PE_ERR_PE_SIGNATURE = ''invalid PE signature''"
| "guest_pe_error_string GUEST_PE_ERR_COFF_HEADER = ''invalid COFF header''"
| "guest_pe_error_string GUEST_PE_ERR_OPTIONAL_HEADER = ''invalid PE32 optional header''"
| "guest_pe_error_string GUEST_PE_ERR_CONTRACT = ''PE differs from frozen contract''"
| "guest_pe_error_string GUEST_PE_ERR_SECTION_TABLE = ''invalid PE section table''"
| "guest_pe_error_string GUEST_PE_ERR_SECTION_SOURCE = ''PE section source is out of file''"
| "guest_pe_error_string GUEST_PE_ERR_SECTION_DESTINATION = ''PE section is out of image''"
| "guest_pe_error_string GUEST_PE_ERR_SECTION_OVERLAP = ''overlapping PE sections''"
| "guest_pe_error_string GUEST_PE_ERR_DIRECTORY = ''invalid PE data directory''"
| "guest_pe_error_string GUEST_PE_ERR_DIRECTORY_RAW = ''PE directory is not file-backed''"
| "guest_pe_error_string GUEST_PE_ERR_ENTRY_POINT = ''PE entry point is not executable''"
| "guest_pe_error_string GUEST_PE_ERR_RELOC_DIRECTORY = ''invalid relocation directory''"
| "guest_pe_error_string GUEST_PE_ERR_RELOC_BLOCK = ''invalid relocation block''"
| "guest_pe_error_string GUEST_PE_ERR_RELOC_TYPE = ''unsupported relocation type''"
| "guest_pe_error_string GUEST_PE_ERR_RELOC_TARGET = ''relocation target is out of image''"
| "guest_pe_error_string GUEST_PE_ERR_RELOC_COUNT = ''relocation census differs from contract''"
| "guest_pe_error_string GUEST_PE_ERR_IMAGE_ALLOC = ''cannot allocate fixed guest image''"
| "guest_pe_error_string GUEST_PE_ERR_MAP_HASH = ''mapped image differs from translator''"

section \<open>What the loader holds\<close>

text \<open>The calls through the table, as they happen.\<close>

datatype ('f, 'r, 'i) pe_event = Opened 'f | File_used 'f | Closed 'f | Raw_taken 'r | Raw_written 'r | Raw_read 'r
  | Raw_freed 'r | Image_taken 'i | Image_freed 'i

definition logged ::
    "('w, 'f, 'r, 'i) guest_pe_loader_ops \<Rightarrow> ('w \<times> ('f, 'r, 'i) pe_event list, 'f, 'r, 'i) guest_pe_loader_ops" where
  "logged ops = \<lparr>
     open_file = map_option (\<lambda>op (w, l) p. (fst (op w p), snd (op w p),
       case fst (op w p) of None \<Rightarrow> l | Some f \<Rightarrow> l @ [Opened f])) (open_file ops),
     file_size = map_option (\<lambda>op (w, l) f. (fst (op w f), snd (op w f), l @ [File_used f])) (file_size ops),
     rewind_file = map_option (\<lambda>op (w, l) f. (fst (op w f), snd (op w f), l @ [File_used f])) (rewind_file ops),
     read_file = map_option (\<lambda>op (w, l) f r n. (fst (op w f r n), snd (op w f r n), l @ [File_used f, Raw_written r]))
       (read_file ops),
     close_file = map_option (\<lambda>op (w, l) f. (fst (op w f), snd (op w f), l @ [Closed f])) (close_file ops),
     raw_alloc = map_option (\<lambda>op (w, l) n. (fst (op w n), snd (op w n),
       case fst (op w n) of None \<Rightarrow> l | Some r \<Rightarrow> l @ [Raw_taken r])) (raw_alloc ops),
     raw_free = map_option (\<lambda>op (w, l) r. (op w r, l @ [Raw_freed r])) (raw_free ops),
     image_alloc = map_option (\<lambda>op (w, l) a n. (fst (op w a n), snd (op w a n),
       case fst (op w a n) of None \<Rightarrow> l | Some i \<Rightarrow> l @ [Image_taken i])) (image_alloc ops),
     image_free = map_option (\<lambda>op (w, l) i. (op w i, l @ [Image_freed i])) (image_free ops)\<rparr>"

text \<open>Reading the buffer is a call as well.\<close>

definition logged_reads :: "('w, 'r) raw_memory \<Rightarrow> ('w \<times> ('f, 'r, 'i) pe_event list, 'r) raw_memory" where
  "logged_reads raw_bytes = (\<lambda>(w, l) r. (fst (raw_bytes w r), snd (raw_bytes w r), l @ [Raw_read r]))"

lemma logged_read [simp]:
  "logged_reads raw_bytes (w, l) r = (fst (raw_bytes w r), snd (raw_bytes w r), l @ [Raw_read r])"
  by (simp add: logged_reads_def)

lemma logged_missing [simp]: "ops_missing (logged ops) = ops_missing ops"
  by (simp add: logged_def ops_missing_def)

lemma logged_call:
  assumes "\<not> ops_missing ops"
  shows "the (open_file (logged ops)) (w, l) p = (fst (the (open_file ops) w p), snd (the (open_file ops) w p),
       case fst (the (open_file ops) w p) of None \<Rightarrow> l | Some f \<Rightarrow> l @ [Opened f])"
    "the (file_size (logged ops)) (w, l) f = (fst (the (file_size ops) w f), snd (the (file_size ops) w f), l @ [File_used f])"
    "the (rewind_file (logged ops)) (w, l) f =
       (fst (the (rewind_file ops) w f), snd (the (rewind_file ops) w f), l @ [File_used f])"
    "the (read_file (logged ops)) (w, l) f r n =
       (fst (the (read_file ops) w f r n), snd (the (read_file ops) w f r n), l @ [File_used f, Raw_written r])"
    "the (close_file (logged ops)) (w, l) f = (fst (the (close_file ops) w f), snd (the (close_file ops) w f), l @ [Closed f])"
    "the (raw_alloc (logged ops)) (w, l) n = (fst (the (raw_alloc ops) w n), snd (the (raw_alloc ops) w n),
       case fst (the (raw_alloc ops) w n) of None \<Rightarrow> l | Some r \<Rightarrow> l @ [Raw_taken r])"
    "the (raw_free (logged ops)) (w, l) r = (the (raw_free ops) w r, l @ [Raw_freed r])"
    "the (image_alloc (logged ops)) (w, l) x m = (fst (the (image_alloc ops) w x m), snd (the (image_alloc ops) w x m),
       case fst (the (image_alloc ops) w x m) of None \<Rightarrow> l | Some i \<Rightarrow> l @ [Image_taken i])"
    "the (image_free (logged ops)) (w, l) i = (the (image_free ops) w i, l @ [Image_freed i])"
  using assms by (auto simp: logged_def ops_missing_def)

text \<open>A use of what is not held, or a second acquisition over the first, has no next state.\<close>

type_synonym ('f, 'r, 'i) pe_held = "'f option \<times> 'r option \<times> 'i option"

fun held_step :: "('f, 'r, 'i) pe_event \<Rightarrow> ('f, 'r, 'i) pe_held \<Rightarrow> ('f, 'r, 'i) pe_held option" where
  "held_step (Opened f) (h, r, i) = (if h = None then Some (Some f, r, i) else None)"
| "held_step (File_used f) (h, r, i) = (if h = Some f then Some (h, r, i) else None)"
| "held_step (Closed f) (h, r, i) = (if h = Some f then Some (None, r, i) else None)"
| "held_step (Raw_taken a) (h, r, i) = (if r = None then Some (h, Some a, i) else None)"
| "held_step (Raw_written a) (h, r, i) = (if r = Some a then Some (h, r, i) else None)"
| "held_step (Raw_read a) (h, r, i) = (if r = Some a then Some (h, r, i) else None)"
| "held_step (Raw_freed a) (h, r, i) = (if r = Some a then Some (h, None, i) else None)"
| "held_step (Image_taken a) (h, r, i) = (if i = None then Some (h, r, Some a) else None)"
| "held_step (Image_freed a) (h, r, i) = (if i = Some a then Some (h, r, None) else None)"

fun held_run :: "('f, 'r, 'i) pe_event list \<Rightarrow> ('f, 'r, 'i) pe_held \<Rightarrow> ('f, 'r, 'i) pe_held option" where
  "held_run [] s = Some s"
| "held_run (e # es) s = (case held_step e s of None \<Rightarrow> None | Some t \<Rightarrow> held_run es t)"

lemma held_run_append: "held_run (es @ fs) s = Option.bind (held_run es s) (held_run fs)"
  by (induction es arbitrary: s) (auto split: option.split)

text \<open>What a stage must deliver when it is entered with the trace \<open>l\<close>.\<close>

definition clean :: "guest_pe_error \<times> 'i guest_pe_loaded_image \<times> 'w \<times> ('f, 'r, 'i) pe_event list \<Rightarrow> bool" where
  "clean out = (case out of (e, loaded, w, l) \<Rightarrow>
     held_run l (None, None, None) = Some (None, None, map_option fst (loaded_image loaded)) \<and>
     (if e = GUEST_PE_OK then loaded_image loaded \<noteq> None else loaded = empty_loaded))"

lemma cleanup_clean:
  assumes "\<not> ops_missing ops" "e \<noteq> GUEST_PE_OK" "held_run l (None, None, None) = Some (f, r, i)"
  shows "clean (load_cleanup (logged ops) (w, l) f r i e loaded)"
  using assms(2,3) by (cases f; cases r; cases i)
    (simp_all add: load_cleanup_def Let_def clean_def logged_call [OF assms(1)] empty_loaded_def held_run_append)

lemma cleanup_success:
  assumes "\<not> ops_missing ops" "held_run l (None, None, None) = Some (None, Some r, Some i)"
  shows "clean (load_cleanup (logged ops) (w, l) None (Some r) None GUEST_PE_OK
    \<lparr>loaded_image = Some (i, bytes), loaded_plan = plan\<rparr>)"
  using assms(2) by (simp add: load_cleanup_def Let_def clean_def logged_call [OF assms(1)] held_run_append)

text \<open>An error is never the value of success.\<close>

lemma pe_bind_Inl_iff: "pe_bind r f = Inl e \<longleftrightarrow> r = Inl e \<or> (\<exists>x. r = Inr x \<and> f x = Inl e)"
  by (cases r) auto

lemma validate_entries_fails: "validate_entries raw isize page blk n i h a \<noteq> Inl GUEST_PE_OK"
proof (induction "n - i" arbitrary: i h a rule: less_induct)
  case less
  show ?case by (subst validate_entries.simps) (auto simp: Let_def less split: option.split)
qed

lemma validate_blocks_fails: "validate_blocks raw isize base n i b h a \<noteq> Inl GUEST_PE_OK"
proof (induction "n - i" arbitrary: i b h a rule: less_induct)
  case less
  have "validate_blocks raw isize base n (i + unat m) b' h' a' \<noteq> Inl GUEST_PE_OK" if "i < n" "\<not> unat (m :: u32) < 8"
    for m b' h' a' using less that by simp
  then show ?case using validate_entries_fails
    by (subst validate_blocks.simps) (auto simp: Let_def split: option.split sum.split)
qed

lemma relocate_entries_fails: "relocate_entries img isize d page blk n i h a \<noteq> Inl GUEST_PE_OK"
proof (induction "n - i" arbitrary: img i h a rule: less_induct)
  case less
  show ?case by (subst relocate_entries.simps) (auto simp: Let_def less split: option.split)
qed

lemma relocate_blocks_fails: "relocate_blocks img isize d rva n i b h a \<noteq> Inl GUEST_PE_OK"
proof (induction "n - i" arbitrary: img i b h a rule: less_induct)
  case less
  have "relocate_blocks img' isize d rva n (i + unat m) b' h' a' \<noteq> Inl GUEST_PE_OK" if "i < n" "\<not> unat (m :: u32) < 8"
    for img' m b' h' a' using less that by simp
  then show ?case using relocate_entries_fails
    by (subst relocate_blocks.simps) (auto simp: Let_def split: option.split sum.split)
qed

lemma parse_sections_fails: "parse_sections raw offset plan n \<noteq> Inl GUEST_PE_OK"
  by (induction n arbitrary: offset plan)
    (auto simp: pe_bind_Inl_iff check_section_def split: option.split)

lemma parse_directories_fails: "parse_directories raw opt plan is \<noteq> Inl GUEST_PE_OK"
  by (induction "is" arbitrary: plan) (auto simp: pe_bind_Inl_iff parse_directory_def split: option.split)

lemma copy_sections_fails: "copy_sections raw isize img ss \<noteq> Inl GUEST_PE_OK"
  by (induction ss arbitrary: img) (auto simp: Let_def)

lemma parse_headers_fail: "parse_coff k raw \<noteq> Inl GUEST_PE_OK" "parse_optional k raw base pe n len \<noteq> Inl GUEST_PE_OK"
  by (auto simp: parse_coff_def parse_optional_def Let_def split: option.split list.split)

lemma validate_relocations_fails: "guest_pe_validate_relocations_raw k raw plan \<noteq> Inl GUEST_PE_OK"
  by (auto simp: guest_pe_validate_relocations_raw_def Let_def validate_blocks_fails pe_bind_Inl_iff split: option.split)

lemma parse_bounded_fails: "guest_pe_parse_bounded k data base \<noteq> Inl GUEST_PE_OK"
  by (simp add: guest_pe_parse_bounded_def pe_bind_Inl_iff parse_headers_fail parse_sections_fails
    parse_directories_fails validate_relocations_fails split: prod.split)

lemma map_image_fails: "guest_pe_map_image k data plan n \<noteq> Inl GUEST_PE_OK"
  by (simp add: guest_pe_map_image_def Let_def pe_bind_Inl_iff copy_sections_fails relocate_blocks_fails
    split: prod.split)

lemma load_image_clean:
  assumes ops: "\<not> ops_missing ops" and l: "held_run l (None, None, None) = Some (None, Some r, None)"
  shows "clean (load_image k (logged ops) (logged_reads raw_bytes) base (w, l) r)"
proof -
  let ?read = "\<lambda>w. fst (raw_bytes w r)" and ?on = "\<lambda>w. snd (raw_bytes w r)"
  have t: "held_run (l @ [Raw_read r]) (None, None, None) = Some (None, Some r, None)"
    "held_run (l @ [Raw_read r, Raw_read r]) (None, None, None) = Some (None, Some r, None)"
    "held_run (l @ [Raw_read r, Raw_read r, Image_taken i, Raw_read r]) (None, None, None) =
       Some (None, Some r, Some i)" for i
    using l by (simp_all add: held_run_append)
  note fail = cleanup_clean [OF ops]
  show ?thesis
  proof (cases "guest_pe_authenticate k (?read w) = GUEST_PE_OK")
    case False
    then show ?thesis using fail [OF False t(1)] by (simp add: load_image_def)
  next
    case a: True
    show ?thesis
    proof (cases "guest_pe_parse_bounded k (?read (?on w)) base")
      case (Inl e)
      then show ?thesis using a fail [OF _ t(2)] parse_bounded_fails [of k "?read (?on w)" base]
        by (auto simp: load_image_def)
    next
      case (Inr plan)
      obtain i u where i: "the (image_alloc ops) (?on (?on w)) (target_base plan) (image_size plan) = (i, u)"
        by (metis surj_pair)
      show ?thesis
      proof (cases i)
        case None
        then show ?thesis using a Inr fail [OF _ t(2)] i
          by (simp add: load_image_def logged_call [OF ops])
      next
        case (Some x)
        have "e \<noteq> GUEST_PE_OK" if "guest_pe_map_image k (?read u) plan (unat (image_size plan)) = Inl e" for e
          using that map_image_fails by metis
        then show ?thesis
          using a Inr i Some fail [OF _ t(3)] cleanup_success [OF ops t(3)]
          by (simp add: load_image_def logged_call [OF ops] split: sum.split)
      qed
    qed
  qed
qed

lemma load_opened_clean:
  assumes "\<not> ops_missing ops" "held_run l (None, None, None) = Some (Some f, None, None)"
  shows "clean (load_opened k (logged ops) (logged_reads raw_bytes) base (w, l) f)"
  unfolding load_opened_def logged_call [OF assms(1)]
  using assms(2)
  by (auto simp: logged_call [OF assms(1)] Let_def held_run_append intro!: cleanup_clean [OF assms(1)]
    load_image_clean [OF assms(1)] split: option.split)

text \<open>
  C33: the loader leaves nothing behind and touches nothing it does not hold.  Whatever the entries of
  the table do or fail to do, in the sequence of calls of one load the file is only used while it is open
  and closed exactly once (also when the close itself fails), the buffer is only written, and only
  read to authenticate, parse and map the file, while it is allocated, and freed exactly once, and the image is kept only by a load that succeeds, which
  hands it to the caller; a load that fails returns an empty result.  Releasing the result then
  leaves nothing held.
\<close>

theorem pe_load_holds_nothing:
  "case guest_pe_load_file k (Some (logged ops)) (logged_reads raw_bytes) path base True (w, []) of (e, loaded, w', l) \<Rightarrow>
     \<exists>res. loaded = Some res \<and>
       held_run l (None, None, None) = Some (None, None, map_option fst (loaded_image res)) \<and>
       (if e = GUEST_PE_OK then loaded_image res \<noteq> None else res = empty_loaded) \<and>
       (case guest_pe_release_loaded (Some (logged ops)) loaded (w', l) of (after, w'', l') \<Rightarrow>
          after = Some empty_loaded \<and> held_run l' (None, None, None) = Some (None, None, None))"
proof -
  obtain e loaded w' l where r: "guest_pe_load_file k (Some (logged ops)) (logged_reads raw_bytes) path base True (w, []) = (e, loaded, w', l)"
    by (metis surj_pair)
  have "\<exists>res. loaded = Some res \<and> clean (e, res, w', l) \<and> (ops_missing ops \<longrightarrow> loaded_image res = None)"
  proof (cases "ops_missing ops \<or> path = None")
    case True
    then show ?thesis using r
      by (auto simp: guest_pe_load_file_def clean_def empty_loaded_def split: option.splits)
  next
    case False
    then obtain p where p: "path = Some p" "\<not> ops_missing ops" by auto
    show ?thesis
    proof (cases "fst (the (open_file ops) w p)")
      case None
      then show ?thesis using r p
        by (auto simp: guest_pe_load_file_def clean_def empty_loaded_def logged_call [OF p(2)])
    next
      case (Some f)
      have "clean (load_opened k (logged ops) (logged_reads raw_bytes) base (snd (the (open_file ops) w p), [Opened f]) f)"
        by (rule load_opened_clean [OF p(2)]) simp
      then show ?thesis using r p Some
        by (auto simp: guest_pe_load_file_def logged_call [OF p(2)] split: prod.splits)
    qed
  qed
  then obtain res where res: "loaded = Some res" "clean (e, res, w', l)" "ops_missing ops \<longrightarrow> loaded_image res = None" by blast
  have "held_run (snd (snd (guest_pe_release_loaded (Some (logged ops)) loaded (w', l)))) (None, None, None) = Some (None, None, None)"
    using res by (cases "image_free ops")
      (auto simp: guest_pe_release_loaded_def clean_def logged_def ops_missing_def held_run_append split: option.split)
  then show ?thesis using res r
    by (auto simp: clean_def guest_pe_release_loaded_def split: prod.splits)
qed

end
