(* ===== verification/Guest_Pe_Map.thy ===== *)
theory Guest_Pe_Map
  imports Guest_Pe
begin

text \<open>
  The image that \<open>guest_pe_map_image\<close> makes from a parsed file: each section where its header
  says, zeros elsewhere, and the delta of the two bases added to the words of the relocation table.
  The loader reads that table twice, first in the file and then in the image it is changing; the
  two readings agree when no relocated word lies in the table itself.
\<close>

unbundle bit_operations_syntax

section \<open>What a mapped image is\<close>

definition word_at :: "u8 list \<Rightarrow> nat \<Rightarrow> u32" where
  "word_at data a = le_of_bytes [data ! a, data ! (a + 1), data ! (a + 2), data ! (a + 3)]"

definition patch :: "u32 \<Rightarrow> u8 list \<Rightarrow> u32 \<Rightarrow> u8 list" where
  "patch delta img t =
     (let a = unat t; w = word_at img a + delta in
      img[a := ucast w, a + 1 := ucast (drop_bit 8 w), a + 2 := ucast (drop_bit 16 w),
            a + 3 := ucast (drop_bit 24 w)])"

definition covers :: "nat \<Rightarrow> guest_pe_section_plan \<Rightarrow> bool" where
  "covers i s \<longleftrightarrow> unat (virtual_address s) \<le> i \<and> i < unat (virtual_address s) + unat (copy_size s)"

definition laid_byte :: "u8 list \<Rightarrow> guest_pe_plan \<Rightarrow> nat \<Rightarrow> u8" where
  "laid_byte raw plan i =
     (if i < unat (header_size plan) then raw ! i
      else case List.find (covers i) (sections plan) of
        None \<Rightarrow> 0
      | Some s \<Rightarrow> raw ! (unat (raw_offset s) + (i - unat (virtual_address s))))"

definition laid_out :: "u8 list \<Rightarrow> guest_pe_plan \<Rightarrow> u8 list" where
  "laid_out raw plan = map (laid_byte raw plan) [0..<unat (image_size plan)]"

text \<open>The addresses a table names, read without any check.\<close>

definition entry_at :: "u8 list \<Rightarrow> nat \<Rightarrow> u16" where
  "entry_at data a = ucast (data ! a) OR push_bit 8 (ucast (data ! (a + 1)))"

definition block_targets :: "u8 list \<Rightarrow> u32 \<Rightarrow> nat \<Rightarrow> nat \<Rightarrow> nat \<Rightarrow> u32 list" where
  "block_targets data page blk block_len i =
     concat (map (\<lambda>j. let entry = ucast (entry_at data (blk + i + 2 * j)) :: u32 in
         if drop_bit 12 entry = 3 then [page + (entry AND 0xFFF)] else []) [0..<(block_len - i + 1) div 2])"

function table_targets :: "u8 list \<Rightarrow> nat \<Rightarrow> nat \<Rightarrow> nat \<Rightarrow> u32 list" where
  "table_targets data base len offset =
     (let n = unat (word_at data (base + offset + 4)) in
      if offset < len \<and> 8 \<le> n
      then block_targets data (word_at data (base + offset)) (base + offset) n 8 @
        table_targets data base len (offset + n)
      else [])"
  by pat_completeness auto
termination by (relation "measure (\<lambda>(data, base, n, i). n - i)") (auto simp: Let_def)

declare table_targets.simps [simp del]

lemma block_targets_step:
  "i < block_len \<Longrightarrow> block_targets data page blk block_len i =
     (let entry = ucast (entry_at data (blk + i)) :: u32 in
      if drop_bit 12 entry = 3 then [page + (entry AND 0xFFF)] else []) @
     block_targets data page blk block_len (i + 2)"
proof -
  assume "i < block_len"
  then have n: "(block_len - i + 1) div 2 = Suc ((block_len - (i + 2) + 1) div 2)" by presburger
  show ?thesis unfolding block_targets_def n upt_conv_Cons [OF zero_less_Suc] map_Suc_upt [symmetric]
    by (simp add: comp_def add.assoc)
qed

lemma block_targets_end: "\<not> i < block_len \<Longrightarrow> block_targets data page blk block_len i = []"
  by (simp add: block_targets_def)

section \<open>Access\<close>

lemma read_u32_word_at: "guest_pe_read_u32 data len a = (if a + 4 \<le> len then Some (word_at data a) else None)"
  by (auto simp: guest_pe_read_u32_def guest_pe_span_size_def word_at_def push_bit_or or.assoc)

lemma read_u16_entry_at: "guest_pe_read_u16 data len a = (if a + 2 \<le> len then Some (entry_at data a) else None)"
  by (auto simp: guest_pe_read_u16_def guest_pe_span_size_def entry_at_def)

lemma write_u32_patch:
  "unat t + 4 \<le> len \<Longrightarrow> guest_pe_write_u32 data len (unat t) (word_at data (unat t) + delta) = Some (patch delta data t)"
  by (simp add: guest_pe_write_u32_def guest_pe_span_size_def patch_def Let_def)

lemma span_u32_nat: "guest_pe_span_u32 c a n \<longleftrightarrow> unat a + unat n \<le> unat c"
proof (cases "a \<le> c")
  case True
  then show ?thesis by (auto simp: guest_pe_span_u32_def word_le_nat_alt unat_sub)
qed (auto simp: guest_pe_span_u32_def word_le_nat_alt)

lemma length_patch [simp]: "length (patch delta img t) = length img"
  by (simp add: patch_def Let_def)

lemma patch_outside: "a < unat t \<or> unat t + 4 \<le> a \<Longrightarrow> patch delta img t ! a = img ! a"
  by (auto simp: patch_def Let_def)

lemma length_patches [simp]: "length (foldl (patch delta) img ts) = length img"
  by (induction ts arbitrary: img) simp_all

lemma patches_outside:
  "(\<And>t. t \<in> set ts \<Longrightarrow> a < unat t \<or> unat t + 4 \<le> a) \<Longrightarrow> foldl (patch delta) img ts ! a = img ! a"
  by (induction ts arbitrary: img) (simp_all add: patch_outside)

lemma word_at_cong: "(\<And>i. i < 4 \<Longrightarrow> d ! (a + i) = e ! (b + i)) \<Longrightarrow> word_at d a = word_at e b"
  unfolding word_at_def
  by (rule arg_cong [where f = le_of_bytes]) (metis add_0_right one_less_numeral_iff semiring_norm(76)
    zero_less_numeral numeral_less_iff semiring_norm(77,78,79,80,81))

lemma word_at_patch_same: "unat t + 4 \<le> length img \<Longrightarrow> word_at (patch delta img t) (unat t) = word_at img (unat t) + delta"
proof -
  assume "unat t + 4 \<le> length img"
  then have "word_at (patch delta img t) (unat t) = le_of_bytes (le_to_bytes 4 (word_at img (unat t) + delta))"
    by (simp add: patch_def Let_def word_at_def [of "list_update _ _ _"] eval_nat_numeral)
  then show ?thesis by (simp add: le_of_to_bytes_full)
qed

text \<open>Patching words that are apart adds the delta to each once.\<close>

definition words_apart :: "u32 list \<Rightarrow> bool" where
  "words_apart ts \<longleftrightarrow> (\<forall>i<length ts. \<forall>j<i. unat (ts ! i) + 4 \<le> unat (ts ! j) \<or> unat (ts ! j) + 4 \<le> unat (ts ! i))"

lemma words_apart_Cons:
  "words_apart (t # ts) \<longleftrightarrow> words_apart ts \<and> (\<forall>u\<in>set ts. unat u + 4 \<le> unat t \<or> unat t + 4 \<le> unat u)"
proof
  assume a: "words_apart (t # ts)"
  have "unat u + 4 \<le> unat t \<or> unat t + 4 \<le> unat u" if "u \<in> set ts" for u
    using that a unfolding words_apart_def in_set_conv_nth
    by (metis length_Cons not_less_eq nth_Cons_0 nth_Cons_Suc zero_less_Suc)
  moreover have "words_apart ts" using a unfolding words_apart_def
    by (metis Suc_less_eq length_Cons nth_Cons_Suc)
  ultimately show "words_apart ts \<and> (\<forall>u\<in>set ts. unat u + 4 \<le> unat t \<or> unat t + 4 \<le> unat u)" by blast
next
  assume a: "words_apart ts \<and> (\<forall>u\<in>set ts. unat u + 4 \<le> unat t \<or> unat t + 4 \<le> unat u)"
  then show "words_apart (t # ts)"
    by (auto simp: words_apart_def nth_Cons less_Suc_eq_0_disj split: nat.split)
qed

lemma patches_word:
  "words_apart ts \<Longrightarrow> (\<forall>t\<in>set ts. unat t + 4 \<le> length img) \<Longrightarrow> t \<in> set ts \<Longrightarrow>
     word_at (foldl (patch delta) img ts) (unat t) = word_at img (unat t) + delta"
proof (induction ts arbitrary: img)
  case (Cons u ts)
  show ?case
  proof (cases "t \<in> set ts")
    case True
    have "word_at (patch delta img u) (unat t) = word_at img (unat t)"
      using True Cons.prems(1) by (intro word_at_cong patch_outside) (auto simp: words_apart_Cons)
    then show ?thesis using True Cons by (simp add: words_apart_Cons)
  next
    case False
    then have "t = u" using Cons.prems(3) by simp
    moreover have "word_at (foldl (patch delta) (patch delta img u) ts) (unat u) = word_at (patch delta img u) (unat u)"
      using Cons.prems(1) by (intro word_at_cong patches_outside) (auto simp: words_apart_Cons)
    ultimately show ?thesis using Cons.prems(2) by (simp add: word_at_patch_same)
  qed
qed simp

section \<open>The two readings agree\<close>

text \<open>The image holds the file's table, and the targets in \<open>ts\<close> leave it alone.\<close>

definition table_agrees :: "u8 list \<Rightarrow> nat \<Rightarrow> u8 list \<Rightarrow> nat \<Rightarrow> nat \<Rightarrow> bool" where
  "table_agrees raw base img rva len \<longleftrightarrow> base + len \<le> length raw \<and> rva + len \<le> length img \<and>
     (\<forall>i<len. img ! (rva + i) = raw ! (base + i))"

definition avoids :: "nat \<Rightarrow> nat \<Rightarrow> u32 \<Rightarrow> bool" where
  "avoids rva len t \<longleftrightarrow> unat t + 4 \<le> rva \<or> rva + len \<le> unat t"

lemma agrees_patch: "table_agrees raw base img rva len \<Longrightarrow> avoids rva len t \<Longrightarrow>
    table_agrees raw base (patch delta img t) rva len"
  by (auto simp: table_agrees_def avoids_def patch_outside)

lemma agrees_patches: "table_agrees raw base img rva len \<Longrightarrow> list_all (avoids rva len) ts \<Longrightarrow>
    table_agrees raw base (foldl (patch delta) img ts) rva len"
  by (induction ts arbitrary: img) (simp_all add: agrees_patch)

lemma agrees_entry: "table_agrees raw base img rva len \<Longrightarrow> i + 2 \<le> len \<Longrightarrow>
    entry_at img (rva + i) = entry_at raw (base + i)"
  by (simp add: table_agrees_def entry_at_def) (metis add_Suc_right less_eq_Suc_le)

lemma agrees_word: "table_agrees raw base img rva len \<Longrightarrow> i + 4 \<le> len \<Longrightarrow>
    word_at img (rva + i) = word_at raw (base + i)"
  by (rule word_at_cong) (auto simp: table_agrees_def add.assoc)

lemma relocate_entries_sim:
  assumes "validate_entries raw isize page (base + off) n i h a = Inr (h', a')"
    and "table_agrees raw base img rva len" "length img = unat isize" "off + n \<le> len" "even i" "even n"
    and "list_all (avoids rva len) (block_targets raw page (base + off) n i)"
  shows "relocate_entries img isize delta page (rva + off) n i h a =
      Inr (foldl (patch delta) img (block_targets raw page (base + off) n i), h', a') \<and>
    list_all (\<lambda>t. unat t + 4 \<le> unat isize) (block_targets raw page (base + off) n i)"
  using assms
proof (induction "n - i" arbitrary: i h a img rule: less_induct)
  case less
  show ?case
  proof (cases "i < n")
    case False
    then show ?thesis using less.prems
      by (subst relocate_entries.simps) (simp add: validate_entries.simps block_targets_end)
  next
    case True
    have i: "i + 2 \<le> n" using True less.prems(5,6) by presburger
    let ?e = "entry_at raw (base + (off + i))"
    let ?type = "drop_bit 12 (ucast ?e :: u32)" and ?t = "page + (ucast ?e AND 0xFFF)"
    have rd: "guest_pe_read_u16 raw (length raw) (base + off + i) = Some ?e"
      "guest_pe_read_u16 img (unat isize) (rva + off + i) = Some ?e"
      using less.prems(2-4) i agrees_entry [OF less.prems(2), of "off + i"]
      by (simp_all add: read_u16_entry_at table_agrees_def add.assoc)
    note v = less.prems(1) [unfolded validate_entries.simps [of raw isize page "base + off" n i]]
    note bt = block_targets_step [OF True, of raw page "base + off", unfolded add.assoc]
    consider "?type = 0" | "?type = 3" using v True rd(1) by (auto simp: Let_def split: if_splits)
    then show ?thesis
    proof cases
      case 1
      then have "relocate_entries img isize delta page (rva + off) n (i + 2) h (a + 1) =
          Inr (foldl (patch delta) img (block_targets raw page (base + off) n (i + 2)), h', a') \<and>
        list_all (\<lambda>t. unat t + 4 \<le> unat isize) (block_targets raw page (base + off) n (i + 2))"
        using less.prems v True rd(1) bt by (intro less.hyps) (simp_all add: Let_def add.assoc)
      then show ?thesis using 1 True rd(2) bt
        by (subst relocate_entries.simps) (simp add: Let_def add.assoc)
    next
      case 2
      have ok: "\<not> page > 0xFFFFFFFF - (ucast ?e AND 0xFFF)" "unat ?t + 4 \<le> unat isize"
        using v True rd(1) 2 by (auto simp: Let_def span_u32_nat split: if_splits)
      have bts: "block_targets raw page (base + off) n i = ?t # block_targets raw page (base + off) n (i + 2)"
        using bt 2 by (simp add: Let_def add.assoc)
      have av: "avoids rva len ?t" using less.prems(7) bts by simp
      have "relocate_entries (patch delta img ?t) isize delta page (rva + off) n (i + 2) (h + 1) a =
          Inr (foldl (patch delta) (patch delta img ?t) (block_targets raw page (base + off) n (i + 2)), h', a') \<and>
        list_all (\<lambda>t. unat t + 4 \<le> unat isize) (block_targets raw page (base + off) n (i + 2))"
        using less.prems v True rd(1) 2 ok bts agrees_patch [OF less.prems(2) av]
        by (intro less.hyps) (simp_all add: Let_def span_u32_nat)
      then show ?thesis using 2 True rd(2) bts ok less.prems(3) write_u32_patch [of ?t "unat isize" img delta]
        by (subst relocate_entries.simps) (simp add: Let_def span_u32_nat read_u32_word_at)
    qed
  qed
qed

lemma relocate_blocks_sim:
  assumes "validate_blocks raw isize base len off b h a = Inr r"
    and "table_agrees raw base img rva len" "length img = unat isize"
    and "list_all (avoids rva len) (table_targets raw base len off)"
  shows "relocate_blocks img isize delta rva len off b h a =
      Inr (foldl (patch delta) img (table_targets raw base len off), r) \<and>
    list_all (\<lambda>t. unat t + 4 \<le> unat isize) (table_targets raw base len off)"
  using assms
proof (induction "len - off" arbitrary: off b h a img rule: less_induct)
  case less
  show ?case
  proof (cases "off < len")
    case False
    then show ?thesis using less.prems
      by (subst relocate_blocks.simps) (simp add: validate_blocks.simps table_targets.simps)
  next
    case True
    note v = less.prems(1) [unfolded validate_blocks.simps [of raw isize base len off] Let_def]
    let ?page = "word_at raw (base + off)" and ?n = "word_at raw (base + off + 4)"
    have rd: "guest_pe_read_u32 raw (length raw) (base + off) = Some ?page"
      "guest_pe_read_u32 raw (length raw) (base + off + 4) = Some ?n"
      using v True by (auto simp: read_u32_word_at split: if_splits)
    have c: "\<not> len - off < 8" "\<not> unat ?n < 8" "?n AND 1 = 0" "\<not> len - off < unat ?n" "?page AND 0xFFF = 0" "\<not> ?page \<ge> isize"
      using v True rd by (auto split: if_splits)
    obtain h' a' where e: "validate_entries raw isize ?page (base + off) (unat ?n) 8 h a = Inr (h', a')"
      "validate_blocks raw isize base len (off + unat ?n) (b + 1) h' a' = Inr r"
      using v True rd c by (auto split: sum.splits)
    have "unat (?n AND 1) = unat ?n mod 2" by (simp add: and_one_eq unat_mod_distrib)
    then have ev: "even (unat ?n)" using c(3) by (simp add: even_iff_mod_2_eq_zero)
    have tt: "table_targets raw base len off =
        block_targets raw ?page (base + off) (unat ?n) 8 @ table_targets raw base len (off + unat ?n)"
      using True c by (subst table_targets.simps) (simp add: Let_def)
    have rd2: "guest_pe_read_u32 img (unat isize) (rva + off) = Some ?page"
      "guest_pe_read_u32 img (unat isize) (rva + off + 4) = Some ?n"
      using less.prems(2,3) c agrees_word [OF less.prems(2), of off] agrees_word [OF less.prems(2), of "off + 4"]
      by (auto simp: read_u32_word_at table_agrees_def add.assoc)
    let ?img = "foldl (patch delta) img (block_targets raw ?page (base + off) (unat ?n) 8)"
    have s: "relocate_entries img isize delta ?page (rva + off) (unat ?n) 8 h a = Inr (?img, h', a')"
      "list_all (\<lambda>t. unat t + 4 \<le> unat isize) (block_targets raw ?page (base + off) (unat ?n) 8)"
      using relocate_entries_sim [OF e(1) less.prems(2,3)] less.prems(4) c ev tt by simp_all
    have "relocate_blocks ?img isize delta rva len (off + unat ?n) (b + 1) h' a' =
        Inr (foldl (patch delta) ?img (table_targets raw base len (off + unat ?n)), r) \<and>
      list_all (\<lambda>t. unat t + 4 \<le> unat isize) (table_targets raw base len (off + unat ?n))"
      using less.prems(2-4) c e(2) tt True
      by (intro less.hyps agrees_patches) simp_all
    then show ?thesis using True rd2 c s tt
      by (subst relocate_blocks.simps) (simp add: Let_def)
  qed
qed

section \<open>Laying out\<close>

definition section_fits :: "u8 list \<Rightarrow> guest_pe_plan \<Rightarrow> guest_pe_section_plan \<Rightarrow> bool" where
  "section_fits raw plan s \<longleftrightarrow> header_size plan \<le> virtual_address s \<and>
     unat (virtual_address s) + unat (copy_size s) \<le> unat (image_size plan) \<and>
     (copy_size s \<noteq> 0 \<longrightarrow> unat (raw_offset s) + unat (copy_size s) \<le> length raw)"

definition sections_apart :: "guest_pe_section_plan list \<Rightarrow> bool" where
  "sections_apart ss \<longleftrightarrow> (\<forall>i<length ss. \<forall>j<i. \<forall>x. \<not> (covers x (ss ! i) \<and> covers x (ss ! j)))"

lemma sections_apart_snoc:
  "sections_apart (ss @ [s]) \<longleftrightarrow> sections_apart ss \<and> (\<forall>p\<in>set ss. \<forall>x. \<not> (covers x s \<and> covers x p))"
  by (auto simp: sections_apart_def nth_append less_Suc_eq in_set_conv_nth) (metis nth_mem in_set_conv_nth)

lemma sections_apart_Cons:
  assumes "sections_apart (s # ss)"
  shows "sections_apart ss" "p \<in> set ss \<Longrightarrow> covers x s \<Longrightarrow> \<not> covers x p"
proof -
  show "sections_apart ss" using assms unfolding sections_apart_def
    by (metis Suc_less_eq length_Cons nth_Cons_Suc)
  show "\<not> covers x p" if "p \<in> set ss" "covers x s"
    using that assms unfolding sections_apart_def in_set_conv_nth
    by (metis length_Cons not_less_eq nth_Cons_0 nth_Cons_Suc zero_less_Suc)
qed

lemma check_section_ok:
  assumes "check_section raw plan s = Inr t" "read_section raw offset = Some s"
  shows "t = s" "section_fits raw plan s" "p \<in> set (sections plan) \<Longrightarrow> section_fits raw plan p \<Longrightarrow>
     copy_size p \<le> mapped_size p \<Longrightarrow> unat (virtual_address p) + unat (mapped_size p) \<le> unat (image_size plan) \<Longrightarrow>
     covers x s \<Longrightarrow> \<not> covers x p"
    "copy_size s \<le> mapped_size s" "unat (virtual_address s) + unat (mapped_size s) \<le> unat (image_size plan)"
proof -
  have c: "virtual_address s \<ge> header_size plan"
    "unat (virtual_address s) + unat (mapped_size s) \<le> unat (image_size plan)"
    "unat (virtual_address s) + unat (copy_size s) \<le> unat (image_size plan)"
    "raw_size s \<noteq> 0 \<longrightarrow> unat (raw_offset s) + unat (raw_size s) \<le> length raw"
    "\<not> list_ex (sections_overlap s) (sections plan)" "t = s"
    using assms(1) by (auto simp: check_section_def span_u32_nat guest_pe_span_size_def not_less split: if_splits)
  have r: "copy_size s \<le> mapped_size s" "copy_size s \<le> raw_size s"
    using assms(2) by (auto simp: read_section_def split: option.splits list.splits)
  show "t = s" "copy_size s \<le> mapped_size s" "unat (virtual_address s) + unat (mapped_size s) \<le> unat (image_size plan)"
    using c r by simp_all
  show "section_fits raw plan s" using c r by (auto simp: section_fits_def word_le_nat_alt unat_eq_0)
  show "\<not> covers x p" if p: "p \<in> set (sections plan)" "section_fits raw plan p" "copy_size p \<le> mapped_size p"
    "unat (virtual_address p) + unat (mapped_size p) \<le> unat (image_size plan)" and x: "covers x s"
  proof
    assume y: "covers x p"
    have e: "unat (virtual_address q + mapped_size q) = unat (virtual_address q) + unat (mapped_size q)"
      if "unat (virtual_address q) + unat (mapped_size q) \<le> unat (image_size plan)" for q :: guest_pe_section_plan
      using that unat_u32 [of "image_size plan"] by (intro unat_plus_small) simp
    have "\<not> sections_overlap s p" using c(5) p(1) by (auto simp: list_ex_iff)
    moreover have "mapped_size s \<noteq> 0" "mapped_size p \<noteq> 0"
      using x y r(1) p(3) by (auto simp: covers_def)
    ultimately show False using x y r(1) p(3) c(2) p(4) e [OF c(2)] e [OF p(4)]
      by (auto simp: sections_overlap_def Let_def covers_def word_less_nat_alt word_le_nat_alt)
  qed
qed

text \<open>What the section loop keeps.\<close>

definition sections_good :: "u8 list \<Rightarrow> guest_pe_plan \<Rightarrow> bool" where
  "sections_good raw plan \<longleftrightarrow> sections_apart (sections plan) \<and> (\<forall>s\<in>set (sections plan). section_fits raw plan s \<and>
     copy_size s \<le> mapped_size s \<and> unat (virtual_address s) + unat (mapped_size s) \<le> unat (image_size plan))"

lemma parse_sections_good:
  "parse_sections raw offset plan n = Inr plan' \<Longrightarrow> sections_good raw plan \<Longrightarrow>
     sections_good raw plan' \<and> plan' = plan\<lparr>sections := sections plan'\<rparr>"
proof (induction n arbitrary: offset plan)
  case (Suc n)
  obtain s where s: "read_section raw offset = Some s" "check_section raw plan s = Inr s"
    "parse_sections raw (offset + 40) (plan\<lparr>sections := sections plan @ [s]\<rparr>) n = Inr plan'"
    using Suc.prems(1) by (auto simp: pe_bind_Inr_iff dest: check_section_ok(1) split: option.splits)
  note c = check_section_ok [OF s(2,1)]
  have "sections_good raw (plan\<lparr>sections := sections plan @ [s]\<rparr>)"
    using Suc.prems(2) c by (auto simp: sections_good_def sections_apart_snoc section_fits_def)
  from Suc.IH [OF s(3) this] show ?case by (cases plan) (cases plan', simp)
qed simp

lemma copy_sections_layout:
  assumes "\<forall>s\<in>set ss. section_fits raw plan s" "sections_apart ss" "length img = unat (image_size plan)"
    and "\<forall>s\<in>set ss. copy_size s = 0 \<longrightarrow> unat (raw_offset s) \<le> length raw"
  shows "\<exists>out. copy_sections raw (image_size plan) img ss = Inr out \<and> length out = unat (image_size plan) \<and>
    (\<forall>i<unat (image_size plan). out ! i = (case List.find (covers i) ss of None \<Rightarrow> img ! i
       | Some s \<Rightarrow> raw ! (unat (raw_offset s) + (i - unat (virtual_address s)))))"
  using assms
proof (induction ss arbitrary: img)
  case (Cons s ss)
  let ?a = "unat (virtual_address s)" and ?n = "unat (copy_size s)"
  define img' where
    "img' = (if ?n \<noteq> 0 then take ?a img @ take ?n (drop (unat (raw_offset s)) raw) @ drop (?a + ?n) img else img)"
  have f: "section_fits raw plan s" using Cons.prems(1) by simp
  have l: "length img' = unat (image_size plan)"
    using f Cons.prems(3) by (auto simp: img'_def section_fits_def unat_eq_0)
  have byte: "img' ! i = (if covers i s then raw ! (unat (raw_offset s) + (i - ?a)) else img ! i)"
    if "i < unat (image_size plan)" for i
  proof (cases "copy_size s = 0")
    case False
    then have "?n \<le> length raw - unat (raw_offset s)" using f unfolding section_fits_def by linarith
    then have "length (take ?n (drop (unat (raw_offset s)) raw)) = ?n" "length (take ?a img) = ?a" "?n \<noteq> 0"
      using f Cons.prems(3) False by (simp_all add: section_fits_def unat_eq_0 min.absorb2)
    then show ?thesis using that f Cons.prems(3)
      by (auto simp: img'_def nth_append covers_def section_fits_def simp del: length_take)
  qed (auto simp: img'_def covers_def)
  obtain out where out: "copy_sections raw (image_size plan) img' ss = Inr out" "length out = unat (image_size plan)"
    "\<forall>i<unat (image_size plan). out ! i = (case List.find (covers i) ss of None \<Rightarrow> img' ! i
       | Some s \<Rightarrow> raw ! (unat (raw_offset s) + (i - unat (virtual_address s))))"
    using Cons.IH [OF _ sections_apart_Cons(1) [OF Cons.prems(2)] l] Cons.prems(1,4) by auto
  have n: "List.find (covers i) ss = None" if "covers i s" for i
    using sections_apart_Cons(2) [OF Cons.prems(2)] that by (auto simp: find_None_iff)
  show ?case
  proof (intro exI [of _ out] conjI allI impI)
    show "copy_sections raw (image_size plan) img (s # ss) = Inr out"
      using out(1) f Cons.prems(4)
      by (cases "copy_size s = 0") (auto simp: img'_def guest_pe_span_size_def span_u32_nat section_fits_def Let_def)
    show "length out = unat (image_size plan)" by (rule out(2))
    fix i assume i: "i < unat (image_size plan)"
    show "out ! i = (case List.find (covers i) (s # ss) of None \<Rightarrow> img ! i
       | Some s \<Rightarrow> raw ! (unat (raw_offset s) + (i - unat (virtual_address s))))"
    proof (cases "covers i s")
      case True
      with n [OF this] show ?thesis using out(3) [rule_format, OF i] byte [OF i] by simp
    next
      case False
      then show ?thesis using out(3) [rule_format, OF i] byte [OF i] by (simp split: option.split)
    qed
  qed
qed simp

text \<open>The whole parse.\<close>

lemma parse_directories_frame:
  "parse_directories raw opt plan is = Inr plan' \<Longrightarrow> plan' = plan\<lparr>directories := directories plan'\<rparr>"
proof (induction "is" arbitrary: plan)
  case (Cons i "is")
  obtain d where "parse_directories raw opt (plan\<lparr>directories := directories plan @ [d]\<rparr>) is = Inr plan'"
    using Cons.prems by (auto simp: pe_bind_Inr_iff)
  from Cons.IH [OF this] show ?case by (cases plan) (cases plan', simp)
qed simp

lemma parse_optional_plan:
  assumes "parse_optional k raw base pe n len = Inr (plan, opt, table)"
  shows "sections plan = []" "directories plan = []" "target_base plan = base" "original_base plan = expected_original_base k"
    "image_size plan = expected_image_size k" "header_size plan = expected_header_size k" "section_count plan = n"
    "unat (header_size plan) \<le> length raw"
  using assms by (auto simp: parse_optional_def Let_def guest_pe_span_size_def split: if_splits option.splits list.splits)

lemma parse_coff_count:
  "parse_coff k raw = Inr (pe, n, len) \<Longrightarrow> n = expected_section_count k"
  by (auto simp: parse_coff_def split: if_splits option.splits)

lemma rva_in_sections_Some:
  "rva_in_sections ss rva len = Some off \<Longrightarrow> \<exists>s\<in>set ss. unat (virtual_address s) \<le> unat rva \<and>
     unat rva + unat len \<le> unat (virtual_address s) + unat (copy_size s) \<and>
     unat off = unat (raw_offset s) + (unat rva - unat (virtual_address s))"
proof (induction ss)
  case (Cons s ss)
  let ?w = "rva - virtual_address s"
  show ?case
  proof (cases "virtual_address s \<le> rva \<and> ?w \<le> copy_size s \<and> len \<le> copy_size s - ?w \<and> raw_offset s \<le> 0xFFFFFFFF - ?w")
    case True
    then have w: "unat ?w = unat rva - unat (virtual_address s)" "unat (virtual_address s) \<le> unat rva"
      by (simp_all add: unat_sub word_le_nat_alt)
    have "?w \<le> copy_size s" "len \<le> copy_size s - ?w" using True by simp_all
    then have "unat ?w \<le> unat (copy_size s)" "unat len \<le> unat (copy_size s) - unat ?w"
      by (simp_all only: unat_sub word_le_nat_alt [of _ "copy_size s - _"] word_le_nat_alt [symmetric])
    moreover have "unat (raw_offset s) \<le> 0xFFFFFFFF - unat ?w"
      using True unat_u32 [of ?w] unat_sub [of ?w "0xFFFFFFFF"] by (simp add: word_le_nat_alt)
    then have "unat (raw_offset s + ?w) = unat (raw_offset s) + unat ?w"
      using unat_u32 [of ?w] by (intro unat_plus_small) simp
    moreover have "\<not> rva < virtual_address s" using True by (simp add: not_less)
    then have "off = raw_offset s + ?w" using Cons.prems True by (simp add: Let_def)
    ultimately show ?thesis using w by (intro bexI [of _ s]) auto
  next
    case False
    then have "rva_in_sections ss rva len = Some off" using Cons.prems by (auto simp: Let_def split: if_splits)
    then show ?thesis using Cons.IH by auto
  qed
qed simp

lemma covers_unique:
  assumes "sections_apart ss" "s \<in> set ss" "covers x s"
  shows "List.find (covers x) ss = Some s"
proof -
  have "p = s" if p: "p \<in> set ss" "covers x p" for p
  proof -
    obtain i where "i < length ss" "ss ! i = p" using p(1) by (auto simp: in_set_conv_nth)
    moreover obtain j where "j < length ss" "ss ! j = s" using assms(2) by (auto simp: in_set_conv_nth)
    ultimately show ?thesis using assms(1,3) p(2) unfolding sections_apart_def
      by (cases i j rule: linorder_cases) auto
  qed
  then have u: "p \<in> set ss \<Longrightarrow> covers x p \<Longrightarrow> p = s" for p by blast
  show ?thesis
  proof (cases "List.find (covers x) ss")
    case None
    then show ?thesis using assms(2,3) unfolding find_None_iff by blast
  next
    case (Some t)
    then obtain i where "i < length ss" "covers x (ss ! i)" "t = ss ! i" unfolding find_Some_iff by blast
    then show ?thesis using u [of t] Some by simp
  qed
qed

lemma rva_to_raw_cong:
  "header_size q = header_size p \<Longrightarrow> sections q = sections p \<Longrightarrow> guest_pe_rva_to_raw q = guest_pe_rva_to_raw p"
  by (simp add: guest_pe_rva_to_raw_def fun_eq_iff)

lemma sections_good_cong:
  "header_size q = header_size p \<Longrightarrow> image_size q = image_size p \<Longrightarrow> sections q = sections p \<Longrightarrow>
     sections_good raw q = sections_good raw p"
  by (simp add: sections_good_def section_fits_def)

text \<open>Every directory lies in the image.\<close>

definition directory_inside :: "guest_pe_plan \<Rightarrow> guest_pe_directory_plan \<Rightarrow> bool" where
  "directory_inside plan d \<longleftrightarrow> unat (dir_rva d) + unat (dir_size d) \<le> unat (image_size plan)"

lemma parse_directory_inside: "parse_directory raw plan offset i = Inr d \<Longrightarrow> directory_inside plan d"
  by (auto simp: parse_directory_def directory_inside_def span_u32_nat split: option.splits if_splits)

lemma parse_directories_inside:
  "parse_directories raw opt plan is = Inr plan' \<Longrightarrow> list_all (directory_inside plan) (directories plan) \<Longrightarrow>
     list_all (directory_inside plan') (directories plan') \<and>
     length (directories plan') = length (directories plan) + length is \<and> image_size plan' = image_size plan"
proof (induction "is" arbitrary: plan)
  case (Cons i "is")
  obtain d where d: "parse_directory raw plan (opt + 96 + i * 8) i = Inr d"
    "parse_directories raw opt (plan\<lparr>directories := directories plan @ [d]\<rparr>) is = Inr plan'"
    using Cons.prems by (auto simp: pe_bind_Inr_iff)
  have "directory_inside (plan\<lparr>directories := ds\<rparr>) = directory_inside plan" for ds
    by (simp add: directory_inside_def fun_eq_iff)
  then show ?case using Cons.IH [OF d(2)] Cons.prems(2) parse_directory_inside [OF d(1)] by simp
qed simp

definition table_base :: "guest_pe_plan \<Rightarrow> nat" where
  "table_base plan = (case guest_pe_rva_to_raw plan (dir_rva (directories plan ! 5)) (dir_size (directories plan ! 5)) of
     None \<Rightarrow> 0 | Some off \<Rightarrow> unat off)"

lemma parse_bounded_ok:
  assumes "guest_pe_parse_bounded k raw base = Inr plan"
  shows "sections_good raw plan" "guest_pe_target_supported (target_base plan)" "target_base plan = base"
    "original_base plan = expected_original_base k" "image_size plan = expected_image_size k"
    "header_size plan = expected_header_size k" "section_count plan = expected_section_count k"
    "unat (header_size plan) \<le> length raw"
    "dir_rva (directories plan ! 5) = expected_reloc_rva k" "dir_size (directories plan ! 5) = expected_reloc_size k"
    "\<exists>off. guest_pe_rva_to_raw plan (expected_reloc_rva k) (expected_reloc_size k) = Some off"
    "table_base plan + unat (expected_reloc_size k) \<le> length raw"
    "validate_blocks raw (image_size plan) (table_base plan) (unat (expected_reloc_size k)) 0 0 0 0 =
      Inr (unat (expected_reloc_size k), expected_reloc_blocks k, expected_highlow_count k, expected_absolute_count k)"
    "relocation_blocks plan = expected_reloc_blocks k" "highlow_count plan = expected_highlow_count k"
    "absolute_count plan = expected_absolute_count k"
    "unat (expected_reloc_rva k) + unat (expected_reloc_size k) \<le> unat (image_size plan)"
proof -
  obtain pe n len p1 opt table p2 p3 where
    c: "guest_pe_target_supported base" "parse_coff k raw = Inr (pe, n, len)"
      "parse_optional k raw base pe n len = Inr (p1, opt, table)"
      "parse_sections raw (unat table) p1 (unat n) = Inr p2"
      "parse_directories raw (unat opt) p2 [0..<GUEST_PE_DIRECTORY_COUNT] = Inr p3"
      "dir_rva (directories p3 ! 5) = expected_reloc_rva k" "dir_size (directories p3 ! 5) = expected_reloc_size k"
      "guest_pe_validate_relocations_raw k raw p3 = Inr plan"
    using assms by (auto simp: guest_pe_parse_bounded_def pe_bind_Inr_iff split: if_splits)
  note o = parse_optional_plan [OF c(3)]
  have "sections_good raw p1" using o(1) by (simp add: sections_good_def sections_apart_def)
  note s = parse_sections_good [OF c(4) this]
  note d = parse_directories_frame [OF c(5)]
  obtain off where v: "guest_pe_rva_to_raw p3 (expected_reloc_rva k) (expected_reloc_size k) = Some off"
      "guest_pe_span_size (length raw) (unat off) (unat (expected_reloc_size k))"
      "validate_blocks raw (image_size p3) (unat off) (unat (expected_reloc_size k)) 0 0 0 0 =
        Inr (unat (expected_reloc_size k), expected_reloc_blocks k, expected_highlow_count k, expected_absolute_count k)"
      "plan = p3\<lparr>relocation_blocks := expected_reloc_blocks k, highlow_count := expected_highlow_count k,
        absolute_count := expected_absolute_count k\<rparr>"
    using c(6-8) by (auto simp: guest_pe_validate_relocations_raw_def Let_def pe_bind_Inr_iff
        split: if_splits option.splits)
  have p2: "image_size p2 = image_size p1" "header_size p2 = header_size p1" "target_base p2 = target_base p1"
    "original_base p2 = original_base p1" "section_count p2 = section_count p1"
    using s by (metis guest_pe_plan.select_convs guest_pe_plan.update_convs guest_pe_plan.surjective)+
  have p3: "image_size p3 = image_size p1" "header_size p3 = header_size p1" "target_base p3 = target_base p1"
    "original_base p3 = original_base p1" "section_count p3 = section_count p1" "sections p3 = sections p2"
    using d p2 by (metis guest_pe_plan.select_convs guest_pe_plan.update_convs guest_pe_plan.surjective)+
  have d0: "directories p2 = []" using o(2) s
    by (metis guest_pe_plan.select_convs guest_pe_plan.update_convs guest_pe_plan.surjective)
  then have "list_all (directory_inside p2) (directories p2)" by simp
  note dd = parse_directories_inside [OF c(5) this]
  then have "length (directories p3) = 16" using d0 by (simp add: GUEST_PE_DIRECTORY_COUNT_def)
  then have "directory_inside p3 (directories p3 ! 5)" using dd by (simp add: list_all_length)
  then have di: "unat (expected_reloc_rva k) + unat (expected_reloc_size k) \<le> unat (image_size p3)"
    using c(6,7) by (simp add: directory_inside_def)
  have rv: "guest_pe_rva_to_raw plan (expected_reloc_rva k) (expected_reloc_size k) = Some off"
    using v(1) rva_to_raw_cong [of plan p3] by (simp add: v(4))
  then have tb: "table_base plan = unat off" using c(6,7) by (simp add: table_base_def v(4))
  show "sections_good raw plan" using s sections_good_cong [of plan p2 raw] p2 p3 by (simp add: v(4))
  have v2: "unat off + unat (expected_reloc_size k) \<le> length raw" using v(2) unfolding guest_pe_span_size_def by linarith
  show "guest_pe_target_supported (target_base plan)" "target_base plan = base"
    "original_base plan = expected_original_base k" "image_size plan = expected_image_size k"
    "header_size plan = expected_header_size k" "section_count plan = expected_section_count k"
    "unat (header_size plan) \<le> length raw"
    "dir_rva (directories plan ! 5) = expected_reloc_rva k" "dir_size (directories plan ! 5) = expected_reloc_size k"
    "\<exists>off. guest_pe_rva_to_raw plan (expected_reloc_rva k) (expected_reloc_size k) = Some off"
    "table_base plan + unat (expected_reloc_size k) \<le> length raw"
    "validate_blocks raw (image_size plan) (table_base plan) (unat (expected_reloc_size k)) 0 0 0 0 =
      Inr (unat (expected_reloc_size k), expected_reloc_blocks k, expected_highlow_count k, expected_absolute_count k)"
    "relocation_blocks plan = expected_reloc_blocks k" "highlow_count plan = expected_highlow_count k"
    "absolute_count plan = expected_absolute_count k"
    "unat (expected_reloc_rva k) + unat (expected_reloc_size k) \<le> unat (image_size plan)"
    using v(3) v2 c(1,6,7) di o p2 p3 parse_coff_count [OF c(2)] rv tb
    by (simp_all add: v(4))
qed

section \<open>The mapped image\<close>

lemma laid_out_length [simp]: "length (laid_out raw plan) = unat (image_size plan)"
  by (simp add: laid_out_def)

lemma find_header:
  "\<forall>s\<in>set ss. section_fits raw plan s \<Longrightarrow> i < unat (header_size plan) \<Longrightarrow> List.find (covers i) ss = None"
  by (fastforce simp: find_None_iff covers_def section_fits_def word_le_nat_alt)

lemma copy_sections_laid_out:
  assumes "sections_good raw plan" "unat (header_size plan) \<le> length raw" "unat (header_size plan) \<le> unat (image_size plan)"
    and "\<forall>s\<in>set (sections plan). copy_size s = 0 \<longrightarrow> unat (raw_offset s) \<le> length raw"
  shows "copy_sections raw (image_size plan) (take (unat (header_size plan)) raw @
      drop (unat (header_size plan)) (replicate (unat (image_size plan)) 0)) (sections plan) = Inr (laid_out raw plan)"
proof -
  define img where "img = take (unat (header_size plan)) raw @ drop (unat (header_size plan)) (replicate (unat (image_size plan)) 0)"
  have g: "\<forall>s\<in>set (sections plan). section_fits raw plan s" "sections_apart (sections plan)"
    using assms(1) by (auto simp: sections_good_def)
  have "length img = unat (image_size plan)" using assms(2,3) by (simp add: img_def)
  from copy_sections_layout [OF g this assms(4)] obtain out where out:
    "copy_sections raw (image_size plan) img (sections plan) = Inr out" "length out = unat (image_size plan)"
    "\<forall>i<unat (image_size plan). out ! i = (case List.find (covers i) (sections plan) of None \<Rightarrow> img ! i
       | Some s \<Rightarrow> raw ! (unat (raw_offset s) + (i - unat (virtual_address s))))" by blast
  have "out = laid_out raw plan"
  proof (rule nth_equalityI)
    fix i assume "i < length out"
    then have i: "i < unat (image_size plan)" by (simp add: out(2))
    have "img ! i = (if i < unat (header_size plan) then raw ! i else 0)"
      using i assms(2) by (simp add: img_def nth_append min.absorb2)
    then show "out ! i = laid_out raw plan ! i"
      using out(3) [rule_format, OF i] i find_header [OF g(1)]
      by (cases "i < unat (header_size plan)") (simp_all add: laid_out_def laid_byte_def split: option.split)
  qed (simp add: out(2))
  then show ?thesis using out(1) by (simp add: img_def)
qed

lemma laid_out_agrees:
  assumes "sections_good raw plan" "guest_pe_rva_to_raw plan rva len = Some off"
    and "unat off + unat len \<le> length raw" "unat rva + unat len \<le> unat (image_size plan)"
  shows "table_agrees raw (unat off) (laid_out raw plan) (unat rva) (unat len)"
proof -
  have "laid_out raw plan ! (unat rva + i) = raw ! (unat off + i)" if i: "i < unat len" for i
  proof -
    have b: "laid_out raw plan ! (unat rva + i) = laid_byte raw plan (unat rva + i)"
      using i assms(4) by (simp add: laid_out_def)
    show ?thesis
    proof (cases "rva < header_size plan \<and> guest_pe_span_u32 (header_size plan) rva len")
      case True
      then have "off = rva" "unat rva + unat len \<le> unat (header_size plan)"
        using assms(2) by (simp_all add: guest_pe_rva_to_raw_def span_u32_nat)
      then show ?thesis using b i by (simp add: laid_byte_def)
    next
      case False
      then have "rva_in_sections (sections plan) rva len = Some off"
        using assms(2) unfolding guest_pe_rva_to_raw_def by argo
      from rva_in_sections_Some [OF this] obtain s where s: "s \<in> set (sections plan)" "unat (virtual_address s) \<le> unat rva"
        "unat rva + unat len \<le> unat (virtual_address s) + unat (copy_size s)"
        "unat off = unat (raw_offset s) + (unat rva - unat (virtual_address s))" by blast
      have "covers (unat rva + i) s" using s i by (simp add: covers_def)
      then have "List.find (covers (unat rva + i)) (sections plan) = Some s"
        using covers_unique assms(1) s(1) unfolding sections_good_def by blast
      moreover have "unat (header_size plan) \<le> unat (virtual_address s)"
        using assms(1) s(1) by (simp add: sections_good_def section_fits_def word_le_nat_alt)
      ultimately have "laid_byte raw plan (unat rva + i) = raw ! (unat (raw_offset s) + (unat rva + i - unat (virtual_address s)))"
        using s by (simp add: laid_byte_def)
      moreover have "unat (raw_offset s) + (unat rva + i - unat (virtual_address s)) = unat off + i" using s by simp
      ultimately show ?thesis using b by simp
    qed
  qed
  then show ?thesis using assms(3,4) by (simp add: table_agrees_def)
qed

text \<open>The addresses the plan's table names.\<close>

definition plan_targets :: "u8 list \<Rightarrow> guest_pe_plan \<Rightarrow> u32 list" where
  "plan_targets raw plan = table_targets raw (table_base plan) (unat (dir_size (directories plan ! 5))) 0"

lemma pe_map_relocated:
  assumes p: "guest_pe_parse_bounded k raw base = Inr plan"
    and h: "unat (header_size plan) \<le> unat (image_size plan)"
    and e: "\<forall>s\<in>set (sections plan). copy_size s = 0 \<longrightarrow> unat (raw_offset s) \<le> length raw"
    and a: "list_all (avoids (unat (expected_reloc_rva k)) (unat (expected_reloc_size k))) (plan_targets raw plan)"
    and c: "unat (image_size plan) \<le> capacity"
  shows "guest_pe_map_image k raw plan capacity =
      (let img = foldl (patch (base - original_base plan)) (laid_out raw plan) (plan_targets raw plan) in
       if guest_pe_sha256 img = (if base = GUEST_PE_VITA_TARGET_BASE then expected_map_sha256 k
         else expected_pc_map_sha256 k)
       then Inr img else Inl GUEST_PE_ERR_MAP_HASH) \<and>
    list_all (\<lambda>t. unat t + 4 \<le> unat (image_size plan)) (plan_targets raw plan)"
proof -
  note o = parse_bounded_ok [OF p]
  obtain off where off: "guest_pe_rva_to_raw plan (expected_reloc_rva k) (expected_reloc_size k) = Some off"
    using o(11) by blast
  have tb: "table_base plan = unat off" using off o(9,10) by (simp add: table_base_def)
  have ag: "table_agrees raw (table_base plan) (laid_out raw plan) (unat (expected_reloc_rva k)) (unat (expected_reloc_size k))"
    using laid_out_agrees [OF o(1) off] o(12,17) tb by simp
  have ts: "plan_targets raw plan = table_targets raw (table_base plan) (unat (expected_reloc_size k)) 0"
    using o(10) by (simp add: plan_targets_def)
  note r = relocate_blocks_sim [OF o(13) ag laid_out_length a [unfolded ts], folded ts]
  note s = copy_sections_laid_out [OF o(1,8) h e]
  have g: "\<not> (\<not> guest_pe_target_supported (target_base plan) \<or> original_base plan \<noteq> expected_original_base k \<or>
     image_size plan \<noteq> expected_image_size k \<or> header_size plan \<noteq> expected_header_size k \<or>
     section_count plan \<noteq> expected_section_count k \<or> capacity < unat (image_size plan) \<or>
     \<not> guest_pe_span_size (length raw) 0 (unat (header_size plan)))"
    "\<not> (dir_rva (directories plan ! 5) \<noteq> expected_reloc_rva k \<or> dir_size (directories plan ! 5) \<noteq> expected_reloc_size k \<or>
     \<not> guest_pe_span_u32 (image_size plan) (dir_rva (directories plan ! 5)) (dir_size (directories plan ! 5)))"
    using o c by (simp_all add: guest_pe_span_size_def span_u32_nat)
  have m: "guest_pe_map_image k raw plan capacity =
      (let img = foldl (patch (target_base plan - original_base plan)) (laid_out raw plan) (plan_targets raw plan) in
       if guest_pe_sha256 img \<noteq> (if target_base plan = GUEST_PE_VITA_TARGET_BASE then expected_map_sha256 k
         else expected_pc_map_sha256 k)
       then Inl GUEST_PE_ERR_MAP_HASH else Inr img)"
    unfolding guest_pe_map_image_def if_not_P [OF g(1)] Let_def s pe_bind.simps if_not_P [OF g(2)]
    using r o(9,10,14-16) by simp
  show ?thesis using m r o(3) by (simp add: Let_def)
qed

text \<open>A parsed file has a section, the one of its entry point, so its headers fit the image.\<close>

lemma parse_bounded_header:
  assumes "guest_pe_parse_bounded k raw base = Inr plan"
  shows "unat (header_size plan) \<le> unat (image_size plan)"
proof -
  have "sections plan \<noteq> []"
    using assms by (auto simp: guest_pe_parse_bounded_def guest_pe_validate_relocations_raw_def Let_def pe_bind_Inr_iff
        split: if_splits option.splits)
  then obtain s where "section_fits raw plan s"
    using parse_bounded_ok(1) [OF assms] by (cases "sections plan") (auto simp: sections_good_def)
  then show ?thesis by (simp add: section_fits_def word_le_nat_alt)
qed

text \<open>What stops the mapping of a parsed file before its relocation.\<close>

lemma copy_sections_source:
  "\<forall>s\<in>set ss. section_fits raw plan s \<Longrightarrow> \<exists>s\<in>set ss. copy_size s = 0 \<and> length raw < unat (raw_offset s) \<Longrightarrow>
   copy_sections raw (image_size plan) img ss = Inl GUEST_PE_ERR_SECTION_SOURCE"
  by (induction ss arbitrary: img)
    (auto simp: section_fits_def span_u32_nat guest_pe_span_size_def Let_def not_le)

lemma pe_map_stopped:
  assumes p: "guest_pe_parse_bounded k raw base = Inr plan"
  shows "capacity < unat (image_size plan) \<Longrightarrow>
      guest_pe_map_image k raw plan capacity = Inl GUEST_PE_ERR_CONTRACT"
    "unat (image_size plan) \<le> capacity \<Longrightarrow>
      \<exists>s\<in>set (sections plan). copy_size s = 0 \<and> length raw < unat (raw_offset s) \<Longrightarrow>
      guest_pe_map_image k raw plan capacity = Inl GUEST_PE_ERR_SECTION_SOURCE"
proof -
  note o = parse_bounded_ok [OF p]
  show "capacity < unat (image_size plan) \<Longrightarrow>
      guest_pe_map_image k raw plan capacity = Inl GUEST_PE_ERR_CONTRACT"
    by (simp add: guest_pe_map_image_def)
  assume c: "unat (image_size plan) \<le> capacity"
    and s: "\<exists>s\<in>set (sections plan). copy_size s = 0 \<and> length raw < unat (raw_offset s)"
  have g: "\<not> (\<not> guest_pe_target_supported (target_base plan) \<or> original_base plan \<noteq> expected_original_base k \<or>
     image_size plan \<noteq> expected_image_size k \<or> header_size plan \<noteq> expected_header_size k \<or>
     section_count plan \<noteq> expected_section_count k \<or> capacity < unat (image_size plan) \<or>
     \<not> guest_pe_span_size (length raw) 0 (unat (header_size plan)))"
    using o c by (simp_all add: guest_pe_span_size_def)
  have "\<forall>s\<in>set (sections plan). section_fits raw plan s" using o(1) by (simp add: sections_good_def)
  note copy_sections_source [OF this s]
  then show "guest_pe_map_image k raw plan capacity = Inl GUEST_PE_ERR_SECTION_SOURCE"
    unfolding guest_pe_map_image_def if_not_P [OF g] Let_def by simp
qed

section \<open>The claim\<close>

text \<open>
  C32: the image that \<open>guest_pe_map_image\<close> makes of a parsed file is the one the headers describe,
  provided no relocated word of its table lies in the relocation table itself.  The mapping is refused
  as a contract error if the buffer is smaller than the image, and as a source error if a section
  without bytes gives an offset past the end of the file; no other bounds error and no count error is
  left.  Otherwise the image is the layout of the file, where a byte is the header's, its section's, or
  zero, with the words of the relocation table patched in the order of the table: each lies in the image and moves by the
  distance of the two bases; every byte outside them is that of the layout, and if no two of the words
  overlap each is the word of the layout plus that distance.  It is returned exactly if its
  SHA-256 digest is the expected one for the base.
\<close>

theorem pe_map_exact:
  assumes "guest_pe_parse_bounded k raw base = Inr plan"
    and "list_all (avoids (unat (expected_reloc_rva k)) (unat (expected_reloc_size k))) (plan_targets raw plan)"
  shows "if capacity < unat (image_size plan)
    then guest_pe_map_image k raw plan capacity = Inl GUEST_PE_ERR_CONTRACT
    else if \<exists>s\<in>set (sections plan). copy_size s = 0 \<and> length raw < unat (raw_offset s)
    then guest_pe_map_image k raw plan capacity = Inl GUEST_PE_ERR_SECTION_SOURCE
    else \<exists>img. guest_pe_map_image k raw plan capacity =
      (if sha256 img = (if base = GUEST_PE_VITA_TARGET_BASE then expected_map_sha256 k else expected_pc_map_sha256 k)
       then Inr img else Inl GUEST_PE_ERR_MAP_HASH) \<and>
    img = foldl (patch (base - original_base plan)) (laid_out raw plan) (plan_targets raw plan) \<and>
    length img = unat (image_size plan) \<and>
    (\<forall>t\<in>set (plan_targets raw plan). unat t + 4 \<le> unat (image_size plan)) \<and>
    (\<forall>i<unat (image_size plan). (\<forall>t\<in>set (plan_targets raw plan). i < unat t \<or> unat t + 4 \<le> i) \<longrightarrow>
       img ! i = laid_byte raw plan i) \<and>
    (words_apart (plan_targets raw plan) \<longrightarrow> (\<forall>t\<in>set (plan_targets raw plan).
       word_at img (unat t) = word_at (laid_out raw plan) (unat t) + (base - original_base plan)))"
proof (cases "capacity < unat (image_size plan) \<or>
    (\<exists>s\<in>set (sections plan). copy_size s = 0 \<and> length raw < unat (raw_offset s))")
  case True
  then show ?thesis using pe_map_stopped [OF assms(1), of capacity] by (auto simp: not_less)
next
  case False
  then have e: "unat (image_size plan) \<le> capacity"
    "\<forall>s\<in>set (sections plan). copy_size s = 0 \<longrightarrow> unat (raw_offset s) \<le> length raw" by (auto simp: not_less)
  let ?ts = "plan_targets raw plan"
  define img where "img = foldl (patch (base - original_base plan)) (laid_out raw plan) ?ts"
  have m: "guest_pe_map_image k raw plan capacity =
      (if sha256 img = (if base = GUEST_PE_VITA_TARGET_BASE then expected_map_sha256 k else expected_pc_map_sha256 k)
       then Inr img else Inl GUEST_PE_ERR_MAP_HASH)"
    and i: "list_all (\<lambda>t. unat t + 4 \<le> unat (image_size plan)) ?ts"
    using pe_map_relocated [OF assms(1) parse_bounded_header [OF assms(1)] e(2) assms(2) e(1), folded img_def]
    by (simp_all add: Let_def guest_pe_sha256_exact)
  have "img ! i = laid_byte raw plan i"
    if "i < unat (image_size plan)" "\<forall>t\<in>set ?ts. i < unat t \<or> unat t + 4 \<le> i" for i
  proof -
    have "img ! i = laid_out raw plan ! i" unfolding img_def by (rule patches_outside) (use that(2) in blast)
    then show ?thesis using that(1) by (simp add: laid_out_def)
  qed
  moreover have "word_at img (unat t) = word_at (laid_out raw plan) (unat t) + (base - original_base plan)"
    if "words_apart ?ts" "t \<in> set ?ts" for t
    unfolding img_def using that i by (intro patches_word) (simp_all add: list_all_iff)
  moreover have "length img = unat (image_size plan)" by (simp add: img_def)
  ultimately have "\<exists>img. guest_pe_map_image k raw plan capacity =
      (if sha256 img = (if base = GUEST_PE_VITA_TARGET_BASE then expected_map_sha256 k else expected_pc_map_sha256 k)
       then Inr img else Inl GUEST_PE_ERR_MAP_HASH) \<and>
    img = foldl (patch (base - original_base plan)) (laid_out raw plan) ?ts \<and>
    length img = unat (image_size plan) \<and>
    (\<forall>t\<in>set ?ts. unat t + 4 \<le> unat (image_size plan)) \<and>
    (\<forall>i<unat (image_size plan). (\<forall>t\<in>set ?ts. i < unat t \<or> unat t + 4 \<le> i) \<longrightarrow> img ! i = laid_byte raw plan i) \<and>
    (words_apart ?ts \<longrightarrow> (\<forall>t\<in>set ?ts.
       word_at img (unat t) = word_at (laid_out raw plan) (unat t) + (base - original_base plan)))"
    using m i by (intro exI [of _ img]) (simp add: list_all_iff img_def)
  then show ?thesis unfolding if_not_P [OF False [simplified de_Morgan_disj, THEN conjunct1]]
      if_not_P [OF False [simplified de_Morgan_disj, THEN conjunct2]] .
qed

text \<open>A file of one section with one relocated word.\<close>

definition small_bytes :: "(nat \<times> u8) list" where
  "small_bytes = [(0, 0x4D), (1, 0x5A), (0x3C, 0x40), (0x40, 0x50), (0x41, 0x45), (0x44, 0x4C), (0x45, 1), (0x46, 1),
     (0x54, 0xE0), (0x58, 0x0B), (0x59, 1), (0x69, 0x10), (0x76, 0x40), (0x79, 0x10), (0x7D, 2), (0x91, 0x20),
     (0x95, 2), (0xB4, 0x10), (0xE1, 0x11), (0xE4, 0x0C), (0x141, 2), (0x145, 0x10), (0x149, 2), (0x14D, 2),
     (0x15F, 0x20), (0x211, 0x10), (0x212, 0x40), (0x301, 0x10), (0x304, 0x0C), (0x308, 0x10), (0x309, 0x30)]"

definition small_byte :: "nat \<Rightarrow> u8" where
  "small_byte i = (case map_of small_bytes i of None \<Rightarrow> 0 | Some b \<Rightarrow> b)"

definition small_file :: "u8 list" where "small_file = map small_byte [0..<0x400]"

definition small_section :: guest_pe_section_plan where
  "small_section = \<lparr>section_name = take 8 (drop 0x138 small_file) @ [0], virtual_address = 0x1000,
     virtual_size = 0x200, raw_offset = 0x200, raw_size = 0x200, copy_size = 0x200, mapped_size = 0x200,
     characteristics = 0x20000000\<rparr>"

definition small_plan :: guest_pe_plan where
  "small_plan = \<lparr>original_base = 0x400000, target_base = 0x98000000, image_size = 0x2000, entry_rva = 0x1000,
     header_size = 0x200, section_alignment = 0x1000, file_alignment = 0x200, relocation_blocks = 0,
     highlow_count = 0, absolute_count = 0, section_count = 1, sections = [], directories = []\<rparr>"

definition small_directories :: "guest_pe_directory_plan list" where
  "small_directories = (replicate 16 \<lparr>dir_rva = 0, dir_size = 0\<rparr>) [5 := \<lparr>dir_rva = 0x1100, dir_size = 12\<rparr>]"

definition small_parsed :: guest_pe_plan where
  "small_parsed = small_plan\<lparr>sections := [small_section], directories := small_directories,
     relocation_blocks := 1, highlow_count := 1, absolute_count := 1\<rparr>"

definition small_image :: "u8 list" where
  "small_image = patch (0x98000000 - 0x400000) (laid_out small_file small_parsed) 0x1010"

definition small_contract :: pe_contract where
  "small_contract = frozen_contract\<lparr>expected_file_size := 0x400, expected_image_size := 0x2000,
     expected_entry_rva := 0x1000, expected_header_size := 0x200, expected_section_count := 1,
     expected_reloc_rva := 0x1100, expected_reloc_size := 12, expected_tls_rva := 0, expected_tls_size := 0,
     expected_reloc_blocks := 1, expected_highlow_count := 1, expected_absolute_count := 1,
     expected_file_sha256 := guest_pe_sha256 small_file, expected_map_sha256 := guest_pe_sha256 small_image\<rparr>"

lemma small_read:
  "length small_file = 0x400" "i < 0x400 \<Longrightarrow> small_file ! i = small_byte i"
  "n + 2 \<le> 0x400 \<Longrightarrow> guest_pe_read_u16 small_file 0x400 n =
     Some (ucast (small_byte n) OR push_bit 8 (ucast (small_byte (n + 1))))"
  "n + 4 \<le> 0x400 \<Longrightarrow> guest_pe_read_u32 small_file 0x400 n =
     Some (ucast (small_byte n) OR push_bit 8 (ucast (small_byte (n + 1))) OR
        push_bit 16 (ucast (small_byte (n + 2))) OR push_bit 24 (ucast (small_byte (n + 3))))"
  by (simp_all add: small_file_def guest_pe_read_u16_def guest_pe_read_u32_def guest_pe_span_size_def)

lemmas small_eval = small_read small_byte_def small_bytes_def small_contract_def frozen_contract_def
  guest_pe_span_size_def guest_pe_span_u32_def

lemma small_coff: "parse_coff small_contract small_file = Inr (0x40, 1, 0xE0)"
  by (simp add: parse_coff_def small_eval GUEST_PE_MAX_SECTIONS_def)

lemma small_optional: "parse_optional small_contract small_file 0x98000000 0x40 1 0xE0 = Inr (small_plan, 0x58, 0x138)"
  by (simp add: parse_optional_def small_eval Let_def small_plan_def)

lemma small_sections: "parse_sections small_file 0x138 small_plan 1 = Inr (small_plan\<lparr>sections := [small_section]\<rparr>)"
  by (simp add: read_section_def check_section_def small_eval small_plan_def small_section_def)

definition no_directory :: guest_pe_directory_plan where "no_directory = \<lparr>dir_rva = 0, dir_size = 0\<rparr>"

lemma parse_no_directories:
  "list_all (\<lambda>i. guest_pe_read_u32 raw (length raw) (opt + 96 + i * 8) = Some 0 \<and>
     guest_pe_read_u32 raw (length raw) (opt + 96 + i * 8 + 4) = Some 0) is \<Longrightarrow>
   parse_directories raw opt plan (is @ js) =
     parse_directories raw opt (plan\<lparr>directories := directories plan @ replicate (length is) no_directory\<rparr>) js"
  by (induction "is" arbitrary: plan) (simp_all add: parse_directory_def no_directory_def)

lemma small_empty:
  "list_all (\<lambda>i. guest_pe_read_u32 small_file (length small_file) (0x58 + 96 + i * 8) = Some 0 \<and>
     guest_pe_read_u32 small_file (length small_file) (0x58 + 96 + i * 8 + 4) = Some 0) [0, 1, 2, 3, 4]"
  "list_all (\<lambda>i. guest_pe_read_u32 small_file (length small_file) (0x58 + 96 + i * 8) = Some 0 \<and>
     guest_pe_read_u32 small_file (length small_file) (0x58 + 96 + i * 8 + 4) = Some 0)
     [6, 7, 8, 9, 10, 11, 12, 13, 14, 15]"
  by (simp_all add: small_eval)

lemma small_directory:
  "parse_directory small_file (small_plan\<lparr>sections := [small_section], directories := ds\<rparr>) (0x58 + 96 + 5 * 8) 5 =
     Inr \<lparr>dir_rva = 0x1100, dir_size = 12\<rparr>"
  by (simp add: parse_directory_def small_eval small_plan_def small_section_def guest_pe_rva_to_raw_def)

lemma small_directories_parse:
  "parse_directories small_file 0x58 (small_plan\<lparr>sections := [small_section]\<rparr>) [0..<GUEST_PE_DIRECTORY_COUNT] =
     Inr (small_plan\<lparr>sections := [small_section], directories := small_directories\<rparr>)"
proof -
  have i: "[0..<GUEST_PE_DIRECTORY_COUNT] = [0, 1, 2, 3, 4] @ 5 # [6, 7, 8, 9, 10, 11, 12, 13, 14, 15] @ []"
    unfolding GUEST_PE_DIRECTORY_COUNT_def by code_simp
  have d: "small_directories = [no_directory, no_directory, no_directory, no_directory, no_directory,
     \<lparr>dir_rva = 0x1100, dir_size = 12\<rparr>, no_directory, no_directory, no_directory, no_directory, no_directory, no_directory, no_directory, no_directory, no_directory, no_directory]"
    unfolding small_directories_def no_directory_def by code_simp
  show ?thesis unfolding i parse_no_directories [OF small_empty(1)] parse_directories.simps
      guest_pe_plan.update_convs small_directory pe_bind.simps parse_no_directories [OF small_empty(2)]
    by (simp add: small_directory parse_no_directories [OF small_empty(2), where js = "[]", simplified] d small_plan_def)
qed

lemma small_table: "validate_blocks small_file 0x2000 0x300 12 0 0 0 0 = Inr (12, 1, 1, 1)"
  by (simp add: validate_blocks.simps [of small_file] validate_entries.simps [of small_file] small_eval Let_def)

lemma small_parse: "guest_pe_parse_bounded small_contract small_file 0x98000000 = Inr small_parsed"
proof -
  have l: "small_directories ! 5 = \<lparr>dir_rva = 0x1100, dir_size = 12\<rparr>" "small_directories ! 9 = \<lparr>dir_rva = 0, dir_size = 0\<rparr>"
    by (simp_all add: small_directories_def)
  have v: "guest_pe_validate_relocations_raw small_contract small_file
      (small_plan\<lparr>sections := [small_section], directories := small_directories\<rparr>) = Inr small_parsed"
    by (simp add: guest_pe_validate_relocations_raw_def l guest_pe_rva_to_raw_def small_plan_def small_section_def
      small_read(1) guest_pe_span_size_def guest_pe_span_u32_def small_table small_contract_def small_parsed_def)
  have c: "\<not> (\<not> guest_pe_target_supported 0x98000000 \<or> 0x98000000 > 0xFFFFFFFF - expected_image_size small_contract)"
    "\<not> length small_file > 0xFFFFFFFF" "\<not> (dir_rva (small_directories ! 5) \<noteq> expected_reloc_rva small_contract \<or>
       dir_size (small_directories ! 5) \<noteq> expected_reloc_size small_contract \<or>
       dir_rva (small_directories ! 9) \<noteq> expected_tls_rva small_contract \<or>
       dir_size (small_directories ! 9) \<noteq> expected_tls_size small_contract)"
    by (simp_all add: l small_read(1) small_contract_def frozen_contract_def guest_pe_target_supported_def
      GUEST_PE_VITA_TARGET_BASE_def)
  have e: "\<not> \<not> list_ex (entry_section (entry_rva small_plan)) [small_section]"
    by (simp add: entry_section_def small_plan_def small_section_def)
  have n: "unat (0x138 :: u32) = 0x138" "unat (1 :: u16) = 1" "unat (0x58 :: u32) = 0x58" by simp_all
  show ?thesis
    unfolding guest_pe_parse_bounded_def if_not_P [OF c(1)] if_not_P [OF c(2)] small_coff pe_bind.simps split
      small_optional n small_sections small_directories_parse guest_pe_plan.select_convs guest_pe_plan.update_convs
    using c(3) e v by simp
qed


lemma small_targets: "plan_targets small_file small_parsed = [0x1010]"
proof -
  have d: "directories small_parsed ! 5 = \<lparr>dir_rva = 0x1100, dir_size = 12\<rparr>"
    by (simp add: small_parsed_def small_directories_def)
  have b: "table_base small_parsed = 0x300"
    by (simp add: table_base_def d) (simp add: small_parsed_def small_plan_def small_section_def guest_pe_rva_to_raw_def
      guest_pe_span_u32_def)
  have u: "[0..<2::nat] = [0, 1]" by code_simp
  have t: "table_targets small_file 0x300 12 0 = [0x1010]"
    by (simp add: table_targets.simps [of small_file] block_targets_def word_at_def entry_at_def
      small_eval Let_def u)
  show ?thesis by (simp add: plan_targets_def d b t)
qed

lemma small_word: "word_at (laid_out small_file small_parsed) 0x1010 = 0x401000" "laid_byte small_file small_parsed 0 = 0x4D"
  by (simp_all add: word_at_def laid_out_def laid_byte_def small_parsed_def small_plan_def small_section_def covers_def
    small_eval)

lemma small_fits:
  "unat (image_size small_parsed) = 0x2000" "unat (header_size small_parsed) \<le> unat (image_size small_parsed)"
  "\<forall>s\<in>set (sections small_parsed). copy_size s = 0 \<longrightarrow> unat (raw_offset s) \<le> length small_file"
  "original_base small_parsed = 0x400000" "image_size small_parsed = 0x2000"
  "list_all (avoids (unat (expected_reloc_rva small_contract)) (unat (expected_reloc_size small_contract)))
     (plan_targets small_file small_parsed)"
  by (simp_all add: small_targets avoids_def small_contract_def) (simp_all add: small_parsed_def small_plan_def small_section_def)

lemma small_map: "guest_pe_map_image small_contract small_file small_parsed 0x2000 = Inr small_image"
proof -
  have "expected_map_sha256 small_contract = guest_pe_sha256 small_image" by (simp add: small_contract_def)
  then show ?thesis
    using pe_map_relocated [OF small_parse small_fits(2,3,6), where capacity = "0x2000"]
    by (simp add: small_targets small_fits small_image_def GUEST_PE_VITA_TARGET_BASE_def)
qed

lemma pe_map_exact_witness:
  "guest_pe_map_image small_contract small_file small_parsed 0x2000 = Inr small_image \<and>
    length small_image = 0x2000 \<and> small_image ! 0 = 0x4D \<and> word_at small_image 0x1010 = 0x98001000"
proof -
  have w: "words_apart [0x1010]" "length small_image = 0x2000"
    by (simp_all add: words_apart_def small_image_def small_fits)
  show ?thesis
    using pe_map_exact [OF small_parse small_fits(6), where capacity = "0x2000"] small_fits(3) w
    by (auto simp: small_targets small_word small_fits small_map GUEST_PE_VITA_TARGET_BASE_def not_less [symmetric] split: if_splits)
qed

end
