(* ===== verification/Guest_Pe_Platform.thy ===== *)
theory Guest_Pe_Platform
  imports Guest_Pe_Load Guest_Pe_Map
begin

text \<open>
  The loader's table as the program fills it (\<open>g_guest_pe_loader_ops\<close> in \<open>guest.c\<close>, with the fixed
  allocator of \<open>fixed_image.c\<close>), over a model of the C library's streams and of the kernel's memory
  blocks.  A library call may fail: the state carries the outcome of each coming
  call, \<open>Some m\<close> for one that fails (a read, after \<open>m\<close> bytes).  What the loader relies on is
  a locale; the program's table is an interpretation of it.
\<close>

unbundle bit_operations_syntax

section \<open>The contract of the table\<close>

definition load_verdict :: "pe_contract \<Rightarrow> u8 list \<Rightarrow> u32 \<Rightarrow> (guest_pe_plan \<times> u8 list) pe_result" where
  "load_verdict k data base =
     (if length data \<noteq> expected_file_size k then Inl GUEST_PE_ERR_FILE_SIZE
      else if sha256 data \<noteq> expected_file_sha256 k then Inl GUEST_PE_ERR_FILE_HASH
      else pe_bind (guest_pe_parse_bounded k data base) (\<lambda>plan.
        pe_bind (guest_pe_map_image k data plan (unat (image_size plan))) (\<lambda>bytes. Inr (plan, bytes))))"

text \<open>An outcome is the verdict, and after an error the state \<open>P\<close> holds again.\<close>

definition delivers ::
    "('w \<Rightarrow> bool) \<Rightarrow> 'i \<Rightarrow> guest_pe_error \<times> 'i guest_pe_loaded_image \<times> 'w \<Rightarrow> (guest_pe_plan \<times> u8 list) pe_result \<Rightarrow> bool" where
  "delivers P i out v \<longleftrightarrow> (case (out, v) of
       ((e, l, w), Inl err) \<Rightarrow> e = err \<and> l = empty_loaded \<and> P w
     | ((e, l, w), Inr (plan, bytes)) \<Rightarrow> e = GUEST_PE_OK \<and>
         l = \<lparr>loaded_image = Some (i, bytes), loaded_plan = plan\<rparr>)"

text \<open>
  \<open>works w c\<close>: no call fails in \<open>w\<close>, whose files are \<open>c\<close>; \<open>reads w f d\<close>: the handle reads a file
  of the bytes \<open>d\<close>; \<open>holds w r d\<close>: the buffer holds the bytes \<open>d\<close>; \<open>place b m\<close>: the image allocator can give that range, at \<open>at b\<close>.
\<close>

locale reliable_loader =
  fixes ops :: "('w, 'f, 'r, 'i) guest_pe_loader_ops"
    and raw_bytes :: "('w, 'r) raw_memory"
    and works :: "'w \<Rightarrow> (string \<Rightarrow> u8 list option) \<Rightarrow> bool"
    and reads :: "'w \<Rightarrow> 'f \<Rightarrow> u8 list \<Rightarrow> bool"
    and at_start :: "'w \<Rightarrow> 'f \<Rightarrow> u8 list \<Rightarrow> bool"
    and holds :: "'w \<Rightarrow> 'r \<Rightarrow> u8 list \<Rightarrow> bool"
    and place :: "u32 \<Rightarrow> u32 \<Rightarrow> bool"
    and at :: "u32 \<Rightarrow> 'i"
  assumes complete: "\<not> ops_missing ops"
    and opens: "works w c \<Longrightarrow> c p = Some d \<Longrightarrow>
      \<exists>f w'. the (open_file ops) w p = (Some f, w') \<and> works w' c \<and> reads w' f d"
    and measures: "works w c \<Longrightarrow> reads w f d \<Longrightarrow> length d < 2 ^ 31 \<Longrightarrow>
      \<exists>w'. the (file_size ops) w f = (Some (word_of_nat (length d)), w') \<and> works w' c \<and> reads w' f d"
    and rewinds: "works w c \<Longrightarrow> reads w f d \<Longrightarrow>
      \<exists>w'. the (rewind_file ops) w f = (0, w') \<and> works w' c \<and> at_start w' f d"
    and allocates: "works w c \<Longrightarrow> at_start w f d \<Longrightarrow>
      \<exists>r w'. the (raw_alloc ops) w n = (Some r, w') \<and> works w' c \<and> at_start w' f d \<and> holds w' r []"
    and reads_all: "works w c \<Longrightarrow> at_start w f d \<Longrightarrow> holds w r [] \<Longrightarrow>
      \<exists>w'. the (read_file ops) w f r n = (min n (length d), w') \<and> works w' c \<and> reads w' f d \<and>
        holds w' r (take n d)"
    and closes: "works w c \<Longrightarrow> reads w f d \<Longrightarrow> \<exists>w'. the (close_file ops) w f = (0, w') \<and> works w' c \<and>
      (\<forall>r x. holds w r x \<longrightarrow> holds w' r x)"
    and looks: "holds w r x \<Longrightarrow> raw_bytes w r = (x, w)"
    and frees: "works w c \<Longrightarrow> works (the (raw_free ops) w r) c"
    and places: "works w c \<Longrightarrow> place b m \<Longrightarrow> holds w r x \<Longrightarrow>
      \<exists>w'. the (image_alloc ops) w b m = (Some (at b), w') \<and> holds w' r x \<and>
        works (the (image_free ops) (the (raw_free ops) w' r) (at b)) c"
begin

lemma cleanup_file:
  "works w c \<Longrightarrow> reads w f d \<Longrightarrow> e \<noteq> GUEST_PE_OK \<Longrightarrow>
     delivers (\<lambda>w. works w c) i (load_cleanup ops w (Some f) None None e loaded) (Inl e)"
  using closes [of w c f d] by (auto simp: load_cleanup_def delivers_def Let_def)

lemma cleanup_raw:
  "works w c \<Longrightarrow> e \<noteq> GUEST_PE_OK \<Longrightarrow>
     delivers (\<lambda>w. works w c) i (load_cleanup ops w None (Some r) None e loaded) (Inl e)"
  using frees [of w c r] by (simp add: load_cleanup_def delivers_def Let_def)

lemma load_image_delivers:
  assumes w: "works w c" and p: "place base (expected_image_size k)" and l: "length data = expected_file_size k"
    and h: "holds w r data"
  shows "delivers (\<lambda>w. works w c) (at base) (load_image k ops raw_bytes base w r) (load_verdict k data base)"
proof (cases "sha256 data = expected_file_sha256 k")
  case False
  then show ?thesis
    by (simp add: load_image_def load_verdict_def guest_pe_authenticate_def guest_pe_sha256_exact l cleanup_raw [OF w]
        looks [OF h])
next
  case True
  then have a: "guest_pe_authenticate k data = GUEST_PE_OK"
    by (simp add: guest_pe_authenticate_def guest_pe_sha256_exact l)
  show ?thesis
  proof (cases "guest_pe_parse_bounded k data base")
    case (Inl e)
    then show ?thesis using parse_bounded_fails [of k data base] True
      by (simp add: load_image_def load_verdict_def a l looks [OF h]) (metis cleanup_raw [OF w])
  next
    case (Inr plan)
    have "target_base plan = base" "image_size plan = expected_image_size k"
      using parse_bounded_ok(3,5) [OF Inr] by simp_all
    then obtain w' where i: "the (image_alloc ops) w (target_base plan) (image_size plan) = (Some (at base), w')"
        "holds w' r data" "works (the (image_free ops) (the (raw_free ops) w' r) (at base)) c"
      using places [OF w p h] by metis
    note looks = looks [OF h] looks [OF i(2)]
    show ?thesis
    proof (cases "guest_pe_map_image k data plan (unat (image_size plan))")
      case (Inl e)
      then show ?thesis using map_image_fails [of k data plan] Inr i True
        by (auto simp: load_image_def load_verdict_def a l looks load_cleanup_def delivers_def Let_def)
    next
      case (Inr bytes)
      then show ?thesis using \<open>guest_pe_parse_bounded k data base = Inr plan\<close> i True
        by (simp add: load_image_def load_verdict_def a l looks load_cleanup_def delivers_def Let_def)
    qed
  qed
qed

lemma load_opened_delivers:
  assumes w: "works w c" and f: "reads w f d" and l: "length d < 2 ^ 31" and p: "place base (expected_image_size k)"
  shows "delivers (\<lambda>w. works w c) (at base) (load_opened k ops raw_bytes base w f) (load_verdict k d base)"
proof -
  obtain w1 where s: "the (file_size ops) w f = (Some (word_of_nat (length d)), w1)" "works w1 c" "reads w1 f d"
    using measures [OF w f l] by blast
  have n: "unat (word_of_nat (length d) :: u64) = length d" using l by (simp add: unat_of_nat)
  show ?thesis
  proof (cases "length d = expected_file_size k")
    case False
    then show ?thesis by (simp add: load_opened_def s n load_verdict_def cleanup_file [OF s(2,3)])
  next
    case True
    obtain w2 where r: "the (rewind_file ops) w1 f = (0, w2)" "works w2 c" "at_start w2 f d"
      using rewinds [OF s(2,3)] by blast
    obtain b w3 where b: "the (raw_alloc ops) w2 (length d) = (Some b, w3)" "works w3 c" "at_start w3 f d" "holds w3 b []"
      using allocates [OF r(2,3)] by blast
    obtain w4 where d: "the (read_file ops) w3 f b (length d) = (length d, w4)" "works w4 c" "reads w4 f d"
        "holds w4 b d"
      using reads_all [OF b(2,3,4), of "length d"] by auto
    obtain w5 where c: "the (close_file ops) w4 f = (0, w5)" "works w5 c" "holds w5 b d"
      using closes [OF d(2,3)] d(4) by blast
    show ?thesis using load_image_delivers [OF c(2) p True c(3)]
      by (simp add: load_opened_def s n r b d c Let_def True [symmetric])
  qed
qed

lemma load_delivers:
  assumes w: "works w c" and f: "c p = Some d" and l: "length d < 2 ^ 31" and p: "place base (expected_image_size k)"
  shows "\<exists>e res w'. guest_pe_load_file k (Some ops) raw_bytes (Some p) base True w = (e, Some res, w') \<and>
    delivers (\<lambda>w. works w c) (at base) (e, res, w') (load_verdict k d base)"
proof -
  obtain f w1 where o: "the (open_file ops) w p = (Some f, w1)" "works w1 c" "reads w1 f d"
    using opens [OF w f] by blast
  obtain e res w' where r: "load_opened k ops raw_bytes base w1 f = (e, res, w')" by (metis surj_pair)
  then show ?thesis using load_opened_delivers [OF o(2,3) l p] complete o(1)
    by (auto simp: guest_pe_load_file_def)
qed

end

section \<open>Streams and memory blocks\<close>

record pe_world =
  disk :: "string \<Rightarrow> u8 list option"
  streams :: "nat \<Rightarrow> (u8 list \<times> nat) option"
  next_stream :: nat
  raw_blocks :: "nat \<Rightarrow> u8 list option"
  next_raw :: nat
  faults :: "nat option list"
  kernel_alloc :: "u32 \<Rightarrow> u32 \<Rightarrow> int"
  kernel_base :: "int \<Rightarrow> int \<times> u32"
  kernel_free :: "int \<Rightarrow> int"
  memory_blocks :: "int list"
  g_image_uid :: int
  g_image_address :: "u32 option"

definition lib_call :: "pe_world \<Rightarrow> nat option \<times> pe_world" where
  "lib_call w = (case faults w of [] \<Rightarrow> (None, w) | x # xs \<Rightarrow> (x, w\<lparr>faults := xs\<rparr>))"

definition seek :: "pe_world \<Rightarrow> nat \<Rightarrow> (nat \<Rightarrow> nat) \<Rightarrow> int \<times> pe_world" where
  "seek w f pos = (case lib_call w of
       (Some _, w) \<Rightarrow> (-1, w)
     | (None, w) \<Rightarrow> (case streams w f of None \<Rightarrow> (-1, w)
         | Some (d, _) \<Rightarrow> (0, w\<lparr>streams := (streams w)(f \<mapsto> (d, pos (length d)))\<rparr>)))"

definition guest_pe_stdio_open :: "pe_world \<Rightarrow> string \<Rightarrow> nat option \<times> pe_world" where
  "guest_pe_stdio_open w path = (case lib_call w of
       (Some _, w) \<Rightarrow> (None, w)
     | (None, w) \<Rightarrow> (case disk w path of None \<Rightarrow> (None, w)
         | Some d \<Rightarrow> (Some (next_stream w), w\<lparr>streams := (streams w)(next_stream w \<mapsto> (d, 0)),
             next_stream := next_stream w + 1\<rparr>)))"

definition guest_pe_stdio_size :: "pe_world \<Rightarrow> nat \<Rightarrow> u64 option \<times> pe_world" where
  "guest_pe_stdio_size w f =
     (let (result, w) = seek w f (\<lambda>n. n) in
      if result \<noteq> 0 then (None, w)
      else case lib_call w of
        (Some _, w) \<Rightarrow> (None, w)
      | (None, w) \<Rightarrow> (case streams w f of None \<Rightarrow> (None, w)
          | Some (_, pos) \<Rightarrow> if pos \<ge> 2 ^ 31 then (None, w) else (Some (word_of_nat pos), w)))"

definition guest_pe_stdio_rewind :: "pe_world \<Rightarrow> nat \<Rightarrow> int \<times> pe_world" where
  "guest_pe_stdio_rewind w f = (let (result, w) = seek w f (\<lambda>n. 0) in (if result = 0 then 0 else 1, w))"

text \<open>A block of the heap holds what was last read into it; a write to a block that is not there is lost.\<close>

definition guest_pe_stdio_read :: "pe_world \<Rightarrow> nat \<Rightarrow> nat \<Rightarrow> nat \<Rightarrow> nat \<times> pe_world" where
  "guest_pe_stdio_read w f destination n = (case lib_call w of
       (fault, w) \<Rightarrow> (case streams w f of None \<Rightarrow> (0, w)
         | Some (d, pos) \<Rightarrow>
             let data = take (case fault of None \<Rightarrow> n | Some m \<Rightarrow> min m n) (drop pos d) in
             (length data, w\<lparr>streams := (streams w)(f \<mapsto> (d, pos + length data)),
                raw_blocks := (if raw_blocks w destination = None then raw_blocks w
                               else (raw_blocks w)(destination \<mapsto> data))\<rparr>)))"

definition guest_pe_raw_bytes :: "(pe_world, nat) raw_memory" where
  "guest_pe_raw_bytes w r = (case raw_blocks w r of None \<Rightarrow> [] | Some data \<Rightarrow> data, w)"

definition guest_pe_stdio_close :: "pe_world \<Rightarrow> nat \<Rightarrow> int \<times> pe_world" where
  "guest_pe_stdio_close w f = (case lib_call w of
       (fault, w) \<Rightarrow> (if fault = None then 0 else 1, w\<lparr>streams := (streams w)(f := None)\<rparr>))"

definition guest_pe_raw_alloc :: "pe_world \<Rightarrow> nat \<Rightarrow> nat option \<times> pe_world" where
  "guest_pe_raw_alloc w n = (case lib_call w of
       (Some _, w) \<Rightarrow> (None, w)
     | (None, w) \<Rightarrow> (Some (next_raw w), w\<lparr>raw_blocks := (raw_blocks w)(next_raw w \<mapsto> []), next_raw := next_raw w + 1\<rparr>))"

definition guest_pe_raw_free :: "pe_world \<Rightarrow> nat \<Rightarrow> pe_world" where
  "guest_pe_raw_free w allocation = w\<lparr>raw_blocks := (raw_blocks w)(allocation := None)\<rparr>"

definition GUEST_IMAGE_BASE :: u32 where "GUEST_IMAGE_BASE = 0x98000000"
definition PAGE_SIZE :: u32 where "PAGE_SIZE = 0x1000"

text \<open>The kernel's blocks are the identifiers that were given out and not freed.\<close>

definition sceKernelFreeMemBlock :: "pe_world \<Rightarrow> int \<Rightarrow> int \<times> pe_world" where
  "sceKernelFreeMemBlock w uid =
     (kernel_free w uid, if kernel_free w uid \<ge> 0 then w\<lparr>memory_blocks := remove1 uid (memory_blocks w)\<rparr> else w)"

text \<open>
  The new block is cleared and then mapped over as a whole; its bytes are not part of this state.
\<close>

definition isaac_vita_fixed_alloc :: "pe_world \<Rightarrow> u32 \<Rightarrow> u32 \<Rightarrow> u32 option \<times> pe_world" where
  "isaac_vita_fixed_alloc w address n =
     (if g_image_uid w \<ge> 0 then (None, w)
      else if address \<noteq> GUEST_IMAGE_BASE then (None, w)
      else if n = 0 \<or> n > 0xFFFFFFFF - (PAGE_SIZE - 1) then (None, w)
      else
        let allocation_size = (n + PAGE_SIZE - 1) AND NOT (PAGE_SIZE - 1);
            uid = kernel_alloc w address allocation_size in
        if uid < 0 then (None, w)
        else
          let w = w\<lparr>memory_blocks := uid # memory_blocks w\<rparr>; (result, base) = kernel_base w uid in
          if result < 0 \<or> base \<noteq> address then (None, snd (sceKernelFreeMemBlock w uid))
          else (Some base, w\<lparr>g_image_uid := uid, g_image_address := Some base\<rparr>))"

definition isaac_vita_fixed_free :: "pe_world \<Rightarrow> u32 \<Rightarrow> pe_world" where
  "isaac_vita_fixed_free w address =
     (if g_image_uid w < 0 then w
      else if Some address \<noteq> g_image_address w then w
      else let (result, w) = sceKernelFreeMemBlock w (g_image_uid w) in
        if result \<ge> 0 then w\<lparr>g_image_uid := - 1, g_image_address := None\<rparr> else w)"

text \<open>The platform hooks of the Vita build.\<close>

definition guest_pe_platform_image_alloc :: "pe_world \<Rightarrow> u32 \<Rightarrow> u32 \<Rightarrow> u32 option \<times> pe_world" where
  "guest_pe_platform_image_alloc = isaac_vita_fixed_alloc"

definition guest_pe_platform_image_free :: "pe_world \<Rightarrow> u32 \<Rightarrow> pe_world" where
  "guest_pe_platform_image_free w allocation = (if allocation = 0 then w else isaac_vita_fixed_free w allocation)"

definition g_guest_pe_loader_ops :: "(pe_world, nat, nat, u32) guest_pe_loader_ops" where
  "g_guest_pe_loader_ops = \<lparr>open_file = Some guest_pe_stdio_open, file_size = Some guest_pe_stdio_size,
     rewind_file = Some guest_pe_stdio_rewind, read_file = Some guest_pe_stdio_read,
     close_file = Some guest_pe_stdio_close, raw_alloc = Some guest_pe_raw_alloc, raw_free = Some guest_pe_raw_free,
     image_alloc = Some guest_pe_platform_image_alloc, image_free = Some guest_pe_platform_image_free\<rparr>"

text \<open>A console with the files \<open>c\<close> on which no call fails and the image's place is free.\<close>

definition console_works :: "pe_world \<Rightarrow> (string \<Rightarrow> u8 list option) \<Rightarrow> bool" where
  "console_works w c \<longleftrightarrow> list_all (\<lambda>x. x = None) (faults w) \<and> disk w = c \<and> g_image_uid w < 0 \<and>
     (\<forall>n. kernel_alloc w GUEST_IMAGE_BASE n \<ge> 0 \<and>
        kernel_base w (kernel_alloc w GUEST_IMAGE_BASE n) = (0, GUEST_IMAGE_BASE) \<and>
        kernel_free w (kernel_alloc w GUEST_IMAGE_BASE n) \<ge> 0)"

definition stream_of :: "pe_world \<Rightarrow> nat \<Rightarrow> u8 list \<Rightarrow> bool" where
  "stream_of w f d \<longleftrightarrow> (\<exists>pos. streams w f = Some (d, pos))"

definition stream_at_start :: "pe_world \<Rightarrow> nat \<Rightarrow> u8 list \<Rightarrow> bool" where
  "stream_at_start w f d \<longleftrightarrow> streams w f = Some (d, 0)"

definition block_holds :: "pe_world \<Rightarrow> nat \<Rightarrow> u8 list \<Rightarrow> bool" where
  "block_holds w r d \<longleftrightarrow> raw_blocks w r = Some d"

definition image_place :: "u32 \<Rightarrow> u32 \<Rightarrow> bool" where
  "image_place b n \<longleftrightarrow> b = GUEST_IMAGE_BASE \<and> n \<noteq> 0 \<and> n \<le> 0xFFFFFFFF - (PAGE_SIZE - 1)"

lemma lib_call_works:
  "console_works w c \<Longrightarrow> \<exists>w'. lib_call w = (None, w') \<and> console_works w' c \<and> streams w' = streams w \<and>
     disk w' = c \<and> raw_blocks w' = raw_blocks w"
  by (cases "faults w") (auto simp: lib_call_def console_works_def)

lemma works_frame [simp]:
  "console_works (w\<lparr>streams := s\<rparr>) c = console_works w c" "console_works (w\<lparr>next_stream := n\<rparr>) c = console_works w c"
  "console_works (w\<lparr>next_raw := n\<rparr>) c = console_works w c"
  "console_works (w\<lparr>raw_blocks := b\<rparr>) c = console_works w c"
  by (simp_all add: console_works_def)

lemma fixed_alloc_works:
  assumes "console_works w c" "image_place b n"
  shows "\<exists>w'. isaac_vita_fixed_alloc w b n = (Some b, w') \<and> raw_blocks w' = raw_blocks w \<and>
    console_works (isaac_vita_fixed_free (w'\<lparr>raw_blocks := x\<rparr>) b) c"
proof -
  define uid where "uid = kernel_alloc w b ((n + PAGE_SIZE - 1) AND NOT (PAGE_SIZE - 1))"
  have u: "uid \<ge> 0" "kernel_base w uid = (0, b)" "kernel_free w uid \<ge> 0" "g_image_uid w < 0" "b = GUEST_IMAGE_BASE"
    using assms by (simp_all add: console_works_def image_place_def uid_def)
  have n: "\<not> (n = 0 \<or> n > 0xFFFFFFFF - (PAGE_SIZE - 1))" using assms(2) by (simp add: image_place_def not_less)
  have a: "isaac_vita_fixed_alloc w b n = (Some b, w\<lparr>memory_blocks := uid # memory_blocks w,
      g_image_uid := uid, g_image_address := Some b\<rparr>)"
    unfolding isaac_vita_fixed_alloc_def if_not_P [OF n] using u [unfolded uid_def] by (simp add: Let_def uid_def)
  show ?thesis unfolding a using u assms(1)
    by (auto simp: isaac_vita_fixed_free_def sceKernelFreeMemBlock_def console_works_def)
qed

interpretation console: reliable_loader g_guest_pe_loader_ops guest_pe_raw_bytes console_works stream_of stream_at_start block_holds image_place "\<lambda>b. b"
proof unfold_locales
  show "\<not> ops_missing g_guest_pe_loader_ops" by (simp add: g_guest_pe_loader_ops_def ops_missing_def)
next
  fix w c p d assume "console_works w c" "c p = Some d"
  then show "\<exists>f w'. the (open_file g_guest_pe_loader_ops) w p = (Some f, w') \<and> console_works w' c \<and> stream_of w' f d"
    using lib_call_works [of w c] by (auto simp: g_guest_pe_loader_ops_def guest_pe_stdio_open_def stream_of_def)
next
  fix w c f d assume w: "console_works w c" "stream_of w f d" "length d < 2 ^ 31"
  obtain w1 where l: "lib_call w = (None, w1)" "console_works w1 c" "streams w1 = streams w"
    using lib_call_works [OF w(1)] by blast
  let ?w2 = "w1\<lparr>streams := (streams w)(f \<mapsto> (d, length d))\<rparr>"
  have s: "seek w f (\<lambda>n. n) = (0, ?w2)" using w(2) l by (auto simp: seek_def stream_of_def)
  obtain w3 where l3: "lib_call ?w2 = (None, w3)" "console_works w3 c" "streams w3 = streams ?w2"
    using lib_call_works [of ?w2] l(2) by auto
  show "\<exists>w'. the (file_size g_guest_pe_loader_ops) w f = (Some (word_of_nat (length d)), w') \<and>
      console_works w' c \<and> stream_of w' f d"
    using w(3) l3 by (auto simp: g_guest_pe_loader_ops_def guest_pe_stdio_size_def s stream_of_def)
next
  fix w c f d assume "console_works w c" "stream_of w f d"
  then show "\<exists>w'. the (rewind_file g_guest_pe_loader_ops) w f = (0, w') \<and> console_works w' c \<and> stream_at_start w' f d"
    using lib_call_works [of w c]
    by (auto simp: g_guest_pe_loader_ops_def guest_pe_stdio_rewind_def seek_def stream_of_def stream_at_start_def)
next
  fix w c f d n assume "console_works w c" "stream_at_start w f d"
  then show "\<exists>r w'. the (raw_alloc g_guest_pe_loader_ops) w n = (Some r, w') \<and> console_works w' c \<and>
      stream_at_start w' f d \<and> block_holds w' r []"
    using lib_call_works [of w c]
    by (auto simp: g_guest_pe_loader_ops_def guest_pe_raw_alloc_def stream_at_start_def block_holds_def)
next
  fix w c f d r n assume "console_works w c" "stream_at_start w f d" "block_holds w r []"
  then show "\<exists>w'. the (read_file g_guest_pe_loader_ops) w f r n = (min n (length d), w') \<and> console_works w' c \<and>
      stream_of w' f d \<and> block_holds w' r (take n d)"
    using lib_call_works [of w c]
    by (auto simp: g_guest_pe_loader_ops_def guest_pe_stdio_read_def stream_at_start_def stream_of_def block_holds_def)
next
  fix w c f d assume "console_works w c" "stream_of w f d"
  then show "\<exists>w'. the (close_file g_guest_pe_loader_ops) w f = (0, w') \<and> console_works w' c \<and>
      (\<forall>r x. block_holds w r x \<longrightarrow> block_holds w' r x)"
    using lib_call_works [of w c] by (auto simp: g_guest_pe_loader_ops_def guest_pe_stdio_close_def block_holds_def)
next
  fix w r x assume "block_holds w r x"
  then show "guest_pe_raw_bytes w r = (x, w)" by (simp add: guest_pe_raw_bytes_def block_holds_def)
next
  fix w c r assume "console_works w c"
  then show "console_works (the (raw_free g_guest_pe_loader_ops) w r) c"
    by (simp add: g_guest_pe_loader_ops_def guest_pe_raw_free_def)
next
  fix w c b n r x assume "console_works w c" "image_place b n" "block_holds w r x"
  then show "\<exists>w'. the (image_alloc g_guest_pe_loader_ops) w b n = (Some b, w') \<and> block_holds w' r x \<and>
      console_works (the (image_free g_guest_pe_loader_ops) (the (raw_free g_guest_pe_loader_ops) w' r) b) c"
    using fixed_alloc_works [of w c b n "(raw_blocks w)(r := None)"]
    by (auto simp: g_guest_pe_loader_ops_def guest_pe_raw_free_def guest_pe_platform_image_alloc_def
      guest_pe_platform_image_free_def image_place_def GUEST_IMAGE_BASE_def block_holds_def)
qed

text \<open>
  C34: on a console where no call fails, a load always ends with the verdict of the file's bytes.
  A file that is missing a byte, has another digest, or does not parse or map is refused with the
  error of the first stage that refuses it, and the console works again, so that the load can be
  retried; any other file is loaded at the fixed base with the bytes of its mapped image.
\<close>

theorem platform_load_exact:
  assumes "console_works w c" "c p = Some d" "length d < 2 ^ 31" "image_place GUEST_IMAGE_BASE (expected_image_size k)"
  shows "\<exists>e res w'.
    guest_pe_load_file k (Some g_guest_pe_loader_ops) guest_pe_raw_bytes (Some p) GUEST_IMAGE_BASE True w = (e, Some res, w') \<and>
    (case load_verdict k d GUEST_IMAGE_BASE of
       Inl err \<Rightarrow> e = err \<and> res = empty_loaded \<and> console_works w' c
     | Inr (plan, bytes) \<Rightarrow> e = GUEST_PE_OK \<and>
         res = \<lparr>loaded_image = Some (GUEST_IMAGE_BASE, bytes), loaded_plan = plan\<rparr>)"
proof -
  obtain e res w' where
    "guest_pe_load_file k (Some g_guest_pe_loader_ops) guest_pe_raw_bytes (Some p) GUEST_IMAGE_BASE True w = (e, Some res, w')"
    "delivers (\<lambda>w. console_works w c) GUEST_IMAGE_BASE (e, res, w') (load_verdict k d GUEST_IMAGE_BASE)"
    using console.load_delivers [OF assms] by blast
  then show ?thesis by (intro exI [of _ e] exI [of _ res] exI [of _ w']) (simp add: delivers_def)
qed

text \<open>A console with two files: the executable of one section, and one that is too short.\<close>

definition sample_files :: "string \<Rightarrow> u8 list option" where
  "sample_files = [''isaac-ng.exe'' \<mapsto> small_file, ''notes.txt'' \<mapsto> [0x4D, 0x5A]]"

definition sample_console :: pe_world where
  "sample_console = \<lparr>disk = sample_files, streams = (\<lambda>_. None), next_stream = 1,
     raw_blocks = (\<lambda>_. None), next_raw = 1,
     faults = [None], kernel_alloc = (\<lambda>a n. 5), kernel_base = (\<lambda>u. (0, GUEST_IMAGE_BASE)), kernel_free = (\<lambda>u. 0), memory_blocks = [],
     g_image_uid = - 1, g_image_address = None\<rparr>"

lemma small_verdict: "load_verdict small_contract small_file GUEST_IMAGE_BASE = Inr (small_parsed, small_image)"
proof -
  have "length small_file = expected_file_size small_contract" "sha256 small_file = expected_file_sha256 small_contract"
    "expected_image_size small_contract = 0x2000"
    by (simp_all add: small_read small_contract_def guest_pe_sha256_exact)
  then show ?thesis using small_parse small_map small_fits(1) by (simp add: load_verdict_def GUEST_IMAGE_BASE_def)
qed

lemma platform_load_exact_witness:
  "(\<exists>w'. guest_pe_load_file small_contract (Some g_guest_pe_loader_ops) guest_pe_raw_bytes (Some ''isaac-ng.exe'') GUEST_IMAGE_BASE True
      sample_console = (GUEST_PE_OK,
        Some \<lparr>loaded_image = Some (GUEST_IMAGE_BASE, small_image), loaded_plan = small_parsed\<rparr>, w')) \<and>
   (\<exists>w'. guest_pe_load_file small_contract (Some g_guest_pe_loader_ops) guest_pe_raw_bytes (Some ''notes.txt'') GUEST_IMAGE_BASE True
      sample_console = (GUEST_PE_ERR_FILE_SIZE, Some empty_loaded, w') \<and> console_works w' sample_files)"
proof -
  have w: "console_works sample_console sample_files" by (simp add: console_works_def sample_console_def)
  have p: "image_place GUEST_IMAGE_BASE (expected_image_size small_contract)"
    by (simp add: image_place_def small_contract_def PAGE_SIZE_def)
  have v: "load_verdict small_contract [0x4D, 0x5A] GUEST_IMAGE_BASE = Inl GUEST_PE_ERR_FILE_SIZE"
    by (simp add: load_verdict_def small_contract_def)
  have f: "sample_files ''isaac-ng.exe'' = Some small_file" "sample_files ''notes.txt'' = Some [0x4D, 0x5A]"
    by (simp_all add: sample_files_def)
  have l: "length small_file < 2 ^ 31" "length [0x4D, 0x5A :: u8] < 2 ^ 31" by (simp_all add: small_read(1))
  show ?thesis
    using platform_load_exact [OF w f(1) l(1) p] platform_load_exact [OF w f(2) l(2) p]
    unfolding small_verdict v by auto
qed

end
