(* ===== verification/Guest_Image.thy ===== *)
theory Guest_Image
  imports Guest_Dispatch_Table Guest_Setjmp Guest_Pe_Platform
begin

text \<open>
  The life of the guest image (\<open>guest_image_load\<close>, \<open>guest_image_free\<close> and the static thread-local
  storage of \<open>guest.c\<close>): the loaded file is published to the dispatcher, its TLS template is copied, its
  callbacks are recorded and run once, its import slots are tagged, and all of it is undone by
  the one function that frees the image.  The image lives in guest memory at its base.
\<close>

unbundle bit_operations_syntax

section \<open>The process\<close>

abbreviation fixed_base :: u32 where "fixed_base \<equiv> Guest_Pe_Platform.GUEST_IMAGE_BASE"

text \<open>\<open>heap_blocks\<close> are the blocks of the C heap taken and not yet freed.\<close>

record guest_process =
  mach :: machine
  tib :: tib_globals
  disp :: dispatch
  world :: pe_world
  heap_blocks :: "u32 list"
  g_image_mem :: u32
  g_tls_block_size :: u32
  g_tls_callbacks :: "u32 list"
  g_tls_present :: bool
  g_tls_process_attached :: bool

definition GUEST_IMAGE_RESERVE :: u32 where "GUEST_IMAGE_RESERVE = 0x00900000"
definition GUEST_TLS_CALLBACKS_MAX :: nat where "GUEST_TLS_CALLBACKS_MAX = 64"

definition guest_image_contains :: "dispatch \<Rightarrow> u32 \<Rightarrow> u32 \<Rightarrow> bool" where
  "guest_image_contains d address len =
     (let offset = address - g_image_base d in offset \<le> g_image_size d \<and> len \<le> g_image_size d - offset)"

section \<open>Static thread-local storage\<close>

text \<open>The array of callbacks from its cell \<open>i\<close> on, \<open>n\<close> cells at most; the first result is the failure.\<close>

fun tls_callback_cells :: "mem \<Rightarrow> dispatch \<Rightarrow> u32 \<Rightarrow> nat \<Rightarrow> nat \<Rightarrow> bool \<times> u32 list" where
  "tls_callback_cells m d callbacks_address i 0 = (True, [])"
| "tls_callback_cells m d callbacks_address i (Suc n) =
     (let cell = callbacks_address + of_nat i * 4 in
      if \<not> guest_image_contains d cell 4 then (True, [])
      else
        let callback = ld32 m cell in
        if callback = 0 then (False, [])
        else if \<not> guest_image_contains d callback 1 then (True, [])
        else let (failed, rest) = tls_callback_cells m d callbacks_address (i + 1) n in (failed, callback # rest))"

text \<open>From the allocated block \<open>p\<close> on.\<close>

definition fill_static_tls :: "u32 \<Rightarrow> u32 \<Rightarrow> u32 \<Rightarrow> u32 \<Rightarrow> u32 \<Rightarrow> u32 \<Rightarrow> guest_process \<Rightarrow> bool \<times> guest_process" where
  "fill_static_tls p tpl_start template_size tls_size index_address callbacks_address s =
     (let m = st_bytes (mem (mach s)) p (replicate (unat (if tls_size \<noteq> 0 then tls_size else 1)) 0);
          m = (if template_size \<noteq> 0 then st_bytes m p (ld_bytes m tpl_start (unat template_size)) else m);
          m = st32 m index_address 0;
          s = s\<lparr>mach := (mach s)\<lparr>mem := m\<rparr>,
            tib := (tib s)\<lparr>g_tls_block := p, g_tls_index := 0, g_guest_fs_base_cached := 0\<rparr>,
            heap_blocks := p # heap_blocks s, g_tls_block_size := tls_size, g_tls_callbacks := []\<rparr> in
      if callbacks_address = 0 then (False, s\<lparr>g_tls_present := True\<rparr>)
      else let (failed, callbacks) = tls_callback_cells m (disp s) callbacks_address 0 GUEST_TLS_CALLBACKS_MAX;
               s = s\<lparr>g_tls_callbacks := callbacks\<rparr> in
        if failed then (True, s) else (False, s\<lparr>g_tls_present := True\<rparr>))"

text \<open>\<open>p\<close> is what \<open>calloc\<close> returns; the first result is the failure.\<close>

definition setup_static_tls :: "u32 \<Rightarrow> u32 \<Rightarrow> u32 \<Rightarrow> guest_process \<Rightarrow> bool \<times> guest_process" where
  "setup_static_tls p directory_rva directory_size s =
     (if directory_rva = 0 \<and> directory_size = 0 then (False, s\<lparr>g_tls_present := False\<rparr>)
      else if directory_size < 24 \<or> g_image_size (disp s) < 24 \<or> directory_rva > g_image_size (disp s) - 24
      then (True, s)
      else
        let m = mem (mach s); directory = g_image_mem s + directory_rva;
            tpl_start = ld32 m directory; tpl_end = ld32 m (directory + 4); index_address = ld32 m (directory + 8);
            callbacks_address = ld32 m (directory + 12); zero_fill = ld32 m (directory + 16) in
        if tpl_end < tpl_start then (True, s)
        else
          let template_size = tpl_end - tpl_start in
          if zero_fill > 0x01000000 \<or> template_size > 0x01000000 - zero_fill \<or>
             \<not> guest_image_contains (disp s) tpl_start template_size \<or>
             \<not> guest_image_contains (disp s) index_address 4
          then (True, s)
          else if p = 0
          then (True, s\<lparr>tib := (tib s)\<lparr>g_tls_block := 0, g_guest_fs_base_cached := 0\<rparr>\<rparr>)
          else fill_static_tls p tpl_start template_size (template_size + zero_fill) index_address callbacks_address s)"

section \<open>Loading and freeing\<close>

text \<open>Tagging stores each slot's own address until a slot is refused.\<close>

fun tag_slots :: "u32 \<Rightarrow> dispatch \<Rightarrow> u32 option \<Rightarrow> guest_import list \<Rightarrow> mem \<Rightarrow> bool \<times> mem" where
  "tag_slots img d prior [] m = (False, m)"
| "tag_slots img d prior (imported # rest) m =
     (let slot = slot_rva imported in
      if (case prior of None \<Rightarrow> False | Some p \<Rightarrow> slot \<le> p) \<or> g_image_size d < 4 \<or> slot > g_image_size d - 4
      then (True, m)
      else tag_slots img d (Some slot) rest (st32 m (img + slot) (g_image_base d + slot)))"

definition clear_tls_slot :: "guest_process \<Rightarrow> mem" where
  "clear_tls_slot s = (let m = mem (mach s) in
     case g_tib (tib s) of None \<Rightarrow> m
     | Some a \<Rightarrow>
         if g_tls_index (tib s) < GUEST_TLS_SLOTS \<and> ld32 m (a + 0x2C) \<noteq> 0
         then st32 m (ld32 m (a + 0x2C) + g_tls_index (tib s) * 4) 0 else m)"

definition free_guest_image :: "guest_process \<Rightarrow> guest_process" where
  "free_guest_image s =
     s\<lparr>mach := (mach s)\<lparr>mem := clear_tls_slot s\<rparr>,
       heap_blocks := (if g_tls_block (tib s) \<noteq> 0 then remove1 (g_tls_block (tib s)) (heap_blocks s) else heap_blocks s),
       tib := (tib s)\<lparr>g_tls_block := 0, g_guest_fs_base_cached := 0, g_tls_index := 0xFFFFFFFF\<rparr>,
       g_tls_block_size := 0, g_tls_callbacks := [], g_tls_present := False, g_tls_process_attached := False,
       world := (if g_image_mem s \<noteq> 0 then guest_pe_platform_image_free (world s) (g_image_mem s) else world s),
       g_image_mem := 0, disp := guest_image_free (disp s)\<rparr>"

definition image_occupied :: "guest_process \<Rightarrow> bool" where
  "image_occupied s \<longleftrightarrow> g_image_mem s \<noteq> 0 \<or> g_image_base (disp s) \<noteq> 0 \<or> g_image_size (disp s) \<noteq> 0 \<or>
     g_tls_block (tib s) \<noteq> 0 \<or> g_tls_present s"

text \<open>What is published of a loaded image before TLS and imports.\<close>

definition publish_image :: "u32 \<Rightarrow> u8 list \<Rightarrow> guest_pe_plan \<Rightarrow> guest_process \<Rightarrow> guest_process" where
  "publish_image i bytes plan s =
     s\<lparr>mach := (mach s)\<lparr>mem := st_bytes (mem (mach s)) i bytes\<rparr>, g_image_mem := i,
       disp := guest_gl_dynamic_first_refresh
         ((disp s)\<lparr>g_image_base := target_base plan, g_image_size := image_size plan\<rparr>)\<rparr>"

definition finish_image_load :: "u32 \<Rightarrow> guest_pe_plan \<Rightarrow> guest_process \<Rightarrow> bool \<times> guest_process" where
  "finish_image_load p plan s =
     (let directory = directories plan ! 9;
          (failed, s) = setup_static_tls p (dir_rva directory) (dir_size directory) s in
      if failed then (True, free_guest_image s)
      else
        let (failed, m) = tag_slots (g_image_mem s) (disp s) None (g_imports (disp s)) (mem (mach s));
            s = s\<lparr>mach := (mach s)\<lparr>mem := m\<rparr>\<rparr> in
        if failed then (True, free_guest_image s)
        else (False, s\<lparr>disp := guest_dispatch_table_rebuild (disp s)\<rparr>))"

definition load_guest_image :: "pe_contract \<Rightarrow> u32 \<Rightarrow> string option \<Rightarrow> guest_process \<Rightarrow> bool \<times> guest_process" where
  "load_guest_image k p path s =
     (if image_occupied s then (True, s)
      else if \<not> guest_pe_target_supported fixed_base \<or> expected_image_size k > GUEST_IMAGE_RESERVE then (True, s)
      else
        let (e, loaded, w) = guest_pe_load_file k (Some g_guest_pe_loader_ops) guest_pe_raw_bytes path fixed_base True (world s);
            s = s\<lparr>world := w\<rparr> in
        if e \<noteq> GUEST_PE_OK then (True, s)
        else case loaded_image (the loaded) of None \<Rightarrow> (True, s)
          | Some (i, bytes) \<Rightarrow> finish_image_load p (loaded_plan (the loaded))
              (publish_image i bytes (loaded_plan (the loaded)) s))"

section \<open>Running the callbacks\<close>

fun tls_run_callbacks :: "(machine \<Rightarrow> u32 \<Rightarrow> unit outcome) \<Rightarrow> u32 \<Rightarrow> u32 list \<Rightarrow> machine \<Rightarrow> int outcome" where
  "tls_run_callbacks call base [] m = Returned 0 m"
| "tls_run_callbacks call base (callback # rest) m =
     (let saved = esp (cpu m) in
      and_then (gpush m 0) (\<lambda>_ m. and_then (gpush m 1) (\<lambda>_ m.
      and_then (gpush m base) (\<lambda>_ m. and_then (gpush m 0xFFF715A1) (\<lambda>_ m.
      and_then (call m callback) (\<lambda>_ m.
        if fault (cpu m) \<noteq> None then Returned 1 m
        else if esp (cpu m) \<noteq> saved
        then guest_fault m callback ''TLS callback did not clean its stdcall arguments''
        else tls_run_callbacks call base rest m))))))"

text \<open>The machine of the result is in the outcome.\<close>

definition guest_tls_process_attach ::
    "tib_host \<Rightarrow> (machine \<Rightarrow> u32 \<Rightarrow> unit outcome) \<Rightarrow> guest_process \<Rightarrow> int outcome \<times> guest_process" where
  "guest_tls_process_attach h call s =
     (if g_image_mem s = 0 then (guest_fault (mach s) 0 ''static TLS attach without a loaded image'', s)
      else if \<not> g_tls_present s then (Returned 0 (mach s), s)
      else if g_tls_block (tib s) = 0 \<or> g_tls_index (tib s) \<ge> GUEST_TLS_SLOTS
      then (guest_fault (mach s) 0 ''static TLS metadata is incomplete'', s)
      else if g_tls_process_attached s then (Returned 0 (mach s), s)
      else case guest_fs_base h (mach s) (tib s) of (fs, m, t) \<Rightarrow>
        let s = s\<lparr>tib := t\<rparr>; tls_array = ld32 (mem m) (fs + 0x2C) in
        if fs = 0 then (guest_fault m 0 ''cannot allocate the guest TIB for static TLS'', s)
        else if tls_array = 0 \<or> ld32 (mem m) (tls_array + g_tls_index t * 4) \<noteq> g_tls_block t
        then (guest_fault m 0 ''static TLS block was not bound into the guest TIB'', s)
        else
          let result = tls_run_callbacks call (g_image_base (disp s)) (g_tls_callbacks s) m in
          (result, case result of Returned r m \<Rightarrow> (if r = 0 then s\<lparr>g_tls_process_attached := True\<rparr> else s) | _ \<Rightarrow> s))"

section \<open>The life of an image\<close>

fun outcome_machine :: "'a outcome \<Rightarrow> machine" where
  "outcome_machine (Returned x m) = m"
| "outcome_machine (Unwound m) = m"
| "outcome_machine (Aborted m) = m"

datatype image_op = Load_image u32 "string option" | Free_image | Attach_tls tib_host

fun run_image_op :: "pe_contract \<Rightarrow> (machine \<Rightarrow> u32 \<Rightarrow> unit outcome) \<Rightarrow> image_op \<Rightarrow> guest_process \<Rightarrow> guest_process" where
  "run_image_op k call (Load_image p path) s = snd (load_guest_image k p path s)"
| "run_image_op k call Free_image s = free_guest_image s"
| "run_image_op k call (Attach_tls h) s =
     (case guest_tls_process_attach h call s of (out, s) \<Rightarrow> s\<lparr>mach := outcome_machine out\<rparr>)"

text \<open>The reservation is gone, or the kernel refused to free it.\<close>

definition place_free :: "pe_world \<Rightarrow> bool" where
  "place_free w \<longleftrightarrow> g_image_uid w < 0 \<or> kernel_free w (g_image_uid w) < 0"

definition no_image :: "guest_process \<Rightarrow> bool" where
  "no_image s \<longleftrightarrow> \<not> image_occupied s \<and> heap_blocks s = [] \<and> g_tls_index (tib s) = 0xFFFFFFFF \<and>
     g_tls_block_size s = 0 \<and> g_tls_callbacks s = [] \<and> \<not> g_tls_process_attached s \<and> place_free (world s)"

definition live_image :: "pe_contract \<Rightarrow> guest_process \<Rightarrow> bool" where
  "live_image k s \<longleftrightarrow> g_image_mem s = fixed_base \<and> g_image_base (disp s) = fixed_base \<and>
     g_image_size (disp s) = expected_image_size k \<and> g_image_uid (world s) \<ge> 0 \<and>
     g_image_address (world s) = Some fixed_base \<and>
     (if g_tls_present s
      then g_tls_block (tib s) \<noteq> 0 \<and> heap_blocks s = [g_tls_block (tib s)] \<and> g_tls_index (tib s) = 0 \<and>
        length (g_tls_callbacks s) < GUEST_TLS_CALLBACKS_MAX \<and>
        list_all (\<lambda>c. c \<noteq> 0 \<and> guest_image_contains (disp s) c 1) (g_tls_callbacks s)
      else g_tls_block (tib s) = 0 \<and> heap_blocks s = [] \<and> g_tls_callbacks s = [] \<and> \<not> g_tls_process_attached s)"

definition image_ok :: "pe_contract \<Rightarrow> guest_process \<Rightarrow> bool" where
  "image_ok k s \<longleftrightarrow> no_image s \<or> live_image k s"

text \<open>The kernel's part of the world is touched by the image allocator only.\<close>

definition kernel_state where
  "kernel_state w = (g_image_uid w, g_image_address w, kernel_free w)"

lemma lib_call_kernel: "lib_call w = (x, w') \<Longrightarrow> kernel_state w' = kernel_state w"
  by (auto simp: lib_call_def kernel_state_def split: list.splits)

lemma seek_kernel: "seek w f pos = (x, w') \<Longrightarrow> kernel_state w' = kernel_state w"
  by (auto simp: seek_def kernel_state_def dest!: lib_call_kernel split: prod.splits option.splits)

lemma stdio_kernel:
  "guest_pe_stdio_open w p = (x1, w') \<Longrightarrow> kernel_state w' = kernel_state w"
  "guest_pe_stdio_size w f = (x2, w') \<Longrightarrow> kernel_state w' = kernel_state w"
  "guest_pe_stdio_rewind w f = (x3, w') \<Longrightarrow> kernel_state w' = kernel_state w"
  "guest_pe_stdio_read w f r n = (x4, w') \<Longrightarrow> kernel_state w' = kernel_state w"
  "guest_pe_stdio_close w f = (x3, w') \<Longrightarrow> kernel_state w' = kernel_state w"
  "guest_pe_raw_alloc w n = (x1, w') \<Longrightarrow> kernel_state w' = kernel_state w"
  by (auto simp: guest_pe_stdio_open_def guest_pe_stdio_size_def guest_pe_stdio_rewind_def guest_pe_stdio_read_def
    guest_pe_stdio_close_def guest_pe_raw_alloc_def kernel_state_def Let_def
    dest!: lib_call_kernel seek_kernel split: prod.splits option.splits if_splits)

lemma place_free_frame [simp]:
  "place_free (w\<lparr>raw_blocks := b\<rparr>) = place_free w" "place_free (w\<lparr>memory_blocks := m\<rparr>) = place_free w"
  by (simp_all add: place_free_def)

lemma place_free_cong: "kernel_state w' = kernel_state w \<Longrightarrow> place_free w' = place_free w"
  by (simp add: kernel_state_def place_free_def)

lemma ops_select [simp]:
  "the (open_file g_guest_pe_loader_ops) = guest_pe_stdio_open" "the (file_size g_guest_pe_loader_ops) = guest_pe_stdio_size"
  "the (rewind_file g_guest_pe_loader_ops) = guest_pe_stdio_rewind" "the (read_file g_guest_pe_loader_ops) = guest_pe_stdio_read"
  "the (close_file g_guest_pe_loader_ops) = guest_pe_stdio_close" "the (raw_alloc g_guest_pe_loader_ops) = guest_pe_raw_alloc"
  "the (raw_free g_guest_pe_loader_ops) = guest_pe_raw_free" "the (image_alloc g_guest_pe_loader_ops) = isaac_vita_fixed_alloc"
  "the (image_free g_guest_pe_loader_ops) = guest_pe_platform_image_free" "\<not> ops_missing g_guest_pe_loader_ops"
  by (simp_all add: g_guest_pe_loader_ops_def ops_missing_def guest_pe_platform_image_alloc_def)

text \<open>What a load leaves: a free place, or the image it returns.\<close>

definition load_left :: "pe_contract \<Rightarrow> guest_pe_error \<times> u32 guest_pe_loaded_image \<times> pe_world \<Rightarrow> bool" where
  "load_left k out \<longleftrightarrow> (case out of (e, l, w) \<Rightarrow>
     if e = GUEST_PE_OK then \<exists>bytes plan. l = \<lparr>loaded_image = Some (fixed_base, bytes), loaded_plan = plan\<rparr> \<and>
       target_base plan = fixed_base \<and> image_size plan = expected_image_size k \<and>
       g_image_uid w \<ge> 0 \<and> g_image_address w = Some fixed_base
     else l = empty_loaded \<and> place_free w)"

lemma cleanup_left:
  assumes "place_free w" "e \<noteq> GUEST_PE_OK"
  shows "load_left k (load_cleanup g_guest_pe_loader_ops w f r None e l)"
  using assms by (cases f; cases r)
    (auto simp: load_cleanup_def load_left_def Let_def guest_pe_raw_free_def place_free_cong [OF stdio_kernel(5)]
      split: prod.split)

lemma fixed_alloc_cases:
  assumes "isaac_vita_fixed_alloc w b n = (r, w')" "place_free w"
  shows "r = None \<and> place_free w' \<or>
    r = Some fixed_base \<and> b = fixed_base \<and> g_image_uid w' \<ge> 0 \<and> g_image_address w' = Some fixed_base"
  using assms by (auto simp: isaac_vita_fixed_alloc_def sceKernelFreeMemBlock_def Let_def split: if_splits prod.splits)

lemma fixed_free_place:
  "g_image_address w = Some b \<Longrightarrow> b \<noteq> 0 \<Longrightarrow> place_free (guest_pe_platform_image_free w b)"
  by (auto simp: guest_pe_platform_image_free_def isaac_vita_fixed_free_def sceKernelFreeMemBlock_def place_free_def)

lemma fixed_base_nonzero [simp]: "fixed_base \<noteq> 0"
  by (simp add: Guest_Pe_Platform.GUEST_IMAGE_BASE_def)

lemma load_image_left:
  assumes "place_free w"
  shows "load_left k (load_image k g_guest_pe_loader_ops guest_pe_raw_bytes fixed_base w r)"
proof -
  define look where "look u = fst (guest_pe_raw_bytes u r)" for u
  have look: "guest_pe_raw_bytes u r = (look u, u)" for u by (simp add: look_def guest_pe_raw_bytes_def)
  note d = load_image_def look
  show ?thesis
  proof (cases "guest_pe_authenticate k (look w) = GUEST_PE_OK")
    case False
    then show ?thesis using cleanup_left [OF assms] by (simp add: d)
  next
    case a: True
    show ?thesis
    proof (cases "guest_pe_parse_bounded k (look w) fixed_base")
      case (Inl e)
      then show ?thesis using cleanup_left [OF assms] parse_bounded_fails [of k "look w" fixed_base] a
        by (auto simp: d)
    next
      case parsed: (Inr plan)
      note p = parse_bounded_ok(3,5) [OF parsed]
      obtain i w' where i: "isaac_vita_fixed_alloc w (target_base plan) (image_size plan) = (i, w')"
        by (metis surj_pair)
      show ?thesis
      proof (cases i)
        case None
        then show ?thesis using fixed_alloc_cases [OF i assms] a parsed i by (simp add: d cleanup_left)
      next
        case (Some x)
        then have x: "x = fixed_base" "g_image_uid w' \<ge> 0" "g_image_address w' = Some fixed_base"
          using fixed_alloc_cases [OF i assms] by simp_all
        show ?thesis
        proof (cases "guest_pe_map_image k (look w') plan (unat (image_size plan))")
          case (Inl e)
          then show ?thesis using map_image_fails [of k "look w'" plan] x
            by (auto simp: d a parsed i Some load_cleanup_def load_left_def Let_def guest_pe_raw_free_def
              intro!: fixed_free_place)
        next
          case (Inr bytes)
          then show ?thesis using x p
            by (simp add: d a parsed i [unfolded p] Some load_cleanup_def load_left_def Let_def guest_pe_raw_free_def)
        qed
      qed
    qed
  qed
qed

lemma load_opened_left:
  assumes "place_free w"
  shows "load_left k (load_opened k g_guest_pe_loader_ops guest_pe_raw_bytes fixed_base w f)"
proof -
  obtain n w1 where s: "guest_pe_stdio_size w f = (n, w1)" by (metis surj_pair)
  obtain r w2 where r: "guest_pe_stdio_rewind w1 f = (r, w2)" by (metis surj_pair)
  obtain b w3 where b: "guest_pe_raw_alloc w2 (expected_file_size k) = (b, w3)" by (metis surj_pair)
  have p: "place_free w1" "place_free w2" "place_free w3"
    using assms place_free_cong [OF stdio_kernel(2) [OF s]] place_free_cong [OF stdio_kernel(3) [OF r]]
      place_free_cong [OF stdio_kernel(6) [OF b]] by simp_all
  show ?thesis
  proof (cases b)
    case None
    then show ?thesis using p by (cases n) (simp_all add: load_opened_def s r b Let_def cleanup_left)
  next
    case (Some x)
    obtain d w4 where d: "guest_pe_stdio_read w3 f x (expected_file_size k) = (d, w4)" by (metis surj_pair)
    obtain c w5 where c: "guest_pe_stdio_close w4 f = (c, w5)" by (metis surj_pair)
    have "place_free w4" "place_free w5"
      using p place_free_cong [OF stdio_kernel(4) [OF d]] place_free_cong [OF stdio_kernel(5) [OF c]] by simp_all
    then show ?thesis using p Some
      by (cases n) (simp_all add: load_opened_def s r b d c Let_def cleanup_left load_image_left)
  qed
qed

lemma load_file_left:
  assumes "place_free w"
  shows "\<exists>e l w'. guest_pe_load_file k (Some g_guest_pe_loader_ops) guest_pe_raw_bytes path fixed_base True w = (e, Some l, w') \<and>
    load_left k (e, l, w')"
proof (cases path)
  case None
  then show ?thesis using assms by (simp add: guest_pe_load_file_def load_left_def)
next
  case (Some p)
  obtain f w1 where o: "guest_pe_stdio_open w p = (f, w1)" by (metis surj_pair)
  then have w1: "place_free w1" using assms place_free_cong [OF stdio_kernel(1)] by blast
  show ?thesis
  proof (cases f)
    case None
    then show ?thesis using Some o w1 by (simp add: guest_pe_load_file_def load_left_def)
  next
    case (Some x)
    then show ?thesis using load_opened_left [OF w1, of k x] o \<open>path = Some p\<close>
      by (auto simp: guest_pe_load_file_def split: prod.split)
  qed
qed


section \<open>The image comes and goes as a whole\<close>

lemma free_no_image:
  assumes "heap_blocks s = (if g_tls_block (tib s) = 0 then [] else [g_tls_block (tib s)])"
    and "if g_image_mem s = 0 then place_free (world s) else g_image_address (world s) = Some (g_image_mem s)"
  shows "no_image (free_guest_image s)"
proof -
  have d: "g_image_base (guest_image_free (disp s)) = 0" "g_image_size (guest_image_free (disp s)) = 0"
    using rebuild_table [of "(disp s)\<lparr>g_image_base := 0, g_image_size := 0\<rparr>"]
      inputs_keep(5,6) [of "guest_dispatch_table_rebuild ((disp s)\<lparr>g_image_base := 0, g_image_size := 0\<rparr>)"
        "(disp s)\<lparr>g_image_base := 0, g_image_size := 0\<rparr>"]
    by (simp_all add: guest_image_free_def guest_gl_dynamic_first_refresh_def Let_def)
  show ?thesis using assms d fixed_free_place
    by (auto simp: no_image_def image_occupied_def free_guest_image_def split: if_splits)
qed

text \<open>Between publication and the end of the load: the image is in place, a TLS block is on record.\<close>

definition image_placed :: "pe_contract \<Rightarrow> guest_process \<Rightarrow> bool" where
  "image_placed k s \<longleftrightarrow> g_image_mem s = fixed_base \<and> g_image_base (disp s) = fixed_base \<and>
     g_image_size (disp s) = expected_image_size k \<and> g_image_uid (world s) \<ge> 0 \<and>
     g_image_address (world s) = Some fixed_base \<and>
     heap_blocks s = (if g_tls_block (tib s) = 0 then [] else [g_tls_block (tib s)]) \<and> \<not> g_tls_process_attached s"

lemma placed_free: "image_placed k s \<Longrightarrow> no_image (free_guest_image s)"
  by (intro free_no_image) (auto simp: image_placed_def Guest_Pe_Platform.GUEST_IMAGE_BASE_def)

lemma callback_cells_bounded:
  "tls_callback_cells m d a i n = (failed, cs) \<Longrightarrow> list_all (\<lambda>c. c \<noteq> 0 \<and> guest_image_contains d c 1) cs \<and>
     length cs \<le> n \<and> (\<not> failed \<longrightarrow> length cs < n)"
proof (induction n arbitrary: i cs failed)
  case (Suc n)
  obtain f r where "tls_callback_cells m d a (i + 1) n = (f, r)" by (metis surj_pair)
  then show ?case using Suc.prems Suc.IH [of "i + 1" f r] by (auto simp: Let_def split: if_splits)
qed simp

text \<open>The TLS state after a set-up that succeeds.\<close>

definition tls_ready :: "guest_process \<Rightarrow> bool" where
  "tls_ready s \<longleftrightarrow> (if g_tls_present s
      then g_tls_block (tib s) \<noteq> 0 \<and> g_tls_index (tib s) = 0 \<and> length (g_tls_callbacks s) < GUEST_TLS_CALLBACKS_MAX \<and>
        list_all (\<lambda>c. c \<noteq> 0 \<and> guest_image_contains (disp s) c 1) (g_tls_callbacks s)
      else g_tls_block (tib s) = 0 \<and> g_tls_callbacks s = [])"

lemma fill_tls:
  assumes "fill_static_tls p a n tot x c s = (failed, t)"
  shows "\<exists>m cs pr. t = s\<lparr>mach := m, tib := (tib s)\<lparr>g_tls_block := p, g_tls_index := 0, g_guest_fs_base_cached := 0\<rparr>,
      heap_blocks := p # heap_blocks s, g_tls_block_size := tot, g_tls_callbacks := cs, g_tls_present := pr\<rparr> \<and>
    (failed \<or> pr \<and> length cs < GUEST_TLS_CALLBACKS_MAX \<and> list_all (\<lambda>c. c \<noteq> 0 \<and> guest_image_contains (disp s) c 1) cs)"
proof -
  define m where "m = st32 (if n \<noteq> 0 then st_bytes (st_bytes (mem (mach s)) p (replicate (unat (if tot \<noteq> 0 then tot else 1)) 0)) p
      (ld_bytes (st_bytes (mem (mach s)) p (replicate (unat (if tot \<noteq> 0 then tot else 1)) 0)) a (unat n))
    else st_bytes (mem (mach s)) p (replicate (unat (if tot \<noteq> 0 then tot else 1)) 0)) x 0"
  obtain f cs where r: "tls_callback_cells m (disp s) c 0 GUEST_TLS_CALLBACKS_MAX = (f, cs)" by (metis surj_pair)
  note b = callback_cells_bounded [OF r]
  note u = assms [unfolded fill_static_tls_def Let_def, folded m_def]
  show ?thesis
  proof (cases "c = 0")
    case True
    then show ?thesis using u
      by (intro exI [of _ "(mach s)\<lparr>mem := m\<rparr>"] exI [of _ "[]"] exI [of _ True]) (auto simp: GUEST_TLS_CALLBACKS_MAX_def)
  next
    case False
    then show ?thesis using u r b
      by (intro exI [of _ "(mach s)\<lparr>mem := m\<rparr>"] exI [of _ cs] exI [of _ "if f then g_tls_present s else True"])
        (cases s, auto)
  qed
qed

lemma setup_tls_cases:
  assumes "setup_static_tls p rva n s = (failed, t)"
  shows "\<not> failed \<and> t = s\<lparr>g_tls_present := False\<rparr> \<or> failed \<and> t = s \<or>
    failed \<and> t = s\<lparr>tib := (tib s)\<lparr>g_tls_block := 0, g_guest_fs_base_cached := 0\<rparr>\<rparr> \<or>
    p \<noteq> 0 \<and> (\<exists>a l tot x c. fill_static_tls p a l tot x c s = (failed, t))"
  using assms unfolding setup_static_tls_def Let_def by (simp split: if_split_asm; blast)

lemma setup_tls_placed:
  assumes "setup_static_tls p rva n s = (failed, t)" "image_placed k s" "g_tls_block (tib s) = 0"
    "g_tls_callbacks s = []" "\<not> g_tls_present s"
  shows "image_placed k t" "failed \<or> tls_ready t" "disp t = disp s" "world t = world s"
proof -
  have "image_placed k t \<and> (failed \<or> tls_ready t) \<and> disp t = disp s \<and> world t = world s"
    using setup_tls_cases [OF assms(1)]
  proof (elim disjE conjE exE)
    fix a l tot x c assume p: "p \<noteq> 0" and f: "fill_static_tls p a l tot x c s = (failed, t)"
    then show ?thesis using fill_tls [OF f] assms(2,3) by (auto simp: image_placed_def tls_ready_def)
  qed (use assms(2-5) in \<open>auto simp: image_placed_def tls_ready_def\<close>)
  then show "image_placed k t" "failed \<or> tls_ready t" "disp t = disp s" "world t = world s" by blast+
qed

lemma finish_load_ok:
  assumes "finish_image_load p plan s = (failed, t)" "image_placed k s" "g_tls_block (tib s) = 0"
    "g_tls_callbacks s = []" "\<not> g_tls_present s"
  shows "if failed then no_image t else live_image k t"
proof -
  obtain f s1 where s1: "setup_static_tls p (dir_rva (directories plan ! 9)) (dir_size (directories plan ! 9)) s = (f, s1)"
    by (metis surj_pair)
  note tls = setup_tls_placed [OF s1 assms(2-5)]
  obtain g m where m: "tag_slots (g_image_mem s1) (disp s1) None (g_imports (disp s1)) (mem (mach s1)) = (g, m)"
    by (metis surj_pair)
  let ?s2 = "s1\<lparr>mach := (mach s1)\<lparr>mem := m\<rparr>\<rparr>"
  have p2: "image_placed k ?s2" using tls(1) by (simp add: image_placed_def)
  have d: "g_image_base (guest_dispatch_table_rebuild (disp s1)) = g_image_base (disp s1)"
    "g_image_size (guest_dispatch_table_rebuild (disp s1)) = g_image_size (disp s1)"
    using rebuild_table [of "disp s1"] inputs_keep(5,6) by blast+
  have "live_image k (?s2\<lparr>disp := guest_dispatch_table_rebuild (disp s1)\<rparr>)" if "\<not> f"
    using that tls(1,2) d by (auto simp: live_image_def image_placed_def tls_ready_def guest_image_contains_def split: if_splits)
  then show ?thesis using assms(1) placed_free [OF tls(1)] placed_free [OF p2]
    by (auto simp: finish_image_load_def s1 m Let_def split: if_splits)
qed

lemma load_image_ok:
  assumes "load_guest_image k p path s = (failed, t)" "no_image s"
  shows "if failed then no_image t else live_image k t"
proof -
  have o: "\<not> image_occupied s" "place_free (world s)" using assms(2) by (simp_all add: no_image_def)
  obtain e l w where l: "guest_pe_load_file k (Some g_guest_pe_loader_ops) guest_pe_raw_bytes path fixed_base True (world s) = (e, Some l, w)"
    "load_left k (e, l, w)" using load_file_left [OF o(2)] by blast
  show ?thesis
  proof (cases "\<not> guest_pe_target_supported fixed_base \<or> expected_image_size k > GUEST_IMAGE_RESERVE")
    case True
    then have "(failed, t) = (True, s)" using assms(1) o(1) unfolding load_guest_image_def by argo
    then show ?thesis using assms(2) by simp
  next
    case c: False
    show ?thesis
    proof (cases "e = GUEST_PE_OK")
      case False
      then have "(failed, t) = (True, s\<lparr>world := w\<rparr>)" "place_free w"
        using assms(1) o(1) c l by (simp_all add: load_guest_image_def load_left_def)
      then show ?thesis using assms(2) by (simp add: no_image_def image_occupied_def)
    next
      case True
      obtain bytes plan where b: "l = \<lparr>loaded_image = Some (fixed_base, bytes), loaded_plan = plan\<rparr>"
        "target_base plan = fixed_base" "image_size plan = expected_image_size k"
        "g_image_uid w \<ge> 0" "g_image_address w = Some fixed_base"
        using l(2) True by (auto simp: load_left_def)
      let ?s = "publish_image fixed_base bytes plan (s\<lparr>world := w\<rparr>)"
      have f: "finish_image_load p plan ?s = (failed, t)"
        using assms(1) o(1) c l(1) b(1) True by (simp add: load_guest_image_def)
      have "image_placed k ?s"
        using b assms(2) by (simp add: image_placed_def publish_image_def guest_gl_dynamic_first_refresh_def Let_def
            no_image_def image_occupied_def)
      moreover have "g_tls_block (tib ?s) = 0" "g_tls_callbacks ?s = []" "\<not> g_tls_present ?s"
        using assms(2) by (simp_all add: publish_image_def no_image_def image_occupied_def)
      ultimately show ?thesis using finish_load_ok [OF f] by blast
    qed
  qed
qed

lemma live_occupied: "live_image k s \<Longrightarrow> image_occupied s"
  by (simp add: live_image_def image_occupied_def Guest_Pe_Platform.GUEST_IMAGE_BASE_def)

lemma fs_base_keeps: "guest_fs_base h m t = (fs, m', t') \<Longrightarrow> g_tls_block t' = g_tls_block t \<and> g_tls_index t' = g_tls_index t"
  by (auto simp: guest_fs_base_def Let_def split: if_splits)

lemma attach_keeps:
  assumes "guest_tls_process_attach h call s = (out, t)"
  shows "\<exists>b a. t = s\<lparr>tib := b, g_tls_process_attached := a\<rparr> \<and> g_tls_block b = g_tls_block (tib s) \<and>
    g_tls_index b = g_tls_index (tib s) \<and> (a \<longrightarrow> g_tls_process_attached s \<or> g_image_mem s \<noteq> 0 \<and> g_tls_present s)"
proof (intro exI conjI)
  show "t = s\<lparr>tib := tib t, g_tls_process_attached := g_tls_process_attached t\<rparr>"
    using assms by (cases s) (auto simp: guest_tls_process_attach_def Let_def split: if_splits prod.splits outcome.splits)
  show "g_tls_block (tib t) = g_tls_block (tib s)" "g_tls_index (tib t) = g_tls_index (tib s)"
    "g_tls_process_attached t \<longrightarrow> g_tls_process_attached s \<or> g_image_mem s \<noteq> 0 \<and> g_tls_present s"
    using assms by (auto simp: guest_tls_process_attach_def Let_def dest: fs_base_keeps split: if_splits prod.splits outcome.splits)
qed

lemma free_absent: "image_ok k s \<Longrightarrow> no_image (free_guest_image s)"
  by (intro free_no_image) (auto simp: image_ok_def no_image_def live_image_def image_occupied_def
      Guest_Pe_Platform.GUEST_IMAGE_BASE_def split: if_splits)

lemma run_image_op_ok:
  assumes "image_ok k s"
  shows "image_ok k (run_image_op k call oper s)"
proof (cases oper)
  case (Load_image p path)
  obtain failed t where l: "load_guest_image k p path s = (failed, t)" by (metis surj_pair)
  show ?thesis
  proof (cases "no_image s")
    case True
    then show ?thesis using load_image_ok [OF l] Load_image l by (auto simp: image_ok_def split: if_splits)
  next
    case False
    then have "image_occupied s" using assms live_occupied by (auto simp: image_ok_def)
    then show ?thesis using assms Load_image by (simp add: load_guest_image_def)
  qed
next
  case Free_image
  then show ?thesis using free_absent [OF assms] by (simp add: image_ok_def)
next
  case (Attach_tls h)
  obtain out t where a: "guest_tls_process_attach h call s = (out, t)" by (metis surj_pair)
  then show ?thesis using assms attach_keeps [OF a] Attach_tls
    by (auto simp: image_ok_def no_image_def live_image_def image_occupied_def split: if_splits)
qed

text \<open>The dispatcher sees a load as \<open>guest_image_load\<close> of its own model.\<close>

definition bad_slot :: "dispatch \<Rightarrow> u32 option \<Rightarrow> guest_import list \<Rightarrow> nat \<Rightarrow> bool" where
  "bad_slot d prior xs j \<longleftrightarrow> (case (if j = 0 then prior else Some (slot_rva (xs ! (j - 1)))) of
       None \<Rightarrow> False | Some q \<Rightarrow> slot_rva (xs ! j) \<le> q) \<or>
     g_image_size d < 4 \<or> slot_rva (xs ! j) > g_image_size d - 4"

lemma tag_slots_check: "fst (tag_slots img d prior xs m) \<longleftrightarrow> (\<exists>j<length xs. bad_slot d prior xs j)"
proof (induction xs arbitrary: prior m)
  case (Cons x xs)
  have s: "bad_slot d prior (x # xs) (Suc j) = bad_slot d (Some (slot_rva x)) xs j" for j
    by (cases j) (simp_all add: bad_slot_def)
  have e: "(\<exists>j<length (x # xs). bad_slot d prior (x # xs) j) \<longleftrightarrow>
      bad_slot d prior (x # xs) 0 \<or> (\<exists>j<length xs. bad_slot d (Some (slot_rva x)) xs j)"
    using s less_Suc_eq_0_disj by auto
  have z: "bad_slot d prior (x # xs) 0 \<longleftrightarrow> (case prior of None \<Rightarrow> False | Some p \<Rightarrow> slot_rva x \<le> p) \<or>
      g_image_size d < 4 \<or> slot_rva x > g_image_size d - 4"
    by (cases prior) (simp_all add: bad_slot_def)
  show ?case unfolding e z tag_slots.simps Let_def using Cons.IH by (simp split: if_split)
qed simp

lemma tag_slots_imports: "fst (tag_slots img d None (g_imports d) m) \<longleftrightarrow> \<not> tag_imports d"
proof -
  have "bad_slot d None xs j \<longleftrightarrow> j \<noteq> 0 \<and> slot_rva (xs ! j) \<le> slot_rva (xs ! (j - 1)) \<or>
     g_image_size d < 4 \<or> slot_rva (xs ! j) > g_image_size d - 4" for xs j
    by (cases j) (simp_all add: bad_slot_def)
  then show ?thesis unfolding tag_slots_check tag_imports_def list_all_iff by (simp add: Bex_def)
qed

lemma setup_tls_disp: "setup_static_tls p rva n s = (failed, t) \<Longrightarrow> disp t = disp s"
  using setup_tls_cases [of p rva n s failed t] by (auto dest!: fill_tls)

lemma finish_load_disp:
  assumes "g_image_base d = 0" "g_image_size d = 0"
    and "disp s = guest_gl_dynamic_first_refresh (d\<lparr>g_image_base := base, g_image_size := extent\<rparr>)"
  shows "\<exists>tls. (\<not> fst (finish_image_load p plan s), disp (snd (finish_image_load p plan s))) =
    guest_image_load base extent tls d"
proof -
  obtain f s1 where s1: "setup_static_tls p (dir_rva (directories plan ! 9)) (dir_size (directories plan ! 9)) s = (f, s1)"
    by (metis surj_pair)
  have d: "disp s1 = disp s" by (rule setup_tls_disp [OF s1])
  obtain g m where m: "tag_slots (g_image_mem s1) (disp s1) None (g_imports (disp s1)) (mem (mach s1)) = (g, m)"
    by (metis surj_pair)
  then have g: "g \<longleftrightarrow> \<not> tag_imports (disp s)" using tag_slots_imports [of "g_image_mem s1" "disp s1" "mem (mach s1)"] d by simp
  have "finish_image_load p plan s = (if f then (True, free_guest_image s1)
      else let s2 = s1\<lparr>mach := (mach s1)\<lparr>mem := m\<rparr>\<rparr> in
        if g then (True, free_guest_image s2) else (False, s2\<lparr>disp := guest_dispatch_table_rebuild (disp s2)\<rparr>))"
    by (simp add: finish_image_load_def s1 m Let_def)
  moreover have "guest_image_load base extent (\<not> f) d =
      (if f \<or> \<not> tag_imports (disp s) then (False, guest_image_free (disp s)) else (True, guest_dispatch_table_rebuild (disp s)))"
    by (simp add: guest_image_load_def assms(1,2) assms(3) [symmetric])
  ultimately show ?thesis
    by (intro exI [of _ "\<not> f"]) (simp add: g d Let_def free_guest_image_def)
qed

lemma load_disp:
  assumes "dispatch_reach h registry (disp s)" "no_image s"
  shows "dispatch_reach h registry (disp (snd (load_guest_image k p path s)))"
proof -
  have o: "\<not> image_occupied s" "place_free (world s)" using assms(2) by (simp_all add: no_image_def)
  obtain e l w where l: "guest_pe_load_file k (Some g_guest_pe_loader_ops) guest_pe_raw_bytes path fixed_base True (world s) = (e, Some l, w)"
    "load_left k (e, l, w)" using load_file_left [OF o(2)] by blast
  show ?thesis
  proof (cases "guest_pe_target_supported fixed_base \<and> expected_image_size k \<le> GUEST_IMAGE_RESERVE \<and> e = GUEST_PE_OK")
    case False
    then show ?thesis using assms(1) o(1) l(1) by (auto simp: load_guest_image_def)
  next
    case c: True
    then obtain bytes plan where b: "l = \<lparr>loaded_image = Some (fixed_base, bytes), loaded_plan = plan\<rparr>"
      "target_base plan = fixed_base" "image_size plan = expected_image_size k"
      using l(2) by (auto simp: load_left_def)
    let ?s = "publish_image fixed_base bytes plan (s\<lparr>world := w\<rparr>)"
    have r: "load_guest_image k p path s = finish_image_load p plan ?s"
      using o(1) c l(1) b(1) by (simp add: load_guest_image_def not_less [symmetric])
    have z: "g_image_base (disp s) = 0" "g_image_size (disp s) = 0" using o(1) by (simp_all add: image_occupied_def)
    have "disp ?s = guest_gl_dynamic_first_refresh ((disp s)\<lparr>g_image_base := fixed_base, g_image_size := expected_image_size k\<rparr>)"
      using b by (simp add: publish_image_def)
    from finish_load_disp [OF z this] obtain tls where
      "disp (snd (load_guest_image k p path s)) = snd (guest_image_load fixed_base (expected_image_size k) tls (disp s))"
      unfolding r by (metis snd_conv)
    moreover have "unat (expected_image_size k) \<le> unat GUEST_IMAGE_RESERVE" using c by (simp add: word_le_nat_alt)
    then have "unat fixed_base + unat (expected_image_size k) \<le> 2 ^ 32"
      by (simp add: Guest_Pe_Platform.GUEST_IMAGE_BASE_def GUEST_IMAGE_RESERVE_def)
    ultimately show ?thesis using dispatch_reach.load [OF assms(1)] by simp
  qed
qed

lemma run_image_op_disp:
  assumes "image_ok k s" "dispatch_reach h registry (disp s)"
  shows "dispatch_reach h registry (disp (run_image_op k call oper s))"
proof (cases oper)
  case (Load_image p path)
  show ?thesis
  proof (cases "no_image s")
    case True
    then show ?thesis using load_disp [OF assms(2)] Load_image by simp
  next
    case False
    then have "image_occupied s" using assms(1) live_occupied by (auto simp: image_ok_def)
    then show ?thesis using assms(2) Load_image by (simp add: load_guest_image_def)
  qed
next
  case Free_image
  then show ?thesis using dispatch_reach.free [OF assms(2)] by (simp add: free_guest_image_def)
next
  case (Attach_tls hh)
  obtain out t where a: "guest_tls_process_attach hh call s = (out, t)" by (metis surj_pair)
  then have "disp t = disp s" using attach_keeps [OF a] by auto
  then show ?thesis using assms(2) Attach_tls a by simp
qed

section \<open>The claim\<close>

text \<open>
  C35: the guest image is there as a whole or not at all.  After any sequence of loads, frees and
  TLS attachments, whatever the file, the C library, the kernel and the callbacks do, either nothing
  of an image is left (no base, no TLS block, no callback, no block of the heap, no reservation the kernel
  would have freed), or the image is published at its fixed base with its one TLS block and
  only callbacks inside it.  A load while an image is live is refused and changes nothing; a load that fails
  leaves nothing, so that it can be retried; a free leaves nothing; and the dispatcher only goes through states
  that are reachable in its own model.
\<close>

theorem image_whole_or_absent:
  assumes "image_ok k s" "dispatch_reach h registry (disp s)"
  shows "let t = fold (run_image_op k call) opers s in
    (no_image t \<or> live_image k t) \<and> dispatch_reach h registry (disp t) \<and> no_image (free_guest_image t) \<and>
    (case load_guest_image k p path t of (failed, u) \<Rightarrow>
       if image_occupied t then failed \<and> u = t else if failed then no_image u else live_image k u)"
proof -
  define t where "t = fold (run_image_op k call) opers s"
  have "image_ok k t \<and> dispatch_reach h registry (disp t)" unfolding t_def using assms
  proof (induction opers arbitrary: s)
    case (Cons a as)
    then show ?case using run_image_op_ok run_image_op_disp by simp
  qed simp
  then have ok: "image_ok k t" and d: "dispatch_reach h registry (disp t)" by simp_all
  have "no_image (free_guest_image t)" by (rule free_absent [OF ok])
  moreover have "case load_guest_image k p path t of (failed, u) \<Rightarrow>
       if image_occupied t then failed \<and> u = t else if failed then no_image u else live_image k u"
  proof (cases "image_occupied t")
    case True
    then show ?thesis by (simp add: load_guest_image_def)
  next
    case False
    then have "no_image t" using ok live_occupied by (auto simp: image_ok_def)
    then show ?thesis using load_image_ok [of k p path t] False by (auto split: prod.split)
  qed
  ultimately show ?thesis using ok d unfolding t_def [symmetric] image_ok_def Let_def by blast
qed

text \<open>The small executable on the sample console is loaded, and freed again.\<close>

definition small_process :: guest_process where
  "small_process = \<lparr>mach = \<lparr>cpu = guest_cpu_init 0, mem = \<lambda>_. 0,
       sites = \<lambda>_. \<lparr>previous = None, site_env = 0, site_esp = 0, site_eip = 0, site_registration = 0\<rparr>, g_fault_count = 0\<rparr>,
     tib = \<lparr>g_stack_mem = None, g_stack_owner = None, g_stack_base = 0, g_stack_top = 0, g_guest_fs_base_cached = 0,
       g_tib = None, g_tls_block = 0, g_tls_index = 0xFFFFFFFF, g_fs_touches = 0\<rparr>,
     disp = guest_register [0x1000] [Some 7] (dispatch_zero []), world = sample_console, heap_blocks = [],
     g_image_mem = 0, g_tls_block_size = 0, g_tls_callbacks = [], g_tls_present = False, g_tls_process_attached = False\<rparr>"

lemma small_process_disp:
  "g_image_base (disp small_process) = 0" "g_image_size (disp small_process) = 0" "g_imports (disp small_process) = []"
  by (simp_all add: small_process_def guest_register_def rebuild_inputs dispatch_zero_def)

lemma small_process_loads: "\<not> fst (load_guest_image small_contract 0 (Some ''isaac-ng.exe'') small_process)"
proof -
  have w: "console_works sample_console sample_files" by (simp add: console_works_def sample_console_def)
  have f: "sample_files ''isaac-ng.exe'' = Some small_file" "length small_file < 2 ^ 31"
    by (simp_all add: sample_files_def small_read(1))
  have p: "image_place fixed_base (expected_image_size small_contract)"
    by (simp add: image_place_def small_contract_def PAGE_SIZE_def)
  obtain w' where l: "guest_pe_load_file small_contract (Some g_guest_pe_loader_ops) guest_pe_raw_bytes (Some ''isaac-ng.exe'') fixed_base True
      sample_console = (GUEST_PE_OK, Some \<lparr>loaded_image = Some (fixed_base, small_image), loaded_plan = small_parsed\<rparr>, w')"
    using console.load_delivers [OF w f p] by (auto simp: small_verdict delivers_def)
  let ?s = "publish_image fixed_base small_image small_parsed (small_process\<lparr>world := w'\<rparr>)"
  have d: "directories small_parsed ! 9 = \<lparr>dir_rva = 0, dir_size = 0\<rparr>"
    by (simp add: small_parsed_def small_directories_def)
  have i: "g_imports (disp ?s) = []" "world small_process = sample_console"
    using small_process_disp by (simp_all add: publish_image_def guest_gl_dynamic_first_refresh_def Let_def)
      (simp add: small_process_def)
  have o: "\<not> image_occupied small_process"
    using small_process_disp by (simp add: image_occupied_def) (simp add: small_process_def)
  have c: "guest_pe_target_supported fixed_base" "\<not> expected_image_size small_contract > GUEST_IMAGE_RESERVE"
    by (simp_all add: guest_pe_target_supported_def Guest_Pe_Platform.GUEST_IMAGE_BASE_def GUEST_PE_VITA_TARGET_BASE_def
      small_contract_def GUEST_IMAGE_RESERVE_def)
  have "\<not> fst (finish_image_load 0 small_parsed ?s)"
    by (simp add: finish_image_load_def d setup_static_tls_def i(1))
  then show ?thesis using o c l by (simp add: load_guest_image_def i(2))
qed

lemma image_whole_or_absent_witness:
  "\<exists>t. load_guest_image small_contract 0 (Some ''isaac-ng.exe'') small_process = (False, t) \<and>
     live_image small_contract t \<and> dispatch_reach example_host [] (disp t) \<and> no_image (free_guest_image t)"
proof -
  let ?op = "Load_image 0 (Some ''isaac-ng.exe'')"
  obtain t where t: "load_guest_image small_contract 0 (Some ''isaac-ng.exe'') small_process = (False, t)"
    using small_process_loads by (metis prod.collapse)
  have o: "\<not> image_occupied small_process"
    using small_process_disp by (simp add: image_occupied_def) (simp add: small_process_def)
  then have a: "image_ok small_contract small_process"
    by (simp add: image_ok_def no_image_def place_free_def) (simp add: small_process_def sample_console_def)
  have "dispatch_reach example_host [] (guest_register [0x1000] [Some 7] (dispatch_zero []))"
    by (rule dispatch_reach.start) simp_all
  then have b: "dispatch_reach example_host [] (disp small_process)" by (simp add: small_process_def)
  have "live_image small_contract t"
    using image_whole_or_absent [OF a b, of "\<lambda>m _. Returned () m" "[]" 0 "Some ''isaac-ng.exe''"] t o by simp
  then show ?thesis
    using image_whole_or_absent [OF a b, of "\<lambda>m _. Returned () m" "[?op]" 0 None] t by (auto simp: Let_def)
qed

end
