(* ===== verification/Vita_Find_Text.thy ===== *)
theory Vita_Find_Text imports Guest_Mem begin

text \<open>
  The text of the directory search (\<open>host_vita_find.c\<close>): the wildcard matcher with its one
  backtracking point, and the two conversions between the guest's UTF-16 and the console's UTF-8.  A C string is the list of its bytes
  without the terminator.  A failure is the address and text of the fault that follows; \<open>Find_no_fault\<close> is
  the one return of 0 that raises none.
\<close>

unbundle bit_operations_syntax

section \<open>Wildcards\<close>

abbreviation star_byte :: u8 where "star_byte \<equiv> 0x2A"
abbreviation any_byte :: u8 where "any_byte \<equiv> 0x3F"

definition vita_find_fold :: "u8 \<Rightarrow> u8" where
  "vita_find_fold v = (if v \<ge> 0x41 \<and> v \<le> 0x5A then v + 0x20 else v)"

text \<open>The pointers of the loop are the rests of their strings; \<open>star\<close> is the rest behind the star with \<open>retry\<close>.\<close>

function wildcard_loop :: "u8 list \<Rightarrow> u8 list \<Rightarrow> (u8 list \<times> u8 list) option \<Rightarrow> bool" where
  "wildcard_loop pattern [] star = (dropWhile (\<lambda>b. b = star_byte) pattern = [])"
| "wildcard_loop pattern (c # name) star =
     (if pattern \<noteq> [] \<and> (hd pattern = any_byte \<or>
         (hd pattern \<noteq> star_byte \<and> vita_find_fold (hd pattern) = vita_find_fold c))
      then wildcard_loop (tl pattern) name star
      else if pattern \<noteq> [] \<and> hd pattern = star_byte
      then wildcard_loop (tl pattern) (c # name) (Some (tl pattern, c # name))
      else case star of None \<Rightarrow> False
        | Some (rest, retry) \<Rightarrow> wildcard_loop rest (tl retry) (Some (rest, tl retry)))"
  by pat_completeness auto
termination
proof (relation "measures [\<lambda>(p, n, s). max (length n) (case s of None \<Rightarrow> 0 | Some (_, r) \<Rightarrow> length r),
    \<lambda>(p, n, s). length n, \<lambda>(p, n, s). length p]", goal_cases)
  case (2 p c n s)
  then show ?case by (cases s; cases p) (auto split: prod.split)
next
  case (3 p c n s)
  then show ?case by (cases s; cases p) auto
next
  case (4 p c n s a rest retry)
  then show ?case by (cases retry) auto
qed simp

declare wildcard_loop.simps(2) [simp del]

definition vita_find_wildcard_match :: "u8 list \<Rightarrow> u8 list \<Rightarrow> bool" where
  "vita_find_wildcard_match pattern name =
     wildcard_loop (if pattern = [star_byte, 0x2E, star_byte] then [star_byte] else pattern) name None"

definition vita_find_has_wildcard :: "u8 list \<Rightarrow> bool" where
  "vita_find_has_wildcard pattern \<longleftrightarrow> star_byte \<in> set pattern \<or> any_byte \<in> set pattern"

text \<open>What a pattern means.\<close>

fun wild_matches :: "u8 list \<Rightarrow> u8 list \<Rightarrow> bool" where
  "wild_matches [] name \<longleftrightarrow> name = []"
| "wild_matches (p # pattern) name \<longleftrightarrow>
     (if p = star_byte then list_ex (\<lambda>k. wild_matches pattern (drop k name)) [0..<Suc (length name)]
      else case name of [] \<Rightarrow> False
        | c # cs \<Rightarrow> (p = any_byte \<or> vita_find_fold p = vita_find_fold c) \<and> wild_matches pattern cs)"

lemma matches_star:
  "wild_matches (star_byte # pattern) name \<longleftrightarrow> (\<exists>k\<le>length name. wild_matches pattern (drop k name))"
  unfolding wild_matches.simps list_ex_iff set_upt by (auto simp: less_Suc_eq_le)

lemma matches_nil: "wild_matches pattern [] \<longleftrightarrow> dropWhile (\<lambda>b. b = star_byte) pattern = []"
  by (induction pattern) auto

text \<open>A piece without a star takes as many bytes as it has.\<close>

lemma matches_piece:
  "star_byte \<notin> set w \<Longrightarrow> wild_matches (w @ pattern) name \<Longrightarrow>
     length w \<le> length name \<and> wild_matches pattern (drop (length w) name)"
proof (induction w arbitrary: name)
  case (Cons a w)
  then show ?case by (cases name) auto
qed simp

text \<open>
  What the loop decides, with a star behind it: the rest of the pattern matches here, or the part behind the star matches
  later than it was tried.
\<close>

lemma wildcard_loop_star:
  "rest = w @ pattern \<Longrightarrow> retry = x @ name \<Longrightarrow> length x = length w \<Longrightarrow> star_byte \<notin> set w \<Longrightarrow>
   wildcard_loop pattern name (Some (rest, retry)) \<longleftrightarrow>
     wild_matches pattern name \<or> (\<exists>k\<ge>1. k \<le> length retry \<and> wild_matches rest (drop k retry))"
proof (induction pattern name "Some (rest, retry)" arbitrary: rest retry w x rule: wildcard_loop.induct)
  case (1 pattern)
  have "\<not> wild_matches rest (drop k retry)" if "k \<ge> 1" "k \<le> length retry" for k
    using matches_piece [OF 1(4), of pattern "drop k retry"] that 1(1-3) by auto
  then show ?case by (auto simp: matches_nil)
next
  case (2 pattern c name)
  consider (take) "pattern \<noteq> []" "hd pattern = any_byte \<or> (hd pattern \<noteq> star_byte \<and> vita_find_fold (hd pattern) = vita_find_fold c)"
    | (star) "pattern \<noteq> []" "hd pattern = star_byte"
    | (miss) "pattern = [] \<or> (hd pattern \<noteq> any_byte \<and> hd pattern \<noteq> star_byte \<and> vita_find_fold (hd pattern) \<noteq> vita_find_fold c)"
    by blast
  then show ?case
  proof cases
    case take
    then obtain a p where p: "pattern = a # p" "a \<noteq> star_byte" "a = any_byte \<or> vita_find_fold a = vita_find_fold c"
      by (cases pattern) auto
    have "wildcard_loop p name (Some (rest, retry)) \<longleftrightarrow>
        wild_matches p name \<or> (\<exists>k\<ge>1. k \<le> length retry \<and> wild_matches rest (drop k retry))"
      by (rule "2.hyps"(1) [of "w @ [a]" "x @ [c]", unfolded p list.sel]) (use 2(4-) p in auto)
    then show ?thesis using p by (simp add: wildcard_loop.simps(2))
  next
    case star
    then obtain p where p: "pattern = star_byte # p" by (cases pattern) auto
    have l: "wildcard_loop p (c # name) (Some (p, c # name)) \<longleftrightarrow>
        wild_matches p (c # name) \<or> (\<exists>k\<ge>1. k \<le> length (c # name) \<and> wild_matches p (drop k (c # name)))"
      by (rule "2.hyps"(2) [of "[]" "[]", unfolded p list.sel]) (use p in auto)
    have m: "wild_matches (star_byte # p) (c # name) \<longleftrightarrow>
        wild_matches p (c # name) \<or> (\<exists>k\<ge>1. k \<le> length (c # name) \<and> wild_matches p (drop k (c # name)))"
      unfolding matches_star by (metis drop0 le0 le_zero_eq less_one not_le)
    have "wild_matches (star_byte # p) (c # name)" if k: "k \<ge> 1" "k \<le> length retry" "wild_matches rest (drop k retry)" for k
    proof -
      have "wild_matches (star_byte # p) (drop (length w) (drop k retry))" "length w \<le> length (drop k retry)"
        using matches_piece [OF 2(7), of "star_byte # p" "drop k retry"] k(3) 2(4) p by simp_all
      then obtain j where "j \<le> length retry - k - length w" "wild_matches p (drop j (drop (length w + k) retry))"
        unfolding matches_star by (auto simp: add.commute)
      then have "wild_matches p (drop (j + k) (c # name))" "j + k \<le> length (c # name)"
        using 2(5,6) k(2) \<open>length w \<le> length (drop k retry)\<close> by (auto simp: add.commute add.left_commute)
      then show ?thesis unfolding matches_star by blast
    qed
    then show ?thesis using l m p by (auto simp: wildcard_loop.simps(2))
  next
    case miss
    have "retry \<noteq> []" using 2(5) by simp
    have n: "\<not> wild_matches pattern (c # name)" using miss by (cases pattern) auto
    have r: "wildcard_loop rest (tl retry) (Some (rest, tl retry)) \<longleftrightarrow>
        wild_matches rest (tl retry) \<or> (\<exists>k\<ge>1. k \<le> length (tl retry) \<and> wild_matches rest (drop k (tl retry)))"
      by (rule "2.hyps"(3) [of _ rest retry "[]" "[]"]) (use miss in auto)
    have e: "wild_matches rest (tl retry) \<or> (\<exists>k\<ge>1. k \<le> length (tl retry) \<and> wild_matches rest (drop k (tl retry))) \<longleftrightarrow>
        (\<exists>k\<ge>1. k \<le> length retry \<and> wild_matches rest (drop k retry))" (is "?l \<longleftrightarrow> ?r")
    proof
      assume ?l
      then show ?r
      proof
        assume "wild_matches rest (tl retry)"
        then show ?r using \<open>retry \<noteq> []\<close> by (intro exI [of _ 1]) (cases retry, auto)
      next
        assume "\<exists>k\<ge>1. k \<le> length (tl retry) \<and> wild_matches rest (drop k (tl retry))"
        then obtain k where "k \<le> length (tl retry)" "wild_matches rest (drop k (tl retry))" by blast
        then show ?r using \<open>retry \<noteq> []\<close> by (intro exI [of _ "Suc k"]) (cases retry, auto)
      qed
    next
      assume ?r
      then obtain k where k: "k \<ge> 1" "k \<le> length retry" "wild_matches rest (drop k retry)" by blast
      then obtain j where j: "k = Suc j" by (cases k) auto
      then have m: "j \<le> length (tl retry)" "wild_matches rest (drop j (tl retry))"
        using k \<open>retry \<noteq> []\<close> by (cases retry; simp)+
      then show ?l by (cases "j = 0") auto
    qed
    have s: "wildcard_loop pattern (c # name) (Some (rest, retry)) = wildcard_loop rest (tl retry) (Some (rest, tl retry))"
      unfolding wildcard_loop.simps(2) [of pattern c name] option.case prod.case using miss by metis
    show ?thesis unfolding s r using n e by blast
  qed
qed

lemma wildcard_loop_exact: "wildcard_loop pattern name None \<longleftrightarrow> wild_matches pattern name"
proof (induction pattern arbitrary: name)
  case Nil
  then show ?case by (cases name) (simp_all add: wildcard_loop.simps(2))
next
  case (Cons p pattern)
  show ?case
  proof (cases name)
    case Nil
    then show ?thesis by (simp add: matches_nil del: wild_matches.simps)
  next
    case n: (Cons c cs)
    show ?thesis
    proof (cases "p = star_byte")
      case True
      have "wildcard_loop (p # pattern) name None \<longleftrightarrow> wildcard_loop pattern (c # cs) (Some (pattern, c # cs))"
        using True n by (simp add: wildcard_loop.simps(2) [of "star_byte # pattern"])
      also have "\<dots> \<longleftrightarrow> wild_matches pattern (c # cs) \<or> (\<exists>k\<ge>1. k \<le> length (c # cs) \<and> wild_matches pattern (drop k (c # cs)))"
        by (rule wildcard_loop_star [of _ "[]" _ _ "[]"]) simp_all
      also have "\<dots> \<longleftrightarrow> wild_matches (star_byte # pattern) (c # cs)"
        unfolding matches_star by (metis drop0 le0 le_zero_eq less_one not_le)
      finally show ?thesis using True n by blast
    next
      case False
      then show ?thesis using n Cons.IH [of cs] by (simp add: wildcard_loop.simps(2) [of "p # pattern"])
    qed
  qed
qed

section \<open>From UTF-16 to UTF-8\<close>

datatype find_failure = Find_fault u32 string | Find_no_fault

definition VITA_FIND_PATH_UNITS_MAX :: nat where "VITA_FIND_PATH_UNITS_MAX = 1024"
definition VITA_FIND_PATH_UTF8_MAX :: nat where "VITA_FIND_PATH_UTF8_MAX = 4096"

definition utf8_bytes :: "u32 \<Rightarrow> u8 list" where
  "utf8_bytes codepoint =
     (if codepoint \<le> 0x7F then [ucast codepoint]
      else if codepoint \<le> 0x7FF then [ucast (0xC0 OR drop_bit 6 codepoint), ucast (0x80 OR (codepoint AND 0x3F))]
      else if codepoint \<le> 0xFFFF then [ucast (0xE0 OR drop_bit 12 codepoint),
        ucast (0x80 OR (drop_bit 6 codepoint AND 0x3F)), ucast (0x80 OR (codepoint AND 0x3F))]
      else [ucast (0xF0 OR drop_bit 18 codepoint), ucast (0x80 OR (drop_bit 12 codepoint AND 0x3F)),
        ucast (0x80 OR (drop_bit 6 codepoint AND 0x3F)), ucast (0x80 OR (codepoint AND 0x3F))])"

definition vita_find_emit_utf8 :: "u32 \<Rightarrow> u8 list \<Rightarrow> nat \<Rightarrow> find_failure + u8 list" where
  "vita_find_emit_utf8 codepoint output capacity =
     (if length output > capacity - length (utf8_bytes codepoint)
      then Inl (Find_fault 0 ''FindFirstFileW path exceeds UTF-8 bound'')
      else Inr (output @ utf8_bytes codepoint))"

function decode_units :: "mem \<Rightarrow> u32 \<Rightarrow> nat \<Rightarrow> nat \<Rightarrow> u8 list \<Rightarrow> find_failure + u8 list" where
  "decode_units m address capacity input_index output =
     (if input_index > VITA_FIND_PATH_UNITS_MAX then Inl Find_no_fault
      else
        let offset = of_nat (input_index * 2) :: u32; at = ld16 m (address + offset) in
        if address > 0xFFFFFFFF - offset - 1
        then Inl (Find_fault address ''FindFirstFileW pattern range overflow'')
        else if at = 0 then Inr output
        else if input_index = VITA_FIND_PATH_UNITS_MAX
        then Inl (Find_fault address ''FindFirstFileW pattern exceeds UTF-16 bound'')
        else if at \<ge> 0xD800 \<and> at \<le> 0xDBFF then
          if address > 0xFFFFFFFF - offset - 3
          then Inl (Find_fault address ''FindFirstFileW pattern range overflow'')
          else
            let low = ld16 m (address + offset + 2) in
            if low < 0xDC00 \<or> low > 0xDFFF
            then Inl (Find_fault address ''FindFirstFileW pattern has invalid UTF-16'')
            else case vita_find_emit_utf8 (0x10000 + push_bit 10 (ucast at - 0xD800) + (ucast low - 0xDC00))
                output (capacity - 1) of
              Inl e \<Rightarrow> Inl e
            | Inr output \<Rightarrow> decode_units m address capacity (input_index + 2) output
        else if at \<ge> 0xDC00 \<and> at \<le> 0xDFFF
        then Inl (Find_fault address ''FindFirstFileW pattern has invalid UTF-16'')
        else case vita_find_emit_utf8 (ucast at) output (capacity - 1) of
            Inl e \<Rightarrow> Inl e
          | Inr output \<Rightarrow> decode_units m address capacity (input_index + 1) output)"
  by pat_completeness auto
termination by (relation "measure (\<lambda>(m, a, n, i, out). Suc VITA_FIND_PATH_UNITS_MAX - i)") auto

declare decode_units.simps [simp del]

definition vita_find_decode_path :: "mem \<Rightarrow> u32 \<Rightarrow> nat \<Rightarrow> find_failure + u8 list" where
  "vita_find_decode_path m address capacity =
     (if address = 0 then Inl (Find_fault address ''FindFirstFileW received a null pattern'')
      else decode_units m address capacity 0 [])"

section \<open>From UTF-8 to UTF-16\<close>

text \<open>The value, the least value and the continuation bytes a leading byte announces.\<close>

definition utf8_lead :: "u8 \<Rightarrow> (u32 \<times> u32 \<times> nat) option" where
  "utf8_lead first =
     (if first < 0x80 then Some (ucast first, 0, 0)
      else if first AND 0xE0 = 0xC0 then Some (ucast first AND 0x1F, 0x80, 1)
      else if first AND 0xF0 = 0xE0 then Some (ucast first AND 0x0F, 0x800, 2)
      else if first AND 0xF8 = 0xF0 then Some (ucast first AND 0x07, 0x10000, 3)
      else None)"

fun utf8_continue :: "nat \<Rightarrow> u32 \<Rightarrow> u8 list \<Rightarrow> (u32 \<times> u8 list) option" where
  "utf8_continue 0 codepoint input = Some (codepoint, input)"
| "utf8_continue (Suc n) codepoint [] = None"
| "utf8_continue (Suc n) codepoint (b # input) =
     (if b = 0 \<or> b AND 0xC0 \<noteq> 0x80 then None
      else utf8_continue n (push_bit 6 codepoint OR (ucast b AND 0x3F)) input)"

lemma utf8_continue_length: "utf8_continue n v input = Some (w, rest) \<Longrightarrow> length rest \<le> length input"
  by (induction n v input rule: utf8_continue.induct) (auto split: if_splits)

definition invalid_name :: find_failure where
  "invalid_name = Find_fault 0 ''FindFile received an invalid UTF-8 name''"

definition long_name :: find_failure where
  "long_name = Find_fault 0 ''FindFile name exceeds WIN32_FIND_DATAW''"

function utf16_units :: "u8 list \<Rightarrow> u16 list \<Rightarrow> nat \<Rightarrow> find_failure + u16 list" where
  "utf16_units [] output capacity = Inr output"
| "utf16_units (first # input) output capacity =
     (case utf8_lead first of None \<Rightarrow> Inl invalid_name
      | Some (v, minimum, continuation) \<Rightarrow>
          (case utf8_continue continuation v input of None \<Rightarrow> Inl invalid_name
           | Some (codepoint, rest) \<Rightarrow>
               if (continuation \<noteq> 0 \<and> codepoint < minimum) \<or> codepoint > 0x10FFFF \<or>
                  (codepoint \<ge> 0xD800 \<and> codepoint \<le> 0xDFFF)
               then Inl invalid_name
               else if codepoint \<le> 0xFFFF then
                 if length output + 1 \<ge> capacity then Inl long_name
                 else utf16_units rest (output @ [ucast codepoint]) capacity
               else if length output + 2 \<ge> capacity then Inl long_name
               else utf16_units rest (output @ [ucast (0xD800 OR drop_bit 10 (codepoint - 0x10000)),
                      ucast (0xDC00 OR ((codepoint - 0x10000) AND 0x3FF))]) capacity))"
  by pat_completeness auto
termination
  by (relation "measure (\<lambda>(i, out, n). length i)") (auto dest: utf8_continue_length simp: less_Suc_eq_le)

definition vita_find_utf8_to_utf16 :: "u8 list \<Rightarrow> nat \<Rightarrow> find_failure + u16 list" where
  "vita_find_utf8_to_utf16 input capacity = utf16_units input [] capacity"


section \<open>Round trip\<close>

lemma lead2: "(b :: u8) AND 0xE0 = 0xC0 \<Longrightarrow> bit b 7 \<and> bit b 6 \<and> \<not> bit b 5"
  by (drule arg_cong [where f = "\<lambda>w. (bit w 7, bit w 6, bit w 5)"]) (simp add: bit_simps)

lemma lead3: "(b :: u8) AND 0xF0 = 0xE0 \<Longrightarrow> bit b 7 \<and> bit b 6 \<and> bit b 5 \<and> \<not> bit b 4"
  by (drule arg_cong [where f = "\<lambda>w. (bit w 7, bit w 6, bit w 5, bit w 4)"]) (simp add: bit_simps)

lemma lead4: "(b :: u8) AND 0xF8 = 0xF0 \<Longrightarrow> bit b 7 \<and> bit b 6 \<and> bit b 5 \<and> bit b 4 \<and> \<not> bit b 3"
  by (drule arg_cong [where f = "\<lambda>w. (bit w 7, bit w 6, bit w 5, bit w 4, bit w 3)"]) (simp add: bit_simps)

lemma trail: "(b :: u8) AND 0xC0 = 0x80 \<Longrightarrow> bit b 7 \<and> \<not> bit b 6"
  by (drule arg_cong [where f = "\<lambda>w. (bit w 7, bit w 6)"]) (simp add: bit_simps)

lemma u8_eqI:
  "(bit (a :: u8) 0 \<longleftrightarrow> bit b 0) \<Longrightarrow> (bit a 1 \<longleftrightarrow> bit b 1) \<Longrightarrow> (bit a 2 \<longleftrightarrow> bit b 2) \<Longrightarrow> (bit a 3 \<longleftrightarrow> bit b 3) \<Longrightarrow>
   (bit a 4 \<longleftrightarrow> bit b 4) \<Longrightarrow> (bit a 5 \<longleftrightarrow> bit b 5) \<Longrightarrow> (bit a 6 \<longleftrightarrow> bit b 6) \<Longrightarrow> (bit a 7 \<longleftrightarrow> bit b 7) \<Longrightarrow> a = b"
  by (rule bit_word_eqI) (auto simp: less_Suc_eq numeral_eq_Suc)

text \<open>A continuation step keeps the bits that are there and appends six.\<close>

abbreviation with_trail :: "u32 \<Rightarrow> u8 \<Rightarrow> u32" where
  "with_trail v b \<equiv> push_bit 6 v OR (ucast b AND 0x3F)"

lemma masked_le: "(w :: u32) AND k = w \<Longrightarrow> w \<le> k"
  by (metis word_and_le1)

lemma two_bytes:
  fixes a b :: u8
  assumes "a AND 0xE0 = 0xC0" "b AND 0xC0 = 0x80" "v = with_trail (ucast a AND 0x1F) b"
  shows "ucast (0xC0 OR drop_bit 6 v) = a" "ucast (0x80 OR (v AND 0x3F)) = b" "v \<le> 0x7FF"
proof -
  show "ucast (0xC0 OR drop_bit 6 v) = a" "ucast (0x80 OR (v AND 0x3F)) = b"
    using lead2 [OF assms(1)] trail [OF assms(2)] by (auto intro!: u8_eqI simp: assms(3) bit_simps)
  have "v AND 0x7FF = v"
    by (rule bit_word_eqI) (auto simp: assms(3) bit_simps numeral_eq_Suc less_Suc_eq)
  then show "v \<le> 0x7FF" by (rule masked_le)
qed

lemma three_bytes:
  fixes a b c :: u8
  assumes "a AND 0xF0 = 0xE0" "b AND 0xC0 = 0x80" "c AND 0xC0 = 0x80"
    "v = with_trail (with_trail (ucast a AND 0x0F) b) c"
  shows "ucast (0xE0 OR drop_bit 12 v) = a" "ucast (0x80 OR (drop_bit 6 v AND 0x3F)) = b"
    "ucast (0x80 OR (v AND 0x3F)) = c" "v \<le> 0xFFFF"
proof -
  show "ucast (0xE0 OR drop_bit 12 v) = a" "ucast (0x80 OR (drop_bit 6 v AND 0x3F)) = b"
    "ucast (0x80 OR (v AND 0x3F)) = c"
    using lead3 [OF assms(1)] trail [OF assms(2)] trail [OF assms(3)]
    by (auto intro!: u8_eqI simp: assms(4) bit_simps)
  have "v AND 0xFFFF = v"
    by (rule bit_word_eqI) (auto simp: assms(4) bit_simps numeral_eq_Suc less_Suc_eq)
  then show "v \<le> 0xFFFF" by (rule masked_le)
qed

lemma four_bytes:
  fixes a b c d :: u8
  assumes "a AND 0xF8 = 0xF0" "b AND 0xC0 = 0x80" "c AND 0xC0 = 0x80" "d AND 0xC0 = 0x80"
    "v = with_trail (with_trail (with_trail (ucast a AND 0x07) b) c) d"
  shows "ucast (0xF0 OR drop_bit 18 v) = a" "ucast (0x80 OR (drop_bit 12 v AND 0x3F)) = b"
    "ucast (0x80 OR (drop_bit 6 v AND 0x3F)) = c" "ucast (0x80 OR (v AND 0x3F)) = d"
  using lead4 [OF assms(1)] trail [OF assms(2)] trail [OF assms(3)] trail [OF assms(4)]
  by (auto intro!: u8_eqI simp: assms(5) bit_simps)

lemma utf8_continueE:
  assumes "utf8_continue (Suc n) v input = Some (w, rest)"
  obtains b more where "input = b # more" "b AND 0xC0 = 0x80" "utf8_continue n (with_trail v b) more = Some (w, rest)"
  using assms by (cases input) (auto split: if_splits)

lemma nat_digits: "(1::nat) = Suc 0" "(2::nat) = Suc (Suc 0)" "(3::nat) = Suc (Suc (Suc 0))"
  by simp_all

text \<open>The bytes a code point was read from are the bytes it is written as.\<close>

lemma utf8_bytes_read:
  assumes l: "utf8_lead first = Some (v, minimum, n)" and c: "utf8_continue n v input = Some (cp, rest)"
    and m: "\<not> (n \<noteq> 0 \<and> cp < minimum)"
  shows "first # input = utf8_bytes cp @ rest"
proof -
  consider (1) "first < 0x80" "v = ucast first" "n = 0"
    | (2) "first AND 0xE0 = 0xC0" "v = ucast first AND 0x1F" "minimum = 0x80" "n = 1"
    | (3) "first AND 0xF0 = 0xE0" "v = ucast first AND 0x0F" "minimum = 0x800" "n = 2"
    | (4) "first AND 0xF8 = 0xF0" "v = ucast first AND 0x07" "minimum = 0x10000" "n = 3"
    using l unfolding utf8_lead_def by (simp only: option.inject prod.inject option.distinct split: if_split_asm)
  then show ?thesis
  proof cases
    case 1
    have "(ucast first :: u32) \<le> 0x7F"
      using 1(1) by (simp add: word_le_nat_alt word_less_nat_alt unat_ucast_up)
    moreover have "(ucast (ucast first :: u32) :: u8) = first" by (rule bit_word_eqI) (simp add: bit_simps)
    ultimately show ?thesis using 1 c by (auto simp: utf8_bytes_def)
  next
    case 2
    obtain b where b: "input = b # rest" "b AND 0xC0 = 0x80" "cp = with_trail (ucast first AND 0x1F) b"
      using c unfolding 2 nat_digits by (auto elim!: utf8_continueE)
    note t = two_bytes [OF 2(1) b(2,3)]
    have "\<not> cp \<le> 0x7F" using m 2 by (simp add: word_le_nat_alt word_less_nat_alt)
    then show ?thesis using t b(1) by (simp add: utf8_bytes_def)
  next
    case 3
    obtain b c where b: "input = b # c # rest" "b AND 0xC0 = 0x80" "c AND 0xC0 = 0x80"
      "cp = with_trail (with_trail (ucast first AND 0x0F) b) c"
      using c unfolding 3 nat_digits by (auto elim!: utf8_continueE)
    note t = three_bytes [OF 3(1) b(2,3,4)]
    have "\<not> cp \<le> 0x7FF" "\<not> cp \<le> 0x7F" using m 3 by (simp_all add: word_le_nat_alt word_less_nat_alt)
    then show ?thesis using t b(1) by (simp add: utf8_bytes_def)
  next
    case 4
    obtain b c d where b: "input = b # c # d # rest" "b AND 0xC0 = 0x80" "c AND 0xC0 = 0x80" "d AND 0xC0 = 0x80"
      "cp = with_trail (with_trail (with_trail (ucast first AND 0x07) b) c) d"
      using c unfolding 4 nat_digits by (auto elim!: utf8_continueE)
    note t = four_bytes [OF 4(1) b(2,3,4,5)]
    have "\<not> cp \<le> 0xFFFF" "\<not> cp \<le> 0x7FF" "\<not> cp \<le> 0x7F" using m 4 by (simp_all add: word_le_nat_alt word_less_nat_alt)
    then show ?thesis using t b(1) by (simp add: utf8_bytes_def)
  qed
qed


fun units_at :: "mem \<Rightarrow> u32 \<Rightarrow> nat \<Rightarrow> u16 list \<Rightarrow> bool" where
  "units_at m a i [] \<longleftrightarrow> ld16 m (a + of_nat (i * 2)) = 0"
| "units_at m a i (u # us) \<longleftrightarrow> ld16 m (a + of_nat (i * 2)) = u \<and> units_at m a (i + 1) us"

lemma or_is_plus:
  fixes x :: u32
  assumes "unat x < 2 ^ n"
  shows "push_bit n a OR x = push_bit n a + x"
proof -
  have x: "x = take_bit n x" using assms by (metis take_bit_nat_eq_self unsigned_take_bit_eq word_unat_eq_iff)
  have "push_bit n a AND take_bit n x = 0"
    by (rule bit_word_eqI) (auto simp: bit_simps)
  then show ?thesis using x by (metis disjunctive_add_eq_or)
qed

text \<open>The two halves of a code point beyond the first plane.\<close>

lemma surrogates:
  fixes cp :: u32
  assumes "cp > 0xFFFF" "cp \<le> 0x10FFFF"
  defines "hi \<equiv> ucast (0xD800 OR drop_bit 10 (cp - 0x10000)) :: u16"
    and "lo \<equiv> ucast (0xDC00 OR ((cp - 0x10000) AND 0x3FF)) :: u16"
  shows "hi \<ge> 0xD800" "hi \<le> 0xDBFF" "lo \<ge> 0xDC00" "lo \<le> 0xDFFF"
    "0x10000 + push_bit 10 (ucast hi - 0xD800) + (ucast lo - 0xDC00) = cp"
proof -
  define c where "c = cp - 0x10000"
  have u: "unat c = unat cp - 0x10000" and b: "unat c < 0x100000"
    using assms(1,2) unfolding c_def by (simp_all add: unat_sub word_le_nat_alt word_less_nat_alt)
  define x where "x = drop_bit 10 c"
  define y where "y = take_bit 10 c"
  have x: "unat x < 0x400" using b by (simp add: x_def Prelude.unat_drop_bit)
  have "unat y = take_bit 10 (unat c)" by (simp only: y_def unsigned_take_bit_eq)
  then have y: "unat y < 0x400" using take_bit_nat_less_exp [of 10 "unat c"] by simp
  have "c AND 0x3FF = y" unfolding y_def take_bit_eq_mask by (simp add: mask_eq_exp_minus_1)
  moreover have "0xD800 OR x = 0xD800 + x" "0xDC00 OR y = 0xDC00 + y"
    using or_is_plus [of x 10 "0x36"] or_is_plus [of y 10 "0x37"] x y by simp_all
  ultimately have e: "hi = ucast (0xD800 + x)" "lo = ucast (0xDC00 + y)"
    unfolding hi_def lo_def x_def c_def by simp_all
  have p: "unat (0xD800 + x) = 0xD800 + unat x" "unat (0xDC00 + y) = 0xDC00 + unat y"
    using x y by (simp_all add: unat_plus_small)
  have n: "unat hi = 0xD800 + unat x" "unat lo = 0xDC00 + unat y"
    using p x y unfolding e by (simp_all add: unsigned_ucast_eq take_bit_nat_eq_self)
  show "hi \<ge> 0xD800" "hi \<le> 0xDBFF" "lo \<ge> 0xDC00" "lo \<le> 0xDFFF"
    using n x y by (simp_all add: word_le_nat_alt)
  have "ucast hi - (0xD800 :: u32) = x" "ucast lo - (0xDC00 :: u32) = y"
    using n by (simp_all add: word_unat_eq_iff unat_sub word_le_nat_alt unat_ucast_up)
  moreover have "push_bit 10 x + y = c"
  proof -
    have "push_bit 10 x OR y = c" unfolding x_def y_def by (rule bit_word_eqI) (auto simp: bit_simps)
    then show ?thesis using or_is_plus [of y 10 x] y by simp
  qed
  ultimately show "0x10000 + push_bit 10 (ucast hi - 0xD800) + (ucast lo - 0xDC00) = cp"
    by (simp add: c_def add.assoc)
qed


text \<open>One step of the decoder, on a unit of its own and on a pair.\<close>

lemma decode_range:
  assumes "unat a + 2 * i + k < 2 ^ 32"
  shows "\<not> a > 0xFFFFFFFF - (of_nat (i * 2) :: u32) - of_nat k"
proof -
  have o: "unat (of_nat (i * 2) :: u32) = i * 2" "unat (of_nat k :: u32) = k"
    by (rule unat_of_nat_small, use assms in simp)+
  have "unat (0xFFFFFFFF - (of_nat (i * 2) :: u32)) = 0xFFFFFFFF - i * 2"
    using assms o by (subst unat_sub) (simp_all add: word_le_nat_alt)
  then have "unat (0xFFFFFFFF - (of_nat (i * 2) :: u32) - of_nat k) = 0xFFFFFFFF - i * 2 - k"
    using assms o by (subst unat_sub) (simp_all add: word_le_nat_alt)
  then show ?thesis using assms by (simp add: word_less_nat_alt)
qed

lemma decode_end:
  assumes "unat a + 2 * i + 2 \<le> 2 ^ 32" "i \<le> VITA_FIND_PATH_UNITS_MAX" "ld16 m (a + of_nat (i * 2)) = 0"
  shows "decode_units m a capacity i out = Inr out"
  using decode_range [of a i 1] assms by (subst decode_units.simps) (simp add: Let_def)

lemma emit_fits:
  "length out + length (utf8_bytes cp) \<le> n \<Longrightarrow> vita_find_emit_utf8 cp out n = Inr (out @ utf8_bytes cp)"
  by (simp add: vita_find_emit_utf8_def)

lemma decode_single:
  assumes "unat a + 2 * i + 2 \<le> 2 ^ 32" "i < VITA_FIND_PATH_UNITS_MAX" "ld16 m (a + of_nat (i * 2)) = u"
    "u \<noteq> 0" "u < 0xD800 \<or> u > 0xDFFF" "length out + length (utf8_bytes (ucast u)) \<le> capacity - 1"
  shows "decode_units m a capacity i out = decode_units m a capacity (i + 1) (out @ utf8_bytes (ucast u))"
proof -
  have r: "\<not> a > 0xFFFFFFFF - (of_nat (i * 2) :: u32) - 1" using decode_range [of a i 1] assms(1) by simp
  have i: "\<not> i > VITA_FIND_PATH_UNITS_MAX" "i \<noteq> VITA_FIND_PATH_UNITS_MAX" using assms(2) by simp_all
  have w: "\<not> (u \<ge> 0xD800 \<and> u \<le> 0xDBFF)" "\<not> (u \<ge> 0xDC00 \<and> u \<le> 0xDFFF)"
    using assms(5) by (auto simp: word_le_nat_alt word_less_nat_alt)
  show ?thesis
    by (subst decode_units.simps, unfold Let_def assms(3), simp only: r i w assms(4) if_False emit_fits [OF assms(6)] sum.case)
qed

lemma decode_pair:
  assumes "unat a + 2 * i + 4 \<le> 2 ^ 32" "i < VITA_FIND_PATH_UNITS_MAX"
    "ld16 m (a + of_nat (i * 2)) = hi" "ld16 m (a + of_nat (i * 2) + 2) = lo"
    "hi \<ge> 0xD800" "hi \<le> 0xDBFF" "lo \<ge> 0xDC00" "lo \<le> 0xDFFF"
    "0x10000 + push_bit 10 (ucast hi - 0xD800) + (ucast lo - 0xDC00) = cp"
    "length out + length (utf8_bytes cp) \<le> capacity - 1"
  shows "decode_units m a capacity i out = decode_units m a capacity (i + 2) (out @ utf8_bytes cp)"
proof -
  have r: "\<not> a > 0xFFFFFFFF - (of_nat (i * 2) :: u32) - 1" using decode_range [of a i 1] assms(1) by simp
  have r3: "\<not> a > 0xFFFFFFFF - (of_nat (i * 2) :: u32) - 3" using decode_range [of a i 3] assms(1) by simp
  have i: "\<not> i > VITA_FIND_PATH_UNITS_MAX" "i \<noteq> VITA_FIND_PATH_UNITS_MAX" using assms(2) by simp_all
  have w: "hi \<noteq> 0" "\<not> (lo < 0xDC00 \<or> lo > 0xDFFF)" using assms(5-8) by auto
  show ?thesis
    by (subst decode_units.simps, unfold Let_def assms(3,4,9),
        simp only: r r3 i w assms(5,6) if_False if_True simp_thms emit_fits [OF assms(10)] sum.case)
qed

text \<open>
  A pair whose first half is the last unit admitted steps over the bound, and the loop ends without a fault.
\<close>

lemma decode_pair_at_bound:
  assumes "decode_units m a capacity i out = decode_units m a capacity (i + 2) (out @ utf8_bytes cp)"
    "i = VITA_FIND_PATH_UNITS_MAX - 1"
  shows "decode_units m a capacity i out = Inl Find_no_fault"
  unfolding assms(1) by (subst decode_units.simps) (simp add: assms(2) VITA_FIND_PATH_UNITS_MAX_def)


text \<open>The units of one code point, and the reader's view of \<open>utf16_units\<close>.\<close>

definition code_units :: "u32 \<Rightarrow> u16 list" where
  "code_units codepoint =
     (if codepoint \<le> 0xFFFF then [ucast codepoint]
      else [ucast (0xD800 OR drop_bit 10 (codepoint - 0x10000)), ucast (0xDC00 OR ((codepoint - 0x10000) AND 0x3FF))])"

definition scalar_value :: "u32 \<Rightarrow> bool" where
  "scalar_value cp \<longleftrightarrow> cp \<le> 0x10FFFF \<and> (cp < 0xD800 \<or> cp > 0xDFFF)"

lemma utf16_unitsE:
  assumes "utf16_units (first # input) out capacity = Inr units"
  obtains cp rest where "first # input = utf8_bytes cp @ rest" "scalar_value cp" "length rest \<le> length input"
    "utf16_units rest (out @ code_units cp) capacity = Inr units"
    "length out + length (code_units cp) < capacity"
proof -
  obtain v minimum n where l: "utf8_lead first = Some (v, minimum, n)"
    using assms by (auto split: option.splits)
  obtain cp rest where c: "utf8_continue n v input = Some (cp, rest)"
    using assms l by (auto split: option.splits)
  have g: "\<not> (n \<noteq> 0 \<and> cp < minimum)" "\<not> cp > 0x10FFFF" "\<not> (cp \<ge> 0xD800 \<and> cp \<le> 0xDFFF)"
    using assms by (auto simp: l c)
  have s: "scalar_value cp" using g by (auto simp: scalar_value_def)
  have "utf16_units rest (out @ code_units cp) capacity = Inr units \<and> length out + length (code_units cp) < capacity"
    using assms g by (auto simp: l c code_units_def split: if_split_asm)
  then show ?thesis using that [OF utf8_bytes_read [OF l c g(1)] s utf8_continue_length [OF c]] by blast
qed

lemma utf8_bytes_zero: "0 \<notin> set (utf8_bytes cp) \<Longrightarrow> cp \<noteq> 0"
  by (auto simp: utf8_bytes_def)

lemma decode_code_units:
  assumes "scalar_value cp" "cp \<noteq> 0" "units_at m a i (code_units cp @ us)"
    "unat a + 2 * (i + length (code_units cp)) \<le> 2 ^ 32" "i < VITA_FIND_PATH_UNITS_MAX"
    "length out + length (utf8_bytes cp) \<le> capacity - 1"
  shows "decode_units m a capacity i out = decode_units m a capacity (i + length (code_units cp)) (out @ utf8_bytes cp)"
proof (cases "cp \<le> 0xFFFF")
  case True
  have n: "unat (ucast cp :: u16) = unat cp"
    using True by (simp add: unsigned_ucast_eq take_bit_nat_eq_self word_le_nat_alt)
  then have u: "ucast (ucast cp :: u16) = cp" by (simp add: word_unat_eq_iff unat_ucast_up)
  have "(ucast cp :: u16) \<noteq> 0" using n assms(2) by (metis unat_0 word_unat_eq_iff)
  moreover have "(ucast cp :: u16) < 0xD800 \<or> (ucast cp :: u16) > 0xDFFF"
    using assms(1) n by (simp add: scalar_value_def word_less_nat_alt)
  ultimately show ?thesis
    using decode_single [of a i m "ucast cp" out capacity] assms True unfolding u by (simp add: code_units_def)
next
  case False
  have c: "code_units cp = [code_units cp ! 0, code_units cp ! 1]" "length (code_units cp) = 2"
    using False by (simp_all add: code_units_def)
  have cp: "cp > 0xFFFF" "cp \<le> 0x10FFFF" using False assms(1) by (auto simp: scalar_value_def)
  have g: "code_units cp ! 0 \<ge> 0xD800" "code_units cp ! 0 \<le> 0xDBFF" "code_units cp ! 1 \<ge> 0xDC00"
    "code_units cp ! 1 \<le> 0xDFFF"
    "0x10000 + push_bit 10 (ucast (code_units cp ! 0) - 0xD800) + (ucast (code_units cp ! 1) - 0xDC00) = cp"
    using surrogates [OF cp] False unfolding code_units_def by simp_all
  have "units_at m a i (code_units cp ! 0 # code_units cp ! 1 # us)"
    using assms(3) c(1) by (metis append_Cons append_Nil)
  then have m: "ld16 m (a + of_nat (i * 2)) = code_units cp ! 0" "ld16 m (a + of_nat (i * 2) + 2) = code_units cp ! 1"
    by (simp_all add: algebra_simps)
  have "unat a + 2 * i + 4 \<le> 2 ^ 32" using assms(4) c(2) by simp
  from decode_pair [OF this assms(5) m g assms(6)] show ?thesis unfolding c(2) .
qed

lemma code_units_nonzero:
  assumes "scalar_value cp" "cp \<noteq> 0"
  shows "0 \<notin> set (code_units cp)"
proof (cases "cp \<le> 0xFFFF")
  case True
  then have "unat (ucast cp :: u16) = unat cp"
    by (simp add: unsigned_ucast_eq take_bit_nat_eq_self word_le_nat_alt)
  then have "(ucast cp :: u16) \<noteq> 0" using assms(2) by (metis unat_0 word_unat_eq_iff)
  then show ?thesis using True by (simp add: code_units_def)
next
  case False
  then have cp: "cp > 0xFFFF" "cp \<le> 0x10FFFF" using assms(1) by (auto simp: scalar_value_def)
  have "(0 :: u16) \<notin> {h, l}" if "h \<ge> 0xD800" "l \<ge> 0xDC00" for h l :: u16
    using that by auto
  from this [OF surrogates(1,3) [OF cp]] show ?thesis using False by (simp add: code_units_def)
qed

lemma units_at_append: "units_at m a i (us @ vs) \<Longrightarrow> units_at m a (i + length us) vs"
proof (induction us arbitrary: i)
  case (Cons u us)
  then show ?case using Cons.IH [of "i + 1"] by simp
qed simp

lemma decode_utf16_units:
  "utf16_units input out capacity = Inr units \<Longrightarrow> 0 \<notin> set input \<Longrightarrow>
   \<exists>us. units = out @ us \<and> 0 \<notin> set us \<and> length units < max capacity (Suc (length out)) \<and>
     (\<forall>m a i done bound. units_at m a i us \<longrightarrow> unat a + 2 * (i + length us) + 2 \<le> 2 ^ 32 \<longrightarrow>
        i + length us \<le> VITA_FIND_PATH_UNITS_MAX \<longrightarrow> length done + length input \<le> bound - 1 \<longrightarrow>
        decode_units m a bound i done = Inr (done @ input))"
proof (induction "length input" arbitrary: input out rule: less_induct)
  case less
  show ?case
  proof (cases input)
    case Nil
    then show ?thesis using less.prems by (auto intro!: decode_end)
  next
    case (Cons first more)
    obtain cp rest where c: "input = utf8_bytes cp @ rest" "scalar_value cp" "length rest \<le> length more"
      "utf16_units rest (out @ code_units cp) capacity = Inr units" "length out + length (code_units cp) < capacity"
      using utf16_unitsE less.prems(1) unfolding Cons by metis
    have z: "cp \<noteq> 0" "0 \<notin> set rest" using less.prems(2) utf8_bytes_zero unfolding c(1) by auto
    have "length rest < length input" using c(3) Cons by simp
    from less.hyps [OF this c(4) z(2)] obtain us where us: "units = (out @ code_units cp) @ us"
      "0 \<notin> set us" "length units < max capacity (Suc (length (out @ code_units cp)))"
      "\<And>m a i done bound. units_at m a i us \<Longrightarrow> unat a + 2 * (i + length us) + 2 \<le> 2 ^ 32 \<Longrightarrow>
        i + length us \<le> VITA_FIND_PATH_UNITS_MAX \<Longrightarrow> length done + length rest \<le> bound - 1 \<Longrightarrow>
        decode_units m a bound i done = Inr (done @ rest)" by blast
    have ne: "length (code_units cp) \<ge> 1" by (simp add: code_units_def)
    have "decode_units m a bound i done = Inr (done @ input)"
      if h: "units_at m a i (code_units cp @ us)" "unat a + 2 * (i + length (code_units cp @ us)) + 2 \<le> 2 ^ 32"
        "i + length (code_units cp @ us) \<le> VITA_FIND_PATH_UNITS_MAX" "length done + length input \<le> bound - 1"
      for m a i "done" bound
    proof -
      have "decode_units m a bound i done = decode_units m a bound (i + length (code_units cp)) (done @ utf8_bytes cp)"
        by (rule decode_code_units [OF c(2) z(1) h(1)]) (use h(2-4) ne c(1) in simp_all)
      also have "\<dots> = Inr ((done @ utf8_bytes cp) @ rest)"
        by (rule us(4) [OF units_at_append [OF h(1)]]) (use h(2-4) c(1) in simp_all)
      finally show ?thesis using c(1) by simp
    qed
    moreover have "length units < max capacity (Suc (length out))" using us(3) c(5) by simp
    ultimately show ?thesis using us(1,2) code_units_nonzero [OF c(2) z(1)]
      by (intro exI [of _ "code_units cp @ us"]) simp
  qed
qed

section \<open>What the decoder accepts\<close>

text \<open>
  A text in guest memory: scalar values other than zero in UTF-16, at most \<open>n\<close> units and the terminator, inside the address space.
\<close>

abbreviation units_of :: "u32 list \<Rightarrow> u16 list" where "units_of cps \<equiv> concat (map code_units cps)"
abbreviation bytes_of_text :: "u32 list \<Rightarrow> u8 list" where "bytes_of_text cps \<equiv> concat (map utf8_bytes cps)"

definition text_at :: "mem \<Rightarrow> u32 \<Rightarrow> nat \<Rightarrow> nat \<Rightarrow> u32 list \<Rightarrow> bool" where
  "text_at m a n i cps \<longleftrightarrow> list_all (\<lambda>cp. scalar_value cp \<and> cp \<noteq> 0) cps \<and> units_at m a i (units_of cps) \<and>
     i + length (units_of cps) \<le> n \<and> unat a + 2 * (i + length (units_of cps) + 1) \<le> 2 ^ 32"

lemma utf8_bytes_length: "1 \<le> length (utf8_bytes cp)" "length (utf8_bytes cp) \<le> 4"
  by (simp_all add: utf8_bytes_def)

lemma code_units_length: "1 \<le> length (code_units cp)"
  by (simp add: code_units_def)

lemma decode_text:
  "text_at m a VITA_FIND_PATH_UNITS_MAX i cps \<Longrightarrow> length out + length (bytes_of_text cps) \<le> capacity - 1 \<Longrightarrow>
   decode_units m a capacity i out = Inr (out @ bytes_of_text cps)"
proof (induction cps arbitrary: i out)
  case Nil
  then show ?case by (auto simp: text_at_def intro!: decode_end)
next
  case (Cons cp cps)
  have u: "units_at m a i (code_units cp @ units_of cps)" using Cons.prems(1) by (simp add: text_at_def)
  have t: "text_at m a VITA_FIND_PATH_UNITS_MAX (i + length (code_units cp)) cps"
    using Cons.prems(1) units_at_append [OF u] by (simp add: text_at_def add.assoc)
  have "decode_units m a capacity i out = decode_units m a capacity (i + length (code_units cp)) (out @ utf8_bytes cp)"
    by (rule decode_code_units [OF _ _ u]) (use Cons.prems code_units_length [of cp] in \<open>simp_all add: text_at_def\<close>)
  also have "\<dots> = Inr ((out @ utf8_bytes cp) @ bytes_of_text cps)"
    using Cons.IH [OF t, of "out @ utf8_bytes cp"] Cons.prems(2) by simp
  finally show ?case by simp
qed

lemma narrow_back: "(ucast (ucast (u :: u16) :: u32) :: u16) = u"
  by (rule bit_word_eqI) (simp add: bit_simps)

text \<open>A pair of surrogates is the pair of the code point it stands for.\<close>

lemma pair_code_units:
  fixes hi lo :: u16
  assumes "hi \<ge> 0xD800" "hi \<le> 0xDBFF" "lo \<ge> 0xDC00" "lo \<le> 0xDFFF"
  defines "cp \<equiv> 0x10000 + push_bit 10 (ucast hi - 0xD800) + (ucast lo - 0xDC00) :: u32"
  shows "scalar_value cp" "cp \<noteq> 0" "code_units cp = [hi, lo]"
proof -
  define x :: u32 where "x = ucast hi - 0xD800"
  define y :: u32 where "y = ucast lo - 0xDC00"
  have w: "unat (ucast hi :: u32) = unat hi" "unat (ucast lo :: u32) = unat lo" by (simp_all add: unat_ucast_up)
  have n: "unat x = unat hi - 0xD800" "unat y = unat lo - 0xDC00"
    using assms(1,3) w unfolding x_def y_def by (simp_all add: unat_sub word_le_nat_alt)
  have b: "unat x < 0x400" "unat y < 0x400" using n assms(2,4) by (simp_all add: word_le_nat_alt)
  have cp: "cp = 0x10000 + (push_bit 10 x + y)" by (simp add: cp_def x_def y_def add.assoc)
  have p: "unat (push_bit 10 x) = unat x * 1024"
    using b by (simp add: push_bit_eq_mult unat_word_ariths)
  have q: "unat (push_bit 10 x + y) = unat x * 1024 + unat y" using b p by (simp add: unat_plus_small)
  have r: "unat cp = 0x10000 + unat x * 1024 + unat y" unfolding cp using q b by (simp add: unat_plus_small)
  then have big: "cp > 0xFFFF" "cp \<le> 0x10FFFF" using b by (simp_all add: word_le_nat_alt word_less_nat_alt)
  then show "cp \<noteq> 0" by auto
  show "scalar_value cp" using r b by (simp add: scalar_value_def word_le_nat_alt word_less_nat_alt)
  have d: "cp - 0x10000 = push_bit 10 x + y" by (simp add: cp)
  have h: "drop_bit 10 (push_bit 10 x + y) = x"
    using q b by (simp add: word_unat_eq_iff Prelude.unat_drop_bit)
  have "(push_bit 10 x + y) AND 0x3FF = take_bit 10 (push_bit 10 x + y)"
    unfolding take_bit_eq_mask by (simp add: mask_eq_exp_minus_1)
  also have "\<dots> = y"
  proof -
    have "unat (take_bit 10 (push_bit 10 x + y)) = take_bit 10 (unat x * 1024 + unat y)"
      by (simp only: unsigned_take_bit_eq q)
    also have "\<dots> = unat y" using b by (simp add: take_bit_eq_mod)
    finally show ?thesis by (simp only: word_unat_eq_iff)
  qed
  finally have l: "(push_bit 10 x + y) AND 0x3FF = y" .
  have o: "0xD800 OR x = 0xD800 + x" "0xDC00 OR y = 0xDC00 + y"
    using or_is_plus [of x 10 "0x36"] or_is_plus [of y 10 "0x37"] b by simp_all
  have u: "ucast (0xD800 + x) = hi" "ucast (0xDC00 + y) = lo"
    unfolding x_def y_def by (simp_all add: narrow_back)
  have "\<not> cp \<le> 0xFFFF" using big by simp
  then show "code_units cp = [hi, lo]"
    by (simp only: code_units_def if_False d h l o u)
qed

lemma range_decode:
  assumes "\<not> a > 0xFFFFFFFF - (of_nat (i * 2) :: u32) - of_nat k" "i * 2 + k < 2 ^ 31"
  shows "unat a + 2 * i + k < 2 ^ 32"
proof -
  have o: "unat (of_nat (i * 2) :: u32) = i * 2" "unat (of_nat k :: u32) = k"
    by (rule unat_of_nat_small, use assms(2) in simp)+
  have "unat (0xFFFFFFFF - (of_nat (i * 2) :: u32)) = 0xFFFFFFFF - i * 2"
    using assms(2) o by (subst unat_sub) (simp_all add: word_le_nat_alt)
  then have "unat (0xFFFFFFFF - (of_nat (i * 2) :: u32) - of_nat k) = 0xFFFFFFFF - i * 2 - k"
    using assms(2) o by (subst unat_sub) (simp_all add: word_le_nat_alt)
  then show ?thesis using assms by (simp add: word_less_nat_alt)
qed

lemma emit_Inr: "vita_find_emit_utf8 cp out n = Inr r \<longleftrightarrow> length out \<le> n - length (utf8_bytes cp) \<and> r = out @ utf8_bytes cp"
  by (auto simp: vita_find_emit_utf8_def)

lemma single_code_units:
  fixes u :: u16
  assumes "u \<noteq> 0" "\<not> (u \<ge> 0xD800 \<and> u \<le> 0xDBFF)" "\<not> (u \<ge> 0xDC00 \<and> u \<le> 0xDFFF)"
  shows "scalar_value (ucast u)" "(ucast u :: u32) \<noteq> 0" "code_units (ucast u) = [u]"
proof -
  have n: "unat (ucast u :: u32) = unat u" by (simp add: unat_ucast_up)
  have b: "unat u < 65536" using unat_bound [of u] by simp
  show "scalar_value (ucast u)"
    using assms(2,3) n b by (auto simp: scalar_value_def word_le_nat_alt word_less_nat_alt)
  show "(ucast u :: u32) \<noteq> 0" using assms(1) n by (metis unat_0 word_unat_eq_iff)
  show "code_units (ucast u) = [u]" using n b by (simp add: code_units_def word_le_nat_alt narrow_back)
qed

lemma text_at_Cons:
  assumes "scalar_value cp" "cp \<noteq> 0"
    "\<And>k. k < length (code_units cp) \<Longrightarrow> ld16 m (a + of_nat ((i + k) * 2)) = code_units cp ! k"
    "text_at m a n (i + length (code_units cp)) cps"
  shows "text_at m a n i (cp # cps)"
proof -
  have "units_at m a j (us @ vs)"
    if "\<And>k. k < length us \<Longrightarrow> ld16 m (a + of_nat ((j + k) * 2)) = us ! k" "units_at m a (j + length us) vs" for j us vs
    using that
  proof (induction us arbitrary: j)
    case (Cons u us)
    have "units_at m a (j + 1) (us @ vs)"
    proof (rule Cons.IH)
      show "ld16 m (a + of_nat ((j + 1 + k) * 2)) = us ! k" if "k < length us" for k
        using Cons.prems(1) [of "Suc k"] that by simp
    qed (use Cons.prems(2) in simp)
    then show ?case using Cons.prems(1) [of 0] by simp
  qed simp
  then have "units_at m a i (code_units cp @ units_of cps)" using assms(3,4) by (simp add: text_at_def)
  then show ?thesis using assms(1,2,4) by (simp add: text_at_def add.assoc)
qed

lemma decode_units_text:
  "decode_units m a capacity i out = Inr r \<Longrightarrow> length out \<le> capacity - 1 \<Longrightarrow> 4 < capacity \<Longrightarrow>
   \<exists>cps. text_at m a VITA_FIND_PATH_UNITS_MAX i cps \<and> r = out @ bytes_of_text cps \<and> length r \<le> capacity - 1"
proof (induction m a capacity i out rule: decode_units.induct)
  case (1 m a capacity i out)
  let ?at = "ld16 m (a + of_nat (i * 2))" and ?low = "ld16 m (a + of_nat (i * 2) + 2)"
  have i: "\<not> i > VITA_FIND_PATH_UNITS_MAX" using "1.prems"(1) by (subst (asm) decode_units.simps) (auto split: if_splits)
  have g: "\<not> a > 0xFFFFFFFF - (of_nat (i * 2) :: u32) - 1"
    using "1.prems"(1) i by (subst (asm) decode_units.simps) (auto simp: Let_def split: if_splits)
  have room: "unat a + 2 * i + 1 < 2 ^ 32"
    using range_decode [where a = a and i = i and k = 1] g i by (simp add: VITA_FIND_PATH_UNITS_MAX_def)
  show ?case
  proof (cases "?at = 0")
    case True
    then have "r = out" using "1.prems"(1) i g by (subst (asm) decode_units.simps) (simp add: Let_def)
    then show ?thesis using True i room "1.prems"(2) by (intro exI [of _ "[]"]) (simp add: text_at_def)
  next
    case z: False
    have n: "i \<noteq> VITA_FIND_PATH_UNITS_MAX"
      using "1.prems"(1) i g z by (subst (asm) decode_units.simps) (auto simp: Let_def split: if_splits)
    show ?thesis
    proof (cases "?at \<ge> 0xD800 \<and> ?at \<le> 0xDBFF")
      case True
      let ?cp = "0x10000 + push_bit 10 (ucast ?at - 0xD800) + (ucast ?low - 0xDC00) :: u32"
      note d = "1.prems"(1) [unfolded decode_units.simps [of m a capacity i out] Let_def if_not_P [OF i] if_not_P [OF g]
          if_not_P [OF z] if_not_P [OF n] if_P [OF True]]
      have g3: "\<not> a > 0xFFFFFFFF - (of_nat (i * 2) :: u32) - 3" using d by (auto split: if_splits)
      note d = d [unfolded if_not_P [OF g3]]
      have lo: "\<not> (?low < 0xDC00 \<or> ?low > 0xDFFF)" using d by (auto split: if_splits)
      note d = d [unfolded if_not_P [OF lo]]
      obtain out' where e: "vita_find_emit_utf8 ?cp out (capacity - 1) = Inr out'" "decode_units m a capacity (i + 2) out' = Inr r"
        using d by (cases "vita_find_emit_utf8 ?cp out (capacity - 1)") simp_all
      have o: "out' = out @ utf8_bytes ?cp" "length out' \<le> capacity - 1"
        using e(1) utf8_bytes_length(2) [of ?cp] "1.prems"(3) unfolding emit_Inr by auto
      from "1.IH"(1) [OF i refl refl g z n True g3 refl lo e(1) e(2) o(2) "1.prems"(3)] obtain cps where
        c: "text_at m a VITA_FIND_PATH_UNITS_MAX (i + 2) cps" "r = out' @ bytes_of_text cps" "length r \<le> capacity - 1" by blast
      note p = pair_code_units [of ?at ?low]
      have "text_at m a VITA_FIND_PATH_UNITS_MAX i (?cp # cps)"
        by (rule text_at_Cons) (use p True lo c(1) in \<open>auto simp: not_less less_Suc_eq algebra_simps\<close>)
      then show ?thesis using c(2,3) o(1) by (intro exI [of _ "?cp # cps"]) simp
    next
      case s: False
      note d = "1.prems"(1) [unfolded decode_units.simps [of m a capacity i out] Let_def if_not_P [OF i] if_not_P [OF g]
          if_not_P [OF z] if_not_P [OF n] if_not_P [OF s]]
      have lo: "\<not> (?at \<ge> 0xDC00 \<and> ?at \<le> 0xDFFF)" using d by (auto split: if_splits)
      note d = d [unfolded if_not_P [OF lo]]
      obtain out' where e: "vita_find_emit_utf8 (ucast ?at) out (capacity - 1) = Inr out'" "decode_units m a capacity (i + 1) out' = Inr r"
        using d by (cases "vita_find_emit_utf8 (ucast ?at) out (capacity - 1)") simp_all
      have o: "out' = out @ utf8_bytes (ucast ?at)" "length out' \<le> capacity - 1"
        using e(1) utf8_bytes_length(2) [of "ucast ?at"] "1.prems"(3) unfolding emit_Inr by auto
      from "1.IH"(2) [OF i refl refl g z n s lo e(1) e(2) o(2) "1.prems"(3)] obtain cps where
        c: "text_at m a VITA_FIND_PATH_UNITS_MAX (i + 1) cps" "r = out' @ bytes_of_text cps" "length r \<le> capacity - 1" by blast
      note p = single_code_units [OF z s lo]
      have "text_at m a VITA_FIND_PATH_UNITS_MAX i (ucast ?at # cps)"
        by (rule text_at_Cons) (use p c(1) in auto)
      then show ?thesis using c(2,3) o(1) by (intro exI [of _ "ucast ?at # cps"]) simp
    qed
  qed
qed

text \<open>The decoder accepts the texts that fit, and answers with their UTF-8.\<close>

lemma decode_path_exact:
  assumes "4 < capacity"
  shows "vita_find_decode_path m a capacity = Inr r \<longleftrightarrow>
    a \<noteq> 0 \<and> (\<exists>cps. text_at m a VITA_FIND_PATH_UNITS_MAX 0 cps \<and> r = bytes_of_text cps \<and> length r < capacity)"
proof
  assume "vita_find_decode_path m a capacity = Inr r"
  then have "a \<noteq> 0" "decode_units m a capacity 0 [] = Inr r"
    by (simp_all add: vita_find_decode_path_def split: if_splits)
  then show "a \<noteq> 0 \<and> (\<exists>cps. text_at m a VITA_FIND_PATH_UNITS_MAX 0 cps \<and> r = bytes_of_text cps \<and> length r < capacity)"
    using decode_units_text [of m a capacity 0 "[]" r] assms by fastforce
next
  assume "a \<noteq> 0 \<and> (\<exists>cps. text_at m a VITA_FIND_PATH_UNITS_MAX 0 cps \<and> r = bytes_of_text cps \<and> length r < capacity)"
  then obtain cps where c: "a \<noteq> 0" "text_at m a VITA_FIND_PATH_UNITS_MAX 0 cps" "r = bytes_of_text cps" "length r < capacity" by blast
  have "decode_units m a capacity 0 [] = Inr ([] @ bytes_of_text cps)"
    by (rule decode_text [OF c(2)]) (use c(3,4) in simp)
  then show "vita_find_decode_path m a capacity = Inr r" using c(1,3) by (simp add: vita_find_decode_path_def)
qed

end
