(* ===== verification/Vita_Find_Path.thy ===== *)
theory Vita_Find_Path imports Vita_Find_Text Pieces begin

text \<open>
  The path half of \<open>FindFirstFileW\<close> (\<open>vita_find_prepare_pattern\<close>): the guest's pattern under either spelling of the data
  root, or relative to it, becomes a directory of the console and one last component that may hold wildcards.
\<close>

section \<open>The code\<close>

abbreviation slash_byte :: u8 where "slash_byte \<equiv> 0x2F"
abbreviation backslash_byte :: u8 where "backslash_byte \<equiv> 0x5C"
abbreviation dot_byte :: u8 where "dot_byte \<equiv> 0x2E"
abbreviation colon_byte :: u8 where "colon_byte \<equiv> 0x3A"

definition bytes_of :: "string \<Rightarrow> u8 list" where
  "bytes_of s = map of_char s"

definition ISAAC_VITA_DATA_ROOT :: "u8 list" where
  "ISAAC_VITA_DATA_ROOT = bytes_of ''ux0:data/isaacr001''"

definition ISAAC_VITA_NATIVE_DATA_ROOT :: "u8 list" where
  "ISAAC_VITA_NATIVE_DATA_ROOT = bytes_of ''ux0:/data/isaacr001''"

definition VITA_FIND_PATTERN_MAX :: nat where "VITA_FIND_PATTERN_MAX = 255"

fun and_found :: "find_failure + 'a \<Rightarrow> ('a \<Rightarrow> find_failure + 'b) \<Rightarrow> find_failure + 'b" where
  "and_found (Inl e) f = Inl e"
| "and_found (Inr x) f = f x"

definition under_root :: "u8 list \<Rightarrow> u8 list \<Rightarrow> bool" where
  "under_root root decoded \<longleftrightarrow> take (length root) decoded = root \<and>
     (drop (length root) decoded = [] \<or> hd (drop (length root) decoded) = slash_byte)"

fun skip_current :: "u8 list \<Rightarrow> u8 list" where
  "skip_current (a # b # suffix) = (if a = dot_byte \<and> b = slash_byte then skip_current suffix else a # b # suffix)"
| "skip_current suffix = suffix"

definition pattern_suffix :: "u32 \<Rightarrow> u8 list \<Rightarrow> find_failure + u8 list" where
  "pattern_suffix guest_pattern decoded =
     (if under_root ISAAC_VITA_DATA_ROOT decoded then Inr (drop (length ISAAC_VITA_DATA_ROOT) decoded)
      else if under_root ISAAC_VITA_NATIVE_DATA_ROOT decoded
      then Inr (drop (length ISAAC_VITA_NATIVE_DATA_ROOT) decoded)
      else if colon_byte \<in> set decoded
      then Inl (Find_fault guest_pattern ''FindFirstFileW pattern is outside the data root'')
      else Inr (skip_current decoded))"

function normalize_components :: "u32 \<Rightarrow> u8 list \<Rightarrow> u8 list \<Rightarrow> find_failure + u8 list" where
  "normalize_components guest_pattern normalized suffix =
     (let cursor = dropWhile (\<lambda>b. b = slash_byte) suffix in
      if cursor = [] then Inr normalized
      else
        let component = takeWhile (\<lambda>b. b \<noteq> slash_byte) cursor;
            rest = dropWhile (\<lambda>b. b \<noteq> slash_byte) cursor in
        if component = [dot_byte] then normalize_components guest_pattern normalized rest
        else if component = [dot_byte, dot_byte]
        then Inl (Find_fault guest_pattern ''FindFirstFileW pattern escapes the data root'')
        else if colon_byte \<in> set component
        then Inl (Find_fault guest_pattern ''FindFirstFileW pattern has an invalid component'')
        else if length normalized + 1 + length component \<ge> VITA_FIND_PATH_UTF8_MAX + 1
        then Inl (Find_fault guest_pattern ''FindFirstFileW normalized pattern exceeds bound'')
        else normalize_components guest_pattern (normalized @ slash_byte # component) rest)"
  by pat_completeness auto

termination normalize_components
  by (relation "measure (\<lambda>(_, _, suffix). length suffix)") (auto simp: length_behind_piece)

declare normalize_components.simps [simp del]

definition strrchr :: "u8 list \<Rightarrow> u8 \<Rightarrow> nat option" where
  "strrchr s b = (if b \<in> set s then Some (length (dropWhile (\<lambda>x. x \<noteq> b) (rev s)) - 1) else None)"

definition split_pattern :: "u32 \<Rightarrow> u8 list \<Rightarrow> nat \<Rightarrow> nat \<Rightarrow> find_failure + (u8 list \<times> u8 list)" where
  "split_pattern guest_pattern normalized directory_size pattern_size =
     (let root_length = length ISAAC_VITA_NATIVE_DATA_ROOT;
          no_name = Inl (Find_fault guest_pattern ''FindFirstFileW pattern has no filename component'') in
      case strrchr normalized slash_byte of None \<Rightarrow> no_name
      | Some last_separator \<Rightarrow>
          if last_separator < root_length then no_name
          else if drop (last_separator + 1) normalized = [] then no_name
          else if slash_byte \<in> set (drop (last_separator + 1) normalized) \<or>
              star_byte \<in> set (drop root_length (take last_separator normalized)) \<or>
              any_byte \<in> set (drop root_length (take last_separator normalized))
          then Inl (Find_fault guest_pattern ''FindFirstFileW wildcard appears before filename'')
          else if last_separator \<ge> directory_size \<or> length (drop (last_separator + 1) normalized) \<ge> pattern_size
          then Inl (Find_fault guest_pattern ''FindFirstFileW directory or wildcard exceeds bound'')
          else Inr (take last_separator normalized, drop (last_separator + 1) normalized))"

definition vita_find_prepare_pattern ::
    "mem \<Rightarrow> u32 \<Rightarrow> nat \<Rightarrow> nat \<Rightarrow> find_failure + (u8 list \<times> u8 list)" where
  "vita_find_prepare_pattern m guest_pattern directory_size pattern_size =
     and_found (vita_find_decode_path m guest_pattern (VITA_FIND_PATH_UTF8_MAX + 1)) (\<lambda>decoded.
       if decoded = [] then Inl (Find_fault guest_pattern ''FindFirstFileW received an empty pattern'')
       else
         let decoded = map (\<lambda>b. if b = backslash_byte then slash_byte else b) decoded in
         and_found (pattern_suffix guest_pattern decoded) (\<lambda>suffix.
           if length ISAAC_VITA_NATIVE_DATA_ROOT \<ge> VITA_FIND_PATH_UTF8_MAX + 1
           then Inl (Find_fault guest_pattern ''FindFirstFileW root exceeds bound'')
           else and_found (normalize_components guest_pattern ISAAC_VITA_NATIVE_DATA_ROOT suffix) (\<lambda>normalized.
             split_pattern guest_pattern normalized directory_size pattern_size)))"

definition vita_find_join_exact_path :: "u32 \<Rightarrow> u8 list \<Rightarrow> u8 list \<Rightarrow> nat \<Rightarrow> find_failure + u8 list" where
  "vita_find_join_exact_path guest_pattern directory name capacity =
     (if length directory + 1 + length name \<ge> capacity
      then Inl (Find_fault guest_pattern ''FindFirstFileW exact path exceeds bound'')
      else Inr (directory @ slash_byte # name))"

section \<open>What a pattern names\<close>

text \<open>The components between separators, the current directory left out.\<close>

definition path_names :: "u8 list \<Rightarrow> u8 list list" where
  "path_names input = filter (\<lambda>c. c \<noteq> [dot_byte]) (pieces slash_byte input)"

definition plain_name :: "u8 list \<Rightarrow> bool" where
  "plain_name c \<longleftrightarrow> c \<noteq> [dot_byte, dot_byte] \<and> colon_byte \<notin> set c"

definition below :: "u8 list list \<Rightarrow> u8 list" where
  "below cs = bytes_of ''ux0:/data/isaacr001'' @ concat (map (\<lambda>c. slash_byte # c) cs)"

lemma below_root: "below cs = ISAAC_VITA_NATIVE_DATA_ROOT @ concat (map (\<lambda>c. slash_byte # c) cs)"
  by (simp add: below_def ISAAC_VITA_NATIVE_DATA_ROOT_def)

definition wild_free :: "u8 list \<Rightarrow> bool" where
  "wild_free c \<longleftrightarrow> star_byte \<notin> set c \<and> any_byte \<notin> set c"

text \<open>The loop appends the names, or finds one that is refused.\<close>

lemma normalize_unfold:
  assumes "dropWhile (\<lambda>b. b = slash_byte) suffix = c" "c \<noteq> []"
    "takeWhile (\<lambda>b. b \<noteq> slash_byte) c = t" "dropWhile (\<lambda>b. b \<noteq> slash_byte) c = rest"
  shows "normalize_components g normalized suffix =
    (if t = [dot_byte] then normalize_components g normalized rest
     else if t = [dot_byte, dot_byte] then Inl (Find_fault g ''FindFirstFileW pattern escapes the data root'')
     else if colon_byte \<in> set t then Inl (Find_fault g ''FindFirstFileW pattern has an invalid component'')
     else if length normalized + 1 + length t \<ge> VITA_FIND_PATH_UTF8_MAX + 1
     then Inl (Find_fault g ''FindFirstFileW normalized pattern exceeds bound'')
     else normalize_components g (normalized @ slash_byte # t) rest)"
  by (subst normalize_components.simps) (simp only: Let_def assms if_False)

lemma path_names_unfold:
  assumes "dropWhile (\<lambda>b. b = slash_byte) suffix = c" "c \<noteq> []"
    "takeWhile (\<lambda>b. b \<noteq> slash_byte) c = t" "dropWhile (\<lambda>b. b \<noteq> slash_byte) c = rest"
  shows "path_names suffix = (if t = [dot_byte] then path_names rest else t # path_names rest)"
  unfolding path_names_def pieces_some [OF assms(1,2)] assms(3,4) by simp

lemma normalize_exact:
  "normalize_components g normalized suffix = Inr r \<longleftrightarrow>
     list_all plain_name (path_names suffix) \<and> r = normalized @ concat (map (\<lambda>c. slash_byte # c) (path_names suffix)) \<and>
     (path_names suffix \<noteq> [] \<longrightarrow> length r \<le> VITA_FIND_PATH_UTF8_MAX)"
proof (induction suffix arbitrary: normalized rule: pieces_induct [of slash_byte])
  case (step suffix)
  show ?case
  proof (cases "dropWhile (\<lambda>b. b = slash_byte) suffix = []")
    case True
    then have "path_names suffix = []" by (simp only: path_names_def pieces_none filter.simps)
    then show ?thesis by (subst normalize_components.simps) (simp only: Let_def True if_True, auto)
  next
    case False
    define t rest where d: "t = takeWhile (\<lambda>b. b \<noteq> slash_byte) (dropWhile (\<lambda>b. b = slash_byte) suffix)"
      "rest = dropWhile (\<lambda>b. b \<noteq> slash_byte) (dropWhile (\<lambda>b. b = slash_byte) suffix)"
    note n = normalize_unfold [OF refl False d(1) [symmetric] d(2) [symmetric], of g]
    note p = path_names_unfold [OF refl False d(1) [symmetric] d(2) [symmetric]]
    note IH = step [OF False, folded d]
    show ?thesis
    proof (cases "t = [dot_byte]")
      case True
      then show ?thesis unfolding n p using IH by simp
    next
      case t: False
      then have p: "path_names suffix = t # path_names rest" using p by simp
      show ?thesis
      proof (cases "plain_name t \<and> length normalized + 1 + length t < VITA_FIND_PATH_UTF8_MAX + 1")
        case True
        then have e: "normalize_components g normalized suffix = normalize_components g (normalized @ slash_byte # t) rest"
          unfolding n using t by (simp add: plain_name_def)
        show ?thesis unfolding e p IH [of "normalized @ slash_byte # t"] using True by auto
      next
        case no: False
        then have "\<exists>e. normalize_components g normalized suffix = Inl e"
          unfolding n using t by (simp add: plain_name_def not_less) auto
        then obtain e where e: "normalize_components g normalized suffix = Inl e" by blast
        show ?thesis unfolding e p using no by (auto simp: not_less)
      qed
    qed
  qed
qed


lemma strrchr_last: "b \<notin> set c \<Longrightarrow> strrchr (xs @ b # c) b = Some (length xs)"
proof -
  assume "b \<notin> set c"
  then have "dropWhile (\<lambda>x. x \<noteq> b) (rev c @ b # rev xs) = b # rev xs"
    by (subst dropWhile_append2) auto
  then show ?thesis by (simp add: strrchr_def)
qed

lemma below_snoc: "below (cs @ [c]) = below cs @ slash_byte # c"
  by (simp add: below_root)

lemma wild_region:
  "b \<noteq> slash_byte \<Longrightarrow> b \<in> set (drop (length ISAAC_VITA_NATIVE_DATA_ROOT) (below cs)) \<longleftrightarrow> (\<exists>c\<in>set cs. b \<in> set c)"
  by (auto simp: below_root)

lemma split_root: "split_pattern g (below []) dn pn = Inl (Find_fault g ''FindFirstFileW pattern has no filename component'')"
  by (simp add: split_pattern_def below_root ISAAC_VITA_NATIVE_DATA_ROOT_def bytes_of_def strrchr_def)

lemma split_names:
  assumes "slash_byte \<notin> set c" "c \<noteq> []"
  shows "split_pattern g (below (cs @ [c])) dn pn = Inr (dir, pat) \<longleftrightarrow>
    dir = below cs \<and> pat = c \<and> list_all wild_free cs \<and> length dir < dn \<and> length pat < pn"
proof -
  have l: "strrchr (below (cs @ [c])) slash_byte = Some (length (below cs))"
    unfolding below_snoc by (rule strrchr_last [OF assms(1)])
  have r: "\<not> length (below cs) < length ISAAC_VITA_NATIVE_DATA_ROOT" by (simp add: below_root)
  have t: "take (length (below cs)) (below (cs @ [c])) = below cs" "drop (length (below cs) + 1) (below (cs @ [c])) = c"
    by (simp_all add: below_snoc)
  have w: "list_all wild_free cs \<longleftrightarrow> \<not> (slash_byte \<in> set c \<or>
      star_byte \<in> set (drop (length ISAAC_VITA_NATIVE_DATA_ROOT) (below cs)) \<or>
      any_byte \<in> set (drop (length ISAAC_VITA_NATIVE_DATA_ROOT) (below cs)))"
    using assms(1) by (auto simp: wild_region list_all_iff wild_free_def)
  show ?thesis unfolding split_pattern_def Let_def l option.case t w using r assms(2) by auto
qed

definition with_slashes :: "u8 list \<Rightarrow> u8 list" where
  "with_slashes decoded = map (\<lambda>b. if b = backslash_byte then slash_byte else b) decoded"

lemma and_found_Inr: "and_found x f = Inr r \<longleftrightarrow> (\<exists>y. x = Inr y \<and> f y = Inr r)"
  by (cases x) auto

lemma root_fits: "length ISAAC_VITA_NATIVE_DATA_ROOT \<le> VITA_FIND_PATH_UTF8_MAX"
  by (simp add: ISAAC_VITA_NATIVE_DATA_ROOT_def bytes_of_def VITA_FIND_PATH_UTF8_MAX_def)

lemma path_name_shape: "c \<in> set (path_names suffix) \<Longrightarrow> c \<noteq> [] \<and> slash_byte \<notin> set c \<and> c \<noteq> [dot_byte]"
  using pieces_names [of c slash_byte suffix] by (auto simp: path_names_def)

lemma normalized_split:
  "and_found (normalize_components g ISAAC_VITA_NATIVE_DATA_ROOT suffix) (\<lambda>n. split_pattern g n dn pn) = Inr (dir, pat) \<longleftrightarrow>
    (\<exists>cs. path_names suffix = cs @ [pat] \<and> list_all plain_name (cs @ [pat]) \<and> list_all wild_free cs \<and> dir = below cs \<and>
      length (below (cs @ [pat])) \<le> VITA_FIND_PATH_UTF8_MAX \<and> length dir < dn \<and> length pat < pn)"
proof (cases "path_names suffix" rule: rev_cases)
  case Nil
  have "split_pattern g ISAAC_VITA_NATIVE_DATA_ROOT dn pn \<noteq> Inr (dir, pat)"
    using split_root by (simp add: below_root)
  then show ?thesis using Nil by (auto simp: and_found_Inr normalize_exact)
next
  case (snoc cs c)
  have c: "slash_byte \<notin> set c" "c \<noteq> []" using path_name_shape [of c suffix] snoc by auto
  have b: "ISAAC_VITA_NATIVE_DATA_ROOT @ concat (map (\<lambda>c. slash_byte # c) (path_names suffix)) = below (cs @ [c])"
    using snoc by (simp add: below_root)
  show ?thesis unfolding and_found_Inr normalize_exact b using split_names [OF c] snoc by auto
qed

text \<open>
  The names of a pattern, without the code's own tests: those behind one of the two spellings of the data root, which must be the whole
  root, or those of a path that names no device.
\<close>

definition pattern_names :: "u8 list \<Rightarrow> u8 list list option" where
  "pattern_names input =
     (if beneath slash_byte (bytes_of ''ux0:data/isaacr001'') input
      then Some (path_names (drop (length ''ux0:data/isaacr001'') input))
      else if beneath slash_byte (bytes_of ''ux0:/data/isaacr001'') input
      then Some (path_names (drop (length ''ux0:/data/isaacr001'') input))
      else if colon_byte \<in> set input then None
      else Some (path_names input))"

lemma path_names_skip: "path_names (skip_current suffix) = path_names suffix"
proof (induction suffix rule: skip_current.induct)
  case (1 a b suffix)
  have "pieces slash_byte ([dot_byte] @ slash_byte # suffix) = [dot_byte] # pieces slash_byte (slash_byte # suffix)"
    by (rule pieces_Cons) simp_all
  then have "path_names (dot_byte # slash_byte # suffix) = path_names suffix"
    by (simp add: path_names_def pieces_sep)
  then show ?case using 1 by simp
qed simp_all

lemma under_root_beneath: "under_root root input \<longleftrightarrow> beneath slash_byte root input"
  unfolding under_root_def beneath_prefix ..

lemma pattern_suffix_names:
  "(\<exists>suffix. pattern_suffix g input = Inr suffix \<and> path_names suffix = cs) \<longleftrightarrow> pattern_names input = Some cs"
proof -
  have l: "length (bytes_of x) = length x" for x by (simp add: bytes_of_def)
  show ?thesis
    unfolding pattern_suffix_def pattern_names_def under_root_beneath ISAAC_VITA_DATA_ROOT_def ISAAC_VITA_NATIVE_DATA_ROOT_def l
    by (simp add: path_names_skip)
qed

text \<open>
  C36: what \<open>FindFirstFileW\<close> searches: a pattern is accepted exactly when it is well-formed UTF-16 of at most 1024 units, its names are
  those under a root of the game's data, or relative to it, no name is the parent or holds a colon, none before the last holds a
  wildcard, and everything fits; then the directory is the console's root with those names, and the pattern is the last.  So
  no search leaves the data root.
\<close>

theorem find_pattern_exact:
  "vita_find_prepare_pattern m guest_pattern directory_size pattern_size = Inr (dir, pat) \<longleftrightarrow>
   guest_pattern \<noteq> 0 \<and>
   (\<exists>cps cs. text_at m guest_pattern 1024 0 cps \<and> length (bytes_of_text cps) \<le> 4096 \<and>
      pattern_names (with_slashes (bytes_of_text cps)) = Some (cs @ [pat]) \<and>
      list_all plain_name (cs @ [pat]) \<and> list_all wild_free cs \<and> dir = below cs \<and>
      length (below (cs @ [pat])) \<le> 4096 \<and> length dir < directory_size \<and> length pat < pattern_size)"
proof -
  have names: "decoded \<noteq> []" if "pattern_names (with_slashes decoded) = Some (cs @ [pat])" for decoded and cs :: "u8 list list" and pat
    using that by (auto simp: with_slashes_def pattern_names_def beneath_def bytes_of_def path_names_def pieces_none split: if_splits)
  have prepared: "vita_find_prepare_pattern m guest_pattern directory_size pattern_size = Inr (dir, pat) \<longleftrightarrow>
      (\<exists>decoded. vita_find_decode_path m guest_pattern (VITA_FIND_PATH_UTF8_MAX + 1) = Inr decoded \<and> decoded \<noteq> [] \<and>
        (\<exists>suffix. pattern_suffix guest_pattern (with_slashes decoded) = Inr suffix \<and>
          and_found (normalize_components guest_pattern ISAAC_VITA_NATIVE_DATA_ROOT suffix)
            (\<lambda>n. split_pattern guest_pattern n directory_size pattern_size) = Inr (dir, pat)))"
    using root_fits
    by (auto simp: vita_find_prepare_pattern_def with_slashes_def not_le less_Suc_eq_le and_found_Inr Let_def split: if_split_asm)
  have split: "(\<exists>suffix. pattern_suffix guest_pattern input = Inr suffix \<and>
      and_found (normalize_components guest_pattern ISAAC_VITA_NATIVE_DATA_ROOT suffix)
        (\<lambda>n. split_pattern guest_pattern n directory_size pattern_size) = Inr (dir, pat)) \<longleftrightarrow>
      (\<exists>cs. pattern_names input = Some (cs @ [pat]) \<and> list_all plain_name (cs @ [pat]) \<and> list_all wild_free cs \<and> dir = below cs \<and>
        length (below (cs @ [pat])) \<le> VITA_FIND_PATH_UTF8_MAX \<and> length dir < directory_size \<and> length pat < pattern_size)" for input
    unfolding normalized_split pattern_suffix_names [of guest_pattern, symmetric] by blast
  have decode: "vita_find_decode_path m guest_pattern (VITA_FIND_PATH_UTF8_MAX + 1) = Inr decoded \<longleftrightarrow>
      guest_pattern \<noteq> 0 \<and> (\<exists>cps. text_at m guest_pattern 1024 0 cps \<and> decoded = bytes_of_text cps \<and> length decoded \<le> 4096)" for decoded
  proof -
    have "length decoded < 4097 \<longleftrightarrow> length decoded \<le> 4096" by linarith
    then show ?thesis
      using decode_path_exact [of "VITA_FIND_PATH_UTF8_MAX + 1" m guest_pattern decoded]
      by (simp add: VITA_FIND_PATH_UTF8_MAX_def VITA_FIND_PATH_UNITS_MAX_def)
  qed
  show ?thesis
    unfolding prepared split decode unfolding VITA_FIND_PATH_UTF8_MAX_def using names by blast
qed

end
