(* ===== verification/Vita_Find_Data.thy ===== *)
theory Vita_Find_Data imports Vita_Find_Text begin

text \<open>
  The record a search fills in (\<open>WIN32_FIND_DATAW\<close>, \<open>vita_find_write_data\<close>): attributes, the three times as 100 ns units
  since 1601, the size and the name in UTF-16.  The fields of the console's date are natural numbers; \<open>filetime_fits\<close>
  shows that the 64-bit arithmetic of the code cannot wrap on an admitted date.
\<close>

section \<open>Times\<close>

record SceDateTime =
  year :: nat
  month :: nat
  day :: nat
  hour :: nat
  minute :: nat
  second :: nat
  microsecond :: nat

definition vita_find_is_leap :: "nat \<Rightarrow> bool" where
  "vita_find_is_leap y \<longleftrightarrow> (y mod 4 = 0 \<and> y mod 100 \<noteq> 0) \<or> y mod 400 = 0"

definition vita_find_days_before_year :: "nat \<Rightarrow> nat" where
  "vita_find_days_before_year y = (let before = y - 1 in before * 365 + before div 4 - before div 100 + before div 400)"

definition month_lengths :: "nat list" where
  "month_lengths = [31, 28, 31, 30, 31, 30, 31, 31, 30, 31, 30, 31]"

definition month_starts :: "nat list" where
  "month_starts = [0, 31, 59, 90, 120, 151, 181, 212, 243, 273, 304, 334]"

definition vita_find_filetime :: "SceDateTime \<Rightarrow> nat" where
  "vita_find_filetime time =
     (if year time < 1601 \<or> year time > 9999 \<or> month time < 1 \<or> month time > 12 \<or> day time < 1 \<or>
         day time > month_lengths ! (month time - 1) + (if month time = 2 \<and> vita_find_is_leap (year time) then 1 else 0) \<or>
         hour time > 23 \<or> minute time > 59 \<or> second time > 60 \<or> microsecond time > 999999
      then 0
      else
        let days = vita_find_days_before_year (year time) - vita_find_days_before_year 1601;
            days = days + month_starts ! (month time - 1);
            days = (if month time > 2 \<and> vita_find_is_leap (year time) then days + 1 else days);
            days = days + (day time - 1);
            seconds = ((days * 24 + hour time) * 60 + minute time) * 60 + (if second time = 60 then 59 else second time)
        in seconds * 10000000 + microsecond time * 10)"

text \<open>The calendar, a year and a month at a time.\<close>

definition month_days :: "nat \<Rightarrow> nat \<Rightarrow> nat" where
  "month_days y m = (if m = 2 then (if vita_find_is_leap y then 29 else 28)
     else if m = 4 \<or> m = 6 \<or> m = 9 \<or> m = 11 then 30 else 31)"

definition year_days :: "nat \<Rightarrow> nat" where
  "year_days y = (\<Sum>m\<leftarrow>[1..<13]. month_days y m)"

definition days_since_1601 :: "nat \<Rightarrow> nat \<Rightarrow> nat \<Rightarrow> nat" where
  "days_since_1601 y m d = (\<Sum>i\<leftarrow>[1601..<y]. year_days i) + (\<Sum>i\<leftarrow>[1..<m]. month_days y i) + (d - 1)"

definition real_date :: "SceDateTime \<Rightarrow> bool" where
  "real_date t \<longleftrightarrow> 1601 \<le> year t \<and> year t \<le> 9999 \<and> 1 \<le> month t \<and> month t \<le> 12 \<and> 1 \<le> day t \<and>
     day t \<le> month_days (year t) (month t) \<and> hour t \<le> 23 \<and> minute t \<le> 59 \<and> second t \<le> 60 \<and> microsecond t \<le> 999999"

definition filetime :: "SceDateTime \<Rightarrow> nat" where
  "filetime t = (if real_date t
     then (days_since_1601 (year t) (month t) (day t) * 86400 + hour t * 3600 + minute t * 60 + min (second t) 59) * 10000000 +
       microsecond t * 10
     else 0)"

lemma year_days_leap: "year_days y = (if vita_find_is_leap y then 366 else 365)"
  by (simp add: year_days_def month_days_def upt_rec)

lemma leap_rule:
  fixes b q r s :: nat
  assumes "r \<le> q" "C \<Longrightarrow> F" "Q \<Longrightarrow> C"
  shows "Suc b * 365 + (q + (if F then 1 else 0)) - (r + (if C then 1 else 0)) + (s + (if Q then 1 else 0)) =
    b * 365 + q - r + s + (if F \<and> \<not> C \<or> Q then 366 else 365)"
  using assms by (cases F; cases C; cases Q) simp_all

lemma days_before_next:
  assumes "1 \<le> y"
  shows "vita_find_days_before_year (Suc y) = vita_find_days_before_year y + year_days y"
proof -
  obtain b where b: "y = Suc b" using assms by (cases y) auto
  have d: "Suc b div k = b div k + (if Suc b mod k = 0 then 1 else 0)" for k :: nat
    by (simp add: div_Suc)
  have le: "b div 100 \<le> b div 4" by (simp add: div_le_mono2)
  have m: "Suc b mod 100 = 0 \<Longrightarrow> Suc b mod 4 = 0" "Suc b mod 400 = 0 \<Longrightarrow> Suc b mod 100 = 0" by presburger+
  show ?thesis
    unfolding vita_find_days_before_year_def year_days_leap vita_find_is_leap_def b Let_def diff_Suc_1 d
    by (rule leap_rule [OF le m])
qed

lemma days_of_years: "1601 \<le> y \<Longrightarrow>
    vita_find_days_before_year y - vita_find_days_before_year 1601 = (\<Sum>i\<leftarrow>[1601..<y]. year_days i) \<and>
    vita_find_days_before_year 1601 \<le> vita_find_days_before_year y"
proof (induction y rule: dec_induct)
  case (step y)
  then show ?case using days_before_next [of y] by auto
qed simp

lemma month_table:
  assumes "1 \<le> m" "m \<le> 12"
  shows "month_lengths ! (m - 1) + (if m = 2 \<and> vita_find_is_leap y then 1 else 0) = month_days y m"
    "month_starts ! (m - 1) + (if m > 2 \<and> vita_find_is_leap y then 1 else 0) = (\<Sum>i\<leftarrow>[1..<m]. month_days y i)"
proof -
  have m: "m \<in> {1, 2, 3, 4, 5, 6, 7, 8, 9, 10, 11, 12}"
    using assms by (simp only: insert_iff empty_iff) presburger
  show "month_lengths ! (m - 1) + (if m = 2 \<and> vita_find_is_leap y then 1 else 0) = month_days y m"
    using m by (auto simp: month_lengths_def month_days_def)
  show "month_starts ! (m - 1) + (if m > 2 \<and> vita_find_is_leap y then 1 else 0) = (\<Sum>i\<leftarrow>[1..<m]. month_days y i)"
    using m by (elim insertE emptyE; simp add: month_starts_def month_days_def upt_rec)
qed

lemma filetime_exact: "vita_find_filetime t = filetime t"
proof (cases "1601 \<le> year t \<and> year t \<le> 9999 \<and> 1 \<le> month t \<and> month t \<le> 12")
  case True
  note m = month_table [of "month t" "year t"]
  have y: "vita_find_days_before_year (year t) - vita_find_days_before_year 1601 = (\<Sum>i\<leftarrow>[1601..<year t]. year_days i)"
    using days_of_years True by blast
  have "vita_find_filetime t = 0 \<and> filetime t = 0" if "\<not> real_date t"
    using that True m(1) by (auto simp: vita_find_filetime_def filetime_def real_date_def not_le not_less)
  moreover have "vita_find_filetime t = filetime t" if r: "real_date t"
  proof -
    have c: "\<not> (year t < 1601 \<or> year t > 9999 \<or> month t < 1 \<or> month t > 12 \<or> day t < 1 \<or>
        day t > month_lengths ! (month t - 1) + (if month t = 2 \<and> vita_find_is_leap (year t) then 1 else 0) \<or>
        hour t > 23 \<or> minute t > 59 \<or> second t > 60 \<or> microsecond t > 999999)"
      using r m(1) by (auto simp: real_date_def)
    have d: "days_since_1601 (year t) (month t) (day t) =
        (if month t > 2 \<and> vita_find_is_leap (year t) then (\<Sum>i\<leftarrow>[1601..<year t]. year_days i) + month_starts ! (month t - 1) + 1
         else (\<Sum>i\<leftarrow>[1601..<year t]. year_days i) + month_starts ! (month t - 1)) + (day t - 1)"
      using m(2) True unfolding days_since_1601_def by auto
    have s: "(if second t = 60 then 59 else second t) = min (second t) 59" using r by (auto simp: real_date_def)
    show ?thesis
      unfolding vita_find_filetime_def if_not_P [OF c] Let_def y d [symmetric] s filetime_def if_P [OF r]
      by (simp add: algebra_simps)
  qed
  ultimately show ?thesis by argo
next
  case False
  then show ?thesis by (auto simp: vita_find_filetime_def filetime_def real_date_def not_le not_less)
qed

lemma sum_list_le: "(\<And>x. x \<in> set xs \<Longrightarrow> f x \<le> k) \<Longrightarrow> (\<Sum>x\<leftarrow>xs. f x) \<le> length xs * (k :: nat)"
  by (induction xs) (auto simp: add_mono)

lemma filetime_fits: "vita_find_filetime t < 2 ^ 64"
proof (cases "real_date t")
  case True
  have "(\<Sum>i\<leftarrow>[1601..<year t]. year_days i) \<le> (year t - 1601) * 366"
    using sum_list_le [of "[1601..<year t]" year_days 366] by (simp add: year_days_leap)
  moreover have "(\<Sum>i\<leftarrow>[1..<month t]. month_days (year t) i) \<le> (month t - 1) * 31"
    using sum_list_le [of "[1..<month t]" "month_days (year t)" 31] by (simp add: month_days_def)
  moreover have "month_days (year t) (month t) \<le> 31" by (simp add: month_days_def)
  ultimately have "days_since_1601 (year t) (month t) (day t) \<le> 8398 * 366 + 11 * 31 + 30"
    using True unfolding days_since_1601_def real_date_def by linarith
  then have "filetime t < 2 ^ 64" using True by (simp add: filetime_def real_date_def min_def)
  then show ?thesis by (simp add: filetime_exact)
next
  case False
  then show ?thesis by (simp add: filetime_exact filetime_def)
qed


section \<open>The record\<close>

record SceIoStat =
  st_mode :: u32
  st_size :: "64 word"
  st_ctime :: SceDateTime
  st_atime :: SceDateTime
  st_mtime :: SceDateTime

definition ISAAC_VITA_FIND_DATA_NAME_UNITS :: nat where "ISAAC_VITA_FIND_DATA_NAME_UNITS = 260"
definition ISAAC_VITA_FIND_DATA_SIZE :: nat where "ISAAC_VITA_FIND_DATA_SIZE = 592"

definition vita_find_store_time :: "mem \<Rightarrow> u32 \<Rightarrow> u32 \<Rightarrow> SceDateTime \<Rightarrow> mem" where
  "vita_find_store_time m output offset time =
     (let value = of_nat (vita_find_filetime time) :: u64;
          m = st32 m (output + offset) (ucast value)
      in st32 m (output + offset + 4) (ucast (drop_bit 32 value)))"

text \<open>The loop stops behind the first zero unit.\<close>

fun store_units :: "mem \<Rightarrow> u32 \<Rightarrow> u16 list \<Rightarrow> mem" where
  "store_units m a [] = m"
| "store_units m a (u # us) = (let m = st16 m a u in if u = 0 then m else store_units m (a + 2) us)"

text \<open>
  Whether a mode is that of a directory is decided by a macro of the system's headers, the parameter \<open>isdir\<close>.  A size is a signed
  64-bit number; a negative one is not stored.
\<close>

definition vita_find_write_data ::
    "(u32 \<Rightarrow> bool) \<Rightarrow> mem \<Rightarrow> u32 \<Rightarrow> u8 list \<Rightarrow> SceIoStat option \<Rightarrow> find_failure + mem" where
  "vita_find_write_data isdir m output name status =
     (case vita_find_utf8_to_utf16 name ISAAC_VITA_FIND_DATA_NAME_UNITS of Inl e \<Rightarrow> Inl e
      | Inr utf16 \<Rightarrow>
          let m = st_bytes m output (replicate ISAAC_VITA_FIND_DATA_SIZE 0);
              attributes = (case status of Some s \<Rightarrow> if isdir (st_mode s) then 0x10 else 0x20 | None \<Rightarrow> 0x20);
              m = st32 m output attributes;
              m = (case status of None \<Rightarrow> m
                   | Some s \<Rightarrow>
                       let m = vita_find_store_time m output 4 (st_ctime s);
                           m = vita_find_store_time m output 12 (st_atime s)
                       in vita_find_store_time m output 20 (st_mtime s));
              size = (case status of Some s \<Rightarrow> if sint (st_size s) > 0 then st_size s else 0 | None \<Rightarrow> 0);
              m = st32 m (output + 28) (ucast (drop_bit 32 size));
              m = st32 m (output + 32) (ucast size)
          in Inr (store_units m (output + 44) (utf16 @ [0])))"

section \<open>Reading it back\<close>

definition fits :: "u32 \<Rightarrow> nat \<Rightarrow> bool" where
  "fits a n \<longleftrightarrow> unat a + n \<le> 2 ^ 32"

lemma fits_plus: "fits a (k + n) \<Longrightarrow> n > 0 \<Longrightarrow> unat (a + of_nat k) = unat a + k"
proof -
  assume f: "fits a (k + n)" and n: "n > 0"
  have k: "unat (of_nat k :: u32) = k" using f n by (intro unat_of_nat_small) (simp add: fits_def)
  show ?thesis using f n by (simp add: unat_plus_small k fits_def)
qed

text \<open>Stores of whole cells in rising order keep apart.\<close>

lemma apart_le:
  assumes "unat a + n \<le> unat b" "unat b + k \<le> 2 ^ 32" "n > 0"
  shows "apart a n b k"
proof -
  have ab: "a \<le> b" using assms(1) by (simp add: word_le_nat_alt)
  then have d: "unat (b - a) = unat b - unat a" by (rule unat_sub)
  show ?thesis
  proof (cases "a = b")
    case True
    then show ?thesis using assms by (simp add: apart_def)
  next
    case False
    then have "unat (a - b) = 2 ^ 32 - (unat b - unat a)" using unat_diff_swap [of a b] d by simp
    then show ?thesis unfolding apart_def using assms d by (intro conjI) arith+
  qed
qed

lemma store_units_below:
  "n > 0 \<Longrightarrow> unat b + n \<le> unat a \<Longrightarrow> fits a (2 * length us) \<Longrightarrow> ld_bytes (store_units m a us) b n = ld_bytes m b n"
proof (induction us arbitrary: m a)
  case (Cons u us)
  have ap: "apart a 2 b n" by (subst apart_sym, rule apart_le) (use Cons.prems in \<open>auto simp: fits_def\<close>)
  have 1: "ld_bytes (st16 m a u) b n = ld_bytes m b n"
    unfolding st16_def by (rule ld_st_bytes_apart) (use ap in simp_all)
  show ?case
  proof (cases "u = 0 \<or> us = []")
    case True
    then show ?thesis using 1 by (auto simp: Let_def)
  next
    case False
    have "unat (a + 2) = unat a + 2"
      using fits_plus [of a 2 "2 * length us"] Cons.prems False by simp
    then have "ld_bytes (store_units (st16 m a u) (a + 2) us) b n = ld_bytes (st16 m a u) b n"
      by (intro Cons.IH) (use Cons.prems in \<open>simp_all add: fits_def\<close>)
    then show ?thesis using 1 False by (simp add: Let_def)
  qed
qed simp

lemma units_at_shift: "units_at m a (Suc i) us \<longleftrightarrow> units_at m (a + 2) i us"
  by (induction us arbitrary: i) (simp_all add: algebra_simps)

lemma store_units_read:
  "0 \<notin> set us \<Longrightarrow> fits a (2 * length us + 2) \<Longrightarrow> units_at (store_units m a (us @ [0])) a 0 us"
proof (induction us arbitrary: m a)
  case Nil
  then show ?case by (simp add: Let_def cell16.ld_st_same)
next
  case (Cons u us)
  have a: "unat (a + 2) = unat a + 2"
    using fits_plus [of a 2 "2 * length us + 2"] Cons.prems(2) by simp
  let ?m = "store_units (st16 m a u) (a + 2) (us @ [0])"
  have "ld_bytes ?m a 2 = ld_bytes (st16 m a u) a 2"
    by (rule store_units_below) (use a Cons.prems(2) in \<open>simp_all add: fits_def\<close>)
  then have "ld16 ?m a = u" unfolding ld16_def using cell16.ld_st_same [of m a u] by (simp add: ld16_def)
  moreover have "units_at ?m (a + 2) 0 us"
    by (rule Cons.IH) (use a Cons.prems in \<open>simp_all add: fits_def\<close>)
  ultimately show ?case using Cons.prems(1) units_at_shift [of ?m a 0 us] by (simp add: Let_def)
qed


text \<open>The words of the record, by their offsets.\<close>

definition find_fields :: "(u32 \<Rightarrow> bool) \<Rightarrow> SceIoStat \<Rightarrow> (nat \<times> u32) list" where
  "find_fields isdir s =
     (let low = (\<lambda>t. ucast (of_nat (filetime t) :: u64)); high = (\<lambda>t. ucast (drop_bit 32 (of_nat (filetime t) :: u64)));
          size = (if sint (st_size s) > 0 then st_size s else 0)
      in [(0, if isdir (st_mode s) then 0x10 else 0x20), (4, low (st_ctime s)), (8, high (st_ctime s)),
          (12, low (st_atime s)), (16, high (st_atime s)), (20, low (st_mtime s)), (24, high (st_mtime s)),
          (28, ucast (drop_bit 32 size)), (32, ucast size)])"

definition placed :: "u32 \<Rightarrow> (nat \<times> u32) list \<Rightarrow> (u32 \<times> u32) list" where
  "placed output words = map (\<lambda>(k, v). (output + of_nat k, v)) words"

lemma write_data_stores:
  "vita_find_write_data isdir m output name (Some s) =
     (case vita_find_utf8_to_utf16 name 260 of Inl e \<Rightarrow> Inl e
      | Inr utf16 \<Rightarrow> Inr (store_units
          (cell32.st_table (st_bytes m output (replicate 592 0)) (placed output (find_fields isdir s))) (output + 44) (utf16 @ [0])))"
  by (simp add: vita_find_write_data_def vita_find_store_time_def find_fields_def placed_def Let_def filetime_exact
      ISAAC_VITA_FIND_DATA_NAME_UNITS_def ISAAC_VITA_FIND_DATA_SIZE_def add.assoc split: sum.split)

lemma find_fields_offsets:
  "map fst (find_fields isdir s) = [0, 4, 8, 12, 16, 20, 24, 28, 32]"
  by (simp add: find_fields_def Let_def)

lemma placed_read:
  assumes "fits output 592" "(k, v) \<in> set (find_fields isdir s)"
  shows "ld32 (cell32.st_table m (placed output (find_fields isdir s))) (output + of_nat k) = v" "k \<le> 32"
    "unat (output + of_nat k) = unat output + k"
proof -
  have off: "k mod 4 = 0 \<and> k \<le> 32" if "k \<in> set (map fst (find_fields isdir s))" for k
    using that unfolding find_fields_offsets by auto
  have at: "unat (output + of_nat k) = unat output + k" if "k \<le> 32" for k
    by (rule fits_plus [where n = "592 - k"]) (use assms(1) that in \<open>simp_all add: fits_def\<close>)
  have k: "k \<in> set (map fst (find_fields isdir s))" using assms(2) by force
  show "k \<le> 32" "unat (output + of_nat k) = unat output + k" using off [OF k] at by blast+
  have fst: "map fst (placed output fs) = map (\<lambda>k. output + of_nat k) (map fst fs)" for fs
    by (simp add: placed_def split_def)
  have inj: "inj_on (\<lambda>k. output + of_nat k :: u32) (set (map fst (find_fields isdir s)))"
  proof (rule inj_onI)
    fix j l assume "j \<in> set (map fst (find_fields isdir s))" "l \<in> set (map fst (find_fields isdir s))"
      "(output + of_nat j :: u32) = output + of_nat l"
    then show "j = l" using off at by (metis add_left_cancel)
  qed
  have d: "distinct (map fst (find_fields isdir s))" unfolding find_fields_offsets by simp
  show "ld32 (cell32.st_table m (placed output (find_fields isdir s))) (output + of_nat k) = v"
  proof (rule cell32.ld_st_table)
    show "(output + of_nat k, v) \<in> set (placed output (find_fields isdir s))"
      using assms(2) by (force simp: placed_def)
    show "distinct (map fst (placed output (find_fields isdir s)))"
      unfolding fst by (rule distinct_map [THEN iffD2]) (use d inj in blast)
    fix b c assume "b \<in> fst ` set (placed output (find_fields isdir s))"
      "c \<in> fst ` set (placed output (find_fields isdir s))" "b \<noteq> c"
    moreover have "fst ` set (placed output (find_fields isdir s)) = (\<lambda>k. output + of_nat k) ` set (map fst (find_fields isdir s))"
      using fst [of "find_fields isdir s"] by (metis list.set_map)
    ultimately obtain j l where j: "b = output + of_nat j" "j mod 4 = 0" "j \<le> 32" and l: "c = output + of_nat l" "l mod 4 = 0" "l \<le> 32"
      and ne: "j \<noteq> l" using off by (smt (verit) imageE)
    have "j + 4 \<le> l \<or> l + 4 \<le> j" using j(2) l(2) ne by presburger
    then show "apart b 4 c 4"
    proof
      assume "j + 4 \<le> l"
      then show ?thesis by (intro apart_le) (use at [OF j(3)] at [OF l(3)] j l assms(1) in \<open>simp_all add: fits_def\<close>)
    next
      assume "l + 4 \<le> j"
      then show ?thesis
        by (subst apart_sym, intro apart_le) (use at [OF j(3)] at [OF l(3)] j l assms(1) in \<open>simp_all add: fits_def\<close>)
    qed
  qed
qed

text \<open>
  C37: a record the search hands out holds what the console said of the entry, and its name, searched for in turn, is read as the
  same bytes.
\<close>

theorem find_data_exact:
  assumes "vita_find_write_data isdir m output name (Some s) = Inr m'" "fits output 592" "output \<noteq> 0"
    "0 \<notin> set name" "length name \<le> 255"
  shows "list_all (\<lambda>(k, v). ld32 m' (output + of_nat k) = v) (find_fields isdir s) \<and>
    vita_find_decode_path m' (output + 44) (VITA_FIND_PATH_UTF8_MAX + 1) = Inr name"
proof -
  let ?t = "cell32.st_table (st_bytes m output (replicate 592 0)) (placed output (find_fields isdir s))"
  obtain us where us: "utf16_units name [] 260 = Inr us" and m': "m' = store_units ?t (output + 44) (us @ [0])"
    using assms(1) unfolding write_data_stores vita_find_utf8_to_utf16_def by (auto split: sum.splits)
  have o44: "unat (output + 44) = unat output + 44"
    using fits_plus [of "output" 44 548] assms(2) by (simp add: fits_def)
  have n: "0 \<notin> set us" "length us < 260"
    and read: "units_at m' (output + 44) 0 us \<Longrightarrow> unat (output + 44) + 2 * length us + 2 \<le> 2 ^ 32 \<Longrightarrow>
      decode_units m' (output + 44) (VITA_FIND_PATH_UTF8_MAX + 1) 0 [] = Inr name"
    using decode_utf16_units [OF us assms(4)] assms(5)
    by (auto simp: VITA_FIND_PATH_UNITS_MAX_def VITA_FIND_PATH_UTF8_MAX_def)
  have f: "fits (output + 44) (2 * length us + 2)" using o44 n(2) assms(2) by (simp add: fits_def)
  have "units_at m' (output + 44) 0 us" unfolding m' by (rule store_units_read [OF n(1) f])
  then have "decode_units m' (output + 44) (VITA_FIND_PATH_UTF8_MAX + 1) 0 [] = Inr name"
    using read f by (simp add: fits_def)
  moreover have "output + 44 \<noteq> 0" using o44 by (metis add_is_0 unat_0 zero_neq_numeral)
  moreover have "ld32 m' (output + of_nat k) = v" if kv: "(k, v) \<in> set (find_fields isdir s)" for k v
  proof -
    note r = placed_read [OF assms(2) kv]
    have "ld_bytes m' (output + of_nat k) 4 = ld_bytes ?t (output + of_nat k) 4"
      unfolding m' by (rule store_units_below) (use r o44 f in \<open>simp_all add: fits_def\<close>)
    then show ?thesis using r(1) by (simp add: ld32_def)
  qed
  ultimately show ?thesis by (auto simp: vita_find_decode_path_def list_all_iff)
qed

text \<open>A file called \<open>a\<close> of five bytes, written on the last day of a leap year.\<close>

definition example_stat :: SceIoStat where
  "example_stat =
     (let t = \<lparr>year = 2024, month = 12, day = 31, hour = 23, minute = 59, second = 60, microsecond = 7\<rparr>
      in \<lparr>st_mode = 0x2000, st_size = 5, st_ctime = t, st_atime = t, st_mtime = t\<rparr>)"

theorem find_data_exact_witness:
  "\<exists>m'. vita_find_write_data (\<lambda>m. m AND 0xF000 = 0x1000) (\<lambda>_. 0) 0x2000 [0x61] (Some example_stat) = Inr m' \<and>
    ld32 m' 0x2000 = 0x20 \<and> ld32 m' 0x2020 = 5 \<and> vita_find_decode_path m' 0x202C (VITA_FIND_PATH_UTF8_MAX + 1) = Inr [0x61]"
proof -
  obtain m' where m': "vita_find_write_data (\<lambda>m. m AND 0xF000 = 0x1000) (\<lambda>_. 0) 0x2000 [0x61] (Some example_stat) = Inr m'"
    by (simp add: write_data_stores vita_find_utf8_to_utf16_def utf8_lead_def)
  have "fits 0x2000 592" by (simp add: fits_def)
  from find_data_exact [OF m' this] have "list_all (\<lambda>(k, v). ld32 m' (0x2000 + of_nat k) = v) (find_fields (\<lambda>m. m AND 0xF000 = 0x1000) example_stat) \<and>
      vita_find_decode_path m' (0x2000 + 44) (VITA_FIND_PATH_UTF8_MAX + 1) = Inr [0x61]" by simp
  then show ?thesis using m' by (simp add: find_fields_def example_stat_def Let_def)
qed

end
