(* ===== verification/Vita_Find.thy ===== *)
theory Vita_Find imports Vita_Find_Path Vita_Find_Data Guest_Stack begin

text \<open>
  The directory search of the guest (\<open>host_vita_find.c\<close>): a registry of sixteen searches named by generation-tagged tokens,
  and the imports \<open>FindFirstFileW\<close>, \<open>FindNextFileW\<close> and \<open>FindClose\<close>.  The console's directory services are not part of
  the repository; they are the parameter \<open>find_services\<close>, over a state \<open>'w\<close> of theirs.  The spin lock around the
  registry is not represented, the calls of the model follow one another; nor are the log lines.
  \<open>guest_fault\<close> leaves through the run scope, so what the source writes behind one for the sake of a host without
  scopes is not reached.
\<close>

unbundle bit_operations_syntax

section \<open>The registry\<close>

record vita_find_handle =
  descriptor :: int
  generation :: u16
  in_use :: bool
  exhausted :: bool
  pattern_of :: "u8 list"

definition ISAAC_VITA_FIND_HANDLE_CAPACITY :: nat where "ISAAC_VITA_FIND_HANDLE_CAPACITY = 16"
definition VITA_FIND_TOKEN_MAGIC :: u32 where "VITA_FIND_TOKEN_MAGIC = 0xF17D0000"
definition ISAAC_VITA_FIND_INVALID_HANDLE_VALUE :: u32 where "ISAAC_VITA_FIND_INVALID_HANDLE_VALUE = 0xFFFFFFFF"

type_synonym registry = "vita_find_handle list"

text \<open>\<open>memset\<close> of a handle.\<close>

definition zero_handle :: vita_find_handle where
  "zero_handle = \<lparr>descriptor = 0, generation = 0, in_use = False, exhausted = False, pattern_of = []\<rparr>"

definition vita_find_token :: "nat \<Rightarrow> u16 \<Rightarrow> u32" where
  "vita_find_token index gen = VITA_FIND_TOKEN_MAGIC OR push_bit 4 (ucast gen AND 0xFFF) OR of_nat index"

definition vita_find_lookup :: "registry \<Rightarrow> u32 \<Rightarrow> nat option" where
  "vita_find_lookup handles token =
     (if token AND 0xFFFF0000 \<noteq> VITA_FIND_TOKEN_MAGIC then None
      else
        let index = unat (token AND 0xF); gen = drop_bit 4 token AND 0xFFF in
        if index \<ge> ISAAC_VITA_FIND_HANDLE_CAPACITY \<or> gen = 0 then None
        else if \<not> in_use (handles ! index) \<or> ucast (generation (handles ! index)) AND 0xFFF \<noteq> gen then None
        else Some index)"

definition next_generation :: "u16 \<Rightarrow> u16" where
  "next_generation g = (let gen = ucast ((ucast g + 1 :: u32) AND 0xFFF) in if gen = 0 then 1 else gen)"

definition vita_find_reserve :: "registry \<Rightarrow> (nat \<times> u32 \<times> registry) option" where
  "vita_find_reserve handles =
     (case find (\<lambda>index. \<not> in_use (handles ! index)) [0..<ISAAC_VITA_FIND_HANDLE_CAPACITY] of
        None \<Rightarrow> None
      | Some index \<Rightarrow>
          let gen = next_generation (generation (handles ! index)) in
          Some (index, vita_find_token index gen,
            handles[index := zero_handle\<lparr>descriptor := -1, generation := gen, in_use := True\<rparr>]))"

definition vita_find_release :: "registry \<Rightarrow> nat \<Rightarrow> registry" where
  "vita_find_release handles index =
     handles[index := zero_handle\<lparr>descriptor := -1, generation := generation (handles ! index)\<rparr>]"

section \<open>The services of the console\<close>

text \<open>\<open>d_name\<close> is the array of the entry with whatever lies behind the terminator.\<close>

record SceIoDirent =
  d_name :: "u8 list"
  d_stat :: SceIoStat

record 'w find_services =
  SCE_S_ISDIR :: "u32 \<Rightarrow> bool"
  sceIoDopen :: "u8 list \<Rightarrow> 'w \<Rightarrow> int \<times> 'w"
  sceIoDread :: "int \<Rightarrow> 'w \<Rightarrow> (int \<times> SceIoDirent) \<times> 'w"
  sceIoDclose :: "int \<Rightarrow> 'w \<Rightarrow> int \<times> 'w"
  sceIoGetstat :: "u8 list \<Rightarrow> 'w \<Rightarrow> (int \<times> SceIoStat) \<times> 'w"
  isaac_vita_async_write_drain :: "'w \<Rightarrow> 'w"

definition missing_file :: "int \<Rightarrow> bool" where
  "missing_file r \<longleftrightarrow> (word_of_int r :: u32) = 0x80010002"

definition not_directory :: "int \<Rightarrow> bool" where
  "not_directory r \<longleftrightarrow> (word_of_int r :: u32) = 0x80010014"

section \<open>Calls over the machine, the registry and the console\<close>

record 'w find_env =
  find_handles :: registry
  world :: 'w

text \<open>A call that does not return is \<open>None\<close>: a directory may list refused names for ever.\<close>

type_synonym ('a, 'w) find_call = "machine \<Rightarrow> 'w find_env \<Rightarrow> ('a outcome \<times> 'w find_env) option"

definition then_call :: "('a, 'w) find_call \<Rightarrow> ('a \<Rightarrow> ('b, 'w) find_call) \<Rightarrow> ('b, 'w) find_call" where
  "then_call call rest = (\<lambda>s e. case call s e of None \<Rightarrow> None
     | Some (Returned x t, f) \<Rightarrow> rest x t f
     | Some (Unwound t, f) \<Rightarrow> Some (Unwound t, f)
     | Some (Aborted t, f) \<Rightarrow> Some (Aborted t, f))"

definition on_machine :: "(machine \<Rightarrow> 'a outcome) \<Rightarrow> ('a, 'w) find_call" where
  "on_machine f = (\<lambda>s e. Some (f s, e))"

definition on_world :: "('w \<Rightarrow> 'a \<times> 'w) \<Rightarrow> ('a, 'w) find_call" where
  "on_world f = (\<lambda>s e. case f (world e) of (x, w) \<Rightarrow> Some (Returned x s, e\<lparr>world := w\<rparr>))"

definition on_registry :: "(registry \<Rightarrow> 'a \<times> registry) \<Rightarrow> ('a, 'w) find_call" where
  "on_registry f = (\<lambda>s e. case f (find_handles e) of (x, h) \<Rightarrow> Some (Returned x s, e\<lparr>find_handles := h\<rparr>))"

text \<open>A call chosen by what the state is when it starts.\<close>

definition on_state :: "(machine \<Rightarrow> 'w find_env \<Rightarrow> ('a, 'w) find_call) \<Rightarrow> ('a, 'w) find_call" where
  "on_state f = (\<lambda>s e. f s e s e)"

definition fault_call :: "u32 \<Rightarrow> message \<Rightarrow> ('a, 'w) find_call" where
  "fault_call address what = on_machine (\<lambda>s. guest_fault s address what)"

definition vita_find_arg :: "u32 \<Rightarrow> machine \<Rightarrow> u32 outcome" where
  "vita_find_arg index s =
     and_then (guest_stack_address s (esp (cpu s) + 4 + index * 4) 4 0) (\<lambda>a t. Returned (ld32 (mem t) a) t)"

definition vita_find_set_last_error :: "u32 \<Rightarrow> machine \<Rightarrow> unit outcome" where
  "vita_find_set_last_error error s = Returned () (upd_cpu (\<lambda>c. c\<lparr>last_error := error\<rparr>) s)"

definition set_eax :: "u32 \<Rightarrow> machine \<Rightarrow> unit outcome" where
  "set_eax v s = Returned () (upd_cpu (\<lambda>c. c\<lparr>eax := v\<rparr>) s)"

definition vita_find_stdcall_return :: "u32 \<Rightarrow> machine \<Rightarrow> unit outcome" where
  "vita_find_stdcall_return argument_bytes s =
     and_then (gpop s) (\<lambda>_ t. guest_stack_adjust t argument_bytes 0)"

definition vita_find_range :: "u32 \<Rightarrow> u32 \<Rightarrow> message \<Rightarrow> machine \<Rightarrow> unit outcome" where
  "vita_find_range address bytes what s =
     (if bytes \<noteq> 0 \<and> (address = 0 \<or> address > 0xFFFFFFFF - (bytes - 1)) then guest_fault s address what else Returned () s)"

section \<open>One entry\<close>

datatype find_read = Read_failed int | Read_end | Read_unterminated | Read_entry "u8 list" SceIoStat

partial_function (option) read_matching ::
    "'w find_services \<Rightarrow> int \<Rightarrow> u8 list \<Rightarrow> 'w \<Rightarrow> (find_read \<times> 'w) option" where
  "read_matching sce fd pat w =
     (case sceIoDread sce fd w of ((result, entry), w) \<Rightarrow>
        if result < 0 then Some (Read_failed result, w)
        else if result = 0 then Some (Read_end, w)
        else if 0 \<notin> set (d_name entry) then Some (Read_unterminated, w)
        else if takeWhile (\<lambda>b. b \<noteq> 0) (d_name entry) = [dot_byte] \<or>
                takeWhile (\<lambda>b. b \<noteq> 0) (d_name entry) = [dot_byte, dot_byte]
        then read_matching sce fd pat w
        else if \<not> vita_find_wildcard_match pat (takeWhile (\<lambda>b. b \<noteq> 0) (d_name entry))
        then read_matching sce fd pat w
        else Some (Read_entry (takeWhile (\<lambda>b. b \<noteq> 0) (d_name entry)) (d_stat entry), w))"

definition write_found :: "'w find_services \<Rightarrow> u32 \<Rightarrow> u8 list \<Rightarrow> SceIoStat \<Rightarrow> (unit, 'w) find_call" where
  "write_found sce output name status = on_machine (\<lambda>s.
     case vita_find_write_data (SCE_S_ISDIR sce) (mem s) output name (Some status) of
       Inl (Find_fault a what) \<Rightarrow> guest_fault s a what
     | Inl Find_no_fault \<Rightarrow> Returned () s
     | Inr m \<Rightarrow> Returned () (s\<lparr>mem := m\<rparr>))"

datatype advanced = ADVANCE_ENTRY | ADVANCE_END | VITA_FIND_ADVANCE_STALE

definition vita_find_advance :: "'w find_services \<Rightarrow> u32 \<Rightarrow> u32 \<Rightarrow> (advanced, 'w) find_call" where
  "vita_find_advance sce token output = (\<lambda>s e.
     case vita_find_lookup (find_handles e) token of
       None \<Rightarrow> Some (Returned VITA_FIND_ADVANCE_STALE s, e)
     | Some index \<Rightarrow>
         if exhausted (find_handles e ! index) then Some (Returned ADVANCE_END s, e)
         else case read_matching sce (descriptor (find_handles e ! index)) (pattern_of (find_handles e ! index)) (world e) of
           None \<Rightarrow> None
         | Some (Read_failed result, w) \<Rightarrow>
             fault_call (word_of_int result) ''FindFile native directory read failed'' s (e\<lparr>world := w\<rparr>)
         | Some (Read_end, w) \<Rightarrow>
             Some (Returned ADVANCE_END s, e\<lparr>world := w,
               find_handles := (find_handles e)[index := (find_handles e ! index)\<lparr>exhausted := True\<rparr>]\<rparr>)
         | Some (Read_unterminated, w) \<Rightarrow>
             fault_call 0 ''FindFile received an unterminated Vita name'' s (e\<lparr>world := w\<rparr>)
         | Some (Read_entry name status, w) \<Rightarrow>
             then_call (write_found sce output name status) (\<lambda>_ s e. Some (Returned ADVANCE_ENTRY s, e)) s (e\<lparr>world := w\<rparr>))"


section \<open>The imports\<close>

text \<open>An expected failure answers with the invalid handle and an error code, and returns to the guest.\<close>

definition answer :: "u32 \<Rightarrow> u32 option \<Rightarrow> u32 \<Rightarrow> (unit, 'w) find_call" where
  "answer argument_bytes error value = on_machine (\<lambda>s.
     and_then (case error of None \<Rightarrow> Returned () s | Some error \<Rightarrow> vita_find_set_last_error error s) (\<lambda>_ s.
     and_then (set_eax value s) (\<lambda>_ s. vita_find_stdcall_return argument_bytes s)))"

definition vita_find_exact :: "'w find_services \<Rightarrow> u32 \<Rightarrow> u32 \<Rightarrow> u8 list \<Rightarrow> u8 list \<Rightarrow> (unit, 'w) find_call" where
  "vita_find_exact sce guest_pattern output directory name =
     (case vita_find_join_exact_path guest_pattern directory name (VITA_FIND_PATH_UTF8_MAX + 1) of
        Inl (Find_fault a what) \<Rightarrow> fault_call a what
      | Inl Find_no_fault \<Rightarrow> on_machine (Returned ())
      | Inr path \<Rightarrow> then_call (on_world (sceIoGetstat sce path)) (\<lambda>(result, status).
          if not_directory result then answer 8 (Some 3) ISAAC_VITA_FIND_INVALID_HANDLE_VALUE
          else if missing_file result
          then then_call (on_world (sceIoGetstat sce directory)) (\<lambda>(directory_result, directory_status).
            if directory_result \<ge> 0 \<and> SCE_S_ISDIR sce (st_mode directory_status)
            then answer 8 (Some 2) ISAAC_VITA_FIND_INVALID_HANDLE_VALUE
            else if missing_file directory_result \<or> not_directory directory_result \<or> directory_result \<ge> 0
            then answer 8 (Some 3) ISAAC_VITA_FIND_INVALID_HANDLE_VALUE
            else fault_call (word_of_int directory_result) ''FindFirstFileW exact parent stat failed'')
          else if result < 0 then fault_call (word_of_int result) ''FindFirstFileW exact path stat failed''
          else then_call (on_registry (\<lambda>h. case vita_find_reserve h of None \<Rightarrow> (None, h)
              | Some (index, token, h) \<Rightarrow>
                  (Some token, h[index := (h ! index)\<lparr>descriptor := -1, exhausted := True\<rparr>]))) (\<lambda>reserved.
            case reserved of None \<Rightarrow> fault_call 0 ''Vita FindFile handle registry exhausted''
            | Some token \<Rightarrow> then_call (write_found sce output name status) (\<lambda>_. answer 8 None token))))"

text \<open>What \<open>FindFirstFileW\<close> does once the directory is open.\<close>

definition first_of_directory :: "'w find_services \<Rightarrow> u8 list \<Rightarrow> u32 \<Rightarrow> int \<Rightarrow> (unit, 'w) find_call" where
  "first_of_directory sce pattern output fd =
     then_call (on_registry (\<lambda>h. case vita_find_reserve h of None \<Rightarrow> (None, h)
         | Some (index, token, h) \<Rightarrow> (Some token, h[index := (h ! index)\<lparr>pattern_of := pattern, descriptor := fd\<rparr>])))
       (\<lambda>reserved. case reserved of
          None \<Rightarrow> then_call (on_world (sceIoDclose sce fd)) (\<lambda>close_result.
            if close_result < 0
            then fault_call (word_of_int close_result) ''FindFirstFileW registry cleanup close failed''
            else fault_call 0 ''Vita FindFile handle registry exhausted'')
        | Some token \<Rightarrow> then_call (vita_find_advance sce token output) (\<lambda>result.
            case result of
              VITA_FIND_ADVANCE_STALE \<Rightarrow> fault_call token ''FindFirstFileW lost its internal search handle''
            | ADVANCE_ENTRY \<Rightarrow> answer 8 None token
            | ADVANCE_END \<Rightarrow> on_state (\<lambda>s e. case vita_find_lookup (find_handles e) token of
                None \<Rightarrow> fault_call token ''FindFirstFileW lost its exhausted search handle''
              | Some index \<Rightarrow> then_call (on_world (sceIoDclose sce (descriptor (find_handles e ! index)))) (\<lambda>close_result.
                  if close_result < 0
                  then fault_call (word_of_int close_result) ''FindFirstFileW native directory close failed''
                  else then_call (on_registry (\<lambda>h. ((), vita_find_release h index)))
                    (\<lambda>_. answer 8 (Some 2) ISAAC_VITA_FIND_INVALID_HANDLE_VALUE)))))"

text \<open>A prepared pattern: an exact name is asked for, a wildcard opens the directory.\<close>

definition first_of_pattern :: "'w find_services \<Rightarrow> u32 \<Rightarrow> u32 \<Rightarrow> u8 list \<Rightarrow> u8 list \<Rightarrow> (unit, 'w) find_call" where
  "first_of_pattern sce guest_pattern output directory pattern =
     then_call (on_world (\<lambda>w. ((), isaac_vita_async_write_drain sce w))) (\<lambda>_.
       if \<not> vita_find_has_wildcard pattern then vita_find_exact sce guest_pattern output directory pattern
       else then_call (on_world (sceIoDopen sce directory)) (\<lambda>fd.
         if missing_file fd \<or> not_directory fd then answer 8 (Some 3) ISAAC_VITA_FIND_INVALID_HANDLE_VALUE
         else if fd < 0 then fault_call (word_of_int fd) ''FindFirstFileW native directory open failed''
         else first_of_directory sce pattern output fd))"

definition vita_find_FindFirstFileW :: "'w find_services \<Rightarrow> (unit, 'w) find_call" where
  "vita_find_FindFirstFileW sce =
     then_call (on_machine (vita_find_arg 0)) (\<lambda>guest_pattern.
     then_call (on_machine (vita_find_arg 1)) (\<lambda>output.
     then_call (on_machine (vita_find_range output (of_nat ISAAC_VITA_FIND_DATA_SIZE)
       ''FindFirstFileW received an invalid output range'')) (\<lambda>_. on_state (\<lambda>s e.
       case vita_find_prepare_pattern (mem s) guest_pattern (VITA_FIND_PATH_UTF8_MAX + 1) (VITA_FIND_PATTERN_MAX + 1) of
         Inl (Find_fault a what) \<Rightarrow> fault_call a what
       | Inl Find_no_fault \<Rightarrow> on_machine (Returned ())
       | Inr (directory, pattern) \<Rightarrow> first_of_pattern sce guest_pattern output directory pattern))))"

definition vita_find_FindNextFileW :: "'w find_services \<Rightarrow> (unit, 'w) find_call" where
  "vita_find_FindNextFileW sce =
     then_call (on_machine (vita_find_arg 0)) (\<lambda>token.
     then_call (on_machine (vita_find_arg 1)) (\<lambda>output.
     then_call (on_machine (vita_find_range output (of_nat ISAAC_VITA_FIND_DATA_SIZE)
       ''FindNextFileW received an invalid output range'')) (\<lambda>_.
     then_call (vita_find_advance sce token output) (\<lambda>result.
       case result of
         VITA_FIND_ADVANCE_STALE \<Rightarrow> answer 8 (Some 6) 0
       | ADVANCE_END \<Rightarrow> answer 8 (Some 18) 0
       | ADVANCE_ENTRY \<Rightarrow> answer 8 None 1))))"

definition vita_find_FindClose :: "'w find_services \<Rightarrow> (unit, 'w) find_call" where
  "vita_find_FindClose sce =
     then_call (on_machine (vita_find_arg 0)) (\<lambda>token. on_state (\<lambda>s e.
       case vita_find_lookup (find_handles e) token of
         None \<Rightarrow> answer 4 (Some 6) 0
       | Some index \<Rightarrow>
           then_call (on_world (\<lambda>w. if descriptor (find_handles e ! index) < 0 then (0, w)
               else sceIoDclose sce (descriptor (find_handles e ! index)) w)) (\<lambda>result.
             if result < 0 then fault_call (word_of_int result) ''FindClose native directory close failed''
             else then_call (on_registry (\<lambda>h. ((), vita_find_release h index))) (\<lambda>_. answer 4 None 1))))"

section \<open>Dispatch by name\<close>

definition s_vita_find_imports :: "(string \<times> ('w find_services \<Rightarrow> (unit, 'w) find_call)) list" where
  "s_vita_find_imports =
     [(''KERNEL32.dll!FindClose'', vita_find_FindClose),
      (''KERNEL32.dll!FindFirstFileW'', vita_find_FindFirstFileW),
      (''KERNEL32.dll!FindNextFileW'', vita_find_FindNextFileW)]"

definition isaac_vita_find_import_name :: "nat \<Rightarrow> string option" where
  "isaac_vita_find_import_name index =
     (if index < 3 then Some (fst ((s_vita_find_imports :: (string \<times> (unit find_services \<Rightarrow> (unit, unit) find_call)) list) ! index))
      else None)"

text \<open>The counter is advanced before the handler runs, so a fault of the handler does not undo it.\<close>

definition isaac_vita_find_import_indexed ::
    "'w find_services \<Rightarrow> nat \<Rightarrow> u32 \<Rightarrow> u32 \<times> (bool, 'w) find_call" where
  "isaac_vita_find_import_indexed sce index call_count =
     (if index \<ge> 3 then (call_count, on_machine (Returned False))
      else (call_count + 1, then_call (snd (s_vita_find_imports ! index) sce) (\<lambda>_. on_machine (Returned True))))"

definition vita_find_dispatch :: "'w find_services \<Rightarrow> string \<Rightarrow> u32 \<Rightarrow> u32 \<times> (bool, 'w) find_call" where
  "vita_find_dispatch sce name call_count =
     (case find (\<lambda>i. isaac_vita_find_import_name i = Some name) [0..<3] of
        None \<Rightarrow> (call_count, on_machine (Returned False))
      | Some i \<Rightarrow> isaac_vita_find_import_indexed sce i call_count)"

definition isaac_vita_find_import :: "'w find_services \<Rightarrow> string \<Rightarrow> (bool, 'w) find_call" where
  "isaac_vita_find_import sce name = snd (vita_find_dispatch sce name 0)"

definition isaac_vita_find_import_counted :: "'w find_services \<Rightarrow> string \<Rightarrow> u32 \<Rightarrow> u32 \<times> (bool, 'w) find_call" where
  "isaac_vita_find_import_counted sce name call_count = vita_find_dispatch sce name call_count"

end
