(* ===== verification/Vita_Find_Tokens.thy ===== *)
theory Vita_Find_Tokens imports Vita_Find begin

text \<open>
  Properties of the directory search that need nothing of the console: what a call can do to the registry, and that a
  closed token stays dead until its slot has gone through every generation.
\<close>

unbundle bit_operations_syntax

section \<open>What a call leads to\<close>

definition ends :: "('a, 'w) find_call \<Rightarrow> ('a outcome \<Rightarrow> 'w find_env \<Rightarrow> bool) \<Rightarrow> machine \<Rightarrow> 'w find_env \<Rightarrow> bool" where
  "ends call Q s e \<longleftrightarrow> (case call s e of None \<Rightarrow> True | Some (r, f) \<Rightarrow> Q r f)"

named_theorems ends_rules \<open>introduction rules of \<open>ends\<close> by the form of the call\<close>

lemma ends_then [ends_rules]:
  "ends call (\<lambda>r f. case r of Returned x t \<Rightarrow> ends (rest x) Q t f | Unwound t \<Rightarrow> Q (Unwound t) f | Aborted t \<Rightarrow> Q (Aborted t) f) s e \<Longrightarrow>
   ends (then_call call rest) Q s e"
  by (auto simp: ends_def then_call_def split: option.splits outcome.splits)

lemma ends_machine [ends_rules]: "Q (f s) e \<Longrightarrow> ends (on_machine f) Q s e"
  by (simp add: ends_def on_machine_def)

lemma ends_fault [ends_rules]: "Q (guest_fault s a w) e \<Longrightarrow> ends (fault_call a w) Q s e"
  by (simp add: ends_def on_machine_def fault_call_def)

lemma ends_world [ends_rules]:
  "(\<And>x w. f (world e) = (x, w) \<Longrightarrow> Q (Returned x s) (e\<lparr>world := w\<rparr>)) \<Longrightarrow> ends (on_world f) Q s e"
  by (auto simp: ends_def on_world_def split: prod.split)

lemma ends_state [ends_rules]: "ends (f s e) Q s e \<Longrightarrow> ends (on_state f) Q s e"
  by (simp add: ends_def on_state_def)

lemma ends_mono: "ends call Q s e \<Longrightarrow> (\<And>r f. Q r f \<Longrightarrow> Q' r f) \<Longrightarrow> ends call Q' s e"
  by (auto simp: ends_def split: option.splits)

lemma ends_registry [ends_rules]:
  "(\<And>x h. f (find_handles e) = (x, h) \<Longrightarrow> Q (Returned x s) (e\<lparr>find_handles := h\<rparr>)) \<Longrightarrow> ends (on_registry f) Q s e"
  by (auto simp: ends_def on_registry_def split: prod.split)

text \<open>
  Cutting a sequence in two at a fact \<open>R\<close> about the environment; a call that does not return ends with what it left there.
\<close>

lemma ends_cut:
  "ends call (\<lambda>_ f. R f) s e \<Longrightarrow> (\<And>x t f. R f \<Longrightarrow> ends (rest x) Q t f) \<Longrightarrow> (\<And>r f. R f \<Longrightarrow> Q r f) \<Longrightarrow>
   ends (then_call call rest) Q s e"
  by (rule ends_then, erule ends_mono) (auto split: outcome.split)

lemma ends_plain:
  "R e \<Longrightarrow> ends (on_machine f) (\<lambda>_ f. R f) s e" "R e \<Longrightarrow> ends (fault_call a w) (\<lambda>_ f. R f) s e"
  "R e \<Longrightarrow> ends (answer b l v) (\<lambda>_ f. R f) s e" "R e \<Longrightarrow> ends (write_found sce k name st) (\<lambda>_ f. R f) s e"
  "(\<And>w. R (e\<lparr>world := w\<rparr>)) \<Longrightarrow> ends (on_world g) (\<lambda>_ f. R f) s e"
  by (auto simp: ends_def on_machine_def fault_call_def answer_def write_found_def on_world_def split: prod.split)

section \<open>Tokens\<close>

text \<open>Bit by bit, a token is its three fields.\<close>

lemma less_32: "n < (32::nat) \<Longrightarrow> n \<in>
     {0, 1, 2, 3, 4, 5, 6, 7, 8, 9, 10, 11, 12, 13, 14, 15, 16, 17, 18, 19, 20, 21, 22, 23, 24, 25, 26, 27, 28, 29,
      30, 31}"
  by (simp only: insert_iff empty_iff) presburger

lemma len32: "LENGTH(32) = 32"
  by simp

lemma token_word:
  fixes x y :: u32
  defines "t \<equiv> 0xF17D0000 OR push_bit 4 (take_bit 12 y) OR take_bit 4 x"
  shows "t AND 0xFFFF0000 = 0xF17D0000" "t AND 0xF = take_bit 4 x" "drop_bit 4 t AND 0xFFF = take_bit 12 y"
    unfolding t_def
    by (rule bit_word_eqI, simp only: len32, drule less_32, elim insertE emptyE; simp add: bit_simps)+

lemma token_inverse:
  fixes t :: u32
  assumes "t AND 0xFFFF0000 = 0xF17D0000"
  shows "t = 0xF17D0000 OR push_bit 4 (drop_bit 4 t AND 0xFFF) OR (t AND 0xF)"
proof -
  have "t = (t AND 0xFFFF0000) OR push_bit 4 (drop_bit 4 t AND 0xFFF) OR (t AND 0xF)"
    by (rule bit_word_eqI, simp only: len32, drule less_32, elim insertE emptyE; simp add: bit_simps)
  then show ?thesis using assms by simp
qed

lemma low_mask: "(w :: u32) AND 0xFFF = take_bit 12 w" "(w :: u32) AND 0xF = take_bit 4 w"
  by (simp_all add: take_bit_eq_mask mask_eq_exp_minus_1)

lemma low_small:
  "unat g < 4096 \<Longrightarrow> take_bit 12 (ucast (g :: u16) :: u32) = ucast g" "i < 16 \<Longrightarrow> take_bit 4 (of_nat i :: u32) = of_nat i"
  "i < 16 \<Longrightarrow> unat (of_nat i :: u32) = i"
proof -
  show u: "i < 16 \<Longrightarrow> unat (of_nat i :: u32) = i" by (rule unat_of_nat_small) simp
  show "i < 16 \<Longrightarrow> take_bit 4 (of_nat i :: u32) = of_nat i"
    unfolding word_unat_eq_iff unsigned_take_bit_eq using u by (simp add: take_bit_nat_eq_self)
  show "unat g < 4096 \<Longrightarrow> take_bit 12 (ucast g :: u32) = ucast g"
    unfolding word_unat_eq_iff unsigned_take_bit_eq by (simp add: take_bit_nat_eq_self unat_ucast_up)
qed

lemma token_as_word:
  "i < 16 \<Longrightarrow> unat g < 4096 \<Longrightarrow>
   vita_find_token i g = 0xF17D0000 OR push_bit 4 (take_bit 12 (ucast g)) OR take_bit 4 (of_nat i)"
  by (simp add: vita_find_token_def VITA_FIND_TOKEN_MAGIC_def low_mask low_small)

lemma lookup_token:
  assumes "i < 16" "unat (generation (handles ! i)) < 4096" "generation (handles ! i) \<noteq> 0" "in_use (handles ! i)"
  shows "vita_find_lookup handles (vita_find_token i (generation (handles ! i))) = Some i"
proof -
  have "(ucast (generation (handles ! i)) :: u32) \<noteq> 0"
    using assms(3) by (simp add: word_unat_eq_iff unat_ucast_up)
  then show ?thesis
    unfolding vita_find_lookup_def token_as_word [OF assms(1,2)] token_word
    using assms by (simp add: VITA_FIND_TOKEN_MAGIC_def ISAAC_VITA_FIND_HANDLE_CAPACITY_def low_mask low_small)
qed

lemma lookup_SomeD:
  assumes "vita_find_lookup handles token = Some i" "\<forall>i<16. unat (generation (handles ! i)) < 4096"
  shows "i < 16" "in_use (handles ! i)" "generation (handles ! i) \<noteq> 0" "token = vita_find_token i (generation (handles ! i))"
proof -
  have m: "token AND 0xFFFF0000 = 0xF17D0000" and i: "i = unat (token AND 0xF)" "i < 16"
    and g: "drop_bit 4 token AND 0xFFF \<noteq> 0" "ucast (generation (handles ! i)) AND 0xFFF = drop_bit 4 token AND 0xFFF"
    and u: "in_use (handles ! i)"
    using assms(1) by (auto simp: vita_find_lookup_def Let_def VITA_FIND_TOKEN_MAGIC_def
        ISAAC_VITA_FIND_HANDLE_CAPACITY_def split: if_split_asm)
  show "i < 16" "in_use (handles ! i)" using i u by auto
  show "generation (handles ! i) \<noteq> 0" using g by auto
  have "of_nat i = token AND 0xF" using i by simp
  then show "token = vita_find_token i (generation (handles ! i))"
    using token_inverse [OF m] unfolding vita_find_token_def VITA_FIND_TOKEN_MAGIC_def g(2) by metis
qed

section \<open>Generations\<close>

lemma next_generation_nat:
  "unat g < 4096 \<Longrightarrow> unat (next_generation g) = (if unat g = 4095 then 1 else unat g + 1)"
proof -
  assume g: "unat g < 4096"
  have s: "unat (ucast g + 1 :: u32) = unat g + 1" using g by (subst unat_plus_small) (simp_all add: unat_ucast_up)
  have "unat ((ucast g + 1 :: u32) AND 0xFFF) = (unat g + 1) mod 4096"
    unfolding low_mask unsigned_take_bit_eq s by (simp add: take_bit_eq_mod)
  then have n: "unat (ucast ((ucast g + 1 :: u32) AND 0xFFF) :: u16) = (unat g + 1) mod 4096"
    by (simp add: unsigned_ucast_eq take_bit_nat_eq_self)
  have z: "(ucast ((ucast g + 1 :: u32) AND 0xFFF) :: u16) = 0 \<longleftrightarrow> unat g = 4095"
    unfolding word_unat_eq_iff [of _ 0] n unat_0 using g by (cases "unat g = 4095") auto
  show ?thesis
  proof (cases "unat g = 4095")
    case True
    then show ?thesis using z by (simp add: next_generation_def Let_def)
  next
    case False
    then have "next_generation g = ucast ((ucast g + 1 :: u32) AND 0xFFF)"
      using z by (simp add: next_generation_def Let_def)
    then show ?thesis using n False g by simp
  qed
qed

lemma next_generations_nat:
  "unat g < 4096 \<Longrightarrow> unat ((next_generation ^^ k) g) < 4096 \<and>
     (k > 0 \<longrightarrow> unat ((next_generation ^^ k) g) = (unat g + k - 1) mod 4095 + 1)"
proof (induction k)
  case (Suc k)
  let ?h = "(next_generation ^^ k) g"
  have h: "unat ?h < 4096" "k > 0 \<longrightarrow> unat ?h = (unat g + k - 1) mod 4095 + 1" using Suc by auto
  have n: "unat ((next_generation ^^ Suc k) g) = (if unat ?h = 4095 then 1 else unat ?h + 1)"
    using next_generation_nat [OF h(1)] by simp
  show ?case
  proof (cases "k = 0")
    case True
    then show ?thesis using n Suc.prems by (auto simp: mod_if)
  next
    case False
    then obtain j where j: "k = Suc j" by (cases k) auto
    have "unat ?h = (unat g + j) mod 4095 + 1" using h(2) j by simp
    then show ?thesis using n j by (auto simp: mod_Suc)
  qed
qed simp

text \<open>A generation comes round after 4095 steps and not before.\<close>

lemma next_generations_neq:
  assumes "unat g < 4096" "g \<noteq> 0" "0 < k" "k < 4095"
  shows "(next_generation ^^ k) g \<noteq> g"
proof
  assume "(next_generation ^^ k) g = g"
  then have e: "(unat g + k - 1) mod 4095 + 1 = unat g"
    using next_generations_nat [OF assms(1), of k] assms(3) by simp
  have g: "1 \<le> unat g" using assms(2) by (simp add: word_unat_eq_iff Suc_le_eq)
  then obtain b where b: "unat g = Suc b" "b < 4095" using assms(1) by (cases "unat g") auto
  then have m: "(b + k) mod 4095 = b" using e by simp
  show False
  proof (cases "b + k < 4095")
    case True
    then show ?thesis using m assms(3) by simp
  next
    case False
    then have "(b + k) mod 4095 = b + k - 4095" using b(2) assms(4) by (simp add: mod_if)
    then show ?thesis using m False assms(4) by simp
  qed
qed


section \<open>What a call does to a slot\<close>

text \<open>
  After \<open>n\<close> searches have begun, the generation of a slot has advanced at most \<open>n\<close> times, and a slot that was free and is in use has
  a new one.
\<close>

definition evolves :: "nat \<Rightarrow> registry \<Rightarrow> registry \<Rightarrow> bool" where
  "evolves n h h' \<longleftrightarrow> length h' = length h \<and>
     (\<forall>i<length h. \<exists>k\<le>n. generation (h' ! i) = (next_generation ^^ k) (generation (h ! i)) \<and>
        (k = 0 \<longrightarrow> in_use (h' ! i) \<longrightarrow> in_use (h ! i)))"

lemma evolves_refl: "evolves n h h"
  by (auto simp: evolves_def intro!: exI [of _ 0])

lemma evolves_trans: "evolves n g h \<Longrightarrow> evolves k h i \<Longrightarrow> evolves (n + k) g i"
proof (unfold evolves_def, intro conjI allI impI, goal_cases)
  case (2 j)
  obtain a where a: "a \<le> n" "generation (h ! j) = (next_generation ^^ a) (generation (g ! j))"
    "a = 0 \<longrightarrow> in_use (h ! j) \<longrightarrow> in_use (g ! j)" using 2 by auto
  obtain b where b: "b \<le> k" "generation (i ! j) = (next_generation ^^ b) (generation (h ! j))"
    "b = 0 \<longrightarrow> in_use (i ! j) \<longrightarrow> in_use (h ! j)" using 2 by auto
  show ?case using a b by (intro exI [of _ "b + a"]) (auto simp: funpow_add)
qed auto

lemma evolves_update:
  "generation x = generation (h ! i) \<Longrightarrow> (in_use x \<Longrightarrow> in_use (h ! i)) \<Longrightarrow> evolves 0 h (h[i := x])"
  by (cases "i < length h") (auto simp: evolves_def nth_list_update)

lemma evolves_release: "evolves 0 h (vita_find_release h i)"
  unfolding vita_find_release_def by (rule evolves_update) (simp_all add: zero_handle_def)

lemma evolves_reserve:
  assumes "vita_find_reserve h = Some (i, t, h')" "generation x = generation (h' ! i)"
  shows "evolves 1 h (h'[i := x])"
proof (cases "i < length h")
  case True
  have h': "generation (h' ! i) = next_generation (generation (h ! i))" "h'[i := x] = h[i := x]"
    using assms(1) True by (auto simp: vita_find_reserve_def Let_def split: option.splits)
  show ?thesis unfolding evolves_def h'(2)
  proof (intro conjI allI impI)
    fix j assume "j < length h"
    show "\<exists>k\<le>1. generation (h[i := x] ! j) = (next_generation ^^ k) (generation (h ! j)) \<and>
        (k = 0 \<longrightarrow> in_use (h[i := x] ! j) \<longrightarrow> in_use (h ! j))"
      using assms(2) h'(1) True by (cases "j = i") (auto intro: exI [of _ "1::nat"] exI [of _ "0::nat"])
  qed simp
next
  case False
  then have "h'[i := x] = h"
    using assms(1) by (auto simp: vita_find_reserve_def Let_def list_update_beyond split: option.splits)
  then show ?thesis by (simp add: evolves_refl)
qed

abbreviation evo :: "nat \<Rightarrow> registry \<Rightarrow> 'w find_env \<Rightarrow> bool" where
  "evo n h f \<equiv> evolves n h (find_handles f)"

lemma evo_step: "evo n h e \<Longrightarrow> evolves 0 (find_handles e) h' \<Longrightarrow> evolves n h h'"
  using evolves_trans [of n h "find_handles e" 0] by simp

lemma advance_evolves:
  assumes "evo n h e"
  shows "ends (vita_find_advance sce token k) (\<lambda>_. evo n h) s e"
proof -
  have x: "evolves n h ((find_handles e)[i := (find_handles e ! i)\<lparr>exhausted := True\<rparr>])" for i
    using assms by (rule evo_step) (rule evolves_update; simp)
  show ?thesis
    using assms x by (auto simp: ends_def vita_find_advance_def fault_call_def on_machine_def then_call_def write_found_def
        split: option.splits find_read.splits outcome.splits)
qed

lemma FindNext_evolves: "ends (vita_find_FindNextFileW sce) (\<lambda>_. evo 0 (find_handles e)) s e"
  unfolding vita_find_FindNextFileW_def
  by (intro ends_cut [where R = "evo 0 (find_handles e)"] ends_plain advance_evolves evolves_refl)
    (auto intro: ends_plain split: advanced.split)

lemma release_evolves: "evo n h e \<Longrightarrow> ends (on_registry (\<lambda>h. ((), vita_find_release h i))) (\<lambda>_. evo n h) s e"
  by (rule ends_registry) (auto intro: evo_step evolves_release)

lemma FindClose_evolves: "ends (vita_find_FindClose sce) (\<lambda>_. evo 0 (find_handles e)) s e"
proof -
  have c: "ends (then_call (on_world w) (\<lambda>result. if result < 0 then fault_call (word_of_int result) t
      else then_call (on_registry (\<lambda>h. ((), vita_find_release h i))) (\<lambda>_. answer 4 None 1))) (\<lambda>_. evo 0 (find_handles e)) s f"
    if "evo 0 (find_handles e) f" for w t i s f
    using that by (intro ends_cut [where R = "evo 0 (find_handles e)"])
      (auto intro!: ends_plain ends_cut [where R = "evo 0 (find_handles e)"] release_evolves)
  show ?thesis
    unfolding vita_find_FindClose_def
    by (intro ends_cut [where R = "evo 0 (find_handles e)"] ends_plain ends_state evolves_refl)
      (auto intro: c ends_plain split: option.split)
qed

lemma evo_mono: "evo n h e \<Longrightarrow> n \<le> k \<Longrightarrow> evo k h e"
  unfolding evolves_def by (meson le_trans)

lemma reserve_evolves:
  assumes "evo 0 h e" "\<And>x. generation (f x) = generation x"
  shows "ends (on_registry (\<lambda>h. case vita_find_reserve h of None \<Rightarrow> (None, h)
     | Some (index, token, h) \<Rightarrow> (Some token, h[index := f (h ! index)]))) (\<lambda>_. evo (Suc 0) h) s e"
proof (rule ends_registry)
  fix x h'
  assume x: "(case vita_find_reserve (find_handles e) of None \<Rightarrow> (None, find_handles e)
     | Some (index, token, h) \<Rightarrow> (Some token, h[index := f (h ! index)])) = (x, h')"
  have "evolves 1 (find_handles e) h'"
    using x assms(2) evolves_reserve by (auto simp: evolves_refl split: option.splits)
  then show "evo (Suc 0) h (e\<lparr>find_handles := h'\<rparr>)" using evolves_trans [OF assms(1), of 1 h'] by simp
qed

lemma exact_evolves:
  assumes "evo 0 h e"
  shows "ends (vita_find_exact sce p k directory name) (\<lambda>_. evo (Suc 0) h) s e"
proof -
  have w: "evo 0 h (e\<lparr>world := w\<rparr>)" for w using assms by simp
  have r: "ends (then_call (on_registry (\<lambda>h. case vita_find_reserve h of None \<Rightarrow> (None, h)
              | Some (index, token, h) \<Rightarrow>
                  (Some token, h[index := (h ! index)\<lparr>descriptor := -1, exhausted := True\<rparr>]))) (\<lambda>reserved.
            case reserved of None \<Rightarrow> fault_call 0 ''Vita FindFile handle registry exhausted''
            | Some token \<Rightarrow> then_call (write_found sce k name status) (\<lambda>_. answer 8 None token))) (\<lambda>_. evo (Suc 0) h) s f"
    if "evo 0 h f" for status s f
    using that by (intro ends_cut [where R = "evo (Suc 0) h"])
      (auto intro!: reserve_evolves [where f = "\<lambda>x. x\<lparr>descriptor := -1, exhausted := True\<rparr>"]
        ends_plain ends_cut [where R = "evo (Suc 0) h"] split: option.split)
  show ?thesis
    unfolding vita_find_exact_def
    using assms evo_mono [of 0 h _ "Suc 0"]
    by (auto intro!: ends_plain r ends_cut [where R = "evo 0 h"] split: sum.split find_failure.split)
qed

lemma first_of_directory_evolves:
  assumes "evo 0 h e"
  shows "ends (first_of_directory sce pattern k fd) (\<lambda>_. evo (Suc 0) h) s e"
  unfolding first_of_directory_def
proof (rule ends_cut [where R = "evo (Suc 0) h"])
  show "ends (on_registry (\<lambda>h. case vita_find_reserve h of None \<Rightarrow> (None, h)
         | Some (index, token, h) \<Rightarrow> (Some token, h[index := (h ! index)\<lparr>pattern_of := pattern, descriptor := fd\<rparr>])))
      (\<lambda>_. evo (Suc 0) h) s e"
    by (rule reserve_evolves [OF assms]) simp
qed (auto intro!: ends_plain ends_state advance_evolves release_evolves ends_cut [where R = "evo (Suc 0) h"]
    split: option.split advanced.split)

lemma first_of_pattern_evolves:
  "evo 0 h e \<Longrightarrow> ends (first_of_pattern sce p k directory pat) (\<lambda>_. evo (Suc 0) h) s e"
  unfolding first_of_pattern_def using evo_mono [of 0 h _ "Suc 0"]
  by (auto intro!: ends_plain exact_evolves first_of_directory_evolves ends_cut [where R = "evo 0 h"])

lemma FindFirst_evolves: "ends (vita_find_FindFirstFileW sce) (\<lambda>_. evo (Suc 0) (find_handles e)) s e"
  unfolding vita_find_FindFirstFileW_def
  by (intro ends_cut [where R = "evo 0 (find_handles e)"] ends_plain ends_state evolves_refl)
    (auto intro: first_of_pattern_evolves ends_plain evo_mono split: sum.split find_failure.split prod.split)

section \<open>Runs of calls\<close>

text \<open>Any sequence of calls, each from any state of the machine, with the number of searches begun.\<close>

inductive find_run :: "'w find_services \<Rightarrow> nat \<Rightarrow> 'w find_env \<Rightarrow> 'w find_env \<Rightarrow> bool"
  for sce :: "'w find_services" where
  run_none: "find_run sce 0 e e"
| run_first: "find_run sce n e f \<Longrightarrow> vita_find_FindFirstFileW sce s f = Some (r, g) \<Longrightarrow> find_run sce (Suc n) e g"
| run_next: "find_run sce n e f \<Longrightarrow> vita_find_FindNextFileW sce s f = Some (r, g) \<Longrightarrow> find_run sce n e g"
| run_close: "find_run sce n e f \<Longrightarrow> vita_find_FindClose sce s f = Some (r, g) \<Longrightarrow> find_run sce n e g"

lemma endsD: "ends call Q s e \<Longrightarrow> call s e = Some (r, f) \<Longrightarrow> Q r f"
  by (simp add: ends_def)

lemma run_evolves: "find_run sce n e f \<Longrightarrow> evo n (find_handles e) f"
proof (induction rule: find_run.induct)
  case (run_first n e f s r g)
  then show ?case using evolves_trans [OF run_first.IH] endsD [OF FindFirst_evolves run_first(2)] by fastforce
next
  case (run_next n e f s r g)
  then show ?case using evolves_trans [OF run_next.IH] endsD [OF FindNext_evolves run_next(2)] by fastforce
next
  case (run_close n e f s r g)
  then show ?case using evolves_trans [OF run_close.IH] endsD [OF FindClose_evolves run_close(2)] by fastforce
qed (rule evolves_refl)

definition generations_ok :: "registry \<Rightarrow> bool" where
  "generations_ok h \<longleftrightarrow> length h = 16 \<and> list_all (\<lambda>x. unat (generation x) < 4096) h"

lemma generations_evolve: "generations_ok h \<Longrightarrow> evolves n h h' \<Longrightarrow> generations_ok h'"
  unfolding generations_ok_def evolves_def list_all_length using next_generations_nat by metis

lemma generations_okD: "generations_ok h \<Longrightarrow> length h = 16 \<and> (\<forall>i<16. unat (generation (h ! i)) < 4096)"
  by (auto simp: generations_ok_def list_all_length)

lemma freed_token_dead:
  assumes ok: "generations_ok h" and free: "i < 16" "\<not> in_use (h ! i)" "generation (h ! i) \<noteq> 0"
    and ev: "evolves n h h'" and n: "n < 4095"
  shows "vita_find_lookup h' (vita_find_token i (generation (h ! i))) = None"
proof (cases "vita_find_lookup h' (vita_find_token i (generation (h ! i)))")
  case (Some j)
  let ?t = "vita_find_token i (generation (h ! i))"
  note l = generations_okD [OF ok] and l' = generations_okD [OF generations_evolve [OF ok ev]]
  note d = lookup_SomeD [OF Some l' [THEN conjunct2]]
  have gb: "unat (generation (h ! i)) < 4096" "unat (generation (h' ! j)) < 4096" using l l' free(1) d(1) by blast+
  have same: "i = j" "generation (h ! i) = generation (h' ! j)"
  proof -
    have w: "vita_find_token i (generation (h ! i)) = vita_find_token j (generation (h' ! j))" using d(4) .
    have "(of_nat i :: u32) = of_nat j"
      using token_word(2) [of "ucast (generation (h ! i))" "of_nat i"] token_word(2) [of "ucast (generation (h' ! j))" "of_nat j"]
        w unfolding token_as_word [OF free(1) gb(1)] token_as_word [OF d(1) gb(2)] low_small(2) [OF free(1)] low_small(2) [OF d(1)]
      by metis
    then show "i = j" using low_small(3) [OF free(1)] low_small(3) [OF d(1)] by metis
    have "(ucast (generation (h ! i)) :: u32) = ucast (generation (h' ! j))"
      using token_word(3) [of "ucast (generation (h ! i))" "of_nat i"] token_word(3) [of "ucast (generation (h' ! j))" "of_nat j"]
        w unfolding token_as_word [OF free(1) gb(1)] token_as_word [OF d(1) gb(2)] low_small(1) [OF gb(1)] low_small(1) [OF gb(2)]
      by metis
    then show "generation (h ! i) = generation (h' ! j)" by (simp add: word_unat_eq_iff unat_ucast_up)
  qed
  obtain k where k: "k \<le> n" "generation (h' ! i) = (next_generation ^^ k) (generation (h ! i))"
    "k = 0 \<longrightarrow> in_use (h' ! i) \<longrightarrow> in_use (h ! i)"
    using ev free(1) l unfolding evolves_def by auto
  have "k \<noteq> 0" using k(3) free(2) d(2) same(1) by auto
  then have "(next_generation ^^ k) (generation (h ! i)) \<noteq> generation (h ! i)"
    using next_generations_neq [OF gb(1) free(3)] k(1) n by simp
  then show ?thesis using k(2) same by simp
qed

end
