(* ===== verification/Vita_Find_Search.thy ===== *)
theory Vita_Find_Search imports Vita_Find_Tokens begin

text \<open>
  The imports on a well-formed call of the guest, and what a search promises its caller: a closed token is refused, a search hands
  out the matching entries of its directory one by one, and no descriptor of the console is lost.
\<close>

section \<open>The frame of a call\<close>

definition call_frame :: "machine \<Rightarrow> u32 list \<Rightarrow> bool" where
  "call_frame s ws \<longleftrightarrow> stack_ok (cpu s) \<and> unat (esp (cpu s)) + 4 * length ws \<le> unat (stack_ceiling (cpu s)) \<and>
     words_at (mem s) (esp (cpu s)) (length ws) = ws"

definition returned_with :: "machine \<Rightarrow> u32 \<Rightarrow> u32 option \<Rightarrow> u32 \<Rightarrow> machine" where
  "returned_with s bytes error value =
     upd_cpu (\<lambda>c. c\<lparr>last_error := (case error of None \<Rightarrow> last_error c | Some l \<Rightarrow> l), eax := value, esp := esp c + bytes\<rparr>) s"

lemma nth_words_at: "j < n \<Longrightarrow> words_at m a n ! j = ld32 m (a + of_nat (4 * j))"
proof (induction n arbitrary: a j)
  case (Suc n)
  then show ?case by (cases j) (auto simp: algebra_simps)
qed simp

lemma note_low_above: "stack_low_water c \<le> a \<Longrightarrow> guest_stack_note_low c a = c"
  by (simp add: guest_stack_note_low_def)

lemma arg_frame:
  assumes "call_frame s ws" "Suc i < length ws"
  shows "vita_find_arg (of_nat i) s = Returned (ws ! Suc i) s"
proof -
  define a where "a = esp (cpu s) + 4 + of_nat i * 4"
  have f: "stack_ok (cpu s)" "unat (esp (cpu s)) + 4 * length ws \<le> unat (stack_ceiling (cpu s))"
    using assms(1) by (auto simp: call_frame_def)
  have c: "unat (stack_ceiling (cpu s)) < 2 ^ 32" by (rule unat_u32)
  have k: "unat (of_nat (4 * Suc i) :: u32) = 4 * Suc i" using f c assms(2) by (intro unat_of_nat_small) simp
  have a: "a = esp (cpu s) + of_nat (4 * Suc i)" by (simp add: a_def)
  then have u: "unat a = unat (esp (cpu s)) + 4 * Suc i"
    using f c assms(2) k by (simp only: a) (subst unat_plus_small, simp_all only: k, simp)
  have l: "stack_low_water (cpu s) \<le> esp (cpu s)" "unat (stack_floor (cpu s)) \<le> unat (esp (cpu s))"
    using f(1) stack_ok_floor [OF f(1)] by (auto simp: stack_ok_def word_le_nat_alt)
  then have low: "stack_low_water (cpu s) \<le> a" using u by (simp add: word_le_nat_alt)
  have "guest_stack_address s a 4 0 = Returned a s"
    using guest_stack_address_returned [OF stack_ok_less [OF f(1)], of a 4 0 a s] stack_ok_fast [OF f(1)] u l f(2) assms(2)
    by (simp add: note_low_above [OF low])
  moreover have "ld32 (mem s) a = ws ! Suc i"
    using nth_words_at [of "Suc i" "length ws" "mem s" "esp (cpu s)"] assms unfolding a by (simp add: call_frame_def)
  ultimately show ?thesis unfolding vita_find_arg_def a_def [symmetric] by simp
qed

lemma then_machine: "f s = Returned x t \<Longrightarrow> then_call (on_machine f) rest s e = rest x t e"
  by (simp add: then_call_def on_machine_def)

lemmas then_arg = then_machine [where f = "vita_find_arg i" for i]

lemma answer_frame:
  assumes "stack_ok (cpu s)" "unat (esp (cpu s)) + 4 + unat bytes \<le> unat (stack_ceiling (cpu s))"
  shows "answer bytes error value s e = Some (Returned () (returned_with s (4 + bytes) error value), e)"
proof -
  define c where "c = (cpu s)\<lparr>last_error := (case error of None \<Rightarrow> last_error (cpu s) | Some l \<Rightarrow> l), eax := value\<rparr>"
  define t where "t = s\<lparr>cpu := c\<rparr>"
  have t: "cpu t = c" "stack_ok c" "esp c = esp (cpu s)" "stack_ceiling c = stack_ceiling (cpu s)"
    using assms(1) by (simp_all add: t_def c_def stack_ok_def guest_stack_is_bound_def)
  have p: "gpop t = Returned (ld32 (mem t) (esp c)) (upd_cpu (\<lambda>c. c\<lparr>esp := esp c + 4\<rparr>) t)"
    unfolding gpop_def using gpop_at_returned [of t 0] stack_ok_less [OF t(2)] stack_ok_fast [OF t(2)] stack_ok_floor [OF t(2)]
      assms(2) t by (simp add: word_le_nat_alt)
  define u where "u = upd_cpu (\<lambda>c. c\<lparr>esp := esp c + 4\<rparr>) t"
  have e4: "unat (esp c + 4) = unat (esp c) + 4"
    using assms(2) t unat_u32 [of "stack_ceiling (cpu s)"] by (subst unat_plus_small) simp_all
  have "stack_ok (cpu u)" using t assms(2) e4
    by (auto simp: u_def stack_ok_def guest_stack_is_bound_def word_le_nat_alt)
  then have a: "guest_stack_adjust u bytes 0 = Returned () (upd_cpu (\<lambda>c. c\<lparr>esp := esp c + bytes\<rparr>) u)"
    using guest_stack_adjust_returned [of u bytes 0 "()"] assms(2) t e4 by (simp add: u_def)
  have "and_then (case error of None \<Rightarrow> Returned () s | Some error \<Rightarrow> vita_find_set_last_error error s) (\<lambda>_ s. set_eax value s) =
      Returned () t"
    by (cases error) (simp_all add: vita_find_set_last_error_def set_eax_def t_def c_def)
  then have "and_then (case error of None \<Rightarrow> Returned () s | Some error \<Rightarrow> vita_find_set_last_error error s) (\<lambda>_ s.
     and_then (set_eax value s) (\<lambda>_ s. vita_find_stdcall_return bytes s)) = vita_find_stdcall_return bytes t"
    by (cases error) (auto simp: vita_find_set_last_error_def set_eax_def)
  also have "\<dots> = Returned () (returned_with s (4 + bytes) error value)"
    unfolding vita_find_stdcall_return_def p and_then.simps u_def [symmetric] a
    by (simp add: u_def t_def c_def returned_with_def add.assoc)
  finally show ?thesis by (simp add: answer_def on_machine_def)
qed

lemma range_frame:
  assumes "output \<noteq> 0" "fits output 592"
  shows "vita_find_range output (of_nat ISAAC_VITA_FIND_DATA_SIZE) what s = Returned () s"
proof -
  have "\<not> output > 0xFFFFFFFF - (592 - 1)" using assms(2) by (simp add: fits_def word_less_nat_alt)
  then show ?thesis using assms(1) by (simp add: vita_find_range_def ISAAC_VITA_FIND_DATA_SIZE_def)
qed

text \<open>The arguments and the range of \<open>FindNextFileW\<close> are in order.\<close>

lemma FindNext_frame:
  assumes "call_frame s [return, token, output]" "output \<noteq> 0" "fits output 592"
  shows "vita_find_FindNextFileW sce s e = then_call (vita_find_advance sce token output) (\<lambda>result.
       case result of
         VITA_FIND_ADVANCE_STALE \<Rightarrow> answer 8 (Some 6) 0
       | ADVANCE_END \<Rightarrow> answer 8 (Some 18) 0
       | ADVANCE_ENTRY \<Rightarrow> answer 8 None 1) s e"
proof -
  have a: "vita_find_arg 0 s = Returned token s" "vita_find_arg 1 s = Returned output s"
    using arg_frame [OF assms(1), of 0] arg_frame [OF assms(1), of 1] by simp_all
  show ?thesis
    unfolding vita_find_FindNextFileW_def
    by (simp only: then_arg [OF a(1)] then_arg [OF a(2)] then_machine [where f = "vita_find_range output r w" for r w, OF range_frame [OF assms(2,3)]])
qed

section \<open>Closed tokens\<close>

lemma FindNext_stale:
  assumes "vita_find_lookup (find_handles e) token = None" "call_frame s [return, token, output]" "output \<noteq> 0" "fits output 592"
  shows "vita_find_FindNextFileW sce s e = Some (Returned () (returned_with s 12 (Some 6) 0), e)"
proof -
  have f: "stack_ok (cpu s)" "unat (esp (cpu s)) + 4 + unat (8 :: u32) \<le> unat (stack_ceiling (cpu s))"
    using assms(2) by (simp_all add: call_frame_def)
  have "then_call (vita_find_advance sce token output) g s e = g VITA_FIND_ADVANCE_STALE s e" for g :: "advanced \<Rightarrow> (unit, 'a) find_call"
    by (simp add: then_call_def vita_find_advance_def assms(1))
  then show ?thesis unfolding FindNext_frame [OF assms(2-4)] using answer_frame [OF f] by simp
qed

lemma FindClose_stale:
  assumes "vita_find_lookup (find_handles e) token = None" "call_frame s [return, token]"
  shows "vita_find_FindClose sce s e = Some (Returned () (returned_with s 8 (Some 6) 0), e)"
proof -
  have f: "stack_ok (cpu s)" "unat (esp (cpu s)) + 4 + unat (4 :: u32) \<le> unat (stack_ceiling (cpu s))"
    using assms(2) by (simp_all add: call_frame_def)
  have a: "vita_find_arg 0 s = Returned token s" using arg_frame [OF assms(2), of 0] by simp
  show ?thesis
    unfolding vita_find_FindClose_def then_arg [OF a] on_state_def assms(1) option.case answer_frame [OF f] by simp
qed

lemma FindClose_closes:
  assumes "call_frame s [return, token]" "vita_find_FindClose sce s e = Some (Returned () t, f)" "eax (cpu t) = 1"
  shows "\<exists>i. vita_find_lookup (find_handles e) token = Some i \<and> find_handles f = vita_find_release (find_handles e) i"
proof -
  have a: "vita_find_arg 0 s = Returned token s" using arg_frame [OF assms(1), of 0] by simp
  show ?thesis
  proof (cases "vita_find_lookup (find_handles e) token")
    case None
    then show ?thesis using assms(2,3) unfolding FindClose_stale [OF None assms(1)] by (auto simp: returned_with_def)
  next
    case (Some i)
    have "find_handles f = vita_find_release (find_handles e) i"
      using assms(2) unfolding vita_find_FindClose_def then_arg [OF a] on_state_def Some option.case
      by (auto simp: then_call_def on_world_def on_registry_def answer_def on_machine_def fault_call_def
        split: prod.splits if_split_asm outcome.splits)
    then show ?thesis using Some by blast
  qed
qed


lemma closed_token_free:
  assumes "generations_ok (find_handles e)" "call_frame s [return, token]"
    "vita_find_FindClose sce s e = Some (Returned () t, f)" "eax (cpu t) = 1" "find_run sce n f g" "n < 4095"
  shows "vita_find_lookup (find_handles g) token = None"
proof -
  obtain i where i: "vita_find_lookup (find_handles e) token = Some i" "find_handles f = vita_find_release (find_handles e) i"
    using FindClose_closes [OF assms(2-4)] by blast
  note h = generations_okD [OF assms(1)] and d = lookup_SomeD [OF i(1) generations_okD [OF assms(1), THEN conjunct2]]
  have ok: "generations_ok (find_handles f)" unfolding i(2) by (rule generations_evolve [OF assms(1) evolves_release])
  have r: "\<not> in_use (find_handles f ! i)" "generation (find_handles f ! i) = generation (find_handles e ! i)"
    using d(1) h unfolding i(2) by (simp_all add: vita_find_release_def zero_handle_def)
  have "vita_find_lookup (find_handles g) (vita_find_token i (generation (find_handles f ! i))) = None"
    by (rule freed_token_dead [OF ok d(1) r(1) _ run_evolves [OF assms(5)] assms(6)]) (use d(3) r(2) in simp)
  then show ?thesis using d(4) r(2) by simp
qed

section \<open>The contract of the directory services\<close>

text \<open>
  What the console documents of its directories: an open one has a fresh descriptor and a list of entries left to read, which reading
  takes from the front; a call on one descriptor leaves the others alone.
\<close>

locale directory_services =
  fixes sce :: "'w find_services"
    and opened :: "'w \<Rightarrow> int set"
    and left :: "'w \<Rightarrow> int \<Rightarrow> SceIoDirent list"
  assumes dopen_law: "sceIoDopen sce p w = (r, v) \<Longrightarrow> (r < 0 \<longrightarrow> opened v = opened w) \<and>
      (0 \<le> r \<longrightarrow> r < 2 ^ 31 \<and> r \<notin> opened w \<and> opened v = insert r (opened w)) \<and> (\<forall>d\<in>opened w. left v d = left w d)"
    and dread_law: "fd \<in> opened w \<Longrightarrow> sceIoDread sce fd w = ((r, x), v) \<Longrightarrow> opened v = opened w \<and>
      (\<forall>d. d \<noteq> fd \<longrightarrow> left v d = left w d) \<and> (r = 0 \<longrightarrow> left w fd = [] \<and> left v fd = []) \<and>
      (0 < r \<longrightarrow> left w fd = x # left v fd)"
    and dclose_law: "fd \<in> opened w \<Longrightarrow> sceIoDclose sce fd w = (r, v) \<Longrightarrow> (r < 0 \<longrightarrow> opened v = opened w) \<and>
      (0 \<le> r \<longrightarrow> opened v = opened w - {fd}) \<and> (\<forall>d\<in>opened v. left v d = left w d)"
    and getstat_law: "sceIoGetstat sce p w = ((r, st), v) \<Longrightarrow> opened v = opened w \<and> left v = left w"
    and drain_law: "opened (isaac_vita_async_write_drain sce w) = opened w \<and> left (isaac_vita_async_write_drain sce w) = left w"
begin

text \<open>Reading on ends, and touches only its own directory.\<close>

lemma read_matching_ends:
  "fd \<in> opened w \<Longrightarrow> \<exists>x v. read_matching sce fd pat w = Some (x, v) \<and> opened v = opened w \<and> (\<forall>d. d \<noteq> fd \<longrightarrow> left v d = left w d)"
proof (induction "length (left w fd)" arbitrary: w rule: less_induct)
  case less
  obtain r x v where d: "sceIoDread sce fd w = ((r, x), v)" by (metis surj_pair)
  note l = dread_law [OF less.prems d]
  have on: "\<exists>y u. read_matching sce fd pat v = Some (y, u) \<and> opened u = opened w \<and> (\<forall>d. d \<noteq> fd \<longrightarrow> left u d = left w d)" if "0 < r"
    using less.hyps [of v] l that less.prems by auto
  show ?case
    by (subst read_matching.simps, unfold d prod.case) (use l on in \<open>auto simp: not_less le_less\<close>)
qed

end

text \<open>The entries a search hands out.\<close>

definition entry_name :: "SceIoDirent \<Rightarrow> u8 list" where
  "entry_name x = takeWhile (\<lambda>b. b \<noteq> 0) (d_name x)"

definition wanted :: "u8 list \<Rightarrow> SceIoDirent \<Rightarrow> bool" where
  "wanted pat x \<longleftrightarrow> entry_name x \<noteq> [dot_byte] \<and> entry_name x \<noteq> [dot_byte, dot_byte] \<and>
     (pat = [star_byte, dot_byte, star_byte] \<or> wild_matches pat (entry_name x))"

lemma wildcard_exact:
  "vita_find_wildcard_match pat name \<longleftrightarrow> pat = [star_byte, dot_byte, star_byte] \<or> wild_matches pat name"
  by (auto simp: vita_find_wildcard_match_def wildcard_loop_exact matches_star intro: exI [of _ "length name"])

text \<open>A console whose reads do not fail, with names that are terminated.\<close>

locale reliable_directories = directory_services +
  assumes dread_works: "fd \<in> opened w \<Longrightarrow> sceIoDread sce fd w = ((r, x), v) \<Longrightarrow> 0 \<le> r"
    and names_terminated: "fd \<in> opened w \<Longrightarrow> x \<in> set (left w fd) \<Longrightarrow> 0 \<in> set (d_name x)"
begin

lemma read_matching_exact:
  "fd \<in> opened w \<Longrightarrow> \<exists>v. read_matching sce fd pat w =
     Some (case filter (wanted pat) (left w fd) of [] \<Rightarrow> Read_end | x # xs \<Rightarrow> Read_entry (entry_name x) (d_stat x), v) \<and>
     opened v = opened w \<and> filter (wanted pat) (left v fd) = tl (filter (wanted pat) (left w fd)) \<and>
     (filter (wanted pat) (left w fd) = [] \<longrightarrow> left v fd = []) \<and> (\<forall>d. d \<noteq> fd \<longrightarrow> left v d = left w d)"
proof (induction "length (left w fd)" arbitrary: w rule: less_induct)
  case less
  obtain r x v where d: "sceIoDread sce fd w = ((r, x), v)" by (metis surj_pair)
  note l = dread_law [OF less.prems d]
  have r: "0 \<le> r" by (rule dread_works [OF less.prems d])
  show ?case
  proof (cases "r = 0")
    case True
    then have e: "left w fd = []" "left v fd = []" using l by blast+
    have "read_matching sce fd pat w = Some (Read_end, v)"
      by (subst read_matching.simps) (simp add: d True)
    then show ?thesis using l e by (intro exI [of _ v]) simp
  next
    case False
    then have p: "0 < r" "left w fd = x # left v fd" using r l by auto
    have z: "0 \<in> set (d_name x)" using names_terminated [OF less.prems, of x] p(2) by simp
    have c: "\<not> r < 0" "r \<noteq> 0" "\<not> 0 \<notin> set (d_name x)" using p(1) z by simp_all
    show ?thesis
    proof (cases "wanted pat x")
      case True
      have m: "entry_name x \<noteq> [dot_byte]" "entry_name x \<noteq> [dot_byte, dot_byte]" "vita_find_wildcard_match pat (entry_name x)"
        using True unfolding wanted_def wildcard_exact by blast+
      have f: "filter (wanted pat) (left w fd) = x # filter (wanted pat) (left v fd)"
        using True by (simp only: p(2) filter.simps if_True)
      have g: "read_matching sce fd pat w = Some (Read_entry (entry_name x) (d_stat x), v)"
        using m unfolding read_matching.simps [of sce fd pat w] d prod.case entry_name_def if_not_P [OF c(1)] if_not_P [OF c(2)]
          if_not_P [OF c(3)] by metis
      show ?thesis unfolding f g list.case list.sel using l by (intro exI [of _ v]) blast
    next
      case no: False
      have m: "entry_name x = [dot_byte] \<or> entry_name x = [dot_byte, dot_byte] \<or> \<not> vita_find_wildcard_match pat (entry_name x)"
        using no unfolding wanted_def wildcard_exact by blast
      have on: "read_matching sce fd pat w = read_matching sce fd pat v"
        using m unfolding read_matching.simps [of sce fd pat w] d prod.case entry_name_def if_not_P [OF c(1)] if_not_P [OF c(2)]
          if_not_P [OF c(3)] by metis
      have "length (left v fd) < length (left w fd)" "fd \<in> opened v" using p(2) l less.prems by auto
      from less.hyps [OF this] obtain u where u: "read_matching sce fd pat v =
          Some (case filter (wanted pat) (left v fd) of [] \<Rightarrow> Read_end | x # xs \<Rightarrow> Read_entry (entry_name x) (d_stat x), u)"
        "opened u = opened v" "filter (wanted pat) (left u fd) = tl (filter (wanted pat) (left v fd))"
        "filter (wanted pat) (left v fd) = [] \<longrightarrow> left u fd = []" "\<forall>d. d \<noteq> fd \<longrightarrow> left u d = left v d" by blast
      have f: "filter (wanted pat) (left w fd) = filter (wanted pat) (left v fd)"
        using no by (simp only: p(2) filter.simps if_False)
      show ?thesis unfolding on f using u l by (intro exI [of _ u]) metis
    qed
  qed
qed

end

end
