(* ===== verification/Vita_Find_Kept.thy ===== *)
theory Vita_Find_Kept imports Vita_Find_Search begin

text \<open>
  No descriptor of the console is lost by the directory search: the invariant of the registry over the directories that
  are open, kept by every call.
\<close>

section \<open>The invariant\<close>

definition held :: "registry \<Rightarrow> int set" where
  "held h = descriptor ` {x \<in> set h. in_use x \<and> 0 \<le> descriptor x}"

definition registry_ok :: "('w \<Rightarrow> int set) \<Rightarrow> 'w find_env \<Rightarrow> bool" where
  "registry_ok opened e \<longleftrightarrow> generations_ok (find_handles e) \<and> held (find_handles e) \<subseteq> opened (world e) \<and>
     (\<forall>i<16. in_use (find_handles e ! i) \<longrightarrow> \<not> exhausted (find_handles e ! i) \<longrightarrow> 0 \<le> descriptor (find_handles e ! i)) \<and>
     (\<forall>i<16. \<forall>j<16. i \<noteq> j \<longrightarrow> in_use (find_handles e ! i) \<longrightarrow> in_use (find_handles e ! j) \<longrightarrow>
        0 \<le> descriptor (find_handles e ! i) \<longrightarrow> descriptor (find_handles e ! i) \<noteq> descriptor (find_handles e ! j))"

text \<open>The descriptors that are open without a search that holds them.\<close>

definition strays :: "('w \<Rightarrow> int set) \<Rightarrow> 'w find_env \<Rightarrow> int set" where
  "strays opened e = opened (world e) - held (find_handles e)"

definition keeps :: "('w \<Rightarrow> int set) \<Rightarrow> int set \<Rightarrow> 'w find_env \<Rightarrow> bool" where
  "keeps opened L e \<longleftrightarrow> registry_ok opened e \<and> strays opened e = L"

lemma held_slots: "length h = 16 \<Longrightarrow> held h = {descriptor (h ! i) | i. i < 16 \<and> in_use (h ! i) \<and> 0 \<le> descriptor (h ! i)}"
  unfolding held_def by (auto simp: in_set_conv_nth image_iff)

lemma registry_okD:
  assumes "registry_ok opened e"
  shows "length (find_handles e) = 16" "\<forall>i<16. unat (generation (find_handles e ! i)) < 4096"
    "held (find_handles e) \<subseteq> opened (world e)" "generations_ok (find_handles e)"
  using assms generations_okD [of "find_handles e"] by (auto simp: registry_ok_def)

lemma held_member:
  "registry_ok opened e \<Longrightarrow> i < 16 \<Longrightarrow> in_use (find_handles e ! i) \<Longrightarrow> 0 \<le> descriptor (find_handles e ! i) \<Longrightarrow>
   descriptor (find_handles e ! i) \<in> held (find_handles e)"
  unfolding held_slots [OF registry_okD(1)] by blast

text \<open>The world changes, the directories stay open.\<close>

lemma keeps_world: "keeps opened L e \<Longrightarrow> opened w = opened (world e) \<Longrightarrow> keeps opened L (e\<lparr>world := w\<rparr>)"
  by (simp add: keeps_def registry_ok_def strays_def)

text \<open>A slot changes, and may begin or cease to hold a descriptor.\<close>

lemma held_update:
  assumes "registry_ok opened e" "i < 16"
  shows "held ((find_handles e)[i := x]) =
    held (find_handles e) - (if in_use (find_handles e ! i) \<and> 0 \<le> descriptor (find_handles e ! i) then {descriptor (find_handles e ! i)} else {}) \<union>
    (if in_use x \<and> 0 \<le> descriptor x then {descriptor x} else {})"
    (is "_ = _ - ?old \<union> ?new")
proof -
  let ?h = "find_handles e"
  have l: "length ?h = 16" "length (?h[i := x]) = 16" using registry_okD [OF assms(1)] by simp_all
  have d: "descriptor (?h ! j) \<noteq> descriptor (?h ! i)"
    if "j < 16" "j \<noteq> i" "in_use (?h ! j)" "in_use (?h ! i)" "0 \<le> descriptor (?h ! i)" for j
    using assms that unfolding registry_ok_def by (metis (no_types))
  have others: "{descriptor (?h ! j) | j. j < 16 \<and> j \<noteq> i \<and> in_use (?h ! j) \<and> 0 \<le> descriptor (?h ! j)} = held ?h - ?old"
    unfolding held_slots [OF l(1)] using d by auto
  have "held (?h[i := x]) = {descriptor (?h ! j) | j. j < 16 \<and> j \<noteq> i \<and> in_use (?h ! j) \<and> 0 \<le> descriptor (?h ! j)} \<union> ?new"
    unfolding held_slots [OF l(2)] using assms(2) l(1) by (auto simp: nth_list_update)
  then show ?thesis using others by simp
qed

lemma keeps_update:
  assumes k: "registry_ok opened e" "i < 16" and o: "opened w = O'"
    and g: "unat (generation x) < 4096" and u: "in_use x \<longrightarrow> \<not> exhausted x \<longrightarrow> 0 \<le> descriptor x"
    and new: "in_use x \<longrightarrow> 0 \<le> descriptor x \<longrightarrow> descriptor x \<notin> held (find_handles e) \<or>
      (in_use (find_handles e ! i) \<and> descriptor (find_handles e ! i) = descriptor x)"
    and O': "held ((find_handles e)[i := x]) \<subseteq> O'"
  shows "registry_ok opened (e\<lparr>find_handles := (find_handles e)[i := x], world := w\<rparr>)"
proof -
  let ?h = "find_handles e" and ?h' = "(find_handles e)[i := x]"
  have l: "length ?h = 16" using registry_okD [OF k(1)] by simp
  have "generations_ok ?h'"
    using registry_okD(2,4) [OF k(1)] g l k(2) by (auto simp: generations_ok_def list_all_length nth_list_update)
  moreover have "\<forall>j<16. in_use (?h' ! j) \<longrightarrow> \<not> exhausted (?h' ! j) \<longrightarrow> 0 \<le> descriptor (?h' ! j)"
    using k u l unfolding registry_ok_def by (simp add: nth_list_update)
  moreover have "descriptor (?h' ! a) \<noteq> descriptor (?h' ! b)"
    if "a < 16" "b < 16" "a \<noteq> b" "in_use (?h' ! a)" "in_use (?h' ! b)" "0 \<le> descriptor (?h' ! a)" for a b
  proof -
    have old: "descriptor (?h ! a) \<noteq> descriptor (?h ! b)" if "a < 16" "b < 16" "a \<noteq> b" "in_use (?h ! a)" "in_use (?h ! b)" "0 \<le> descriptor (?h ! a)" for a b
      using k(1) that unfolding registry_ok_def by blast
    have fresh: "descriptor x \<noteq> descriptor (?h ! c)" if "in_use x" "0 \<le> descriptor x" "c < 16" "c \<noteq> i" "in_use (?h ! c)" for c
    proof
      assume e: "descriptor x = descriptor (?h ! c)"
      then have "descriptor x \<in> held ?h" using held_member [OF k(1) that(3,5)] that(2) by simp
      then show False using new that old [of i c] k(2) e by auto
    qed
    show ?thesis using that old [of a b] fresh [of a] fresh [of b] k(2) l
      by (cases "a = i"; cases "b = i") auto
  qed
  ultimately show ?thesis unfolding registry_ok_def using O' o by simp
qed


section \<open>Calls that return\<close>

definition does :: "('a, 'w) find_call \<Rightarrow> ('a outcome \<Rightarrow> 'w find_env \<Rightarrow> bool) \<Rightarrow> machine \<Rightarrow> 'w find_env \<Rightarrow> bool" where
  "does call Q s e \<longleftrightarrow> (\<exists>r f. call s e = Some (r, f) \<and> Q r f)"

lemma does_then:
  "does call (\<lambda>r f. case r of Returned x t \<Rightarrow> does (rest x) Q t f | Unwound t \<Rightarrow> Q (Unwound t) f | Aborted t \<Rightarrow> Q (Aborted t) f) s e \<Longrightarrow>
   does (then_call call rest) Q s e"
proof -
  assume "does call (\<lambda>r f. case r of Returned x t \<Rightarrow> does (rest x) Q t f | Unwound t \<Rightarrow> Q (Unwound t) f | Aborted t \<Rightarrow> Q (Aborted t) f) s e"
  then obtain r f where "call s e = Some (r, f)"
    "case r of Returned x t \<Rightarrow> does (rest x) Q t f | Unwound t \<Rightarrow> Q (Unwound t) f | Aborted t \<Rightarrow> Q (Aborted t) f"
    unfolding does_def by blast
  then show ?thesis by (cases r) (auto simp: does_def then_call_def)
qed

lemma does_mono: "does call Q s e \<Longrightarrow> (\<And>r f. Q r f \<Longrightarrow> Q' r f) \<Longrightarrow> does call Q' s e"
  unfolding does_def by blast

lemma does_cut:
  "does call (\<lambda>_ f. R f) s e \<Longrightarrow> (\<And>x t f. R f \<Longrightarrow> does (rest x) Q t f) \<Longrightarrow> (\<And>r f. R f \<Longrightarrow> Q r f) \<Longrightarrow>
   does (then_call call rest) Q s e"
  by (rule does_then, erule does_mono) (auto split: outcome.split)

lemma does_machine: "(\<And>r. Q r e) \<Longrightarrow> does (on_machine f) Q s e"
  by (simp add: does_def on_machine_def)

lemma does_fault: "(\<And>r. Q r e) \<Longrightarrow> does (fault_call a w) Q s e"
  by (simp add: does_def on_machine_def fault_call_def)

lemma does_answer: "(\<And>r. Q r e) \<Longrightarrow> does (answer b l v) Q s e"
  by (simp add: does_def on_machine_def answer_def)

lemma does_write: "(\<And>r. Q r e) \<Longrightarrow> does (write_found sce k name st) Q s e"
  by (simp add: does_def on_machine_def write_found_def)

lemmas does_plain = does_machine does_fault does_answer does_write

lemma does_world: "g (world e) = (x, w) \<Longrightarrow> Q (Returned x s) (e\<lparr>world := w\<rparr>) \<Longrightarrow> does (on_world g) Q s e"
  by (simp add: does_def on_world_def)

lemma does_then_world:
  "(\<And>x w. g (world e) = (x, w) \<Longrightarrow> does (rest x) Q s (e\<lparr>world := w\<rparr>)) \<Longrightarrow> does (then_call (on_world g) rest) Q s e"
  by (rule does_then) (cases "g (world e)", auto intro: does_world)

lemma does_then_registry:
  "g (find_handles e) = (x, h) \<Longrightarrow> does (rest x) Q s (e\<lparr>find_handles := h\<rparr>) \<Longrightarrow> does (then_call (on_registry g) rest) Q s e"
  by (simp add: does_def then_call_def on_registry_def)

lemma does_state: "does (f s e) Q s e \<Longrightarrow> does (on_state f) Q s e"
  by (simp add: does_def on_state_def)

definition cleanup_failed :: "'a outcome \<Rightarrow> bool" where
  "cleanup_failed r \<longleftrightarrow> (case r of Returned _ _ \<Rightarrow> False
     | Unwound s \<Rightarrow> fault (cpu s) = Some ''FindFirstFileW registry cleanup close failed''
     | Aborted s \<Rightarrow> fault (cpu s) = Some ''FindFirstFileW registry cleanup close failed'')"

lemma cleanup_fault: "cleanup_failed (guest_fault s a ''FindFirstFileW registry cleanup close failed'')"
  by (simp add: cleanup_failed_def guest_fault_def Let_def)

definition conserved :: "('w \<Rightarrow> int set) \<Rightarrow> int set \<Rightarrow> 'a outcome \<Rightarrow> 'w find_env \<Rightarrow> bool" where
  "conserved opened L r f \<longleftrightarrow> keeps opened L f \<or> (registry_ok opened f \<and> cleanup_failed r)"

lemma conservedI: "keeps opened L f \<Longrightarrow> conserved opened L r f"
  by (simp add: conserved_def)

section \<open>Steps of the registry\<close>

lemma reserve_SomeD:
  assumes "vita_find_reserve h = Some (i, t, h')"
  shows "i < 16" "\<not> in_use (h ! i)" "t = vita_find_token i (next_generation (generation (h ! i)))"
    "h' = h[i := zero_handle\<lparr>descriptor := -1, generation := next_generation (generation (h ! i)), in_use := True\<rparr>]"
  using assms by (auto simp: vita_find_reserve_def Let_def find_Some_iff ISAAC_VITA_FIND_HANDLE_CAPACITY_def split: option.splits)

lemma next_generation_bound: "unat g < 4096 \<Longrightarrow> unat (next_generation g) < 4096 \<and> next_generation g \<noteq> 0"
  using next_generation_nat [of g] by (auto simp: word_unat_eq_iff split: if_split_asm)

lemma keeps_exhaust:
  assumes "keeps opened L e" "i < 16" "opened w = opened (world e)"
  shows "keeps opened L (e\<lparr>find_handles := (find_handles e)[i := (find_handles e ! i)\<lparr>exhausted := True\<rparr>], world := w\<rparr>)"
proof -
  let ?x = "(find_handles e ! i)\<lparr>exhausted := True\<rparr>"
  have k: "registry_ok opened e" and L: "strays opened e = L" using assms(1) by (auto simp: keeps_def)
  have hd: "held ((find_handles e)[i := ?x]) = held (find_handles e)"
    unfolding held_update [OF k assms(2)] using held_member [OF k assms(2)] by auto
  have "registry_ok opened (e\<lparr>find_handles := (find_handles e)[i := ?x], world := w\<rparr>)"
    by (rule keeps_update [OF k assms(2) assms(3)]) (use registry_okD [OF k] assms(2) hd in auto)
  then show ?thesis using L hd assms(3) by (simp add: keeps_def strays_def)
qed

lemma keeps_release:
  assumes "keeps opened L e" "i < 16" "in_use (find_handles e ! i)"
    "opened w = (if 0 \<le> descriptor (find_handles e ! i) then opened (world e) - {descriptor (find_handles e ! i)} else opened (world e))"
  shows "keeps opened L (e\<lparr>find_handles := vita_find_release (find_handles e) i, world := w\<rparr>)"
proof -
  let ?x = "zero_handle\<lparr>descriptor := -1, generation := generation (find_handles e ! i)\<rparr>"
  let ?d = "descriptor (find_handles e ! i)"
  have k: "registry_ok opened e" and L: "strays opened e = L" using assms(1) by (auto simp: keeps_def)
  have hd: "held ((find_handles e)[i := ?x]) = held (find_handles e) - (if 0 \<le> ?d then {?d} else {})"
    unfolding held_update [OF k assms(2)] using assms(3) by (simp add: zero_handle_def)
  have "registry_ok opened (e\<lparr>find_handles := (find_handles e)[i := ?x], world := w\<rparr>)"
    by (rule keeps_update [OF k assms(2) assms(4)])
      (use registry_okD [OF k] assms(2) hd in \<open>auto simp: zero_handle_def\<close>)
  then show ?thesis using L hd assms(4) held_member [OF k assms(2,3)]
    by (auto simp: keeps_def strays_def vita_find_release_def)
qed

text \<open>A reserved slot takes a descriptor that is open and free, or none.\<close>

lemma keeps_reserve:
  assumes k: "registry_ok opened e" and s: "strays opened e = (if 0 \<le> descriptor x then insert (descriptor x) L else L)"
    "0 \<le> descriptor x \<longrightarrow> descriptor x \<notin> L"
    and r: "vita_find_reserve (find_handles e) = Some (i, t, h')"
    and x: "generation x = generation (h' ! i)" "in_use x" "0 \<le> descriptor x \<or> exhausted x"
  shows "keeps opened L (e\<lparr>find_handles := h'[i := x]\<rparr>)"
proof -
  note d = reserve_SomeD [OF r] and h = registry_okD [OF k]
  have h': "h'[i := x] = (find_handles e)[i := x]" "generation x = next_generation (generation (find_handles e ! i))"
    using x(1) h(1) d(1) unfolding d(4) by simp_all
  have free: "0 \<le> descriptor x \<Longrightarrow> descriptor x \<notin> held (find_handles e) \<and> descriptor x \<in> opened (world e)"
    using s by (auto simp: strays_def split: if_split_asm)
  have hd: "held ((find_handles e)[i := x]) = held (find_handles e) \<union> (if 0 \<le> descriptor x then {descriptor x} else {})"
    unfolding held_update [OF k d(1)] using d(2) x(2) by auto
  have "registry_ok opened (e\<lparr>find_handles := (find_handles e)[i := x], world := world e\<rparr>)"
    by (rule keeps_update [OF k d(1) refl])
      (use next_generation_bound [of "generation (find_handles e ! i)"] h(2,3) d(1) h'(2) x free hd in \<open>auto split: if_split_asm\<close>)
  then show ?thesis unfolding h'(1) using hd s by (auto simp: keeps_def strays_def split: if_split_asm)
qed


lemma errors_negative: "0 \<le> r \<Longrightarrow> r < 2 ^ 31 \<Longrightarrow> \<not> missing_file r \<and> \<not> not_directory r"
proof -
  assume r: "0 \<le> r" "r < 2 ^ 31"
  then have "uint (word_of_int r :: u32) = r" by (simp add: take_bit_int_eq_self unsigned_of_int)
  then show ?thesis using r by (auto simp: missing_file_def not_directory_def)
qed

lemma env_order: "e\<lparr>world := w, find_handles := h\<rparr> = e\<lparr>find_handles := h, world := w\<rparr>"
  by simp

section \<open>The calls\<close>

context directory_services begin

text \<open>Advancing a search keeps the invariant, and which token names what.\<close>

lemma advance_keeps:
  assumes "keeps opened L e"
  shows "does (vita_find_advance sce token output) (\<lambda>_ f. keeps opened L f \<and>
    vita_find_lookup (find_handles f) t = vita_find_lookup (find_handles e) t \<and>
    map descriptor (find_handles f) = map descriptor (find_handles e)) s e"
proof (cases "vita_find_lookup (find_handles e) token")
  case None
  then show ?thesis using assms by (simp add: does_def vita_find_advance_def)
next
  case (Some i)
  have k: "registry_ok opened e" using assms by (simp add: keeps_def)
  note l = lookup_SomeD [OF Some registry_okD(2) [OF k]]
  show ?thesis
  proof (cases "exhausted (find_handles e ! i)")
    case True
    then show ?thesis using assms Some by (simp add: does_def vita_find_advance_def)
  next
    case False
    then have "0 \<le> descriptor (find_handles e ! i)" using k l(1,2) by (simp add: registry_ok_def)
    then have "descriptor (find_handles e ! i) \<in> opened (world e)"
      using held_member [OF k l(1,2)] registry_okD(3) [OF k] by blast
    from read_matching_ends [OF this, of "pattern_of (find_handles e ! i)"] obtain x w where
      x: "read_matching sce (descriptor (find_handles e ! i)) (pattern_of (find_handles e ! i)) (world e) = Some (x, w)"
      "opened w = opened (world e)" by blast
    let ?h = "(find_handles e)[i := (find_handles e ! i)\<lparr>exhausted := True\<rparr>]"
    have same: "vita_find_lookup ?h t = vita_find_lookup (find_handles e) t" "map descriptor ?h = map descriptor (find_handles e)"
      using registry_okD(1) [OF k] l(1)
      by (auto simp: vita_find_lookup_def Let_def nth_list_update map_update intro: list_update_same_conv [THEN iffD2])
    show ?thesis
      using keeps_world [OF assms x(2)] keeps_exhaust [OF assms l(1) x(2)] same
      unfolding vita_find_advance_def does_def Some option.case if_not_P [OF False] x(1)
      by (cases x) (auto simp: env_order fault_call_def on_machine_def then_call_def write_found_def split: outcome.split)
  qed
qed

text \<open>Closing the directory of a live search and freeing its slot.\<close>

lemma close_keeps:
  assumes "keeps opened L e" "vita_find_lookup (find_handles e) token = Some i"
    "0 \<le> descriptor (find_handles e ! i) \<or> g = (\<lambda>w. (0, w))"
    "0 \<le> descriptor (find_handles e ! i) \<Longrightarrow> g = sceIoDclose sce (descriptor (find_handles e ! i))"
    "\<And>s f r. keeps opened L f \<Longrightarrow> Q r f"
  shows "does (then_call (on_world g) (\<lambda>result. if result < 0 then fault_call (word_of_int result) t
     else then_call (on_registry (\<lambda>h. ((), vita_find_release h i))) (\<lambda>_. answer b l v))) Q s e"
proof (rule does_then_world)
  fix r w assume r: "g (world e) = (r, w)"
  have k: "registry_ok opened e" using assms(1) by (simp add: keeps_def)
  note d = lookup_SomeD [OF assms(2) registry_okD(2) [OF k]]
  have o: "opened w = (if r < 0 then opened (world e)
      else if 0 \<le> descriptor (find_handles e ! i) then opened (world e) - {descriptor (find_handles e ! i)} else opened (world e))"
  proof (cases "0 \<le> descriptor (find_handles e ! i)")
    case True
    then have "descriptor (find_handles e ! i) \<in> opened (world e)"
      using held_member [OF k d(1,2)] registry_okD(3) [OF k] by blast
    then show ?thesis using dclose_law r True assms(4) by (metis not_less)
  next
    case False
    then show ?thesis using assms(3) r by auto
  qed
  show "does (if r < 0 then fault_call (word_of_int r) t
     else then_call (on_registry (\<lambda>h. ((), vita_find_release h i))) (\<lambda>_. answer b l v)) Q s (e\<lparr>world := w\<rparr>)"
  proof (cases "r < 0")
    case True
    then show ?thesis using keeps_world [OF assms(1), of w] o by (simp add: does_plain assms(5))
  next
    case False
    have "keeps opened L (e\<lparr>find_handles := vita_find_release (find_handles e) i, world := w\<rparr>)"
      by (rule keeps_release [OF assms(1) d(1,2)]) (use o False in simp)
    then show ?thesis using False
      by (auto intro!: does_then_registry does_plain assms(5) simp: env_order)
  qed
qed

lemma FindNext_keeps:
  assumes "keeps opened L e"
  shows "does (vita_find_FindNextFileW sce) (conserved opened L) s e"
  unfolding vita_find_FindNextFileW_def
  by (intro does_cut [where R = "keeps opened L"] does_plain assms does_mono [OF advance_keeps])
    (auto intro!: does_plain conservedI split: advanced.split)

lemma FindClose_keeps:
  assumes "keeps opened L e"
  shows "does (vita_find_FindClose sce) (conserved opened L) s e"
  unfolding vita_find_FindClose_def
proof (intro does_cut [where R = "keeps opened L"] does_plain assms does_state)
  fix token t f assume f: "keeps opened L f"
  show "does (case vita_find_lookup (find_handles f) token of
         None \<Rightarrow> answer 4 (Some 6) 0
       | Some index \<Rightarrow>
           then_call (on_world (\<lambda>w. if descriptor (find_handles f ! index) < 0 then (0, w)
               else sceIoDclose sce (descriptor (find_handles f ! index)) w)) (\<lambda>result.
             if result < 0 then fault_call (word_of_int result) ''FindClose native directory close failed''
             else then_call (on_registry (\<lambda>h. ((), vita_find_release h index))) (\<lambda>_. answer 4 None 1)))
       (conserved opened L) t f"
    by (cases "vita_find_lookup (find_handles f) token")
      (auto intro!: does_plain close_keeps [OF f] conservedI f simp: not_less)
qed (rule conservedI)

lemma exact_keeps:
  assumes "keeps opened L e"
  shows "does (vita_find_exact sce p k directory name) (conserved opened L) s e"
proof -
  let ?f = "\<lambda>x. x\<lparr>descriptor := -1, exhausted := True\<rparr>"
  have r: "does (then_call (on_registry (\<lambda>h. case vita_find_reserve h of None \<Rightarrow> (None, h)
              | Some (index, token, h) \<Rightarrow> (Some token, h[index := ?f (h ! index)]))) (\<lambda>reserved.
            case reserved of None \<Rightarrow> fault_call 0 ''Vita FindFile handle registry exhausted''
            | Some token \<Rightarrow> then_call (write_found sce k name status) (\<lambda>_. answer 8 None token))) (conserved opened L) s f"
    if "keeps opened L f" for status s f
  proof (cases "vita_find_reserve (find_handles f)")
    case None
    then show ?thesis using that by (auto intro!: does_then_registry does_plain conservedI)
  next
    case (Some ith)
    then obtain i t h where r: "vita_find_reserve (find_handles f) = Some (i, t, h)" by (cases ith) auto
    have "length (find_handles f) = 16" using that registry_okD(1) by (auto simp: keeps_def)
    then have "keeps opened L (f\<lparr>find_handles := h[i := ?f (h ! i)]\<rparr>)"
      using that reserve_SomeD [OF r] by (intro keeps_reserve [OF _ _ _ r]) (auto simp: keeps_def)
    then show ?thesis using r
      by (auto intro!: does_then_registry does_cut [where R = "keeps opened L"] does_plain conservedI)
  qed
  have stat: "keeps opened L (e\<lparr>world := w\<rparr>)"
    if "sceIoGetstat sce q v = ((a, b), w)" "keeps opened L (e\<lparr>world := v\<rparr>)" for q v a b w
    using keeps_world [OF that(2), of w] getstat_law [OF that(1)] by simp
  have first: "keeps opened L (e\<lparr>world := w\<rparr>)" if "sceIoGetstat sce q (world e) = ((a, b), w)" for q a b w
    using stat [OF that] assms by simp
  have second: "keeps opened L (e\<lparr>world := v\<rparr>)"
    if "sceIoGetstat sce q (world e) = ((a, b), w)" "sceIoGetstat sce q' w = ((c, d), v)" for q q' a b c d w v
    by (rule stat [OF that(2) first [OF that(1)]])
  show ?thesis
    unfolding vita_find_exact_def using assms first
    by (auto intro!: r does_plain does_then_world conservedI split: sum.split find_failure.split) (blast intro: second)+
qed

lemma first_of_directory_keeps:
  assumes k: "registry_ok opened e" and s: "strays opened e = insert fd L" "fd \<notin> L" "0 \<le> fd"
  shows "does (first_of_directory sce pat k fd) (conserved opened L) s e"
proof (cases "vita_find_reserve (find_handles e)")
  case None
  have fd: "fd \<in> opened (world e)" "fd \<notin> held (find_handles e)" using s(1) by (auto simp: strays_def)
  have "does (then_call (on_world (sceIoDclose sce fd)) (\<lambda>close_result.
            if close_result < 0
            then fault_call (word_of_int close_result) ''FindFirstFileW registry cleanup close failed''
            else fault_call 0 ''Vita FindFile handle registry exhausted'')) (conserved opened L) s e"
  proof (rule does_then_world)
    fix r w assume r: "sceIoDclose sce fd (world e) = (r, w)"
    note c = dclose_law [OF fd(1) r]
    have same: "registry_ok opened (e\<lparr>world := w\<rparr>)"
      using k c fd(2) by (cases "r < 0") (auto simp: registry_ok_def)
    have "keeps opened L (e\<lparr>world := w\<rparr>)" if "\<not> r < 0"
      using same s c that by (auto simp: keeps_def strays_def)
    then show "does (if r < 0 then fault_call (word_of_int r) ''FindFirstFileW registry cleanup close failed''
        else fault_call 0 ''Vita FindFile handle registry exhausted'') (conserved opened L) s (e\<lparr>world := w\<rparr>)"
      using same cleanup_fault by (auto simp: does_def fault_call_def on_machine_def conserved_def)
  qed
  then show ?thesis using None unfolding first_of_directory_def by (auto intro!: does_then_registry)
next
  case (Some ith)
  then obtain i t h where r: "vita_find_reserve (find_handles e) = Some (i, t, h)" by (cases ith) auto
  note d = reserve_SomeD [OF r]
  let ?x = "(h ! i)\<lparr>pattern_of := pat, descriptor := fd\<rparr>"
  define f where "f = e\<lparr>find_handles := h[i := ?x]\<rparr>"
  have l: "length (find_handles e) = 16" "length h = 16" using registry_okD(1) [OF k] d(4) by simp_all
  have x: "generation ?x = generation (h ! i)" "in_use ?x" "descriptor ?x = fd" using l d(1) unfolding d(4) by simp_all
  have f: "keeps opened L f" unfolding f_def
    by (rule keeps_reserve [OF k _ _ r]) (use s x in simp_all)
  have hi: "find_handles f ! i = ?x" unfolding f_def using l d(1) by simp
  have "generation ?x = next_generation (generation (find_handles e ! i))" using l d(1) unfolding x(1) d(4) by simp
  then have t: "vita_find_lookup (find_handles f) t = Some i"
    using lookup_token [of i "find_handles f"] next_generation_bound [of "generation (find_handles e ! i)"]
      registry_okD(2) [OF k] d(1,3) x(2) unfolding hi by simp
  have "does (then_call (vita_find_advance sce t k) (\<lambda>result.
            case result of
              VITA_FIND_ADVANCE_STALE \<Rightarrow> fault_call t ''FindFirstFileW lost its internal search handle''
            | ADVANCE_ENTRY \<Rightarrow> answer 8 None t
            | ADVANCE_END \<Rightarrow> on_state (\<lambda>s e. case vita_find_lookup (find_handles e) t of
                None \<Rightarrow> fault_call t ''FindFirstFileW lost its exhausted search handle''
              | Some index \<Rightarrow> then_call (on_world (sceIoDclose sce (descriptor (find_handles e ! index)))) (\<lambda>close_result.
                  if close_result < 0
                  then fault_call (word_of_int close_result) ''FindFirstFileW native directory close failed''
                  else then_call (on_registry (\<lambda>h. ((), vita_find_release h index)))
                    (\<lambda>_. answer 8 (Some 2) ISAAC_VITA_FIND_INVALID_HANDLE_VALUE))))) (conserved opened L) s f"
  proof (rule does_cut [OF advance_keeps [OF f, where t = t]], goal_cases)
    case (1 result u g)
    then have g: "keeps opened L g" "vita_find_lookup (find_handles g) t = Some i" using t by auto
    have "length (find_handles g) = 16" using g(1) registry_okD(1) [of opened g] by (simp add: keeps_def)
    then have "i < length (find_handles g)" using d(1) by simp
    then have "descriptor (find_handles g ! i) = fd"
      using 1 hi x(3) by (metis nth_map map_eq_imp_length_eq)
    then show ?case using g s(3)
      by (cases result) (auto intro!: does_plain does_state close_keeps [OF g] conservedI)
  qed (auto intro: conservedI)
  then show ?thesis using r unfolding first_of_directory_def f_def by (auto intro!: does_then_registry)
qed

lemma first_of_pattern_keeps:
  assumes "keeps opened L e"
  shows "does (first_of_pattern sce p k directory pat) (conserved opened L) s e"
  unfolding first_of_pattern_def
proof (intro does_then_world, goal_cases)
  case (1 x w)
  then have w: "keeps opened L (e\<lparr>world := w\<rparr>)" using keeps_world [OF assms, of w] drain_law by auto
  show ?case
  proof (cases "vita_find_has_wildcard pat")
    case False
    then show ?thesis using exact_keeps [OF w] by simp
  next
    case True
    have "does (if missing_file fd \<or> not_directory fd then answer 8 (Some 3) ISAAC_VITA_FIND_INVALID_HANDLE_VALUE
         else if fd < 0 then fault_call (word_of_int fd) ''FindFirstFileW native directory open failed''
         else first_of_directory sce pat k fd) (conserved opened L) s (e\<lparr>world := v\<rparr>)"
      if o: "sceIoDopen sce directory w = (fd, v)" for fd v
    proof -
      note law = dopen_law [OF o]
      show ?thesis
      proof (cases "fd < 0")
        case True
        then show ?thesis using keeps_world [OF w, of v] law by (auto intro!: does_plain conservedI)
      next
        case False
        have neg: "\<not> (missing_file fd \<or> not_directory fd)"
          using law False errors_negative [of fd] by auto
        have k: "registry_ok opened (e\<lparr>world := v\<rparr>)" "strays opened (e\<lparr>world := v\<rparr>) = insert fd L" "fd \<notin> L"
          using w law False by (auto simp: keeps_def registry_ok_def strays_def)
        then show ?thesis using first_of_directory_keeps [OF k] neg False by simp
      qed
    qed
    then show ?thesis using True by (auto intro!: does_then_world)
  qed
qed

lemma FindFirst_keeps:
  assumes "keeps opened L e"
  shows "does (vita_find_FindFirstFileW sce) (conserved opened L) s e"
  unfolding vita_find_FindFirstFileW_def
  by (intro does_cut [where R = "keeps opened L"] does_plain assms does_state)
    (auto intro!: does_plain first_of_pattern_keeps conservedI split: sum.split find_failure.split prod.split)

lemma import_keeps:
  assumes "keeps opened L e"
  shows "does (isaac_vita_find_import sce name) (conserved opened L) s e"
proof -
  have wrap: "does (then_call call (\<lambda>_. on_machine (Returned True))) (conserved opened L) s e"
    if "does call (conserved opened L) s e" for call :: "(unit, 'w) find_call"
    by (rule does_then, rule does_mono [OF that])
      (auto intro: does_machine simp: conserved_def cleanup_failed_def split: outcome.split)
  consider (other) "isaac_vita_find_import sce name = on_machine (Returned False)"
    | (handled) call :: "(unit, 'w) find_call" where "isaac_vita_find_import sce name = then_call call (\<lambda>_. on_machine (Returned True))"
      "does call (conserved opened L) s e"
  proof (cases "find (\<lambda>i. isaac_vita_find_import_name i = Some name) [0..<3]")
    case None
    then show ?thesis using that(1) by (simp add: isaac_vita_find_import_def vita_find_dispatch_def)
  next
    case (Some i)
    then have i: "i < 3" by (auto simp: find_Some_iff)
    have "does (snd (s_vita_find_imports ! i) sce) (conserved opened L) s e"
      using i FindFirst_keeps [OF assms, of s] FindNext_keeps [OF assms, of s] FindClose_keeps [OF assms, of s]
      by (auto simp: s_vita_find_imports_def numeral_3_eq_3 less_Suc_eq)
    then show ?thesis using that(2) [of "snd (s_vita_find_imports ! i) sce"] Some i
      by (simp add: isaac_vita_find_import_def vita_find_dispatch_def isaac_vita_find_import_indexed_def)
  qed
  then show ?thesis
  proof cases
    case other
    then show ?thesis using assms by (simp add: does_machine conservedI)
  next
    case (handled call)
    then show ?thesis using wrap by simp
  qed
qed

end

end
