(* ===== verification/Vita_Find_Claims.thy ===== *)
theory Vita_Find_Claims imports Vita_Find_Kept begin

text \<open>
  What a search hands out: the matching entries of its directory, one for each call, and a console on which the contracts of
  the directory services hold.
\<close>

section \<open>The entries a search has left\<close>

definition pending :: "('w \<Rightarrow> int \<Rightarrow> SceIoDirent list) \<Rightarrow> 'w find_env \<Rightarrow> nat \<Rightarrow> SceIoDirent list" where
  "pending left e i =
     filter (wanted (pattern_of (find_handles e ! i))) (left (world e) (descriptor (find_handles e ! i)))"

definition searching :: "'w find_env \<Rightarrow> nat \<Rightarrow> bool" where
  "searching e i \<longleftrightarrow> i < 16 \<and> in_use (find_handles e ! i) \<and> \<not> exhausted (find_handles e ! i)"

text \<open>
  The answer with an entry: the record is written and the call returns 1, or a name the console should not have leads to a fault.
  (\<open>vita_find_write_data\<close> never fails without one, \<open>write_data_faults\<close>.)
\<close>

definition hand_out :: "(u32 \<Rightarrow> bool) \<Rightarrow> machine \<Rightarrow> u32 \<Rightarrow> SceIoDirent \<Rightarrow> unit outcome" where
  "hand_out isdir s output x =
     (case vita_find_write_data isdir (mem s) output (entry_name x) (Some (d_stat x)) of
        Inr m \<Rightarrow> Returned () (returned_with (s\<lparr>mem := m\<rparr>) 12 None 1)
      | Inl (Find_fault a what) \<Rightarrow> guest_fault s a what
      | Inl Find_no_fault \<Rightarrow> Returned () s)"

lemma utf16_units_faults: "utf16_units input out capacity \<noteq> Inl Find_no_fault"
  by (induction input out capacity rule: utf16_units.induct)
    (auto simp: invalid_name_def long_name_def split: option.splits if_splits)

lemma write_data_faults: "vita_find_write_data isdir m output name (Some st) \<noteq> Inl Find_no_fault"
  using utf16_units_faults by (auto simp: write_data_stores vita_find_utf8_to_utf16_def split: sum.splits)

context reliable_directories begin

lemma advance_exact:
  assumes k: "registry_ok opened e" and l: "vita_find_lookup (find_handles e) token = Some i"
    and a: "\<not> exhausted (find_handles e ! i)"
  shows "\<exists>f. vita_find_advance sce token output s e = Some (case pending left e i of
      [] \<Rightarrow> Returned ADVANCE_END s
    | x # _ \<Rightarrow> (case vita_find_write_data (SCE_S_ISDIR sce) (mem s) output (entry_name x) (Some (d_stat x)) of
        Inr m \<Rightarrow> Returned ADVANCE_ENTRY (s\<lparr>mem := m\<rparr>)
      | Inl (Find_fault a what) \<Rightarrow> guest_fault s a what
      | Inl Find_no_fault \<Rightarrow> Returned ADVANCE_ENTRY s), f) \<and>
    pending left f i = tl (pending left e i) \<and>
    (searching f i \<longleftrightarrow> pending left e i \<noteq> []) \<and>
    (\<forall>j. j \<noteq> i \<and> searching e j \<longrightarrow> searching f j \<and> pending left f j = pending left e j)"
proof -
  let ?h = "find_handles e"
  note d = lookup_SomeD [OF l registry_okD(2) [OF k]]
  have d0: "0 \<le> descriptor (?h ! i)" using k d(1,2) a by (simp add: registry_ok_def)
  have fd: "descriptor (?h ! i) \<in> opened (world e)"
    using held_member [OF k d(1,2) d0] registry_okD(3) [OF k] by blast
  from read_matching_exact [OF fd, of "pattern_of (?h ! i)"] obtain v where
    v: "read_matching sce (descriptor (?h ! i)) (pattern_of (?h ! i)) (world e) =
      Some (case pending left e i of [] \<Rightarrow> Read_end | x # xs \<Rightarrow> Read_entry (entry_name x) (d_stat x), v)"
    and rest: "filter (wanted (pattern_of (?h ! i))) (left v (descriptor (?h ! i))) = tl (pending left e i)"
    and other: "\<forall>fd. fd \<noteq> descriptor (?h ! i) \<longrightarrow> left v fd = left (world e) fd"
    unfolding pending_def by blast
  have apart: "descriptor (?h ! j) \<noteq> descriptor (?h ! i)" if "j \<noteq> i" "searching e j" for j
    using k d(1,2) d0 that unfolding registry_ok_def searching_def by metis
  have len: "i < length ?h" using registry_okD(1) [OF k] d(1) by simp
  show ?thesis
  proof (cases "pending left e i")
    case Nil
    define f where "f = e\<lparr>world := v, find_handles := ?h[i := (?h ! i)\<lparr>exhausted := True\<rparr>]\<rparr>"
    have "vita_find_advance sce token output s e = Some (Returned ADVANCE_END s, f)"
      unfolding vita_find_advance_def l option.case if_not_P [OF a] v Nil by (simp add: f_def)
    moreover have "pending left f i = tl (pending left e i)" using rest len by (simp add: f_def pending_def)
    moreover have "\<not> searching f i" using len by (simp add: f_def searching_def)
    moreover have "searching f j \<and> pending left f j = pending left e j" if "j \<noteq> i" "searching e j" for j
      using that other apart [OF that] by (simp add: f_def searching_def pending_def)
    ultimately show ?thesis unfolding Nil by auto
  next
    case (Cons x xs)
    define f where "f = e\<lparr>world := v\<rparr>"
    have "vita_find_advance sce token output s e = Some (case vita_find_write_data (SCE_S_ISDIR sce) (mem s) output (entry_name x) (Some (d_stat x)) of
        Inr m \<Rightarrow> Returned ADVANCE_ENTRY (s\<lparr>mem := m\<rparr>)
      | Inl (Find_fault a what) \<Rightarrow> guest_fault s a what
      | Inl Find_no_fault \<Rightarrow> Returned ADVANCE_ENTRY s, f)"
      unfolding vita_find_advance_def l option.case if_not_P [OF a] v Cons
      by (simp add: f_def then_call_def write_found_def on_machine_def guest_fault_def Let_def split: sum.split find_failure.split)
    moreover have "pending left f i = tl (pending left e i)" using rest by (simp add: f_def pending_def)
    moreover have "searching f i" using a d(1,2) by (simp add: f_def searching_def)
    moreover have "searching f j \<and> pending left f j = pending left e j" if "j \<noteq> i" "searching e j" for j
      using that other apart [OF that] by (simp add: f_def searching_def pending_def)
    ultimately show ?thesis unfolding Cons by auto
  qed
qed

lemma FindNext_exact:
  assumes "registry_ok opened e" "vita_find_lookup (find_handles e) token = Some i" "\<not> exhausted (find_handles e ! i)"
    "call_frame s [r, token, output]" "output \<noteq> 0" "fits output 592"
  shows "\<exists>f. vita_find_FindNextFileW sce s e = Some (case pending left e i of
      [] \<Rightarrow> Returned () (returned_with s 12 (Some 18) 0) | x # _ \<Rightarrow> hand_out (SCE_S_ISDIR sce) s output x, f) \<and>
    pending left f i = tl (pending left e i) \<and>
    (searching f i \<longleftrightarrow> pending left e i \<noteq> []) \<and>
    (\<forall>j. j \<noteq> i \<and> searching e j \<longrightarrow> searching f j \<and> pending left f j = pending left e j)"
proof -
  obtain f where f: "vita_find_advance sce token output s e = Some (case pending left e i of
      [] \<Rightarrow> Returned ADVANCE_END s
    | x # _ \<Rightarrow> (case vita_find_write_data (SCE_S_ISDIR sce) (mem s) output (entry_name x) (Some (d_stat x)) of
        Inr m \<Rightarrow> Returned ADVANCE_ENTRY (s\<lparr>mem := m\<rparr>)
      | Inl (Find_fault a what) \<Rightarrow> guest_fault s a what
      | Inl Find_no_fault \<Rightarrow> Returned ADVANCE_ENTRY s), f)"
    and rest: "pending left f i = tl (pending left e i)" "searching f i \<longleftrightarrow> pending left e i \<noteq> []"
      "\<forall>j. j \<noteq> i \<and> searching e j \<longrightarrow> searching f j \<and> pending left f j = pending left e j"
    using advance_exact [OF assms(1-3), of "output" s] by blast
  have room: "stack_ok (cpu s)" "unat (esp (cpu s)) + 4 + unat (8 :: u32) \<le> unat (stack_ceiling (cpu s))"
    using assms(4) by (simp_all add: call_frame_def)
  have ans: "answer 8 er v (s\<lparr>mem := m\<rparr>) g = Some (Returned () (returned_with (s\<lparr>mem := m\<rparr>) 12 er v), g)"
    "answer 8 er v s g = Some (Returned () (returned_with s 12 er v), g)" for er v m and g :: "'w find_env"
    using answer_frame [of "s\<lparr>mem := m\<rparr>" 8] answer_frame [of s 8] room by simp_all
  have "vita_find_FindNextFileW sce s e = Some (case pending left e i of
      [] \<Rightarrow> Returned () (returned_with s 12 (Some 18) 0) | x # _ \<Rightarrow> hand_out (SCE_S_ISDIR sce) s output x, f)"
  proof (cases "pending left e i")
    case Nil
    then show ?thesis unfolding FindNext_frame [OF assms(4-6)] then_call_def f by (simp add: ans)
  next
    case (Cons x xs)
    then show ?thesis unfolding FindNext_frame [OF assms(4-6)] then_call_def f hand_out_def
      using write_data_faults by (simp add: ans guest_fault_def Let_def split: sum.split find_failure.split)
  qed
  then show ?thesis using rest by blast
qed

end

section \<open>A pattern that is not answered\<close>

lemma decode_letters:
  "(\<And>j. j < n \<Longrightarrow> ld16 m (a + of_nat ((i + j) * 2)) = 0x61) \<Longrightarrow> unat a + 2 * (i + n) + 2 \<le> 2 ^ 32 \<Longrightarrow>
   i + n < VITA_FIND_PATH_UNITS_MAX \<Longrightarrow> length out + n \<le> capacity - 1 \<Longrightarrow>
   decode_units m a capacity i out = decode_units m a capacity (i + n) (out @ replicate n 0x61)"
proof (induction n arbitrary: i out)
  case (Suc n)
  have u: "utf8_bytes (ucast (0x61 :: u16)) = [0x61]" by (simp add: utf8_bytes_def)
  have "decode_units m a capacity i out = decode_units m a capacity (i + 1) (out @ utf8_bytes (ucast (0x61 :: u16)))"
    by (rule decode_single) (use Suc.prems(1) [of 0] Suc.prems(2-4) u in \<open>simp_all add: utf8_bytes_def\<close>)
  also have "\<dots> = decode_units m a capacity (i + 1 + n) ((out @ [0x61]) @ replicate n 0x61)"
    unfolding u
  proof (rule Suc.IH)
    show "ld16 m (a + of_nat ((i + 1 + j) * 2)) = 0x61" if "j < n" for j
      using Suc.prems(1) [of "Suc j"] that by simp
  qed (use Suc.prems in simp_all)
  finally show ?case by simp
qed simp

text \<open>
  A pattern of 1023 letters and a pair of surrogates steps over the bound of the decoder, which returns without a fault: the guest
  goes on with the arguments on its stack and no result.
\<close>

lemma straddling_pair_unanswered:
  assumes "call_frame s [r, pattern, output]" "output \<noteq> 0" "fits output 592" "pattern \<noteq> 0" "fits pattern 2050"
    "\<And>j. j < 1023 \<Longrightarrow> ld16 (mem s) (pattern + of_nat (j * 2)) = 0x61"
    "ld16 (mem s) (pattern + 2046) = 0xD83D" "ld16 (mem s) (pattern + 2048) = 0xDE00"
  shows "vita_find_FindFirstFileW sce s e = Some (Returned () s, e)"
proof -
  let ?m = "mem s" and ?c = "VITA_FIND_PATH_UTF8_MAX + 1"
  have l: "decode_units ?m pattern ?c 0 [] = decode_units ?m pattern ?c 1023 (replicate 1023 0x61)"
    using decode_letters [of 1023 ?m pattern 0 "[]" ?c] assms(5,6)
    by (simp add: fits_def VITA_FIND_PATH_UNITS_MAX_def VITA_FIND_PATH_UTF8_MAX_def)
  have "decode_units ?m pattern ?c 1023 (replicate 1023 0x61) =
      decode_units ?m pattern ?c (1023 + 2) (replicate 1023 0x61 @ utf8_bytes 0x1F600)"
  proof (rule decode_pair)
    show "ld16 ?m (pattern + of_nat (1023 * 2)) = 0xD83D" "ld16 ?m (pattern + of_nat (1023 * 2) + 2) = 0xDE00"
      using assms(7,8) by (simp_all add: add.assoc)
    show "length (replicate 1023 (0x61 :: u8)) + length (utf8_bytes 0x1F600) \<le> ?c - 1"
      by (simp only: length_replicate utf8_bytes_def VITA_FIND_PATH_UTF8_MAX_def) simp
  qed (use assms(5) in \<open>simp_all add: fits_def VITA_FIND_PATH_UNITS_MAX_def\<close>)
  then have "decode_units ?m pattern ?c 1023 (replicate 1023 0x61) = Inl Find_no_fault"
    by (rule decode_pair_at_bound) (simp add: VITA_FIND_PATH_UNITS_MAX_def)
  then have p: "vita_find_prepare_pattern ?m pattern n k = Inl Find_no_fault" for n k
    using assms(4) l by (simp add: vita_find_prepare_pattern_def vita_find_decode_path_def)
  have a: "vita_find_arg 0 s = Returned pattern s" "vita_find_arg 1 s = Returned output s"
    using arg_frame [OF assms(1), of 0] arg_frame [OF assms(1), of 1] by simp_all
  show ?thesis
    unfolding vita_find_FindFirstFileW_def
    by (simp only: then_arg [OF a(1)] then_arg [OF a(2)] then_machine [where f = "vita_find_range output r w" for r w, OF range_frame [OF assms(2,3)]]
        on_state_def p sum.case find_failure.case) (simp add: on_machine_def)
qed

section \<open>A console\<close>

text \<open>
  Folders in memory: a directory that is opened gets a stream of its own with the entries of the folder, under a descriptor that was
  never used before.
\<close>

record find_console =
  folders :: "u8 list \<Rightarrow> SceIoDirent list option"
  streams :: "int \<Rightarrow> SceIoDirent list option"
  last_fd :: int

definition no_time :: SceDateTime where
  "no_time = \<lparr>year = 1601, month = 1, day = 1, hour = 0, minute = 0, second = 0, microsecond = 0\<rparr>"

definition a_folder :: SceIoStat where
  "a_folder = \<lparr>st_mode = 0x1000, st_size = 0, st_ctime = no_time, st_atime = no_time, st_mtime = no_time\<rparr>"

text \<open>Every name is read with a terminator behind it.\<close>

definition terminated :: "SceIoDirent \<Rightarrow> SceIoDirent" where
  "terminated x = x\<lparr>d_name := d_name x @ [0]\<rparr>"

definition console_services :: "find_console find_services" where
  "console_services =
     \<lparr>SCE_S_ISDIR = (\<lambda>m. m AND 0xF000 = 0x1000),
      sceIoDopen = (\<lambda>p w. case folders w p of None \<Rightarrow> (-2147418110, w)
        | Some xs \<Rightarrow> let fd = last_fd w + 1 in
            if fd < 0 \<or> 2 ^ 31 \<le> fd \<or> streams w fd \<noteq> None then (-1, w)
            else (fd, w\<lparr>streams := (streams w)(fd \<mapsto> xs), last_fd := fd\<rparr>)),
      sceIoDread = (\<lambda>fd w. case streams w fd of
          Some (x # xs) \<Rightarrow> ((1, terminated x), w\<lparr>streams := (streams w)(fd \<mapsto> xs)\<rparr>)
        | Some [] \<Rightarrow> ((0, \<lparr>d_name = [], d_stat = a_folder\<rparr>), w)
        | None \<Rightarrow> ((-1, \<lparr>d_name = [], d_stat = a_folder\<rparr>), w)),
      sceIoDclose = (\<lambda>fd w. if streams w fd = None then (-1, w) else (0, w\<lparr>streams := (streams w)(fd := None)\<rparr>)),
      sceIoGetstat = (\<lambda>p w. ((if folders w p = None then -2147418110 else 0, a_folder), w)),
      isaac_vita_async_write_drain = (\<lambda>w. w)\<rparr>"

definition console_opened :: "find_console \<Rightarrow> int set" where
  "console_opened w = dom (streams w)"

definition console_left :: "find_console \<Rightarrow> int \<Rightarrow> SceIoDirent list" where
  "console_left w fd = (case streams w fd of None \<Rightarrow> [] | Some xs \<Rightarrow> map terminated xs)"

lemmas console_defs = console_services_def console_opened_def console_left_def

interpretation console: reliable_directories console_services console_opened console_left
proof
  fix p w r v assume "sceIoDopen console_services p w = (r, v)"
  then show "(r < 0 \<longrightarrow> console_opened v = console_opened w) \<and>
      (0 \<le> r \<longrightarrow> r < 2 ^ 31 \<and> r \<notin> console_opened w \<and> console_opened v = insert r (console_opened w)) \<and>
      (\<forall>d\<in>console_opened w. console_left v d = console_left w d)"
    by (auto simp: console_defs Let_def split: option.splits if_split_asm)
next
  fix fd w r x v assume "fd \<in> console_opened w" "sceIoDread console_services fd w = ((r, x), v)"
  then show "console_opened v = console_opened w \<and> (\<forall>d. d \<noteq> fd \<longrightarrow> console_left v d = console_left w d) \<and>
      (r = 0 \<longrightarrow> console_left w fd = [] \<and> console_left v fd = []) \<and> (0 < r \<longrightarrow> console_left w fd = x # console_left v fd)"
    by (auto simp: console_defs split: option.splits list.splits if_split_asm)
next
  fix fd w r v assume "fd \<in> console_opened w" "sceIoDclose console_services fd w = (r, v)"
  then show "(r < 0 \<longrightarrow> console_opened v = console_opened w) \<and> (0 \<le> r \<longrightarrow> console_opened v = console_opened w - {fd}) \<and>
      (\<forall>d\<in>console_opened v. console_left v d = console_left w d)"
    by (auto simp: console_defs split: if_split_asm)
next
  fix fd w r x v assume "fd \<in> console_opened w" "sceIoDread console_services fd w = ((r, x), v)"
  then show "0 \<le> r" by (auto simp: console_defs split: option.splits list.splits)
next
  fix fd w x assume "fd \<in> console_opened w" "x \<in> set (console_left w fd)"
  then show "0 \<in> set (d_name x)" by (auto simp: console_defs terminated_def)
qed (auto simp: console_defs)

section \<open>Examples\<close>

definition example_file :: "u8 list \<Rightarrow> SceIoDirent" where
  "example_file name = \<lparr>d_name = name, d_stat = a_folder\<lparr>st_mode := 0x2000, st_size := 5\<rparr>\<rparr>"

text \<open>A search for everything in slot 0, with two files and the two dots before it.\<close>

definition example_env :: "find_console find_env" where
  "example_env =
     \<lparr>find_handles = \<lparr>descriptor = 1, generation = 1, in_use = True, exhausted = False, pattern_of = [star_byte]\<rparr> # replicate 15 zero_handle,
      world = \<lparr>folders = (\<lambda>_. None),
        streams = [1 \<mapsto> map example_file [[dot_byte], [dot_byte, dot_byte], [0x61], [0x62]]], last_fd = 1\<rparr>\<rparr>"

text \<open>The frame of a call with the token of slot 0 and a record at \<open>0x2000\<close>.\<close>

definition example_call :: machine where
  "example_call = example_machine\<lparr>cpu := (cpu example_machine)\<lparr>esp := 0x1010, stack_low_water := 0x1010\<rparr>,
     mem := st32 (st32 (\<lambda>_. 0) 0x1014 0xF17D0010) 0x1018 0x2000\<rparr>"

lemma example_mem:
  "ld32 (mem example_call) 0x1010 = 0" "ld32 (mem example_call) 0x1014 = 0xF17D0010" "ld32 (mem example_call) 0x1018 = 0x2000"
  by (simp_all add: example_call_def cell32.ld_st_same cell32.ld_st_apart apart_def) (simp add: ld32_def ld_bytes_4)

lemma example_frame: "call_frame example_call [0, 0xF17D0010, 0x2000]" "call_frame example_call [0, 0xF17D0010]"
proof -
  have "stack_ok (cpu example_call)"
    using example_machine_ok by (simp add: example_call_def stack_ok_def guest_stack_is_bound_def)
  then show "call_frame example_call [0, 0xF17D0010, 0x2000]" "call_frame example_call [0, 0xF17D0010]"
    using example_mem by (simp_all add: call_frame_def numeral_3_eq_3 numeral_2_eq_2) (simp_all add: example_call_def)
qed

lemma example_lookup: "vita_find_lookup (find_handles example_env) 0xF17D0010 = Some 0"
  by (simp add: vita_find_lookup_def Let_def VITA_FIND_TOKEN_MAGIC_def example_env_def ISAAC_VITA_FIND_HANDLE_CAPACITY_def)

lemma less_16: "(i::nat) < 16 \<Longrightarrow> i = 0 \<or> (\<exists>j<15. i = Suc j)"
  by (cases i) auto

lemma example_registry: "registry_ok console_opened example_env"
  unfolding registry_ok_def generations_ok_def held_def
  by (auto simp: example_env_def console_opened_def zero_handle_def list_all_iff dest!: less_16)

lemma example_pending: "pending console_left example_env 0 = map (terminated \<circ> example_file) [[0x61], [0x62]]"
  by (simp add: pending_def example_env_def console_left_def wanted_def entry_name_def terminated_def example_file_def
      upt_rec)

section \<open>Properties\<close>

lemma example_at: "\<not> exhausted (find_handles example_env ! 0)" "fits 0x2000 592" "(0x2000 :: u32) \<noteq> 0"
  by (simp_all add: example_env_def fits_def)

text \<open>
  C38: \<open>FindNextFileW\<close> with a live token, on a console whose directories work, hands out the first entry its search has left and
  leaves the rest; without one it answers that there are no more files.  Other searches lose nothing.
\<close>

theorem find_next_exact:
  assumes "reliable_directories sce opened left" "registry_ok opened e"
    "vita_find_lookup (find_handles e) token = Some i" "\<not> exhausted (find_handles e ! i)"
    "call_frame s [r, token, output]" "output \<noteq> 0" "fits output 592"
  shows "\<exists>f. vita_find_FindNextFileW sce s e = Some (case pending left e i of
      [] \<Rightarrow> Returned () (returned_with s 12 (Some 18) 0) | x # _ \<Rightarrow> hand_out (SCE_S_ISDIR sce) s output x, f) \<and>
    pending left f i = tl (pending left e i) \<and>
    (searching f i \<longleftrightarrow> pending left e i \<noteq> []) \<and>
    (\<forall>j. j \<noteq> i \<and> searching e j \<longrightarrow> searching f j \<and> pending left f j = pending left e j)"
  by (rule reliable_directories.FindNext_exact [OF assms])


theorem find_next_exact_witness:
  "\<exists>f. vita_find_FindNextFileW console_services example_call example_env =
      Some (hand_out (SCE_S_ISDIR console_services) example_call 0x2000 (terminated (example_file [0x61])), f) \<and>
    pending console_left f 0 = [terminated (example_file [0x62])]"
proof -
  obtain f where f: "vita_find_FindNextFileW console_services example_call example_env =
      Some (case pending console_left example_env 0 of [] \<Rightarrow> Returned () (returned_with example_call 12 (Some 18) 0)
        | x # _ \<Rightarrow> hand_out (SCE_S_ISDIR console_services) example_call 0x2000 x, f)"
    "pending console_left f 0 = tl (pending console_left example_env 0)"
    using find_next_exact [OF console.reliable_directories_axioms example_registry example_lookup example_at(1) example_frame(1)
      example_at(3,2)] by blast
  then show ?thesis unfolding example_pending by auto
qed

text \<open>
  C39: whatever the guest calls, and however the console fails, a call of the search ends, the registry stays in order, and the
  descriptors that are open without a search are the same as before; the one exception faults, saying so.
\<close>

theorem find_descriptors_kept:
  assumes "directory_services sce opened left" "registry_ok opened e"
  shows "\<exists>r f. isaac_vita_find_import sce name s e = Some (r, f) \<and> registry_ok opened f \<and>
    (strays opened f = strays opened e \<or> cleanup_failed r)"
proof -
  have "keeps opened (strays opened e) e" using assms(2) by (simp add: keeps_def)
  from directory_services.import_keeps [OF assms(1) this, of name s] show ?thesis
    unfolding does_def conserved_def keeps_def by blast
qed

theorem find_descriptors_kept_witness:
  "\<exists>r f. isaac_vita_find_import console_services ''KERNEL32.dll!FindClose'' example_call example_env = Some (r, f) \<and>
    registry_ok console_opened f \<and> (strays console_opened f = {} \<or> cleanup_failed r)"
proof -
  have "strays console_opened example_env = {}"
    using held_member [OF example_registry, of 0]
    by (auto simp: strays_def console_opened_def example_env_def split: if_split_asm)
  then show ?thesis
    using find_descriptors_kept [OF console.directory_services_axioms example_registry, of "''KERNEL32.dll!FindClose''" example_call]
    by simp
qed

text \<open>
  C40: a token that was closed is refused by \<open>FindNextFileW\<close> and \<open>FindClose\<close>, which answer with an error and change
  nothing, through any calls from any state of the machine in which fewer than 4095 searches begin.
\<close>

theorem closed_token_refused:
  assumes "generations_ok (find_handles e)" "call_frame s [r, token]"
    "vita_find_FindClose sce s e = Some (Returned () t, f)" "eax (cpu t) = 1" "find_run sce n f g" "n < 4095"
    "call_frame u [p, token, output]" "output \<noteq> 0" "fits output 592" "call_frame v [q, token]"
  shows "vita_find_FindNextFileW sce u g = Some (Returned () (returned_with u 12 (Some 6) 0), g) \<and>
    vita_find_FindClose sce v g = Some (Returned () (returned_with v 8 (Some 6) 0), g)"
  using FindNext_stale [OF closed_token_free [OF assms(1-6)] assms(7-9)]
    FindClose_stale [OF closed_token_free [OF assms(1-6)] assms(10)] by blast

lemma example_close: "\<exists>t f. vita_find_FindClose console_services example_call example_env = Some (Returned () t, f) \<and> eax (cpu t) = 1"
proof -
  have a: "vita_find_arg 0 example_call = Returned 0xF17D0010 example_call"
    using arg_frame [OF example_frame(2), of 0] by simp
  have room: "stack_ok (cpu example_call)" "unat (esp (cpu example_call)) + 4 + unat (4 :: u32) \<le> unat (stack_ceiling (cpu example_call))"
    using example_frame(2) by (simp_all add: call_frame_def)
  have d: "descriptor (find_handles example_env ! 0) = 1" by (simp add: example_env_def)
  have c: "sceIoDclose console_services 1 (world example_env) = (0, (world example_env)\<lparr>streams := (streams (world example_env))(1 := None)\<rparr>)"
    by (simp add: console_services_def example_env_def)
  show ?thesis
    unfolding vita_find_FindClose_def then_arg [OF a] on_state_def example_lookup option.case d
    by (simp add: then_call_def on_world_def on_registry_def c answer_frame [OF room] returned_with_def)
qed

theorem closed_token_refused_witness:
  "\<exists>f t. vita_find_FindClose console_services example_call example_env = Some (Returned () t, f) \<and>
    vita_find_FindNextFileW console_services example_call f = Some (Returned () (returned_with example_call 12 (Some 6) 0), f)"
proof -
  obtain t f where c: "vita_find_FindClose console_services example_call example_env = Some (Returned () t, f)" "eax (cpu t) = 1"
    using example_close by blast
  have "generations_ok (find_handles example_env)" using example_registry by (simp add: registry_ok_def)
  from closed_token_refused [OF this example_frame(2) c run_none _ example_frame(1) example_at(3,2) example_frame(2)]
  show ?thesis using c(1) by auto
qed

end
