(* ===== verification/Spec2Isabelle.thy ===== *)
theory Spec2Isabelle
  imports Prelude Guest_Flags Guest_Stack Manager_Sha256 Manager_Ftp Manager_Storage_Claims
    Png_Rows Png_Checksums Guest_Dispatch_Direct Guest_Setjmp Save_Checksum Guest_Image
    Vita_Find_Claims
begin

text \<open>
  \<^bold>\<open>A verification library for repentogxm\<close>

  repentogxm recompiles a 32-bit x86 program ahead of time into C (\<open>recomp/emit.py\<close>,
  \<open>recomp/gen_all.py\<close>) and runs the result on an ARM handheld over a runtime
  (\<open>recomp/runtime\<close>).  Beside the game stands a manager application (\<open>recomp/vita\<close>) that serves
  files over FTP and switches mods, backs up and restores saves.  The theories model the parts
  of both that carry logic of their own, each definition under the name it has in the source.

  \<^bold>\<open>The runtime of translated code\<close>

  \<^item> \<open>Guest_Flags\<close>: the lazy flags of \<open>guest.h\<close>.  The translator emits an operation and operands,
    the readers compute a flag when it is asked for; C1 and C2 compare the readers with the
    arithmetic the x86 flags are defined by, and say where they differ.
  \<^item> \<open>Guest_Mem\<close>, \<open>Guest_Cpu\<close>, \<open>Guest_Stack\<close>: guest memory as bytes by address, the CPU record, faults
    and the guarded top-level run as an outcome type, and the bounded guest stack in its three
    builds (\<open>guest_stack_*\<close>, \<open>gpush\<close>, \<open>gpop\<close>).  C3 to C8: no operation leaves the bounds, a
    checked range is exact, frames are returned as pushed, the builds agree, binding and
    initialisation are sound, a run closes its scope.
  \<^item> \<open>Host_Import_Id\<close>: the frozen table of imports and the binding of an identifier to the endpoint
    that executes it (\<open>host_vita_import_id.c\<close>).
  \<^item> \<open>Guest_Dispatch\<close>, \<open>Guest_Dispatch_Table\<close>, \<open>Guest_Dispatch_Direct\<close>: indirect calls, \<open>guest.c\<close>.
    An address is an import slot, a native token or a translated function; over that complete
    path lie a direct-mapped cache, a dense import table, an early test for GL tokens, and a
    two-level perfect hash table that is built, verified and emptied when any input changes.
    \<open>dispatch_reach\<close> is every state registration, image loading and calling lead to; C26 shows
    that none of the shortcuts ever changes a destination, C27 that the searches are exact and
    end, C28 that the sites that bypass \<open>guest_call\<close> run the same endpoint with the same local index.
  \<^item> \<open>Guest_Setjmp\<close>: \<open>_setjmp3\<close> and \<open>longjmp\<close> of the guest over native jumps, with the thread
    information block.  \<open>jump_step\<close> is what generated owners do with their records; C30: a jump
    lands only in a live frame, C31: with the state of the first return.
  \<^item> \<open>Guest_Pe\<close>, \<open>Guest_Pe_Hash\<close>, \<open>Guest_Pe_Map\<close>, \<open>Guest_Pe_Load\<close>, \<open>Guest_Pe_Platform\<close>: the loader of the
    one executable the program accepts (\<open>guest_pe.h\<close>): its digest, parsing with every offset
    checked, mapping with relocation, and the loading of a file through a table of operations.
    C32: the mapped image is the one the headers describe; C33: no failure of the table leaks or
    reuses a resource, and the buffer is read only while it is held; C34: on a working console (the locale \<open>reliable_loader\<close>, interpreted on
    the program's table over streams and memory blocks) the verdict is that of the file's bytes.
    The numbers and digests of the accepted file are the fields of a contract.
  \<^item> \<open>Guest_Image\<close>: publishing and freeing the loaded image, its static TLS and import slots, over
    the loader, the dispatcher and the thread information block.  C35: the image is there as a
    whole or not at all, and every load and free is a step of \<open>dispatch_reach\<close>.
  \<^item> \<open>Save_Checksum\<close>: the checksum of save files in place of the translated routine, with the shim
    that authenticates the call (C29).
  \<^item> \<open>Png_Rows\<close>, \<open>Png_Checksums\<close>: the native replacements of the PNG row filters, CRC-32 and
    Adler-32, their vector kernels lane by lane.  C22 to C25 compare them with the definitions of
    the standards for every length, alignment of blocks and seed.

  \<^bold>\<open>Directory search\<close>

  \<open>host_vita_find.c\<close> gives the guest \<open>FindFirstFileW\<close>, \<open>FindNextFileW\<close> and \<open>FindClose\<close> over the
  console's directories.

  \<^item> \<open>Vita_Find_Text\<close>: wildcard matching, proved equal to its recursive definition, and the two
    conversions between UTF-16 in guest memory and UTF-8, inverse to each other.
  \<^item> \<open>Vita_Find_Path\<close>: the policy that turns a pattern into a directory below the data root and a
    last name.  C36: what is accepted, and where it leads.
  \<^item> \<open>Vita_Find_Data\<close>: the record a search fills in.  C37: every field read back, the times counted day by
    day, the name decoded again.
  \<^item> \<open>Vita_Find\<close>: the registry of sixteen searches behind generation-tagged tokens, the reading of a
    directory and the three imports with their dispatch, over a record of services the console
    provides.  \<open>Vita_Find_Tokens\<close> and \<open>Vita_Find_Search\<close> hold what tokens and the guest's frame
    promise, \<open>Vita_Find_Kept\<close> the ownership of descriptors.  The contract of the services is the
    locale \<open>directory_services\<close>, under which any of them may fail; \<open>reliable_directories\<close> extends it.
  \<^item> \<open>Vita_Find_Claims\<close>: the contract interpreted on folders in memory, and the properties.  C38: the next match is returned and
    nothing else moves; C39: no failure loses or shares a descriptor, and every call ends; C40: a
    closed token stays refused until 4095 more searches have begun.
    \<open>straddling_pair_unanswered\<close> is a pattern the code neither answers nor refuses.

  \<^bold>\<open>The manager\<close>

  \<^item> \<open>Manager_Sha256\<close>: the streaming hash, however the message is cut: padding, chunking and
    the iteration over blocks are those of FIPS 180-4, over the block transform of the file itself (C9).
  \<^item> \<open>Manager_Ftp\<close>: path policy, command parser and worker life cycle (C10 to C12): what a path
    resolves to and what is rejected, stated without the code's own tests; round trips of commands;
    no descriptor lost or closed twice.
  \<^item> \<open>Manager_Storage\<close>: the save and mod storage as programs over a device table in a state
    monad.  \<open>Manager_Storage_Safe\<close> gives the device a contract (the locale \<open>storage_device\<close>) under
    which any operation may fail, and a weakest-precondition calculus for it;
    \<open>Manager_Storage_Listing\<close> has the sorts, the mod switch and the listings, which end and are
    complete on a device whose directory streams deliver their entries (the locale
    \<open>storage_listing\<close>).
    \<open>Manager_Storage_Vita\<close> is the console's device table over file services that are a parameter
    with documented laws (the locales \<open>sce_device\<close> and \<open>sce_directory\<close>, sublocales of the two contracts),
    interpreted on a memory card; \<open>Manager_Storage_Card\<close> runs whole operations on the card, and
    \<open>Manager_Storage_Claims\<close> states C13 to C21: at every moment of a restore each save is intact in
    one of three named files, success means the verified contents, recovery puts back what a
    failure or a power cut left.

  \<open>Prelude\<close> holds what the components share: types, words as numbers, windows of addresses,
  little-endian bytes.  \<open>Pieces\<close> has the cutting of a path at its separators, for the two path policies.

  \<^bold>\<open>Fuel and bounds\<close>

  No definition runs on fuel.  Loops are structural recursion, folds over an index range, or
  \<open>function\<close>s whose measure is the number of bytes, entries or candidates left.  The loops that
  the console may keep going for ever, reading a directory to its end, are \<open>partial_function\<close>s into an
  option: \<open>read_matching\<close> of the search and \<open>mods_loop\<close>, \<open>flat_loop\<close> and \<open>sync_loop\<close> of the listings.
  Under the contracts of the directories they return (\<open>read_matching_ends\<close>, \<open>list_mods_ends\<close>,
  \<open>list_save_backups_ends\<close>), and C20, C38 and C39 state that the calls do.  Words keep their
  width where the code can wrap; counters the code bounds are natural numbers.

  \<^bold>\<open>Not modelled\<close>

  Generated code and the translator itself, the vendored libraries (zlib, libdeflate,
  stb_vorbis, the musl formatter), the GL backend over vitaGL, Lua, the CRT, Win32 and heap
  shims, audio, input and frame pacing, the thread, file and asynchronous write
  adapters, the socket and user-interface loops of the manager, and
  the oracles, tests and profilers.  They are calls into the platform, large tables of shims, or
  test code.
\<close>

end
